(* ===== verification/Prelude.thy ===== *)
theory Prelude
  imports Main "HOL-Library.Word"
begin

text \<open>
  What the components of the development share: the names of the model's basic types, the
  theorem collections, Rust's machine arithmetic, hash maps with an explicit iteration order, and
  the list idioms (\<open>iter().position\<close>, \<open>iter_mut().find\<close>) that the sources use.
\<close>

section \<open>Names of the basic types\<close>

text \<open>
  A \<^verbatim>\<open>PeerId\<close> and a \<^verbatim>\<open>Uuid\<close> are opaque identifiers: the sources only compare them for equality
  and use them as keys. A \<^verbatim>\<open>SystemTime\<close>, an \<^verbatim>\<open>Instant\<close> and a \<^verbatim>\<open>Duration\<close> count nanoseconds; reading
  the clock is an argument of the operations that do it, and so is the identifier that
  \<^verbatim>\<open>Uuid::new_v4\<close> draws.
\<close>

type_synonym peer_id = nat
type_synonym uuid = nat
type_synonym system_time = nat
type_synonym instant = nat
type_synonym duration = nat

type_synonym u32 = "32 word"
type_synonym u64 = "64 word"

abbreviation from_millis :: "nat \<Rightarrow> duration" where
  "from_millis n \<equiv> n * 1000000"

abbreviation from_secs :: "nat \<Rightarrow> duration" where
  "from_secs n \<equiv> n * 1000000000"

named_theorems hash_simps \<open>hash maps and their iteration order\<close>
named_theorems word_simps \<open>machine arithmetic read through unat\<close>

section \<open>Machine arithmetic\<close>

text \<open>
  Plain \<open>+\<close>, \<open>-\<close> and \<open>*\<close> on Rust integers wrap in the release profile, which is what
  \<open>+\<close>, \<open>-\<close> and \<open>*\<close> on words do. The saturating forms are written out.
\<close>

definition saturating_add :: "'a::len word \<Rightarrow> 'a word \<Rightarrow> 'a word" where
  "saturating_add a b = (if a \<le> a + b then a + b else - 1)"

definition saturating_sub :: "'a::len word \<Rightarrow> 'a word \<Rightarrow> 'a word" where
  "saturating_sub a b = (if b \<le> a then a - b else 0)"

lemma unat_saturating_add [word_simps]:
  "unat (saturating_add a b) = min (unat a + unat b) (2 ^ LENGTH('a) - 1)"
  for a b :: "'a::len word"
  by (auto simp: saturating_add_def no_olen_add_nat unat_word_ariths unsigned_minus_1_eq_mask
      mask_eq_exp_minus_1 min_def)

lemma unat_saturating_sub [word_simps]:
  "unat (saturating_sub a b) = unat a - unat b"
  by (auto simp: saturating_sub_def unat_sub word_le_nat_alt)

lemma saturating_add_0 [simp]: "saturating_add a 0 = a"
  by (simp add: saturating_add_def)

lemma saturating_add_mono:
  "a \<le> b \<Longrightarrow> c \<le> d \<Longrightarrow> saturating_add a c \<le> saturating_add b d" for a b c d :: "'a::len word"
  by (simp add: word_le_nat_alt unat_saturating_add min_def)

lemma saturating_add_ge: "a \<le> saturating_add a b" for a b :: "'a::len word"
proof -
  have "unat a < 2 ^ LENGTH('a)" by (rule unsigned_less)
  then have "unat a \<le> 2 ^ LENGTH('a) - 1" by linarith
  then show ?thesis by (simp add: word_le_nat_alt unat_saturating_add)
qed

section \<open>Hash maps\<close>

text \<open>
  A \<^verbatim>\<open>HashMap\<close> is a partial function. Its iteration order is unspecified, so an operation that
  iterates takes the order as an argument: a list of the keys, each once.
\<close>

definition hash_order :: "'k list \<Rightarrow> ('k \<rightharpoonup> 'v) \<Rightarrow> bool" where
  "hash_order ks m \<longleftrightarrow> distinct ks \<and> set ks = dom m"

definition hash_values :: "'k list \<Rightarrow> ('k \<rightharpoonup> 'v) \<Rightarrow> 'v list" where
  "hash_values ks m = List.map_filter m ks"

definition hash_retain :: "('k \<Rightarrow> bool) \<Rightarrow> ('k \<rightharpoonup> 'v) \<Rightarrow> ('k \<rightharpoonup> 'v)" where
  "hash_retain P m = (\<lambda>k. if P k then m k else None)"

lemma hash_values_Nil [simp]: "hash_values [] m = []"
  by (simp add: hash_values_def)

lemma hash_values_Cons [simp]:
  "hash_values (k # ks) m = (case m k of None \<Rightarrow> hash_values ks m | Some v \<Rightarrow> v # hash_values ks m)"
  by (simp add: hash_values_def split: option.split)

lemma set_hash_values [hash_simps]:
  "set (hash_values ks m) = {v. \<exists>k\<in>set ks. m k = Some v}"
  by (induction ks) (auto split: option.splits)

lemma set_hash_values_order [hash_simps]:
  "hash_order ks m \<Longrightarrow> set (hash_values ks m) = ran m"
  by (auto simp: hash_order_def set_hash_values ran_def)

lemma hash_values_map:
  "hash_order ks m \<Longrightarrow> hash_values ks m = map (\<lambda>k. the (m k)) ks"
proof -
  have "set ks \<subseteq> dom m \<Longrightarrow> hash_values ks m = map (\<lambda>k. the (m k)) ks" for ks
    by (induction ks) auto
  then show "hash_order ks m \<Longrightarrow> ?thesis" by (simp add: hash_order_def)
qed

lemma hash_order_empty [simp]: "hash_order ks Map.empty \<longleftrightarrow> ks = []"
  by (auto simp: hash_order_def)

lemma hash_order_finite: "hash_order ks m \<Longrightarrow> finite (dom m)"
  by (metis hash_order_def finite_set)

lemma dom_hash_retain [hash_simps]: "dom (hash_retain P m) = {k \<in> dom m. P k}"
  by (auto simp: hash_retain_def split: if_splits)

lemma hash_retain_upd:
  "hash_retain P Map.empty = Map.empty"
  "hash_retain P (m(k \<mapsto> v)) = (if P k then (hash_retain P m)(k \<mapsto> v) else (hash_retain P m)(k := None))"
  by (auto simp: hash_retain_def fun_eq_iff)

lemma hash_retain_Some [hash_simps]: "hash_retain P m k = Some v \<longleftrightarrow> P k \<and> m k = Some v"
  by (simp add: hash_retain_def)

section \<open>List idioms\<close>

text \<open>\<^verbatim>\<open>iter().position(P)\<close> and \<^verbatim>\<open>iter_mut().find(P)\<close> followed by a mutation of what it found.\<close>

fun position :: "('a \<Rightarrow> bool) \<Rightarrow> 'a list \<Rightarrow> nat option" where
  "position P [] = None"
| "position P (x # xs) = (if P x then Some 0 else map_option Suc (position P xs))"

fun update_first :: "('a \<Rightarrow> bool) \<Rightarrow> ('a \<Rightarrow> 'a) \<Rightarrow> 'a list \<Rightarrow> 'a list" where
  "update_first P f [] = []"
| "update_first P f (x # xs) = (if P x then f x # xs else x # update_first P f xs)"

lemma position_None [simp]: "position P xs = None \<longleftrightarrow> (\<forall>x\<in>set xs. \<not> P x)"
  by (induction xs) auto

lemma position_SomeD:
  "position P xs = Some i \<Longrightarrow> i < length xs \<and> P (xs ! i) \<and> (\<forall>j<i. \<not> P (xs ! j))"
  by (induction xs arbitrary: i) (auto split: if_splits simp: less_Suc_eq_0_disj)

lemma length_update_first [simp]: "length (update_first P f xs) = length xs"
  by (induction xs) auto

lemma update_first_none: "\<forall>x\<in>set xs. \<not> P x \<Longrightarrow> update_first P f xs = xs"
  by (induction xs) auto

lemma find_SomeD: "List.find P xs = Some x \<Longrightarrow> x \<in> set xs \<and> P x"
  by (induction xs) (auto split: if_splits)

lemma update_first_split:
  assumes "List.find P xs = Some x"
  obtains ys zs where "xs = ys @ x # zs" and "P x" and "\<forall>y\<in>set ys. \<not> P y"
    and "update_first P f xs = ys @ f x # zs"
proof -
  have "\<exists>ys zs. xs = ys @ x # zs \<and> P x \<and> (\<forall>y\<in>set ys. \<not> P y) \<and> update_first P f xs = ys @ f x # zs"
    using assms
  proof (induction xs)
    case (Cons a xs)
    show ?case
    proof (cases "P a")
      case True
      with Cons.prems have "a # xs = [] @ x # xs \<and> P x \<and> (\<forall>y\<in>set []. \<not> P y)
        \<and> update_first P f (a # xs) = [] @ f x # xs" by simp
      then show ?thesis by blast
    next
      case False
      with Cons obtain ys zs where "xs = ys @ x # zs" "P x" "\<forall>y\<in>set ys. \<not> P y"
        "update_first P f xs = ys @ f x # zs" by auto
      with False have "a # xs = (a # ys) @ x # zs \<and> P x \<and> (\<forall>y\<in>set (a # ys). \<not> P y)
        \<and> update_first P f (a # xs) = (a # ys) @ f x # zs" by simp
      then show ?thesis by blast
    qed
  qed simp
  with that show ?thesis by blast
qed

end
