(* ===== verification/Leases.thy ===== *)
theory Leases
  imports Prelude
begin

text \<open>
  The \<^verbatim>\<open>hypha-leases\<close> crate (\<^verbatim>\<open>crates/leases/src/lib.rs\<close>): a ledger of leases with a wall-clock
  timeout. The map behind the lock is the state; the clock and the identifier that \<^verbatim>\<open>Uuid::new_v4\<close>
  draws are arguments. Each operation holds the lock throughout, so it is one step.
\<close>

section \<open>The ledger\<close>

datatype ledger_error = LeaseNotFound uuid

record 'a lease =
  lease_id :: uuid
  leasable :: 'a
  timeout :: system_time

type_synonym 'a ledger = "uuid \<rightharpoonup> 'a lease"

definition is_expired :: "system_time \<Rightarrow> 'a lease \<Rightarrow> bool" where
  "is_expired now l \<longleftrightarrow> timeout l \<le> now"

definition ledger_new :: "'a ledger" where
  "ledger_new = Map.empty"

definition ledger_insert ::
    "uuid \<Rightarrow> system_time \<Rightarrow> 'a \<Rightarrow> duration \<Rightarrow> 'a ledger \<Rightarrow> (ledger_error + 'a lease) \<times> 'a ledger" where
  "ledger_insert lid now x d L =
     (let l = \<lparr>lease_id = lid, leasable = x, timeout = now + d\<rparr> in (Inr l, L(lid \<mapsto> l)))"

definition ledger_get :: "uuid \<Rightarrow> 'a ledger \<Rightarrow> ledger_error + 'a lease" where
  "ledger_get lid L = (case L lid of None \<Rightarrow> Inl (LeaseNotFound lid) | Some l \<Rightarrow> Inr l)"

definition ledger_remove :: "uuid \<Rightarrow> 'a ledger \<Rightarrow> (ledger_error + 'a lease) \<times> 'a ledger" where
  "ledger_remove lid L =
     (case L lid of None \<Rightarrow> (Inl (LeaseNotFound lid), L) | Some l \<Rightarrow> (Inr l, L(lid := None)))"

definition ledger_renew ::
    "uuid \<Rightarrow> system_time \<Rightarrow> duration \<Rightarrow> 'a ledger \<Rightarrow> (ledger_error + 'a lease) \<times> 'a ledger" where
  "ledger_renew lid now d L =
     (case L lid of
        None \<Rightarrow> (Inl (LeaseNotFound lid), L)
      | Some l \<Rightarrow> let l' = l\<lparr>timeout := now + d\<rparr> in (Inr l', L(lid \<mapsto> l')))"

definition ledger_list :: "uuid list \<Rightarrow> 'a ledger \<Rightarrow> 'a lease list" where
  "ledger_list ks L = hash_values ks L"

definition ledger_list_expired :: "uuid list \<Rightarrow> system_time \<Rightarrow> 'a ledger \<Rightarrow> 'a lease list" where
  "ledger_list_expired ks now L = filter (\<lambda>l. timeout l \<le> now) (hash_values ks L)"

text \<open>The invariant of a ledger: every lease is filed under its own identifier.\<close>

definition ledger_ok :: "'a ledger \<Rightarrow> bool" where
  "ledger_ok L \<longleftrightarrow> (\<forall>lid l. L lid = Some l \<longrightarrow> lease_id l = lid)"

section \<open>The contract of a ledger\<close>

text \<open>
  What a client of the ledger relies on: the abstract content after each operation, the error of a
  missing lease, and the invariant. \<open>the_leases\<close> reads the content of the state.
\<close>

locale lease_ledger =
  fixes the_leases :: "'s \<Rightarrow> uuid \<rightharpoonup> 'a lease"
    and ins :: "uuid \<Rightarrow> system_time \<Rightarrow> 'a \<Rightarrow> duration \<Rightarrow> 's \<Rightarrow> (ledger_error + 'a lease) \<times> 's"
    and look :: "uuid \<Rightarrow> 's \<Rightarrow> ledger_error + 'a lease"
    and rem :: "uuid \<Rightarrow> 's \<Rightarrow> (ledger_error + 'a lease) \<times> 's"
    and ren :: "uuid \<Rightarrow> system_time \<Rightarrow> duration \<Rightarrow> 's \<Rightarrow> (ledger_error + 'a lease) \<times> 's"
    and ok :: "'s \<Rightarrow> bool"
  assumes ins_result: "ins lid now x d s = (res, s') \<Longrightarrow>
      res = Inr \<lparr>lease_id = lid, leasable = x, timeout = now + d\<rparr>
      \<and> the_leases s' = (the_leases s)(lid \<mapsto> \<lparr>lease_id = lid, leasable = x, timeout = now + d\<rparr>)"
    and look_result: "look lid s =
      (case the_leases s lid of None \<Rightarrow> Inl (LeaseNotFound lid) | Some l \<Rightarrow> Inr l)"
    and rem_result: "rem lid s = (res, s') \<Longrightarrow>
      res = look lid s \<and> the_leases s' = (the_leases s)(lid := None)"
    and ren_result: "ren lid now d s = (res, s') \<Longrightarrow>
      (case the_leases s lid of
         None \<Rightarrow> res = Inl (LeaseNotFound lid) \<and> the_leases s' = the_leases s
       | Some l \<Rightarrow> res = Inr (l\<lparr>timeout := now + d\<rparr>)
           \<and> the_leases s' = (the_leases s)(lid \<mapsto> l\<lparr>timeout := now + d\<rparr>))"
    and ok_ins: "ok s \<Longrightarrow> ins lid now x d s = (res, s') \<Longrightarrow> ok s'"
    and ok_rem: "ok s \<Longrightarrow> rem lid s = (res, s') \<Longrightarrow> ok s'"
    and ok_ren: "ok s \<Longrightarrow> ren lid now d s = (res, s') \<Longrightarrow> ok s'"
begin

lemma look_after_ins:
  assumes "ins lid now x d s = (res, s')"
  shows "look k s' = (if k = lid then res else look k s)"
  using ins_result [OF assms] by (simp add: look_result)

lemma look_after_rem:
  assumes "rem lid s = (res, s')"
  shows "look k s' = (if k = lid then Inl (LeaseNotFound lid) else look k s)"
  using rem_result [OF assms] by (auto simp: look_result)

text \<open>A lease that was drawn under a fresh identifier and is removed again leaves no trace.\<close>

lemma ins_rem_id:
  assumes "ins lid now x d s = (r1, s1)" and "rem lid s1 = (r2, s2)"
    and "look lid s = Inl (LeaseNotFound lid)"
  shows "r2 = r1 \<and> the_leases s2 = the_leases s"
proof -
  have "the_leases s lid = None" using assms(3) by (auto simp: look_result split: option.splits)
  then show ?thesis
    using ins_result [OF assms(1)] rem_result [OF assms(2)] look_after_ins [OF assms(1), of lid]
    by (auto simp: fun_upd_idem_iff)
qed

text \<open>A renewal changes the timeout of the one lease and nothing else of it.\<close>

lemma ren_look:
  assumes "ren lid now d s = (Inr l', s')"
  shows "\<exists>l. look lid s = Inr l \<and> l' = l\<lparr>timeout := now + d\<rparr> \<and> look lid s' = Inr l'
    \<and> (\<forall>k. k \<noteq> lid \<longrightarrow> look k s' = look k s)"
  using ren_result [OF assms] by (auto simp: look_result split: option.splits)

end

interpretation hl: lease_ledger "\<lambda>L. L" ledger_insert ledger_get ledger_remove ledger_renew ledger_ok
  by unfold_locales
    (auto simp: ledger_insert_def ledger_get_def ledger_remove_def ledger_renew_def ledger_ok_def
      Let_def split: option.splits if_splits)

section \<open>Enumeration\<close>

lemma set_ledger_list: "hash_order ks L \<Longrightarrow> set (ledger_list ks L) = ran L"
  by (simp add: ledger_list_def set_hash_values_order)

lemma set_ledger_list_expired:
  "hash_order ks L \<Longrightarrow> set (ledger_list_expired ks now L) = {l \<in> ran L. is_expired now l}"
  by (auto simp: ledger_list_expired_def set_hash_values_order is_expired_def)

lemma ledger_ok_ids:
  assumes "hash_order ks L" and "ledger_ok L"
  shows "map lease_id (hash_values ks L) = ks"
proof -
  have "map (\<lambda>k. lease_id (the (L k))) ks = map (\<lambda>k. k) ks"
    using assms by (intro map_cong) (auto simp: hash_order_def ledger_ok_def)
  then show ?thesis by (simp add: hash_values_map [OF assms(1)] comp_def)
qed

lemma distinct_expired:
  assumes "hash_order ks L" and "ledger_ok L"
  shows "distinct (map lease_id (ledger_list_expired ks now L))"
  using ledger_ok_ids [OF assms] assms(1)
  by (auto simp: ledger_list_expired_def hash_order_def intro: distinct_map_filter)

end
