(* ===== verification/Floats.thy ===== *)
theory Floats
  imports Complex_Main Prelude "HOL-Library.Log_Nat" "HOL-Library.Product_Lexorder"
begin

text \<open>
  Rust's \<^verbatim>\<open>f64\<close> and \<^verbatim>\<open>f32\<close>: IEEE 754 binary formats with rounding to nearest, ties to even. A
  finite value is kept as the rational it denotes; the negative zero, the infinities and a NaN are
  values of their own. An operation computes the exact rational result and rounds it once, so
  every sum, product and quotient of the sources is rounded where the hardware rounds it. The sign
  and payload of a NaN, which Rust leaves unspecified, are not modelled.
\<close>

named_theorems float_simps \<open>evaluation of the float operations\<close>

section \<open>Formats and values\<close>

record float_format =
  prec :: nat
  emin :: int
  emax :: int

definition F64 :: float_format where
  "F64 = \<lparr>prec = 53, emin = - 1074, emax = 1024\<rparr>"

definition F32 :: float_format where
  "F32 = \<lparr>prec = 24, emin = - 149, emax = 128\<rparr>"

datatype float = NaN | PInf | NInf | NegZero | Fin rat

fun fval :: "float \<Rightarrow> rat" where
  "fval (Fin q) = q"
| "fval _ = 0"

fun is_finite :: "float \<Rightarrow> bool" where
  "is_finite (Fin q) = True"
| "is_finite NegZero = True"
| "is_finite _ = False"

fun sign_neg :: "float \<Rightarrow> bool" where
  "sign_neg (Fin q) = (q < 0)"
| "sign_neg NegZero = True"
| "sign_neg NInf = True"
| "sign_neg _ = False"

section \<open>Rounding\<close>

definition floor_log2 :: "rat \<Rightarrow> int" where
  "floor_log2 q =
     (let (n, d) = quotient_of q; e = bitlen n - bitlen d
      in if 2 powi e \<le> q then e else e - 1)"

definition round_half_even :: "rat \<Rightarrow> int" where
  "round_half_even q =
     (let f = \<lfloor>q\<rfloor>; r = q - of_int f
      in if r < 1 / 2 then f else if r > 1 / 2 then f + 1 else if even f then f else f + 1)"

definition ulp_exp :: "float_format \<Rightarrow> rat \<Rightarrow> int" where
  "ulp_exp F q = max (floor_log2 \<bar>q\<bar> - (int (prec F) - 1)) (emin F)"

definition round_to :: "float_format \<Rightarrow> rat \<Rightarrow> rat" where
  "round_to F q =
     (if q = 0 then 0
      else let e = ulp_exp F q in of_int (round_half_even (q / 2 powi e)) * 2 powi e)"

definition finish :: "float_format \<Rightarrow> bool \<Rightarrow> rat \<Rightarrow> float" where
  "finish F neg q =
     (let r = round_to F q
      in if r = 0 then (if q < 0 \<or> (q = 0 \<and> neg) then NegZero else Fin 0)
         else if 2 powi (emax F) \<le> r then PInf
         else if r \<le> - (2 powi (emax F)) then NInf
         else Fin r)"

section \<open>Arithmetic\<close>

fun fneg :: "float \<Rightarrow> float" where
  "fneg NaN = NaN"
| "fneg PInf = NInf"
| "fneg NInf = PInf"
| "fneg NegZero = Fin 0"
| "fneg (Fin q) = (if q = 0 then NegZero else Fin (- q))"

fun fadd :: "float_format \<Rightarrow> float \<Rightarrow> float \<Rightarrow> float" where
  "fadd F NaN _ = NaN"
| "fadd F _ NaN = NaN"
| "fadd F PInf NInf = NaN"
| "fadd F NInf PInf = NaN"
| "fadd F PInf _ = PInf"
| "fadd F _ PInf = PInf"
| "fadd F NInf _ = NInf"
| "fadd F _ NInf = NInf"
| "fadd F NegZero NegZero = NegZero"
| "fadd F x y = finish F False (fval x + fval y)"

definition fsub :: "float_format \<Rightarrow> float \<Rightarrow> float \<Rightarrow> float" where
  "fsub F x y = fadd F x (fneg y)"

definition inf_of :: "bool \<Rightarrow> float" where
  "inf_of neg = (if neg then NInf else PInf)"

definition zero_of :: "bool \<Rightarrow> float" where
  "zero_of neg = (if neg then NegZero else Fin 0)"

definition fmul :: "float_format \<Rightarrow> float \<Rightarrow> float \<Rightarrow> float" where
  "fmul F x y =
     (let neg = (sign_neg x \<noteq> sign_neg y)
      in if x = NaN \<or> y = NaN then NaN
         else if is_finite x \<and> is_finite y then finish F neg (fval x * fval y)
         else if (is_finite x \<and> fval x = 0) \<or> (is_finite y \<and> fval y = 0) then NaN
         else inf_of neg)"

definition fdiv :: "float_format \<Rightarrow> float \<Rightarrow> float \<Rightarrow> float" where
  "fdiv F x y =
     (let neg = (sign_neg x \<noteq> sign_neg y)
      in if x = NaN \<or> y = NaN then NaN
         else if \<not> is_finite x then (if is_finite y then inf_of neg else NaN)
         else if \<not> is_finite y then zero_of neg
         else if fval y = 0 then (if fval x = 0 then NaN else inf_of neg)
         else finish F neg (fval x / fval y))"

text \<open>An integer cast to a float (\<^verbatim>\<open>n as f32\<close>) is rounded.\<close>

definition of_nat_float :: "float_format \<Rightarrow> nat \<Rightarrow> float" where
  "of_nat_float F n = finish F False (of_nat n)"

section \<open>Comparison\<close>

datatype ordering = Less | Equal | Greater

definition cmp :: "'a::linorder \<Rightarrow> 'a \<Rightarrow> ordering" where
  "cmp a b = (if a < b then Less else if a = b then Equal else Greater)"

fun order_key :: "float \<Rightarrow> nat \<times> rat" where
  "order_key NInf = (0, 0)"
| "order_key NegZero = (1, 0)"
| "order_key (Fin q) = (1, q)"
| "order_key PInf = (2, 0)"
| "order_key NaN = (3, 0)"

text \<open>\<^verbatim>\<open>f64::partial_cmp\<close>, and the operators \<^verbatim>\<open><\<close> and \<^verbatim>\<open>>\<close> on floats, which are false on a NaN.\<close>

definition partial_cmp :: "float \<Rightarrow> float \<Rightarrow> ordering option" where
  "partial_cmp x y =
     (if x = NaN \<or> y = NaN then None else Some (cmp (order_key x) (order_key y)))"

definition flt :: "float \<Rightarrow> float \<Rightarrow> bool" where
  "flt x y \<longleftrightarrow> partial_cmp x y = Some Less"

definition feq :: "float \<Rightarrow> float \<Rightarrow> bool" where
  "feq x y \<longleftrightarrow> partial_cmp x y = Some Equal"

definition fle :: "float \<Rightarrow> float \<Rightarrow> bool" where
  "fle x y \<longleftrightarrow> flt x y \<or> feq x y"

text \<open>\<^verbatim>\<open>f64::max\<close> returns the other operand when one is a NaN.\<close>

definition fmax :: "float \<Rightarrow> float \<Rightarrow> float" where
  "fmax x y = (if x = NaN then y else if y = NaN then x else if flt x y then y else x)"

text \<open>
  \<^verbatim>\<open>f64::total_cmp\<close> is the order of the type: it separates the two zeros and puts a (positive) NaN
  last.
\<close>

fun total_key :: "float \<Rightarrow> (nat \<times> rat) \<times> nat" where
  "total_key NegZero = (order_key NegZero, 0)"
| "total_key x = (order_key x, 1)"

lemma total_key_inject: "total_key x = total_key y \<longleftrightarrow> x = y"
  by (cases x; cases y) auto

instantiation float :: linorder
begin

definition less_eq_float :: "float \<Rightarrow> float \<Rightarrow> bool" where
  "less_eq_float x y \<longleftrightarrow> total_key x \<le> total_key y"

definition less_float :: "float \<Rightarrow> float \<Rightarrow> bool" where
  "less_float x y \<longleftrightarrow> total_key x < total_key y"

instance
  by standard
    (auto simp: less_eq_float_def less_float_def total_key_inject simp flip: total_key_inject)

end

section \<open>The rounding function\<close>

lemma quotient_of_pos:
  assumes "0 < q" and "quotient_of q = (n, d)"
  shows "0 < n" and "0 < d" and "q = of_int n / of_int d"
proof -
  show d: "0 < d" using assms(2) by (rule quotient_of_denom_pos)
  show q: "q = of_int n / of_int d" using assms(2) by (rule quotient_of_div)
  show "0 < n" using assms(1) d unfolding q by (simp add: zero_less_divide_iff)
qed

lemma bitlen_powi:
  assumes "0 < n"
  shows "2 powi (bitlen n - 1) \<le> (of_int n :: rat)" and "(of_int n :: rat) < 2 powi bitlen n"
proof -
  have b: "2 ^ nat (bitlen n - 1) \<le> n" "n < 2 ^ nat (bitlen n)" and p: "0 < bitlen n"
    using bitlen_bounds [OF assms] bitlen_eq_zero_iff [of n] bitlen_nonneg [of n] assms by auto
  have "(of_int (2 ^ nat (bitlen n - 1)) :: rat) \<le> of_int n" using b(1) by (simp only: of_int_le_iff)
  then show "2 powi (bitlen n - 1) \<le> (of_int n :: rat)" using p by (simp add: power_int_def)
  have "(of_int n :: rat) < of_int (2 ^ nat (bitlen n))" using b(2) by (simp only: of_int_less_iff)
  then show "(of_int n :: rat) < 2 powi bitlen n" using p by (simp add: power_int_def)
qed

lemma floor_log2_bounds:
  assumes "0 < q"
  shows "2 powi floor_log2 q \<le> q" and "q < 2 powi (floor_log2 q + 1)"
proof -
  obtain n d where nd: "quotient_of q = (n, d)" by force
  note pos = quotient_of_pos [OF assms nd]
  define e where "e = bitlen n - bitlen d"
  have "(of_int n :: rat) / of_int d < 2 powi bitlen n / 2 powi (bitlen d - 1)"
    by (rule frac_less) (use bitlen_powi [OF pos(1)] bitlen_powi [OF pos(2)] pos in auto)
  then have up: "q < 2 powi (e + 1)"
    by (simp add: pos(3) e_def algebra_simps flip: power_int_diff)
  have "2 powi (bitlen n - 1) / 2 powi bitlen d \<le> (of_int n :: rat) / of_int d"
    by (rule frac_le) (use bitlen_powi [OF pos(1)] bitlen_powi [OF pos(2)] pos in auto)
  then have lo: "2 powi (e - 1) \<le> q"
    by (simp add: pos(3) e_def algebra_simps flip: power_int_diff)
  have fl: "floor_log2 q = (if 2 powi e \<le> q then e else e - 1)"
    by (simp add: floor_log2_def nd e_def Let_def)
  show "2 powi floor_log2 q \<le> q" using lo by (simp add: fl)
  show "q < 2 powi (floor_log2 q + 1)" using up by (auto simp: fl)
qed

lemma powi_less_cancel: "(2 :: rat) powi a < 2 powi b \<Longrightarrow> a < b"
  by (metis leD linorder_not_le one_le_numeral power_int_increasing)

lemma floor_log2_unique:
  assumes "2 powi e \<le> q" and "q < 2 powi (e + 1)"
  shows "floor_log2 q = e"
proof -
  have "(0 :: rat) < 2 powi e" by simp
  with assms(1) have "0 < q" by linarith
  note b = floor_log2_bounds [OF this]
  have "2 powi floor_log2 q < (2 :: rat) powi (e + 1)" using b(1) assms(2) by linarith
  moreover have "2 powi e < (2 :: rat) powi (floor_log2 q + 1)" using b(2) assms(1) by linarith
  ultimately have "floor_log2 q < e + 1" and "e < floor_log2 q + 1" by (auto dest: powi_less_cancel)
  then show ?thesis by simp
qed

lemma floor_log2_mono:
  assumes "0 < a" and "a \<le> b"
  shows "floor_log2 a \<le> floor_log2 b"
proof -
  have "2 powi floor_log2 a < (2 :: rat) powi (floor_log2 b + 1)"
    using floor_log2_bounds [OF assms(1)] floor_log2_bounds [of b] assms by linarith
  then have "floor_log2 a < floor_log2 b + 1" by (rule powi_less_cancel)
  then show ?thesis by simp
qed

lemma floor_log2_less:
  assumes "0 < q" and "q < 2 powi e"
  shows "floor_log2 q < e"
  using floor_log2_bounds(1) [OF assms(1)] assms(2) by (intro powi_less_cancel) linarith

lemma round_half_even_int [simp]: "round_half_even (of_int k) = k"
  by (simp add: round_half_even_def)

lemma round_half_even_bounds: "\<lfloor>q\<rfloor> \<le> round_half_even q" "round_half_even q \<le> \<lfloor>q\<rfloor> + 1"
  by (auto simp: round_half_even_def Let_def)

lemma round_half_even_mono:
  assumes "a \<le> b"
  shows "round_half_even a \<le> round_half_even b"
proof (cases "\<lfloor>a\<rfloor> = \<lfloor>b\<rfloor>")
  case True
  with assms show ?thesis by (auto simp: round_half_even_def Let_def)
next
  case False
  with assms have "\<lfloor>a\<rfloor> + 1 \<le> \<lfloor>b\<rfloor>" using floor_mono by fastforce
  then show ?thesis using round_half_even_bounds [of a] round_half_even_bounds [of b] by linarith
qed

lemma round_to_0 [simp]: "round_to F 0 = 0"
  by (simp add: round_to_def)

lemma powi_int:
  assumes "0 \<le> j"
  obtains k :: int where "(2 :: rat) powi j = of_int k" and "0 < k"
proof
  show "(2 :: rat) powi j = of_int (2 ^ nat j)" using assms by (simp add: power_int_def)
qed simp

text \<open>A value that is an integer multiple of the unit in its last place is left as it is.\<close>

lemma round_to_multiple:
  assumes "ulp_exp F q \<le> g" and "q = of_int k * 2 powi g"
  shows "round_to F q = q"
proof (cases "q = 0")
  case False
  define e where "e = ulp_exp F q"
  obtain m :: int where m: "(2 :: rat) powi (g - e) = of_int m"
    using powi_int [of "g - e"] assms(1) by (auto simp: e_def)
  have "q / 2 powi e = of_int (k * m)"
    by (simp add: assms(2) flip: m) (simp add: power_int_diff)
  then have "round_half_even (q / 2 powi e) = k * m" by (metis round_half_even_int)
  then have "round_to F q = of_int (k * m) * 2 powi e"
    using False by (simp add: round_to_def e_def Let_def)
  also have "\<dots> = q" using \<open>q / 2 powi e = of_int (k * m)\<close> by (simp add: field_simps)
  finally show ?thesis .
qed simp

text \<open>
  The grid of scale \<open>g\<close> of a format: the multiples of \<open>2 powi g\<close> that fit its precision. Values on
  one grid are added and subtracted without rounding as long as the result stays on it.
\<close>

definition on_grid :: "float_format \<Rightarrow> int \<Rightarrow> rat \<Rightarrow> bool" where
  "on_grid F g q \<longleftrightarrow> q / 2 powi g \<in> \<int> \<and> \<bar>q\<bar> < 2 powi (g + int (prec F))"

definition grid_ok :: "float_format \<Rightarrow> int \<Rightarrow> bool" where
  "grid_ok F g \<longleftrightarrow> emin F \<le> g \<and> g + int (prec F) \<le> emax F"

lemma round_to_grid:
  assumes "grid_ok F g" and "on_grid F g q"
  shows "round_to F q = q"
proof (cases "q = 0")
  case False
  from assms(2) obtain k where k: "q / 2 powi g = of_int k" by (auto simp: on_grid_def elim: Ints_cases)
  have "floor_log2 \<bar>q\<bar> < g + int (prec F)"
    using False assms(2) by (intro floor_log2_less) (auto simp: on_grid_def)
  then have "ulp_exp F q \<le> g" using assms(1) by (auto simp: ulp_exp_def grid_ok_def)
  then show ?thesis using k by (intro round_to_multiple [of _ _ g k]) (simp_all add: field_simps)
qed simp

lemma finish_grid [float_simps]:
  assumes "grid_ok F g" and "on_grid F g q"
  shows "finish F False q = Fin q"
proof -
  have "\<bar>q\<bar> < 2 powi (g + int (prec F))" using assms(2) by (simp add: on_grid_def)
  also have "\<dots> \<le> 2 powi (emax F)" using assms(1)
    by (intro power_int_increasing) (auto simp: grid_ok_def)
  finally show ?thesis
    by (auto simp: finish_def round_to_grid [OF assms] Let_def abs_less_iff)
qed

lemma on_grid_le:
  assumes "on_grid F g b" and "x / 2 powi g \<in> \<int>" and "\<bar>x\<bar> \<le> \<bar>b\<bar>"
  shows "on_grid F g x"
  using assms by (auto simp: on_grid_def)

lemma round_to_nonneg: "0 \<le> q \<Longrightarrow> 0 \<le> round_to F q"
  using round_half_even_mono [of 0 "q / 2 powi ulp_exp F q"] round_half_even_int [of 0]
  by (auto simp: round_to_def Let_def)

lemma round_to_mono_pos:
  assumes "0 < a" and "a \<le> b" and "1 \<le> prec F"
  shows "round_to F a \<le> round_to F b"
proof -
  define ea eb where "ea = ulp_exp F a" and "eb = ulp_exp F b"
  have fl: "floor_log2 a \<le> floor_log2 b" using assms by (intro floor_log2_mono)
  have ra: "round_to F a = of_int (round_half_even (a / 2 powi ea)) * 2 powi ea"
    and rb: "round_to F b = of_int (round_half_even (b / 2 powi eb)) * 2 powi eb"
    using assms by (auto simp: round_to_def ea_def eb_def Let_def)
  show ?thesis
  proof (cases "ea = eb")
    case True
    then show ?thesis using assms
      by (auto simp: ra rb intro!: round_half_even_mono divide_right_mono)
  next
    case False
    with fl assms have lt: "ea < eb" and eb: "eb = floor_log2 b - (int (prec F) - 1)"
      by (auto simp: ea_def eb_def ulp_exp_def max_def split: if_splits)
    define M :: rat where "M = 2 powi floor_log2 b"
    have "floor_log2 a < floor_log2 b" using lt eb assms(1) by (auto simp: ea_def ulp_exp_def max_def split: if_splits)
    then have "2 powi (floor_log2 a + 1) \<le> M" unfolding M_def by (intro power_int_increasing) auto
    then have aM: "a \<le> M" using floor_log2_bounds(2) [OF assms(1)] by linarith
    have Mb: "M \<le> b" unfolding M_def using assms by (intro floor_log2_bounds(1)) linarith
    have snap: "\<exists>k::int. M / 2 powi e = of_int k" if "e \<le> eb" for e
      using powi_int [of "floor_log2 b - e"] that eb assms(3)
      by (metis M_def power_int_diff zero_neq_numeral diff_ge_0_iff_ge dual_order.trans
          of_nat_1 of_nat_le_iff le_add_same_cancel1 diff_add_cancel add.commute)
    obtain k1 where k1: "M / 2 powi ea = of_int k1" using snap [of ea] lt by auto
    obtain k2 where k2: "M / 2 powi eb = of_int k2" using snap [of eb] by auto
    have "round_half_even (a / 2 powi ea) \<le> k1"
      using round_half_even_mono [OF divide_right_mono [OF aM], of "2 powi ea"] by (simp add: k1)
    then have "round_to F a \<le> of_int k1 * 2 powi ea" by (simp add: ra)
    also have "\<dots> = M" using k1 by (simp add: field_simps)
    also have "\<dots> = of_int k2 * 2 powi eb" using k2 by (simp add: field_simps)
    also have "\<dots> \<le> round_to F b"
      using round_half_even_mono [OF divide_right_mono [OF Mb], of "2 powi eb"] by (simp add: rb k2)
    finally show ?thesis .
  qed
qed

lemma round_to_mono:
  assumes "0 \<le> a" and "a \<le> b" and "1 \<le> prec F"
  shows "round_to F a \<le> round_to F b"
  using assms round_to_mono_pos [of a b F] round_to_nonneg [of b F] by (cases "a = 0") auto

section \<open>Facts on finite values\<close>

lemma flt_iff: "flt x y \<longleftrightarrow> x \<noteq> NaN \<and> y \<noteq> NaN \<and> order_key x < order_key y"
  by (auto simp: flt_def partial_cmp_def cmp_def)

lemma fle_iff: "fle x y \<longleftrightarrow> x \<noteq> NaN \<and> y \<noteq> NaN \<and> order_key x \<le> order_key y"
  by (auto simp: fle_def flt_def feq_def partial_cmp_def cmp_def)

lemma fle_trans: "fle x y \<Longrightarrow> fle y z \<Longrightarrow> fle x z"
  by (auto simp: fle_iff)

lemma fle_finite [float_simps]:
  "is_finite x \<Longrightarrow> is_finite y \<Longrightarrow> fle x y \<longleftrightarrow> fval x \<le> fval y"
  by (cases x; cases y) (auto simp: fle_def flt_def feq_def partial_cmp_def cmp_def)

lemma flt_finite [float_simps]:
  "is_finite x \<Longrightarrow> is_finite y \<Longrightarrow> flt x y \<longleftrightarrow> fval x < fval y"
  by (cases x; cases y) (auto simp: flt_def partial_cmp_def cmp_def)

lemma partial_cmp_finite:
  "is_finite x \<Longrightarrow> is_finite y \<Longrightarrow> partial_cmp x y = Some (cmp (fval x) (fval y))"
  by (cases x; cases y) (auto simp: partial_cmp_def cmp_def)

lemma partial_cmp_None [simp]: "partial_cmp x y = None \<longleftrightarrow> x = NaN \<or> y = NaN"
  by (simp add: partial_cmp_def)

lemma fneg_finite [simp]: "is_finite (fneg x) = is_finite x"
  by (cases x) auto

lemma fval_fneg [simp]: "fval (fneg x) = - fval x"
  by (cases x) auto

lemma fadd_finite:
  assumes "is_finite x" and "is_finite y"
  shows "fadd F x y = (if x = NegZero \<and> y = NegZero then NegZero else finish F False (fval x + fval y))"
  using assms by (cases x; cases y) auto

lemma fadd_grid:
  assumes "grid_ok F g" and "is_finite x" and "is_finite y" and "on_grid F g (fval x + fval y)"
  shows "is_finite (fadd F x y)" and "fval (fadd F x y) = fval x + fval y"
  using assms by (auto simp: fadd_finite finish_grid)

lemma fsub_grid:
  assumes "grid_ok F g" and "is_finite x" and "is_finite y" and "on_grid F g (fval x - fval y)"
  shows "is_finite (fsub F x y)" and "fval (fsub F x y) = fval x - fval y"
  using assms fadd_grid [of F g x "fneg y"] by (auto simp: fsub_def)

text \<open>A quotient of non-negative values is monotone in its numerator, even after rounding.\<close>

lemma finish_mono:
  assumes "0 \<le> a" and "a \<le> b" and "1 \<le> prec F"
  shows "fle (finish F False a) (finish F False b)"
proof -
  have m: "round_to F a \<le> round_to F b" and n: "0 \<le> round_to F a"
    using assms by (auto intro: round_to_mono round_to_nonneg)
  have "(0 :: rat) < 2 powi emax F" by simp
  then have *: "\<not> round_to F a \<le> - (2 powi emax F)" "\<not> round_to F b \<le> - (2 powi emax F)"
    using m n by linarith+
  show ?thesis using m n assms *
    by (auto simp: finish_def Let_def fle_def flt_def feq_def partial_cmp_def cmp_def)
qed

lemma finish_nonneg: "0 \<le> a \<Longrightarrow> fle (Fin 0) (finish F False a)"
proof -
  assume "0 \<le> a"
  then have n: "0 \<le> round_to F a" by (rule round_to_nonneg)
  have "(0 :: rat) < 2 powi emax F" by simp
  with n have "\<not> round_to F a \<le> - (2 powi emax F)" by linarith
  with n \<open>0 \<le> a\<close> show ?thesis
    by (auto simp: finish_def Let_def fle_def flt_def feq_def partial_cmp_def cmp_def)
qed

section \<open>Evaluation on integers\<close>

lemma finish_int:
  assumes "\<bar>k\<bar> < 2 ^ prec F" and "emin F \<le> 0" and "int (prec F) \<le> emax F" and "k \<noteq> 0"
  shows "finish F neg (of_int k) = Fin (of_int k)"
proof -
  have "(of_int \<bar>k\<bar> :: rat) < of_int (2 ^ prec F)" using assms(1) by (simp only: of_int_less_iff)
  then have "finish F False (of_int k) = Fin (of_int k)"
    using assms by (intro finish_grid [of F 0]) (auto simp: grid_ok_def on_grid_def)
  then show ?thesis using assms(4) by (auto simp: finish_def Let_def split: if_splits)
qed

lemma finish_zero [float_simps]: "finish F neg 0 = (if neg then NegZero else Fin 0)"
  by (simp add: finish_def)

lemma finish_F64_numeral [float_simps]:
  "(numeral n :: int) < 2 ^ 53 \<Longrightarrow> finish F64 neg (numeral n) = Fin (numeral n)"
  "(numeral n :: int) < 2 ^ 53 \<Longrightarrow> finish F64 neg (- numeral n) = Fin (- numeral n)"
  "finish F64 neg 1 = Fin 1"
  "finish F64 neg (- 1) = Fin (- 1)"
  using finish_int [of "numeral n" F64 neg] finish_int [of "- numeral n" F64 neg]
    finish_int [of 1 F64 neg] finish_int [of "- 1" F64 neg] by (auto simp: F64_def)

lemma finish_F32_numeral [float_simps]:
  "(numeral n :: int) < 2 ^ 24 \<Longrightarrow> finish F32 neg (numeral n) = Fin (numeral n)"
  "finish F32 neg 1 = Fin 1"
  using finish_int [of "numeral n" F32 neg] finish_int [of 1 F32 neg] by (auto simp: F32_def)

text \<open>A 32-bit count as \<^verbatim>\<open>f32\<close>: finite, and at least one when it is positive.\<close>

lemma round_to_F32_nat:
  "round_to F32 1 = 1" "round_to F32 (2 ^ 32) = 2 ^ 32"
  by (rule round_to_grid [of _ 0], simp_all add: grid_ok_def on_grid_def F32_def)
    (rule round_to_grid [of _ 9], simp_all add: grid_ok_def on_grid_def F32_def power_int_def)

lemma of_nat_float_u32:
  fixes x :: u32
  defines "r \<equiv> round_to F32 (of_nat (unat x))"
  shows "of_nat_float F32 (unat x) = Fin r" and "0 \<le> r" and "0 < x \<Longrightarrow> 1 \<le> r"
proof -
  have F: "1 \<le> prec F32" by (simp add: F32_def)
  show "0 \<le> r" unfolding r_def by (rule round_to_nonneg) (rule of_nat_0_le_iff)
  have "unat x \<le> 2 ^ 32" using unsigned_less [of x, where ?'a = nat] by simp
  then have "(of_nat (unat x) :: rat) \<le> of_nat (2 ^ 32)" by (rule of_nat_mono)
  then have "r \<le> round_to F32 (of_nat (2 ^ 32))" unfolding r_def by (rule round_to_mono [OF of_nat_0_le_iff _ F])
  also have "\<dots> = 2 ^ 32" using round_to_F32_nat(2) by simp
  also have "\<dots> < 2 powi emax F32" by (simp add: F32_def power_int_def)
  finally show "of_nat_float F32 (unat x) = Fin r" using \<open>0 \<le> r\<close>
    by (auto simp: of_nat_float_def finish_def Let_def r_def simp del: of_nat_unat)
  show "1 \<le> r" if "0 < x"
  proof -
    have "1 \<le> unat x" using that by (simp add: word_less_nat_alt)
    from of_nat_mono [OF this] have "1 \<le> (of_nat (unat x) :: rat)" by (simp del: of_nat_unat)
    from round_to_mono [OF _ this F] show ?thesis by (simp add: r_def round_to_F32_nat)
  qed
qed

lemmas float_eval [float_simps] = fsub_def fmul_def fdiv_def inf_of_def zero_of_def Let_def

text \<open>The decimal literals of the sources that are not binary fractions.\<close>

lemma literal_tenth: "finish F64 False (1 / 10) = Fin (3602879701896397 / 36028797018963968)"
proof -
  have fl: "floor_log2 (1 / 10) = - 4"
    by (rule floor_log2_unique) (simp_all add: power_int_def power_divide)
  have f: "\<lfloor>36028797018963968 / 5 :: rat\<rfloor> = 7205759403792793" by (rule floor_unique) simp_all
  have "round_to F64 (1 / 10) = 3602879701896397 / 36028797018963968"
    by (simp add: round_to_def ulp_exp_def F64_def fl f round_half_even_def power_int_def
        power_divide Let_def)
  then show ?thesis by (simp add: finish_def F64_def power_int_def)
qed

lemma literal_hundredth: "finish F64 False (1 / 100) = Fin (5764607523034235 / 576460752303423488)"
proof -
  have fl: "floor_log2 (1 / 100) = - 7"
    by (rule floor_log2_unique) (simp_all add: power_int_def power_divide)
  have f: "\<lfloor>144115188075855872 / 25 :: rat\<rfloor> = 5764607523034234" by (rule floor_unique) simp_all
  have "round_to F64 (1 / 100) = 5764607523034235 / 576460752303423488"
    by (simp add: round_to_def ulp_exp_def F64_def fl f round_half_even_def power_int_def
        power_divide Let_def)
  then show ?thesis by (simp add: finish_def F64_def power_int_def)
qed

end
