(* ===== verification/Resources.thy ===== *)
theory Resources
  imports Floats
begin

text \<open>
  The \<^verbatim>\<open>hypha-resources\<close> crate (\<^verbatim>\<open>crates/resources/src/lib.rs\<close>): a vector of four quantities with
  componentwise arithmetic, the component order behind the operators \<^verbatim>\<open>>=\<close> and \<^verbatim>\<open>>\<close>, sums, and the
  weighted price per unit that ranks requests and offers.
\<close>

section \<open>The vector and its arithmetic\<close>

record resources =
  gpu :: float
  cpu :: float
  storage :: float
  memory :: float

definition resources_default :: resources where
  "resources_default = \<lparr>gpu = Fin 0, cpu = Fin 0, storage = Fin 0, memory = Fin 0\<rparr>"

definition with_cpu :: "float \<Rightarrow> resources \<Rightarrow> resources" where
  "with_cpu x r = r\<lparr>cpu := x\<rparr>"

definition with_memory :: "float \<Rightarrow> resources \<Rightarrow> resources" where
  "with_memory x r = r\<lparr>memory := x\<rparr>"

definition with_gpu :: "float \<Rightarrow> resources \<Rightarrow> resources" where
  "with_gpu x r = r\<lparr>gpu := x\<rparr>"

definition with_storage :: "float \<Rightarrow> resources \<Rightarrow> resources" where
  "with_storage x r = r\<lparr>storage := x\<rparr>"

definition res_sub :: "resources \<Rightarrow> resources \<Rightarrow> resources" where
  "res_sub a b = \<lparr>gpu = fsub F64 (gpu a) (gpu b), cpu = fsub F64 (cpu a) (cpu b),
     storage = fsub F64 (storage a) (storage b), memory = fsub F64 (memory a) (memory b)\<rparr>"

definition res_add :: "resources \<Rightarrow> resources \<Rightarrow> resources" where
  "res_add a b = \<lparr>gpu = fadd F64 (gpu a) (gpu b), cpu = fadd F64 (cpu a) (cpu b),
     storage = fadd F64 (storage a) (storage b), memory = fadd F64 (memory a) (memory b)\<rparr>"

definition res_eq :: "resources \<Rightarrow> resources \<Rightarrow> bool" where
  "res_eq a b \<longleftrightarrow> feq (cpu a) (cpu b) \<and> feq (memory a) (memory b) \<and> feq (gpu a) (gpu b)
     \<and> feq (storage a) (storage b)"

definition res_sum :: "resources list \<Rightarrow> resources" where
  "res_sum rs = foldl res_add resources_default rs"

section \<open>Comparison\<close>

text \<open>The \<^verbatim>\<open>try_fold\<close> of \<^verbatim>\<open>partial_cmp\<close>: it stops at an incomparable or a conflicting component.\<close>

fun cmp_fold :: "ordering \<Rightarrow> (float \<times> float) list \<Rightarrow> ordering option" where
  "cmp_fold acc [] = Some acc"
| "cmp_fold acc ((a, b) # ps) =
     (case partial_cmp a b of
        None \<Rightarrow> None
      | Some field \<Rightarrow>
          if acc = field then cmp_fold acc ps
          else if acc = Equal then cmp_fold field ps
          else if field = Equal then cmp_fold acc ps
          else None)"

definition res_partial_cmp :: "resources \<Rightarrow> resources \<Rightarrow> ordering option" where
  "res_partial_cmp a b =
     cmp_fold Equal [(cpu a, cpu b), (memory a, memory b), (gpu a, gpu b), (storage a, storage b)]"

definition res_ge :: "resources \<Rightarrow> resources \<Rightarrow> bool" where
  "res_ge a b \<longleftrightarrow> res_partial_cmp a b \<in> {Some Greater, Some Equal}"

definition res_gt :: "resources \<Rightarrow> resources \<Rightarrow> bool" where
  "res_gt a b \<longleftrightarrow> res_partial_cmp a b = Some Greater"

section \<open>The weighted evaluator\<close>

record evaluator =
  w_cpu :: float
  w_gpu :: float
  w_memory :: float
  w_storage :: float

definition weight_units :: "evaluator \<Rightarrow> resources \<Rightarrow> float" where
  "weight_units e r =
     fadd F64 (fadd F64 (fadd F64 (fmul F64 (w_gpu e) (gpu r)) (fmul F64 (w_cpu e) (cpu r)))
       (fmul F64 (w_memory e) (memory r))) (fmul F64 (w_storage e) (storage r))"

definition score :: "evaluator \<Rightarrow> float \<Rightarrow> resources \<Rightarrow> float" where
  "score e price r =
     (if flt (Fin 0) (weight_units e r) then fdiv F64 price (weight_units e r) else Fin 0)"

text \<open>
  The default weights. The last two are the \<^verbatim>\<open>f64\<close> values of the decimal literals \<^verbatim>\<open>0.1\<close> and \<^verbatim>\<open>0.01\<close>,
  as \<open>evaluator_default_literals\<close> checks.
\<close>

definition evaluator_default :: evaluator where
  "evaluator_default = \<lparr>w_cpu = Fin 1, w_gpu = Fin 25, w_memory = Fin (3602879701896397 / 36028797018963968),
     w_storage = Fin (5764607523034235 / 576460752303423488)\<rparr>"

lemma evaluator_default_literals:
  "finish F64 False (1 / 10) = w_memory evaluator_default"
  "finish F64 False (1 / 100) = w_storage evaluator_default"
  by (simp_all add: evaluator_default_def literal_tenth literal_hundredth)

section \<open>Components\<close>

text \<open>The four components as one function, so that a fact on all of them is stated once.\<close>

datatype component = Cpu | Memory | Gpu | Storage

fun rcomp :: "component \<Rightarrow> resources \<Rightarrow> float" where
  "rcomp Cpu r = cpu r"
| "rcomp Memory r = memory r"
| "rcomp Gpu r = gpu r"
| "rcomp Storage r = storage r"

lemma all_component: "(\<forall>c. P c) \<longleftrightarrow> P Cpu \<and> P Memory \<and> P Gpu \<and> P Storage"
  by (metis component.exhaust)

lemma ex_component: "(\<exists>c. P c) \<longleftrightarrow> P Cpu \<or> P Memory \<or> P Gpu \<or> P Storage"
  by (metis component.exhaust)

lemma comp_default [simp]: "rcomp c resources_default = Fin 0"
  by (cases c) (auto simp: resources_default_def)

lemma comp_add [simp]: "rcomp c (res_add a b) = fadd F64 (rcomp c a) (rcomp c b)"
  by (cases c) (auto simp: res_add_def)

lemma comp_sub [simp]: "rcomp c (res_sub a b) = fsub F64 (rcomp c a) (rcomp c b)"
  by (cases c) (auto simp: res_sub_def)

lemma resources_eqI: "(\<And>c. rcomp c a = rcomp c b) \<Longrightarrow> a = b"
  by (metis rcomp.simps resources.equality old.unit.exhaust)

section \<open>The order of the vectors\<close>

lemma cmp_swap: "cmp b a = (case cmp a b of Less \<Rightarrow> Greater | Equal \<Rightarrow> Equal | Greater \<Rightarrow> Less)"
  by (auto simp: cmp_def)

lemma flt_cmp: "flt b a \<longleftrightarrow> partial_cmp a b = Some Greater"
  by (auto simp: flt_def partial_cmp_def cmp_swap [of "order_key b" "order_key a"]
      split: ordering.splits)

lemma fle_cmp: "fle b a \<longleftrightarrow> partial_cmp a b = Some Greater \<or> partial_cmp a b = Some Equal"
  by (auto simp: fle_def feq_def flt_cmp partial_cmp_def cmp_swap [of "order_key b" "order_key a"]
      split: ordering.splits)

text \<open>What the fold computes, for any accumulator: the components agree with one direction.\<close>

lemma cmp_fold_Greater:
  "cmp_fold acc ps = Some Greater \<longleftrightarrow>
     acc \<noteq> Less \<and> (\<forall>(a, b)\<in>set ps. fle b a) \<and> (acc = Greater \<or> (\<exists>(a, b)\<in>set ps. flt b a))"
proof (induction ps arbitrary: acc)
  case (Cons p ps)
  obtain a b where p: "p = (a, b)" by force
  show ?case
  proof (cases "partial_cmp a b")
    case None
    then show ?thesis by (simp add: p fle_cmp del: partial_cmp_None)
  next
    case (Some f)
    then show ?thesis by (cases f; cases acc) (simp_all add: p fle_cmp flt_cmp Cons.IH)
  qed
qed auto

lemma cmp_fold_Equal:
  "cmp_fold acc ps = Some Equal \<longleftrightarrow> acc = Equal \<and> (\<forall>(a, b)\<in>set ps. feq a b)"
proof (induction ps arbitrary: acc)
  case (Cons p ps)
  obtain a b where p: "p = (a, b)" by force
  show ?case
  proof (cases "partial_cmp a b")
    case None
    then show ?thesis by (simp add: p feq_def del: partial_cmp_None)
  next
    case (Some f)
    then show ?thesis by (cases f; cases acc) (simp_all add: p feq_def Cons.IH)
  qed
qed auto

lemma res_gt_iff: "res_gt a b \<longleftrightarrow> (\<forall>c. fle (rcomp c b) (rcomp c a)) \<and> (\<exists>c. flt (rcomp c b) (rcomp c a))"
  by (auto simp: res_gt_def res_partial_cmp_def cmp_fold_Greater all_component ex_component
      simp del: cmp_fold.simps)

lemma res_eq_iff: "res_partial_cmp a b = Some Equal \<longleftrightarrow> (\<forall>c. feq (rcomp c a) (rcomp c b))"
  by (auto simp: res_partial_cmp_def cmp_fold_Equal all_component simp del: cmp_fold.simps)

lemma fle_not_flt: "fle b a \<Longrightarrow> \<not> flt b a \<Longrightarrow> feq a b"
  by (auto simp: fle_cmp flt_cmp feq_def)

lemma feq_fle: "feq a b \<Longrightarrow> fle b a"
  by (simp add: fle_cmp feq_def)

lemma res_ge_iff: "res_ge a b \<longleftrightarrow> (\<forall>c. fle (rcomp c b) (rcomp c a))"
proof -
  have "res_ge a b \<longleftrightarrow> res_gt a b \<or> (\<forall>c. feq (rcomp c a) (rcomp c b))"
    by (auto simp: res_ge_def res_gt_def res_eq_iff)
  then show ?thesis by (auto simp: res_gt_iff dest: fle_not_flt intro: feq_fle)
qed

lemma partial_cmp_swap:
  "partial_cmp b a = map_option (\<lambda>r. case r of Less \<Rightarrow> Greater | Equal \<Rightarrow> Equal | Greater \<Rightarrow> Less)
     (partial_cmp a b)"
  by (auto simp: partial_cmp_def cmp_swap [of "order_key b" "order_key a"])

lemma cmp_fold_swap:
  "cmp_fold (case acc of Less \<Rightarrow> Greater | Equal \<Rightarrow> Equal | Greater \<Rightarrow> Less) (map prod.swap ps) =
     map_option (\<lambda>r. case r of Less \<Rightarrow> Greater | Equal \<Rightarrow> Equal | Greater \<Rightarrow> Less) (cmp_fold acc ps)"
proof (induction ps arbitrary: acc)
  case (Cons p ps)
  obtain a b where p: "p = (a, b)" by force
  show ?case
  proof (cases "partial_cmp a b")
    case None
    then show ?thesis by (simp add: p partial_cmp_swap [of b a] del: partial_cmp_None)
  next
    case (Some f)
    then show ?thesis using Cons.IH [of Less] Cons.IH [of Equal] Cons.IH [of Greater]
      by (cases f; cases acc) (simp_all add: p partial_cmp_swap [of b a])
  qed
qed simp

lemma res_partial_cmp_swap:
  "res_partial_cmp b a = map_option (\<lambda>r. case r of Less \<Rightarrow> Greater | Equal \<Rightarrow> Equal | Greater \<Rightarrow> Less)
     (res_partial_cmp a b)"
  using cmp_fold_swap [of Equal "[(cpu a, cpu b), (memory a, memory b), (gpu a, gpu b),
      (storage a, storage b)]"]
  by (simp add: res_partial_cmp_def del: cmp_fold.simps)

lemma res_lt_iff: "res_partial_cmp a b = Some Less \<longleftrightarrow> res_gt b a"
proof (cases "res_partial_cmp a b")
  case (Some r)
  then show ?thesis by (cases r) (auto simp: res_gt_def res_partial_cmp_swap [of b a])
qed (simp add: res_gt_def res_partial_cmp_swap [of b a])

lemma res_ge_swap: "res_ge b a \<longleftrightarrow> res_partial_cmp a b \<in> {Some Less, Some Equal}"
proof (cases "res_partial_cmp a b")
  case (Some r)
  then show ?thesis by (cases r) (auto simp: res_ge_def res_partial_cmp_swap [of b a])
qed (simp add: res_ge_def res_partial_cmp_swap [of b a])

lemma none_iff: "r = None \<longleftrightarrow> r \<notin> {Some Greater, Some Equal} \<and> r \<notin> {Some Less, Some Equal}"
proof (cases r)
  case (Some x)
  then show ?thesis by (cases x) auto
qed auto

section \<open>Exact sums\<close>

text \<open>
  Where all quantities are multiples of one power of two and non-negative, and their exact total
  fits the precision, the rounded sum is the exact total, whatever the order of the summands.
\<close>

definition res_grid :: "int \<Rightarrow> resources \<Rightarrow> bool" where
  "res_grid g r \<longleftrightarrow> (\<forall>c. is_finite (rcomp c r) \<and> fval (rcomp c r) / 2 powi g \<in> \<int>)"

definition res_nonneg :: "resources \<Rightarrow> bool" where
  "res_nonneg r \<longleftrightarrow> (\<forall>c. 0 \<le> fval (rcomp c r))"

definition total :: "component \<Rightarrow> resources list \<Rightarrow> rat" where
  "total c rs = sum_list (map (\<lambda>r. fval (rcomp c r)) rs)"

lemma total_simps [simp]: "total c [] = 0" "total c (r # rs) = fval (rcomp c r) + total c rs"
  "total c (rs @ ss) = total c rs + total c ss"
  by (simp_all add: total_def)

lemma total_nonneg: "\<forall>r\<in>set rs. res_nonneg r \<Longrightarrow> 0 \<le> total c rs"
  by (induction rs) (auto simp: res_nonneg_def)

lemma total_grid: "\<forall>r\<in>set rs. res_grid g r \<Longrightarrow> total c rs / 2 powi g \<in> \<int>"
  by (induction rs) (auto simp: res_grid_def add_divide_distrib intro: Ints_add)

lemma res_sum_snoc: "res_sum (rs @ [r]) = res_add (res_sum rs) r"
  by (simp add: res_sum_def)

lemma res_sum_exact:
  assumes "grid_ok F64 g" and "\<forall>r\<in>set rs. res_grid g r \<and> res_nonneg r"
    and "on_grid F64 g (total c rs)"
  shows "is_finite (rcomp c (res_sum rs)) \<and> fval (rcomp c (res_sum rs)) = total c rs"
  using assms(2,3)
proof (induction rs rule: rev_induct)
  case Nil
  then show ?case by (simp add: res_sum_def)
next
  case (snoc r rs)
  have nn: "0 \<le> total c rs" "0 \<le> fval (rcomp c r)" and fin: "is_finite (rcomp c r)"
    using snoc.prems(1) by (auto intro: total_nonneg simp: res_nonneg_def res_grid_def)
  have "on_grid F64 g (total c rs)"
    using snoc.prems(2) by (rule on_grid_le) (use snoc.prems(1) nn in \<open>auto intro: total_grid\<close>)
  with snoc.IH snoc.prems(1) have IH: "is_finite (rcomp c (res_sum rs))"
    "fval (rcomp c (res_sum rs)) = total c rs" by auto
  show ?case using fadd_grid [OF assms(1) IH(1) fin] snoc.prems(2) IH(2)
    by (simp add: res_sum_snoc)
qed

section \<open>Properties\<close>

text \<open>
  The derived order of resource vectors is the component order: the comparison is \<open>Greater\<close>
  exactly when every component is at least the other's and one is larger, \<open>Equal\<close> when all are
  equal, \<open>Less\<close> symmetrically, and there is no answer exactly when a component is a NaN or two
  components disagree. In particular \<^verbatim>\<open>a >= b\<close> means that \<open>a\<close> covers \<open>b\<close> in every component.
\<close>

lemma res_partial_cmp_spec:
  "(res_partial_cmp a b = Some Greater \<longleftrightarrow>
      (\<forall>c. fle (rcomp c b) (rcomp c a)) \<and> (\<exists>c. flt (rcomp c b) (rcomp c a)))
   \<and> (res_partial_cmp a b = Some Equal \<longleftrightarrow> (\<forall>c. feq (rcomp c a) (rcomp c b)))
   \<and> (res_partial_cmp a b = Some Less \<longleftrightarrow>
      (\<forall>c. fle (rcomp c a) (rcomp c b)) \<and> (\<exists>c. flt (rcomp c a) (rcomp c b)))
   \<and> (res_partial_cmp a b = None \<longleftrightarrow>
      (\<exists>c. rcomp c a = NaN \<or> rcomp c b = NaN)
      \<or> (\<exists>c d. flt (rcomp c a) (rcomp c b) \<and> flt (rcomp d b) (rcomp d a)))
   \<and> (res_ge a b \<longleftrightarrow> (\<forall>c. fle (rcomp c b) (rcomp c a)))"
proof (intro conjI)
  show g: "res_partial_cmp a b = Some Greater \<longleftrightarrow>
      (\<forall>c. fle (rcomp c b) (rcomp c a)) \<and> (\<exists>c. flt (rcomp c b) (rcomp c a))"
    using res_gt_iff [of a b] by (simp add: res_gt_def)
  show e: "res_partial_cmp a b = Some Equal \<longleftrightarrow> (\<forall>c. feq (rcomp c a) (rcomp c b))"
    by (rule res_eq_iff)
  show l: "res_partial_cmp a b = Some Less \<longleftrightarrow>
      (\<forall>c. fle (rcomp c a) (rcomp c b)) \<and> (\<exists>c. flt (rcomp c a) (rcomp c b))"
    by (simp add: res_lt_iff res_gt_iff)
  have none: "res_partial_cmp a b = None \<longleftrightarrow> \<not> (\<forall>c. fle (rcomp c b) (rcomp c a))
      \<and> \<not> (\<forall>c. fle (rcomp c a) (rcomp c b))"
    unfolding res_ge_iff [symmetric] res_ge_def [of a b] res_ge_swap [of b a]
    by (rule none_iff)
  have total: "fle y x \<longleftrightarrow> x \<noteq> NaN \<and> y \<noteq> NaN \<and> \<not> flt x y" for x y
    by (auto simp: fle_cmp flt_def partial_cmp_def cmp_def)
  show "res_partial_cmp a b = None \<longleftrightarrow>
      (\<exists>c. rcomp c a = NaN \<or> rcomp c b = NaN)
      \<or> (\<exists>c d. flt (rcomp c a) (rcomp c b) \<and> flt (rcomp d b) (rcomp d a))"
    unfolding none by (auto simp: total)
  show "res_ge a b \<longleftrightarrow> (\<forall>c. fle (rcomp c b) (rcomp c a))" by (rule res_ge_iff)
qed

text \<open>
  The score of a request is monotone in its price: for the same resources a higher bid never
  gets a lower score, in spite of the rounding of the quotient; and resources of no positive
  weight score zero whatever the price.
\<close>

lemma score_mono_price:
  assumes "0 \<le> p" and "p \<le> q"
  shows "fle (score e (Fin p) r) (score e (Fin q) r)
    \<and> (\<not> flt (Fin 0) (weight_units e r) \<longrightarrow> score e (Fin q) r = Fin 0)"
proof (intro conjI impI)
  show "\<not> flt (Fin 0) (weight_units e r) \<Longrightarrow> score e (Fin q) r = Fin 0" by (simp add: score_def)
  show "fle (score e (Fin p) r) (score e (Fin q) r)"
  proof (cases "flt (Fin 0) (weight_units e r)")
    case True
    show ?thesis
    proof (cases "weight_units e r")
      case (Fin w)
      with True have "0 < w" by (simp add: flt_finite)
      with assms have "fle (finish F64 False (p / w)) (finish F64 False (q / w))"
        by (intro finish_mono) (auto simp: divide_right_mono F64_def)
      then show ?thesis using True Fin assms \<open>0 < w\<close>
        by (auto simp: score_def fdiv_def)
    qed (use True assms in \<open>auto simp: score_def fdiv_def zero_of_def fle_def flt_def feq_def
        partial_cmp_def cmp_def\<close>)
  qed (simp add: score_def fle_finite)
qed

text \<open>The witness: two bids for one unit of processor time, of which the larger ranks first.\<close>

definition one_cpu :: resources where
  "one_cpu = \<lparr>gpu = Fin 0, cpu = Fin 1, storage = Fin 0, memory = Fin 0\<rparr>"

lemma score_mono_price_witness:
  "flt (score evaluator_default (Fin 1) one_cpu) (score evaluator_default (Fin 3) one_cpu)
   \<and> fle (score evaluator_default (Fin 1) one_cpu) (score evaluator_default (Fin 3) one_cpu)"
proof
  show "flt (score evaluator_default (Fin 1) one_cpu) (score evaluator_default (Fin 3) one_cpu)"
    by (simp add: score_def weight_units_def evaluator_default_def one_cpu_def flt_finite float_simps)
  show "fle (score evaluator_default (Fin 1) one_cpu) (score evaluator_default (Fin 3) one_cpu)"
    using score_mono_price [of 1 3 evaluator_default one_cpu] by simp
qed

end
