(* ===== verification/Rounding.thy ===== *)
theory Rounding
  imports Resources
begin

text \<open>
  How far a rounded sum may be from the exact one. Every \<^verbatim>\<open>f64\<close> is a multiple of the smallest
  positive one, so a sum is rounded by at most the half of a unit in its last place, also where the
  values are subnormal: the relative error is at most \<open>2 powi - 53\<close>. A sum of \<open>n\<close> quantities that
  are not negative is short of the exact total by at most \<open>n\<close> times that, whatever the order.
\<close>

section \<open>The values of a format\<close>

text \<open>A finite value of the model that is a value of the type: rounding leaves it as it is.\<close>

definition is_f64 :: "float \<Rightarrow> bool" where
  "is_f64 x \<longleftrightarrow> round_to F64 (fval x) = fval x \<and> \<bar>fval x\<bar> < 2 powi emax F64"

definition multiple :: "float_format \<Rightarrow> rat \<Rightarrow> bool" where
  "multiple F q \<longleftrightarrow> q / 2 powi emin F \<in> \<int>"

lemma multiple_0 [simp]: "multiple F 0"
  by (simp add: multiple_def)

lemma multiple_add: "multiple F a \<Longrightarrow> multiple F b \<Longrightarrow> multiple F (a + b)"
  by (simp add: multiple_def add_divide_distrib)

lemma multiple_diff: "multiple F a \<Longrightarrow> multiple F b \<Longrightarrow> multiple F (a - b)"
  by (simp add: multiple_def diff_divide_distrib)

lemma multiple_round: "multiple F (round_to F q)"
proof (cases "q = 0")
  case False
  define e where "e = ulp_exp F q"
  have "0 \<le> e - emin F" by (simp add: e_def ulp_exp_def)
  then obtain k :: int where k: "(2 :: rat) powi (e - emin F) = of_int k" by (rule powi_int)
  have "round_to F q / 2 powi emin F = of_int (round_half_even (q / 2 powi e) * k)"
    using False by (simp add: round_to_def Let_def e_def [symmetric] power_int_diff flip: k)
  then show ?thesis unfolding multiple_def by (metis Ints_of_int)
qed simp

lemma is_f64_multiple: "is_f64 x \<Longrightarrow> multiple F64 (fval x)"
  using multiple_round [of F64 "fval x"] by (simp add: is_f64_def)

section \<open>The error of one rounding\<close>

lemma round_half_even_error: "\<bar>of_int (round_half_even q) - q\<bar> \<le> 1 / 2"
proof -
  define f where "f = \<lfloor>q\<rfloor>"
  have "of_int f \<le> q" "q < of_int f + 1" unfolding f_def by linarith+
  then show ?thesis by (auto simp: round_half_even_def Let_def f_def [symmetric])
qed

lemma round_to_error:
  assumes "multiple F q" and "0 < q"
  shows "\<bar>round_to F q - q\<bar> \<le> q * 2 powi - int (prec F)"
proof -
  define e where "e = ulp_exp F q"
  show ?thesis
  proof (cases "e = emin F")
    case True
    from assms(1) obtain k where "q / 2 powi emin F = of_int k" by (auto simp: multiple_def elim: Ints_cases)
    then have "q = of_int k * 2 powi emin F" by (simp add: field_simps)
    then have "round_to F q = q" using True by (intro round_to_multiple [of _ _ "emin F" k]) (auto simp: e_def)
    then show ?thesis using assms(2) by simp
  next
    case False
    then have e: "e = floor_log2 q - (int (prec F) - 1)"
      using assms(2) by (auto simp: e_def ulp_exp_def max_def split: if_splits)
    define z where "z = q / 2 powi e"
    have q: "q = z * 2 powi e" by (simp add: z_def)
    have "\<bar>round_to F q - q\<bar> = \<bar>of_int (round_half_even z) - z\<bar> * 2 powi e"
      using assms(2) by (simp add: round_to_def Let_def e_def [symmetric] z_def [symmetric])
        (simp add: q abs_mult flip: left_diff_distrib)
    also have "\<dots> \<le> 1 / 2 * 2 powi e" by (intro mult_right_mono round_half_even_error) simp
    also have "\<dots> = 2 powi floor_log2 q * 2 powi - int (prec F)"
      by (simp add: e power_int_diff power_int_minus power_int_add field_simps)
    also have "\<dots> \<le> q * 2 powi - int (prec F)"
      using floor_log2_bounds(1) [OF assms(2)] by (intro mult_right_mono) auto
    finally show ?thesis .
  qed
qed

definition unit_roundoff :: rat where
  "unit_roundoff = 1 / 2 ^ 53"

lemma unit_roundoff_bounds [simp]: "0 < unit_roundoff" "0 \<le> unit_roundoff" "unit_roundoff \<le> 1"
  by (simp_all add: unit_roundoff_def)

lemma round_F64_error:
  assumes "multiple F64 q" and "0 \<le> q"
  shows "q * (1 - unit_roundoff) \<le> round_to F64 q" and "round_to F64 q \<le> q * (1 + unit_roundoff)"
proof -
  have "\<bar>round_to F64 q - q\<bar> \<le> q * unit_roundoff"
    using round_to_error [OF assms(1)] assms(2)
    by (cases "q = 0") (auto simp: F64_def power_int_minus_divide unit_roundoff_def)
  then show "q * (1 - unit_roundoff) \<le> round_to F64 q" "round_to F64 q \<le> q * (1 + unit_roundoff)"
    unfolding right_diff_distrib distrib_left mult_1_right by linarith+
qed

text \<open>A result below zero stays there.\<close>

lemma round_to_nonpos: "q \<le> 0 \<Longrightarrow> round_to F q \<le> 0"
  using round_half_even_mono [of "q / 2 powi ulp_exp F q" 0] round_half_even_int [of 0]
  by (auto simp: round_to_def Let_def mult_nonpos_nonneg divide_nonpos_nonneg)

lemma finish_value:
  assumes "\<bar>round_to F q\<bar> < 2 powi emax F"
  shows "is_finite (finish F b q)" and "fval (finish F b q) = round_to F q"
  using assms by (auto simp: finish_def Let_def)

section \<open>Sums\<close>

text \<open>A vector of quantities none of which is below zero; a NaN is not.\<close>

definition plain :: "resources \<Rightarrow> bool" where
  "plain r \<longleftrightarrow> (\<forall>c. is_f64 (rcomp c r) \<and> \<not> flt (rcomp c r) (Fin 0))"

definition finite_plain :: "resources \<Rightarrow> bool" where
  "finite_plain r \<longleftrightarrow> plain r \<and> (\<forall>c. is_finite (rcomp c r))"

lemma finite_plainD:
  assumes "finite_plain r"
  shows "is_finite (rcomp c r)" and "0 \<le> fval (rcomp c r)" and "multiple F64 (fval (rcomp c r))"
    and "is_f64 (rcomp c r)"
  using assms flt_finite [of "rcomp c r" "Fin 0"]
  by (auto simp: finite_plain_def plain_def intro: is_f64_multiple)

lemma finite_plain_total: "\<forall>r\<in>set rs. finite_plain r \<Longrightarrow> 0 \<le> total c rs"
  by (rule total_nonneg) (simp add: res_nonneg_def finite_plainD)

text \<open>
  Adding a quantity to a partial sum: the result is infinite, or it is a value of the type and
  short by at most one unit of roundoff.
\<close>

lemma fadd_plain:
  assumes x: "is_finite x" "0 \<le> fval x" "multiple F64 (fval x)"
    and y: "is_finite y" "0 \<le> fval y" "multiple F64 (fval y)"
  shows "fadd F64 x y = PInf
    \<or> (is_finite (fadd F64 x y) \<and> multiple F64 (fval (fadd F64 x y))
       \<and> (fval x + fval y) * (1 - unit_roundoff) \<le> fval (fadd F64 x y))"
proof (cases "x = NegZero \<and> y = NegZero")
  case False
  define q where "q = fval x + fval y"
  have q: "multiple F64 q" "0 \<le> q" using x y by (auto simp: q_def intro: multiple_add)
  have add: "fadd F64 x y = finish F64 False q" using False x y by (auto simp: fadd_finite q_def)
  have nn: "0 \<le> round_to F64 q" using q(2) by (rule round_to_nonneg)
  show ?thesis
  proof (cases "round_to F64 q < 2 powi emax F64")
    case True
    with nn have "\<bar>round_to F64 q\<bar> < 2 powi emax F64" by simp
    from finish_value [OF this] show ?thesis
      using round_F64_error(1) [OF q] by (simp add: add multiple_round flip: q_def)
  next
    case big: False
    moreover have "(0 :: rat) < 2 powi emax F64" by simp
    ultimately have "round_to F64 q \<noteq> 0" by linarith
    with big show ?thesis by (simp add: add finish_def Let_def)
  qed
qed simp

lemma res_sum_error:
  assumes "\<forall>r\<in>set rs. finite_plain r"
  shows "rcomp c (res_sum rs) = PInf
    \<or> (is_finite (rcomp c (res_sum rs)) \<and> multiple F64 (fval (rcomp c (res_sum rs)))
       \<and> total c rs * (1 - unit_roundoff) ^ length rs \<le> fval (rcomp c (res_sum rs)))"
  using assms
proof (induction rs rule: rev_induct)
  case Nil
  then show ?case by (simp add: res_sum_def)
next
  case (snoc r rs)
  define u where "u = (1 - unit_roundoff) ^ length rs"
  have u: "0 \<le> u" "u \<le> 1" by (auto simp: u_def intro!: power_le_one)
  note r = finite_plainD [of r c] and t = finite_plain_total [of rs c]
  consider "rcomp c (res_sum rs) = PInf"
    | (fin) "is_finite (rcomp c (res_sum rs))" "multiple F64 (fval (rcomp c (res_sum rs)))"
        "total c rs * u \<le> fval (rcomp c (res_sum rs))"
    using snoc unfolding u_def by auto
  then show ?case
  proof cases
    case 1
    then show ?thesis using r(1) snoc.prems by (cases "rcomp c r") (auto simp: res_sum_snoc)
  next
    case fin
    define x where "x = fval (rcomp c (res_sum rs))"
    have x: "0 \<le> x" using fin(3) t snoc.prems u by (simp add: x_def) (metis mult_nonneg_nonneg order_trans)
    have "fval (rcomp c r) * u \<le> fval (rcomp c r)"
      using r(2) snoc.prems u by (simp add: mult_left_le)
    then have "(total c rs + fval (rcomp c r)) * u \<le> x + fval (rcomp c r)"
      using fin(3) by (simp add: x_def distrib_right)
    then have le: "(total c rs + fval (rcomp c r)) * (u * (1 - unit_roundoff))
        \<le> (x + fval (rcomp c r)) * (1 - unit_roundoff)"
      using mult_right_mono [of "(total c rs + fval (rcomp c r)) * u" "x + fval (rcomp c r)"
          "1 - unit_roundoff"] by (simp only: mult.assoc) simp
    show ?thesis using fadd_plain [OF fin(1) x [unfolded x_def] fin(2) r(1,2,3)] snoc.prems le
      by (auto simp: res_sum_snoc u_def x_def ac_simps intro: order_trans)
  qed
qed

text \<open>The powers of the relative error, linearly.\<close>

lemma Bernoulli_roundoff: "1 - of_nat n * unit_roundoff \<le> (1 - unit_roundoff) ^ n"
proof (induction n)
  case (Suc n)
  have "unit_roundoff * (1 - unit_roundoff) ^ n \<le> unit_roundoff"
    by (intro mult_left_le power_le_one) auto
  moreover have "(1 - unit_roundoff) ^ Suc n = (1 - unit_roundoff) ^ n - unit_roundoff * (1 - unit_roundoff) ^ n"
    and "of_nat (Suc n) * unit_roundoff = unit_roundoff + of_nat n * unit_roundoff"
    by (simp_all add: algebra_simps)
  ultimately show ?case using Suc by linarith
qed simp

lemma res_sum_short:
  assumes "\<forall>r\<in>set rs. finite_plain r"
  shows "rcomp c (res_sum rs) = PInf
    \<or> (is_finite (rcomp c (res_sum rs)) \<and> multiple F64 (fval (rcomp c (res_sum rs)))
       \<and> total c rs * (1 - of_nat (length rs) * unit_roundoff) \<le> fval (rcomp c (res_sum rs)))"
  using res_sum_error [OF assms] mult_left_mono [OF Bernoulli_roundoff finite_plain_total [OF assms]]
  by (meson order_trans)

section \<open>What is left of a quantity\<close>

text \<open>
  Subtracting a sum from a finite quantity: what the result admits is at most the exact difference
  and one roundoff, and nothing but zero where the sum is the larger one.
\<close>

lemma fsub_admits:
  assumes cap: "is_finite x" "0 \<le> fval x" "is_f64 x"
    and s: "s = PInf \<or> (is_finite s \<and> multiple F64 (fval s) \<and> 0 \<le> fval s)"
    and y: "\<not> flt y (Fin 0)" "fle y (fsub F64 x s)"
  shows "is_finite y \<and> is_finite s \<and>
    (if fval s \<le> fval x then fval y \<le> (fval x - fval s) * (1 + unit_roundoff) else fval y = 0)"
proof (cases "s = PInf")
  case True
  then have "fsub F64 x s = NInf" using cap(1) by (cases x) (auto simp: fsub_def)
  with y show ?thesis by (cases y) (auto simp: fle_iff flt_iff)
next
  case False
  with s have s: "is_finite s" "multiple F64 (fval s)" "0 \<le> fval s" by auto
  define q where "q = fval x - fval s"
  have q: "multiple F64 q" using s cap by (auto simp: q_def intro: multiple_diff is_f64_multiple)
  define d where "d = fsub F64 x s"
  have yd: "is_finite y \<and> fval y \<le> fval d" if "is_finite d"
    using y that unfolding d_def [symmetric] by (cases y; cases d) (auto simp: fle_iff flt_iff)
  have y0: "0 \<le> fval y" if "is_finite y" using y(1) that by (simp add: flt_finite)
  have d: "d = (if x = NegZero \<and> fneg s = NegZero then NegZero else finish F64 False q)"
    using cap(1) s(1) by (simp add: d_def fsub_def fadd_finite q_def)
  show ?thesis
  proof (cases "0 \<le> q")
    case True
    have lim: "round_to F64 q \<le> fval x"
      using round_to_mono [of q "fval x" F64] True s(3) cap(3) by (simp add: q_def F64_def is_f64_def)
    have fin: "is_finite d \<and> (fval d = 0 \<or> fval d = round_to F64 q)"
      using finish_value [of F64 q False] lim cap(3) round_to_nonneg [OF True, of F64]
      by (simp add: d is_f64_def)
    then have "fval d \<le> q * (1 + unit_roundoff)"
      using round_F64_error(2) [OF q True] True by auto
    with yd fin s(1) True show ?thesis by (auto simp: q_def)
  next
    case neg: False
    then have le: "round_to F64 q \<le> 0" by (intro round_to_nonpos) simp
    have "x \<noteq> NegZero \<or> fneg s \<noteq> NegZero" using neg s(3) by (cases s) (auto simp: q_def)
    then have d: "d = finish F64 False q" using d by auto
    show ?thesis
    proof (cases "is_finite d")
      case True
      have "fval d \<le> 0" using True le by (auto simp: d finish_def Let_def split: if_splits)
      with yd [OF True] y0 s(1) neg show ?thesis by (auto simp: q_def)
    next
      case False
      have "(0 :: rat) < 2 powi emax F64" by simp
      with le have "\<not> 2 powi emax F64 \<le> round_to F64 q" by linarith
      with False have "d = NInf" by (auto simp: d finish_def Let_def split: if_splits)
      with y show ?thesis unfolding d_def [symmetric] by (cases y) (auto simp: fle_iff flt_iff)
    qed
  qed
qed

end
