(* ===== verification/Resource_Manager.thy ===== *)
theory Resource_Manager
  imports Rounding
begin

text \<open>
  The worker's \<^verbatim>\<open>StaticResourceManager\<close> (\<^verbatim>\<open>crates/worker/src/resources.rs\<close>): a fixed capacity and a
  map of reservations. \<^verbatim>\<open>reserve\<close> checks the free capacity under the read lock, releases it, and
  checks again under the write lock; the state it saw first is an argument of its own here, so that
  every interleaving with other reservations and releases is covered.
\<close>

section \<open>The manager\<close>

datatype manager_error = InsufficientResources | UnknownReservation

record manager =
  compute :: resources
  reservations :: "uuid \<rightharpoonup> resources"

definition manager_new :: "resources \<Rightarrow> manager" where
  "manager_new r = \<lparr>compute = r, reservations = Map.empty\<rparr>"

definition compute_resources :: "uuid list \<Rightarrow> manager \<Rightarrow> resources" where
  "compute_resources ks m = res_sub (compute m) (res_sum (hash_values ks (reservations m)))"

definition reserve ::
    "uuid list \<Rightarrow> manager \<Rightarrow> uuid list \<Rightarrow> uuid \<Rightarrow> resources \<Rightarrow> manager
      \<Rightarrow> (manager_error + uuid) \<times> manager" where
  "reserve ks0 m0 ks rid req m =
     (if res_ge (compute_resources ks0 m0) req
      then if res_ge (compute_resources ks m) req
           then (Inr rid, m\<lparr>reservations := (reservations m)(rid \<mapsto> req)\<rparr>)
           else (Inl InsufficientResources, m)
      else (Inl InsufficientResources, m))"

definition release :: "uuid \<Rightarrow> manager \<Rightarrow> (manager_error + resources) \<times> manager" where
  "release rid m =
     (case reservations m rid of
        None \<Rightarrow> (Inl UnknownReservation, m)
      | Some r \<Rightarrow> (Inr r, m\<lparr>reservations := (reservations m)(rid := None)\<rparr>))"

section \<open>The capacity invariant\<close>

definition reserved :: "component \<Rightarrow> manager \<Rightarrow> rat" where
  "reserved c m = (\<Sum>k\<in>dom (reservations m). fval (rcomp c (the (reservations m k))))"

text \<open>
  A request the accounting is exact for: finite, a multiple of the grid's unit, not negative.
  \<open>manager_ok\<close> says that all reservations are of this kind and that together they fit.
\<close>

definition request_ok :: "int \<Rightarrow> resources \<Rightarrow> bool" where
  "request_ok g r \<longleftrightarrow> res_grid g r \<and> res_nonneg r"

definition manager_ok :: "int \<Rightarrow> manager \<Rightarrow> bool" where
  "manager_ok g m \<longleftrightarrow> finite (dom (reservations m)) \<and> grid_ok F64 g
     \<and> (\<forall>c. is_finite (rcomp c (compute m)) \<and> on_grid F64 g (fval (rcomp c (compute m))))
     \<and> (\<forall>r\<in>ran (reservations m). request_ok g r)
     \<and> (\<forall>c. reserved c m \<le> fval (rcomp c (compute m)))"

lemma total_reserved:
  "hash_order ks (reservations m) \<Longrightarrow> total c (hash_values ks (reservations m)) = reserved c m"
  by (simp add: total_def reserved_def hash_values_map hash_order_def comp_def
      sum_list_distinct_conv_sum_set)

lemma reserved_nonneg: "\<forall>r\<in>ran (reservations m). res_nonneg r \<Longrightarrow> 0 \<le> reserved c m"
  unfolding reserved_def by (intro sum_nonneg) (auto simp: res_nonneg_def ran_def)

lemma reserved_insert:
  assumes "finite (dom (reservations m))" and "rid \<notin> dom (reservations m)"
  shows "reserved c (m\<lparr>reservations := (reservations m)(rid \<mapsto> r)\<rparr>) = reserved c m + fval (rcomp c r)"
proof -
  have "(\<Sum>k\<in>dom (reservations m). fval (rcomp c (the (if k = rid then Some r else reservations m k))))
      = reserved c m"
    unfolding reserved_def using assms(2) by (intro sum.cong) auto
  then show ?thesis using assms by (simp add: reserved_def add.commute)
qed

lemma reserved_delete:
  assumes "finite (dom (reservations m))" and "reservations m rid = Some r"
  shows "reserved c (m\<lparr>reservations := (reservations m)(rid := None)\<rparr>) = reserved c m - fval (rcomp c r)"
proof -
  have "reserved c m = fval (rcomp c r)
      + (\<Sum>k\<in>dom (reservations m) - {rid}. fval (rcomp c (the (reservations m k))))"
    unfolding reserved_def using assms by (subst sum.remove [of _ rid]) auto
  moreover have "reserved c (m\<lparr>reservations := (reservations m)(rid := None)\<rparr>) =
      (\<Sum>k\<in>dom (reservations m) - {rid}. fval (rcomp c (the (reservations m k))))"
    unfolding reserved_def by (intro sum.cong) auto
  ultimately show ?thesis by simp
qed

text \<open>The free capacity is computed exactly, whatever order the map is summed in.\<close>

lemma compute_resources_exact:
  assumes "manager_ok g m" and "hash_order ks (reservations m)"
  shows "is_finite (rcomp c (compute_resources ks m))
    \<and> fval (rcomp c (compute_resources ks m)) = fval (rcomp c (compute m)) - reserved c m"
proof -
  let ?rs = "hash_values ks (reservations m)"
  have rs: "\<forall>r\<in>set ?rs. res_grid g r \<and> res_nonneg r"
    using assms by (auto simp: set_hash_values_order manager_ok_def request_ok_def)
  have nn: "0 \<le> total c ?rs" using rs by (intro total_nonneg) auto
  have le: "total c ?rs \<le> fval (rcomp c (compute m))"
    using assms by (simp add: total_reserved manager_ok_def)
  have cap: "on_grid F64 g (fval (rcomp c (compute m)))" "is_finite (rcomp c (compute m))"
    "grid_ok F64 g" using assms(1) by (auto simp: manager_ok_def)
  have tg: "total c ?rs / 2 powi g \<in> \<int>" using rs by (intro total_grid) auto
  have "on_grid F64 g (total c ?rs)" by (rule on_grid_le [OF cap(1) tg]) (use nn le in auto)
  from res_sum_exact [OF cap(3) rs this]
  have sum: "is_finite (rcomp c (res_sum ?rs))" "fval (rcomp c (res_sum ?rs)) = total c ?rs" by auto
  have "(fval (rcomp c (compute m)) - total c ?rs) / 2 powi g \<in> \<int>"
    using tg cap(1) by (auto simp: diff_divide_distrib on_grid_def intro: Ints_diff)
  then have "on_grid F64 g (fval (rcomp c (compute m)) - total c ?rs)"
    by (rule on_grid_le [OF cap(1)]) (use nn le in auto)
  then show ?thesis
    using fsub_grid [OF cap(3) cap(2) sum(1)] sum(2) assms(2)
    by (simp add: compute_resources_def total_reserved)
qed

lemma res_ge_available:
  assumes "manager_ok g m" and "hash_order ks (reservations m)" and "request_ok g req"
  shows "res_ge (compute_resources ks m) req \<longleftrightarrow>
    (\<forall>c. reserved c m + fval (rcomp c req) \<le> fval (rcomp c (compute m)))"
proof -
  have "fle (rcomp c req) (rcomp c (compute_resources ks m)) \<longleftrightarrow>
      reserved c m + fval (rcomp c req) \<le> fval (rcomp c (compute m))" for c
    using compute_resources_exact [OF assms(1,2), of c] assms(3)
    by (auto simp: fle_finite request_ok_def res_grid_def algebra_simps)
  then show ?thesis by (simp add: res_ge_iff)
qed

lemma manager_ok_new:
  assumes "grid_ok F64 g" and "\<forall>c. is_finite (rcomp c r) \<and> on_grid F64 g (fval (rcomp c r))"
    and "res_nonneg r"
  shows "manager_ok g (manager_new r)"
  using assms by (auto simp: manager_ok_def manager_new_def reserved_def res_nonneg_def)

lemma manager_ok_reserve:
  assumes "manager_ok g m" and "hash_order ks (reservations m)" and "request_ok g req"
    and "rid \<notin> dom (reservations m)" and "reserve ks0 m0 ks rid req m = (res, m')"
  shows "manager_ok g m'"
proof (cases res)
  case (Inl e)
  then show ?thesis using assms(1,5) by (auto simp: reserve_def split: if_splits)
next
  case (Inr k)
  then have m': "m' = m\<lparr>reservations := (reservations m)(rid \<mapsto> req)\<rparr>"
    and fits: "res_ge (compute_resources ks m) req"
    using assms(5) by (auto simp: reserve_def split: if_splits)
  have fin: "finite (dom (reservations m))" using assms(1) by (simp add: manager_ok_def)
  have "reserved c m' \<le> fval (rcomp c (compute m))" for c
    using fits res_ge_available [OF assms(1-3)] by (simp add: m' reserved_insert [OF fin assms(4)])
  moreover have "request_ok g r" if "r \<in> ran (reservations m')" for r
    using that assms(1,3,4) by (auto simp: m' manager_ok_def ran_def split: if_splits)
  ultimately show ?thesis using assms(1) by (auto simp: m' manager_ok_def)
qed

lemma manager_ok_release:
  assumes "manager_ok g m" and "release rid m = (res, m')"
  shows "manager_ok g m'"
proof (cases "reservations m rid")
  case None
  then show ?thesis using assms by (simp add: release_def)
next
  case (Some r)
  then have m': "m' = m\<lparr>reservations := (reservations m)(rid := None)\<rparr>"
    using assms(2) by (simp add: release_def)
  have "0 \<le> fval (rcomp c r)" for c
    using assms(1) Some by (auto simp: manager_ok_def request_ok_def res_nonneg_def ran_def)
  then have "reserved c m' \<le> reserved c m" for c
    using assms(1) by (simp add: m' reserved_delete [OF _ Some] manager_ok_def)
  moreover have "ran (reservations m') \<subseteq> ran (reservations m)" by (auto simp: m' ran_def split: if_splits)
  ultimately show ?thesis using assms(1)
    by (auto simp: m' manager_ok_def intro: order_trans [OF \<open>\<And>c. reserved c m' \<le> reserved c m\<close> [unfolded m']])
qed

section \<open>The capacity invariant for all quantities\<close>

text \<open>
  Quantities such as 0.1 are on no common grid, and their sums are rounded. The invariant for all
  finite quantities that are not negative allows for that: with at most \<open>N\<close> reservations at a time,
  the exact total of the reservations exceeds the capacity by at most one part in
  \<open>2 ^ 52\<close> per reservation.
\<close>

definition slack :: "nat \<Rightarrow> rat" where
  "slack N = 1 + of_nat N / 2 ^ 52"

definition manager_fits :: "nat \<Rightarrow> manager \<Rightarrow> bool" where
  "manager_fits N m \<longleftrightarrow> finite (dom (reservations m)) \<and> finite_plain (compute m)
     \<and> (\<forall>r\<in>ran (reservations m). finite_plain r)
     \<and> (\<forall>c. reserved c m \<le> fval (rcomp c (compute m)) * slack N)"

lemma slack_arith:
  fixes C S T y :: rat
  assumes n: "Suc n \<le> N" "N \<le> 2 ^ 52" and T: "0 \<le> T" "T \<le> C * slack N" and "0 \<le> C"
    and S: "T * (1 - of_nat n * unit_roundoff) \<le> S" and y: "y \<le> (C - S) * (1 + unit_roundoff)"
  shows "T + y \<le> C * slack N"
proof -
  define u where "u = unit_roundoff"
  define k where "k = of_nat n * u"
  have "(of_nat (Suc n) :: rat) \<le> of_nat N" "(of_nat N :: rat) \<le> of_nat (2 ^ 52)"
    using n by (auto simp only: of_nat_le_iff)
  then have N: "2 * (k + u) \<le> slack N - 1" "slack N \<le> 2" "k + u \<le> 1"
    by (auto simp: k_def u_def unit_roundoff_def slack_def field_simps)
  have k: "0 \<le> k" "0 \<le> u" by (auto simp: k_def u_def)
  then have "k \<le> 1" using N(3) by linarith
  have T2: "T \<le> 2 * C" using T(2) mult_left_mono [OF N(2) \<open>0 \<le> C\<close>] by simp
  have "y \<le> (C - T * (1 - k)) * (1 + u)"
    using y mult_right_mono [of "C - S" "C - T * (1 - k)" "1 + u"] S k by (simp add: k_def u_def)
  then have "T + y \<le> C + C * u + T * k - T * (1 - k) * u" by (simp add: algebra_simps)
  moreover have "0 \<le> T * (1 - k) * u" using T(1) k \<open>k \<le> 1\<close> by simp
  moreover have "T * k \<le> 2 * C * k" using T2 k(1) by (rule mult_right_mono)
  moreover have "C * (u + 2 * k) \<le> C * (slack N - 1)"
    using N(1) k \<open>0 \<le> C\<close> by (intro mult_left_mono) auto
  ultimately show ?thesis by (simp add: algebra_simps)
qed

text \<open>What an admitted request may take, whatever order the map is summed in.\<close>

lemma res_ge_admits:
  assumes "manager_fits N m" and "hash_order ks (reservations m)" and "plain req"
    and "res_ge (compute_resources ks m) req" and "card (dom (reservations m)) < N" and "N \<le> 2 ^ 52"
  shows "is_finite (rcomp c req) \<and> reserved c m + fval (rcomp c req) \<le> fval (rcomp c (compute m)) * slack N"
proof -
  let ?rs = "hash_values ks (reservations m)" and ?C = "fval (rcomp c (compute m))"
  have rs: "\<forall>r\<in>set ?rs. finite_plain r" and cap: "finite_plain (compute m)"
    and T: "reserved c m \<le> ?C * slack N"
    using assms(1,2) by (auto simp: set_hash_values_order manager_fits_def)
  have len: "length ?rs = card (dom (reservations m))"
    using assms(2) by (simp add: hash_values_map hash_order_def distinct_card [symmetric])
  let ?S = "rcomp c (res_sum ?rs)"
  define n where "n = length ?rs"
  have nN: "Suc n \<le> N" using len assms(5) by (simp add: n_def)
  have "(of_nat n :: rat) * unit_roundoff \<le> 1"
  proof -
    have "(of_nat n :: rat) \<le> of_nat (2 ^ 52)" using nN assms(6) by (simp only: of_nat_le_iff)
    then show ?thesis by (simp add: unit_roundoff_def field_simps)
  qed
  then have nn: "0 \<le> reserved c m * (1 - of_nat n * unit_roundoff)"
    using finite_plain_total [OF rs, of c] by (simp add: total_reserved [OF assms(2)])
  have short: "?S = PInf \<or> (is_finite ?S \<and> multiple F64 (fval ?S)
      \<and> reserved c m * (1 - of_nat n * unit_roundoff) \<le> fval ?S)"
    using res_sum_short [OF rs, of c] by (simp add: total_reserved [OF assms(2)] n_def)
  have adm: "is_finite (rcomp c req) \<and> is_finite ?S \<and> (if fval ?S \<le> ?C
      then fval (rcomp c req) \<le> (?C - fval ?S) * (1 + unit_roundoff) else fval (rcomp c req) = 0)"
  proof (rule fsub_admits)
    show "?S = PInf \<or> (is_finite ?S \<and> multiple F64 (fval ?S) \<and> 0 \<le> fval ?S)"
      using short nn by (auto intro: order_trans)
    show "\<not> flt (rcomp c req) (Fin 0)" using assms(3) by (simp add: plain_def)
    show "fle (rcomp c req) (fsub F64 (rcomp c (compute m)) ?S)"
      using assms(4) by (simp add: res_ge_iff compute_resources_def)
  qed (use cap in \<open>auto dest: finite_plainD [where c = c]\<close>)
  show ?thesis
  proof (cases "fval ?S \<le> ?C")
    case True
    have S: "reserved c m * (1 - of_nat n * unit_roundoff) \<le> fval ?S" using short adm by auto
    have y: "fval (rcomp c req) \<le> (?C - fval ?S) * (1 + unit_roundoff)" using True adm by simp
    have "0 \<le> reserved c m" using finite_plain_total [OF rs, of c] by (simp add: total_reserved [OF assms(2)])
    then have "reserved c m + fval (rcomp c req) \<le> ?C * slack N"
      using finite_plainD(2) [OF cap] S y by (rule slack_arith [OF nN assms(6) _ T])
    with adm show ?thesis by simp
  qed (use adm T in simp)
qed

lemma finite_plainI: "plain r \<Longrightarrow> (\<And>c. is_finite (rcomp c r)) \<Longrightarrow> finite_plain r"
  by (simp add: finite_plain_def)

lemma manager_fits_reserve:
  assumes "manager_fits N m" and "hash_order ks (reservations m)" and "plain req"
    and "rid \<notin> dom (reservations m)" and "card (dom (reservations m)) < N" and "N \<le> 2 ^ 52"
    and "reserve ks0 m0 ks rid req m = (res, m')"
  shows "manager_fits N m'"
proof (cases res)
  case (Inl e)
  then show ?thesis using assms(1,7) by (auto simp: reserve_def split: if_splits)
next
  case (Inr k)
  then have m': "m' = m\<lparr>reservations := (reservations m)(rid \<mapsto> req)\<rparr>"
    and fits: "res_ge (compute_resources ks m) req"
    using assms(7) by (auto simp: reserve_def split: if_splits)
  note adm = res_ge_admits [OF assms(1-3) fits assms(5,6)]
  have fin: "finite (dom (reservations m))" using assms(1) by (simp add: manager_fits_def)
  have "finite_plain r" if "r \<in> ran (reservations m')" for r
    using that assms(1,3,4) adm by (auto simp: m' manager_fits_def ran_def intro: finite_plainI split: if_splits)
  moreover have "reserved c m' \<le> fval (rcomp c (compute m)) * slack N" for c
    using adm by (simp add: m' reserved_insert [OF fin assms(4)])
  ultimately show ?thesis using assms(1) by (auto simp: m' manager_fits_def)
qed

lemma manager_fits_release:
  assumes "manager_fits N m" and "release rid m = (res, m')"
  shows "manager_fits N m'"
proof (cases "reservations m rid")
  case None
  then show ?thesis using assms by (simp add: release_def)
next
  case (Some r)
  then have m': "m' = m\<lparr>reservations := (reservations m)(rid := None)\<rparr>"
    using assms(2) by (simp add: release_def)
  have "finite_plain r" using assms(1) Some by (auto simp: manager_fits_def ran_def)
  then have "reserved c m' \<le> reserved c m" for c
    using assms(1) finite_plainD(2) [of r c] by (simp add: m' reserved_delete [OF _ Some] manager_fits_def)
  then have "reserved c m' \<le> fval (rcomp c (compute m)) * slack N" for c
    using assms(1) by (auto simp: manager_fits_def intro: order_trans)
  moreover have "ran (reservations m') \<subseteq> ran (reservations m)" by (auto simp: m' ran_def split: if_splits)
  ultimately show ?thesis using assms(1) by (auto simp: m' manager_fits_def)
qed

lemma manager_fits_new: "finite_plain r \<Longrightarrow> manager_fits N (manager_new r)"
  by (auto simp: manager_fits_def manager_new_def reserved_def slack_def finite_plainD)

section \<open>The contract of a resource manager\<close>

text \<open>
  The trait \<^verbatim>\<open>ResourceManager\<close> as a contract. Reserving is a relation, because its outcome depends on
  the order in which a map is summed and on the state an earlier read saw. A client may rely on the
  booked quantities after each operation, and on the capacity never being exceeded.
\<close>

locale reservation_manager =
  fixes booked :: "'s \<Rightarrow> uuid \<rightharpoonup> resources"
    and capacity :: "'s \<Rightarrow> component \<Rightarrow> rat"
    and rsv :: "uuid \<Rightarrow> resources \<Rightarrow> 's \<Rightarrow> manager_error + uuid \<Rightarrow> 's \<Rightarrow> bool"
    and rel :: "uuid \<Rightarrow> 's \<Rightarrow> (manager_error + resources) \<times> 's"
    and inv :: "'s \<Rightarrow> bool"
    and admissible :: "resources \<Rightarrow> bool"
  assumes rsv_Inl: "rsv rid r s (Inl e) s' \<Longrightarrow> e = InsufficientResources \<and> s' = s"
    and rsv_Inr: "rsv rid r s (Inr k) s' \<Longrightarrow>
      k = rid \<and> booked s' = (booked s)(rid \<mapsto> r) \<and> capacity s' = capacity s"
    and rel_None: "booked s rid = None \<Longrightarrow> rel rid s = (Inl UnknownReservation, s)"
    and rel_Some: "booked s rid = Some r \<Longrightarrow> \<exists>s'. rel rid s = (Inr r, s')
      \<and> booked s' = (booked s)(rid := None) \<and> capacity s' = capacity s"
    and inv_rsv: "inv s \<Longrightarrow> admissible r \<Longrightarrow> rid \<notin> dom (booked s) \<Longrightarrow> rsv rid r s res s' \<Longrightarrow> inv s'"
    and inv_rel: "inv s \<Longrightarrow> rel rid s = (out, s') \<Longrightarrow> inv s'"
    and inv_fits: "inv s \<Longrightarrow>
      (\<Sum>k\<in>dom (booked s). fval (rcomp c (the (booked s k)))) \<le> capacity s c"
begin

definition step :: "'s \<Rightarrow> 's \<Rightarrow> bool" where
  "step s s' \<longleftrightarrow>
     (\<exists>rid r res. admissible r \<and> rid \<notin> dom (booked s) \<and> rsv rid r s res s')
     \<or> (\<exists>rid res. rel rid s = (res, s'))"

lemma capacity_rel: "rel rid s = (res, s') \<Longrightarrow> capacity s' = capacity s"
  using rel_None [of s rid] rel_Some [of s rid] by (cases "booked s rid") auto

lemma capacity_rsv: "rsv rid r s res s' \<Longrightarrow> capacity s' = capacity s"
  using rsv_Inl [of rid r s _ s'] rsv_Inr [of rid r s _ s'] by (cases res) auto

lemma step_inv: "step s s' \<Longrightarrow> inv s \<Longrightarrow> inv s' \<and> capacity s' = capacity s"
  by (auto simp: step_def intro: inv_rsv inv_rel dest: capacity_rel capacity_rsv)

lemma steps_fit:
  assumes "step\<^sup>*\<^sup>* s s'" and "inv s"
  shows "inv s' \<and> capacity s' = capacity s
    \<and> (\<Sum>k\<in>dom (booked s'). fval (rcomp c (the (booked s' k)))) \<le> capacity s c"
proof -
  from assms have "inv s' \<and> capacity s' = capacity s"
    by (induction rule: rtranclp_induct) (auto dest: step_inv)
  then show ?thesis using inv_fits [of s' c] by simp
qed

lemma rsv_rel_id:
  assumes "rsv rid r s (Inr k) s'" and "booked s rid = None"
  shows "\<exists>s''. rel rid s' = (Inr r, s'') \<and> booked s'' = booked s \<and> capacity s'' = capacity s"
proof -
  note r = rsv_Inr [OF assms(1)]
  then obtain s'' where "rel rid s' = (Inr r, s'')" "booked s'' = (booked s')(rid := None)"
    "capacity s'' = capacity s'" using rel_Some [of s' rid r] by auto
  with r assms(2) show ?thesis by (auto simp: fun_upd_idem_iff)
qed

end

text \<open>Reserving, over every iteration order and every earlier state the first check may have read.\<close>

definition reserve_rel ::
    "uuid \<Rightarrow> resources \<Rightarrow> manager \<Rightarrow> manager_error + uuid \<Rightarrow> manager \<Rightarrow> bool" where
  "reserve_rel rid r m res m' \<longleftrightarrow>
     (\<exists>ks0 m0 ks. hash_order ks (reservations m) \<and> reserve ks0 m0 ks rid r m = (res, m'))"

interpretation srm: reservation_manager reservations "\<lambda>m c. fval (rcomp c (compute m))"
    reserve_rel release "manager_ok g" "request_ok g" for g
proof unfold_locales
  fix m m' :: manager and rid k r e res out c
  show "reserve_rel rid r m (Inl e) m' \<Longrightarrow> e = InsufficientResources \<and> m' = m"
    by (auto simp: reserve_rel_def reserve_def split: if_splits)
  show "reserve_rel rid r m (Inr k) m' \<Longrightarrow> k = rid \<and> reservations m' = (reservations m)(rid \<mapsto> r)
      \<and> (\<lambda>c. fval (rcomp c (compute m'))) = (\<lambda>c. fval (rcomp c (compute m)))"
    by (auto simp: reserve_rel_def reserve_def split: if_splits)
  show "reservations m rid = None \<Longrightarrow> release rid m = (Inl UnknownReservation, m)"
    by (simp add: release_def)
  show "reservations m rid = Some r \<Longrightarrow> \<exists>m'. release rid m = (Inr r, m')
      \<and> reservations m' = (reservations m)(rid := None)
      \<and> (\<lambda>c. fval (rcomp c (compute m'))) = (\<lambda>c. fval (rcomp c (compute m)))"
    by (simp add: release_def)
  show "manager_ok g m \<Longrightarrow> request_ok g r \<Longrightarrow> rid \<notin> dom (reservations m) \<Longrightarrow>
      reserve_rel rid r m res m' \<Longrightarrow> manager_ok g m'"
    by (auto simp: reserve_rel_def intro: manager_ok_reserve)
  show "manager_ok g m \<Longrightarrow> release rid m = (out, m') \<Longrightarrow> manager_ok g m'"
    by (rule manager_ok_release)
  show "manager_ok g m \<Longrightarrow> (\<Sum>k\<in>dom (reservations m). fval (rcomp c (the (reservations m k))))
      \<le> fval (rcomp c (compute m))"
    by (simp add: manager_ok_def reserved_def)
qed

text \<open>
  The same contract for all quantities that are not negative: the capacity a client may rely on is
  the configured one and the slack, while there are less than \<open>N\<close> reservations.
\<close>

definition reserve_below :: "nat \<Rightarrow>
    uuid \<Rightarrow> resources \<Rightarrow> manager \<Rightarrow> manager_error + uuid \<Rightarrow> manager \<Rightarrow> bool" where
  "reserve_below N rid r m res m' \<longleftrightarrow>
     card (dom (reservations m)) < N \<and> N \<le> 2 ^ 52 \<and> reserve_rel rid r m res m'"

interpretation slm: reservation_manager reservations "\<lambda>m c. fval (rcomp c (compute m)) * slack N"
    "reserve_below N" release "manager_fits N" plain for N
proof unfold_locales
  fix m m' :: manager and rid k r e res out c
  show "reserve_below N rid r m (Inl e) m' \<Longrightarrow> e = InsufficientResources \<and> m' = m"
    unfolding reserve_below_def by (blast dest: srm.rsv_Inl)
  show "reserve_below N rid r m (Inr k) m' \<Longrightarrow> k = rid \<and> reservations m' = (reservations m)(rid \<mapsto> r)
      \<and> (\<lambda>c. fval (rcomp c (compute m')) * slack N) = (\<lambda>c. fval (rcomp c (compute m)) * slack N)"
    unfolding reserve_below_def using srm.rsv_Inr [of rid r m k m'] by (metis (no_types))
  show "reservations m rid = None \<Longrightarrow> release rid m = (Inl UnknownReservation, m)"
    by (rule srm.rel_None)
  show "reservations m rid = Some r \<Longrightarrow> \<exists>m'. release rid m = (Inr r, m')
      \<and> reservations m' = (reservations m)(rid := None)
      \<and> (\<lambda>c. fval (rcomp c (compute m')) * slack N) = (\<lambda>c. fval (rcomp c (compute m)) * slack N)"
    by (simp add: release_def)
  show "manager_fits N m \<Longrightarrow> plain r \<Longrightarrow> rid \<notin> dom (reservations m) \<Longrightarrow>
      reserve_below N rid r m res m' \<Longrightarrow> manager_fits N m'"
    by (auto simp: reserve_below_def reserve_rel_def intro: manager_fits_reserve)
  show "manager_fits N m \<Longrightarrow> release rid m = (out, m') \<Longrightarrow> manager_fits N m'"
    by (rule manager_fits_release)
  show "manager_fits N m \<Longrightarrow> (\<Sum>k\<in>dom (reservations m). fval (rcomp c (the (reservations m k))))
      \<le> fval (rcomp c (compute m)) * slack N"
    by (simp add: manager_fits_def reserved_def)
qed

section \<open>Properties\<close>

text \<open>
  One step of the manager: some task reserves (with any earlier snapshot) or releases. Which
  requests come, and in which states, is a parameter: the manager itself admits all.
\<close>

inductive manager_step :: "(manager \<Rightarrow> resources \<Rightarrow> bool) \<Rightarrow> manager \<Rightarrow> manager \<Rightarrow> bool" for comes where
  step_reserve: "comes m req \<Longrightarrow> rid \<notin> dom (reservations m) \<Longrightarrow>
     hash_order ks (reservations m) \<Longrightarrow> reserve ks0 m0 ks rid req m = (res, m') \<Longrightarrow>
     manager_step comes m m'"
| step_release: "release rid m = (out, m') \<Longrightarrow> manager_step comes m m'"

text \<open>Requests for quantities of a grid; requests without negative quantities, with room for them.\<close>

definition on_the_grid :: "int \<Rightarrow> manager \<Rightarrow> resources \<Rightarrow> bool" where
  "on_the_grid g m r \<longleftrightarrow> request_ok g r"

definition not_negative :: "nat \<Rightarrow> manager \<Rightarrow> resources \<Rightarrow> bool" where
  "not_negative N m r \<longleftrightarrow> plain r \<and> card (dom (reservations m)) < N"

lemma manager_step_srm: "manager_step (on_the_grid g) m m' \<Longrightarrow> srm.step g m m'"
proof (induction rule: manager_step.induct)
  case (step_reserve m req rid ks ks0 m0 res m')
  then have "reserve_rel rid req m res m'" unfolding reserve_rel_def by blast
  with step_reserve show ?case unfolding srm.step_def on_the_grid_def by blast
next
  case (step_release rid m out m')
  then show ?case unfolding srm.step_def by blast
qed

lemma manager_step_slm:
  "manager_step (not_negative N) m m' \<Longrightarrow> N \<le> 2 ^ 52 \<Longrightarrow> slm.step N m m'"
proof (induction rule: manager_step.induct)
  case (step_reserve m req rid ks ks0 m0 res m')
  then have "reserve_below N rid req m res m'"
    unfolding reserve_below_def reserve_rel_def not_negative_def by blast
  with step_reserve show ?case unfolding slm.step_def not_negative_def by blast
next
  case (step_release rid m out m')
  then show ?case unfolding slm.step_def by blast
qed

lemma rtranclp_map: "r\<^sup>*\<^sup>* x y \<Longrightarrow> (\<And>x y. r x y \<Longrightarrow> s x y) \<Longrightarrow> s\<^sup>*\<^sup>* x y"
  by (metis rtranclp_mono predicate2D predicate2I)

text \<open>
  Admission is exact: with an intact manager and an admissible request, a reservation succeeds
  exactly when the request fits what is left in every component, it then records that request
  under the new identifier, and otherwise it reports insufficient resources and changes nothing.
  The order in which the map is summed does not matter.
\<close>

lemma reserve_exact:
  assumes "manager_ok g m" and "hash_order ks (reservations m)" and "request_ok g req"
  shows "reserve ks m ks rid req m =
    (if \<forall>c. reserved c m + fval (rcomp c req) \<le> fval (rcomp c (compute m))
     then (Inr rid, m\<lparr>reservations := (reservations m)(rid \<mapsto> req)\<rparr>)
     else (Inl InsufficientResources, m))"
  using res_ge_available [OF assms] by (simp add: reserve_def)

lemma manager_run_mono:
  assumes "(manager_step comes)\<^sup>*\<^sup>* m m'" and "\<And>m q. comes m q \<Longrightarrow> comes' m q"
  shows "(manager_step comes')\<^sup>*\<^sup>* m m'"
  using assms(1) by (rule rtranclp_map) (metis assms(2) manager_step.simps)

text \<open>Runs of the manager, through the two contracts.\<close>

lemma fits_run:
  assumes "N \<le> 2 ^ 52" and "manager_fits N m" and "(manager_step (not_negative N))\<^sup>*\<^sup>* m m'"
  shows "reserved c m' \<le> fval (rcomp c (compute m)) * slack N \<and> manager_fits N m'"
proof -
  have "(slm.step N)\<^sup>*\<^sup>* m m'" using assms(3) manager_step_slm assms(1) by (blast intro: rtranclp_map)
  from slm.steps_fit [OF this assms(2)] show ?thesis by (simp add: reserved_def)
qed

lemma grid_run:
  assumes "manager_ok g m" and "(manager_step (on_the_grid g))\<^sup>*\<^sup>* m m'"
  shows "reserved c m' \<le> fval (rcomp c (compute m)) \<and> manager_ok g m'"
proof -
  have "(srm.step g)\<^sup>*\<^sup>* m m'" using assms(2) manager_step_srm by (blast intro: rtranclp_map)
  from srm.steps_fit [OF this assms(1)] show ?thesis by (simp add: reserved_def)
qed

text \<open>
  C1. The capacity is never exceeded: whatever reservations and releases interleave, each
  reservation deciding with an arbitrarily stale first check, and whatever finite quantities,
  infinities or NaNs are asked for, the exact total of the reservations stays within the capacity
  in every component, up to the rounding of the sums: one part in \<open>2 ^ 52\<close> for each of the
  at most \<open>N\<close> reservations held at a time. Where the quantities are multiples of one power of two
  that fit 53 bits (whole processors, bytes) the total is within the capacity exactly. The one
  condition on the requests is that no quantity is below zero. The manager does not check it, and
  without it the claim is false: see \<open>negative_request_overcommits\<close> below.
\<close>

theorem capacity_never_exceeded:
  assumes "N \<le> 2 ^ 52"
  shows "(manager_fits N m \<and> (manager_step (not_negative N))\<^sup>*\<^sup>* m m' \<longrightarrow>
      reserved c m' \<le> fval (rcomp c (compute m)) * slack N \<and> manager_fits N m')
    \<and> (manager_ok g m \<and> (manager_step (on_the_grid g))\<^sup>*\<^sup>* m m' \<longrightarrow>
      reserved c m' \<le> fval (rcomp c (compute m)) \<and> manager_ok g m')"
  using fits_run [OF assms] grid_run by blast

text \<open>
  A reservation can be undone: releasing it right away returns the reserved quantities and
  restores the manager; releasing it a second time is an error that changes nothing.
\<close>

lemma reserve_release_roundtrip:
  assumes "reserve ks0 m0 ks rid req m = (Inr k, m')" and "rid \<notin> dom (reservations m)"
  shows "k = rid \<and> release rid m' = (Inr req, m) \<and> release rid m = (Inl UnknownReservation, m)"
proof -
  have "m' = m\<lparr>reservations := (reservations m)(rid \<mapsto> req)\<rparr>" "k = rid"
    using assms(1) by (auto simp: reserve_def split: if_splits)
  moreover have "reservations m rid = None" using assms(2) by auto
  ultimately show ?thesis by (simp add: release_def fun_upd_idem)
qed

text \<open>A worker with two processors and one of them reserved, for the witnesses.\<close>

definition cpus :: "rat \<Rightarrow> resources" where
  "cpus q = \<lparr>gpu = Fin 0, cpu = Fin q, storage = Fin 0, memory = Fin 0\<rparr>"

lemma rcomp_cpus [simp]: "rcomp c (cpus q) = (if c = Cpu then Fin q else Fin 0)"
  by (cases c) (auto simp: cpus_def)

definition two_cpus :: manager where
  "two_cpus = \<lparr>compute = cpus 2, reservations = [7 \<mapsto> cpus 1]\<rparr>"

lemma grid_ok_0: "grid_ok F64 0"
  by (simp add: grid_ok_def F64_def)

lemma request_ok_cpus: "q \<in> \<int> \<Longrightarrow> 0 \<le> q \<Longrightarrow> request_ok 0 (cpus q)"
  by (auto simp: request_ok_def res_grid_def res_nonneg_def)

lemma manager_ok_two_cpus: "manager_ok 0 two_cpus"
  by (auto simp: manager_ok_def two_cpus_def reserved_def grid_ok_def on_grid_def F64_def
      intro!: request_ok_cpus)

lemma reserve_exact_witness:
  "reserve [7] two_cpus [7] 8 (cpus 1) two_cpus
     = (Inr 8, two_cpus\<lparr>reservations := [7 \<mapsto> cpus 1, 8 \<mapsto> cpus 1]\<rparr>)
   \<and> reserve [7] two_cpus [7] 8 (cpus 2) two_cpus = (Inl InsufficientResources, two_cpus)"
proof -
  have ord: "hash_order [7] (reservations two_cpus)" by (simp add: hash_order_def two_cpus_def)
  have "reserved c two_cpus = (if c = Cpu then 1 else 0)" for c
    by (simp add: reserved_def two_cpus_def)
  then show ?thesis
    using reserve_exact [OF manager_ok_two_cpus ord request_ok_cpus, of 1 8]
      reserve_exact [OF manager_ok_two_cpus ord request_ok_cpus, of 2 8]
    by (auto simp: two_cpus_def all_component)
qed

text \<open>A tenth of a processor, the \<^verbatim>\<open>f64\<close> nearest to it: off the grid of whole processors.\<close>

definition tenth :: rat where
  "tenth = 3602879701896397 / 36028797018963968"

lemma on_grid_f64: "grid_ok F64 g \<Longrightarrow> on_grid F64 g (fval x) \<Longrightarrow> is_f64 x"
  using finish_grid [of F64 g "fval x"] round_to_grid [of F64 g "fval x"]
  by (auto simp: is_f64_def finish_def Let_def abs_less_iff split: if_splits)

lemma finite_plain_cpus: "is_f64 (Fin q) \<Longrightarrow> 0 \<le> q \<Longrightarrow> finite_plain (cpus q)"
  by (auto simp: finite_plain_def plain_def flt_finite) (simp add: is_f64_def)

lemma f64_examples: "is_f64 (Fin tenth)" "is_f64 (Fin 1)" "is_f64 (Fin 2)"
proof -
  have "tenth / 2 powi - 55 = of_int 3602879701896397" by (simp add: tenth_def power_int_def power_divide)
  then have "tenth / 2 powi - 55 \<in> \<int>" by (metis Ints_of_int)
  then show "is_f64 (Fin tenth)"
    by (intro on_grid_f64 [of "- 55"]) (auto simp: grid_ok_def on_grid_def F64_def tenth_def power_int_def power_divide)
  show "is_f64 (Fin 1)" "is_f64 (Fin 2)"
    by (auto intro!: on_grid_f64 [of 0] simp: grid_ok_def on_grid_def F64_def power_int_def)
qed

lemma two_cpus_step:
  assumes "comes (manager_new (cpus 2)) (cpus tenth)"
  shows "manager_step comes (manager_new (cpus 2))
    \<lparr>compute = cpus 2, reservations = [8 \<mapsto> cpus tenth]\<rparr>"
proof (rule step_reserve)
  show "reserve [] (manager_new (cpus 2)) [] 8 (cpus tenth) (manager_new (cpus 2))
      = (Inr 8, \<lparr>compute = cpus 2, reservations = [8 \<mapsto> cpus tenth]\<rparr>)"
    by (simp add: reserve_def res_ge_iff all_component compute_resources_def manager_new_def
        res_sum_def float_simps tenth_def)
qed (use assms in \<open>simp_all add: manager_new_def hash_order_def\<close>)

theorem capacity_never_exceeded_witness:
  "(manager_step (not_negative 10))\<^sup>*\<^sup>* (manager_new (cpus 2))
      \<lparr>compute = cpus 2, reservations = [8 \<mapsto> cpus tenth]\<rparr>
   \<and> reserved Cpu \<lparr>compute = cpus 2, reservations = [8 \<mapsto> cpus tenth]\<rparr> \<le> 2 * slack 10
   \<and> (manager_step (on_the_grid 0))\<^sup>*\<^sup>* two_cpus (two_cpus\<lparr>reservations := Map.empty\<rparr>)
   \<and> reserved Cpu (two_cpus\<lparr>reservations := Map.empty\<rparr>) \<le> 2"
proof -
  let ?m = "\<lparr>compute = cpus 2, reservations = [8 \<mapsto> cpus tenth]\<rparr>"
  have "not_negative 10 (manager_new (cpus 2)) (cpus tenth)"
    using finite_plain_cpus [OF f64_examples(1)]
    by (simp add: not_negative_def manager_new_def finite_plain_def tenth_def)
  from r_into_rtranclp [of "manager_step (not_negative 10)", OF two_cpus_step [of "not_negative 10", OF this]]
  have run: "(manager_step (not_negative 10))\<^sup>*\<^sup>* (manager_new (cpus 2)) ?m" .
  have fits: "manager_fits 10 (manager_new (cpus 2))"
    by (intro manager_fits_new finite_plain_cpus f64_examples) simp
  have "release 7 two_cpus = (Inr (cpus 1), two_cpus\<lparr>reservations := Map.empty\<rparr>)"
    by (simp add: release_def two_cpus_def)
  from r_into_rtranclp [of "manager_step (on_the_grid 0)", OF step_release [OF this]]
  have run': "(manager_step (on_the_grid 0))\<^sup>*\<^sup>* two_cpus (two_cpus\<lparr>reservations := Map.empty\<rparr>)" .
  show ?thesis
    using capacity_never_exceeded [of 10 "manager_new (cpus 2)" ?m Cpu 0] fits run
      capacity_never_exceeded [of 10 two_cpus "two_cpus\<lparr>reservations := Map.empty\<rparr>" Cpu 0]
      manager_ok_two_cpus run' by (simp add: manager_new_def two_cpus_def)
qed

lemma reserve_release_roundtrip_witness:
  "release 8 (snd (reserve [7] two_cpus [7] 8 (cpus 1) two_cpus)) = (Inr (cpus 1), two_cpus)"
proof -
  have "res_ge (compute_resources [7] two_cpus) (cpus 1)"
    by (simp add: res_ge_iff all_component compute_resources_def two_cpus_def res_sum_def
        float_simps)
  then have "reserve [7] two_cpus [7] 8 (cpus 1) two_cpus
      = (Inr 8, two_cpus\<lparr>reservations := (reservations two_cpus)(8 \<mapsto> cpus 1)\<rparr>)"
    by (simp add: reserve_def)
  from reserve_release_roundtrip [OF this] this show ?thesis by (simp add: two_cpus_def)
qed

text \<open>
  Admissibility of the requests is needed, and nothing checks it: a request for a negative
  quantity passes the admission check and inflates what is free, so that a second request larger
  than the whole capacity is granted; once the first is released, more is reserved than there is.
\<close>

lemma negative_request_overcommits:
  "\<exists>m1 m2 m3. reserve [] (manager_new (cpus 1)) [] 1 (cpus (- 1)) (manager_new (cpus 1)) = (Inr 1, m1)
     \<and> reserve [1] m1 [1] 2 (cpus 2) m1 = (Inr 2, m2)
     \<and> release 1 m2 = (Inr (cpus (- 1)), m3)
     \<and> fval (rcomp Cpu (compute m3)) < reserved Cpu m3"
proof -
  let ?m0 = "manager_new (cpus 1)"
  let ?m1 = "?m0\<lparr>reservations := [1 \<mapsto> cpus (- 1)]\<rparr>"
  let ?m2 = "?m0\<lparr>reservations := [1 \<mapsto> cpus (- 1), 2 \<mapsto> cpus 2]\<rparr>"
  let ?m3 = "?m0\<lparr>reservations := [2 \<mapsto> cpus 2]\<rparr>"
  have a1: "res_ge (compute_resources [] ?m0) (cpus (- 1))"
    and a2: "res_ge (compute_resources [1] ?m1) (cpus 2)"
    by (simp_all add: res_ge_iff all_component compute_resources_def manager_new_def res_sum_def
        float_simps)
  have "reserve [] ?m0 [] 1 (cpus (- 1)) ?m0 = (Inr 1, ?m1)"
    using a1 by (simp add: reserve_def manager_new_def)
  moreover have "reserve [1] ?m1 [1] 2 (cpus 2) ?m1 = (Inr 2, ?m2)"
    using a2 by (simp add: reserve_def)
  moreover have "release 1 ?m2 = (Inr (cpus (- 1)), ?m3)"
    by (auto simp: release_def fun_eq_iff)
  moreover have "fval (rcomp Cpu (compute ?m3)) < reserved Cpu ?m3"
    by (simp add: reserved_def manager_new_def)
  ultimately show ?thesis by blast
qed

end
