(* ===== verification/Messages.thy ===== *)
theory Messages
  imports Resources
begin

text \<open>
  The protocol messages of \<^verbatim>\<open>crates/messages/src/lib.rs\<close>: an enum is a datatype with the source's
  variants (their names carry the enum's, as constructors share one name space), a struct is a
  record or, where it is a variant's payload, the variant's arguments in order. Serialisation is the
  business of \<^verbatim>\<open>serde\<close> and \<^verbatim>\<open>ciborium\<close> and is not modelled; the fallible conversions of the newtypes
  \<^verbatim>\<open>Fetch\<close>, \<^verbatim>\<open>Send\<close> and \<^verbatim>\<open>Receive\<close> are.
\<close>

section \<open>References\<close>

record data_slice =
  slice_dataset :: string
  slice_hash :: u64

datatype selection_strategy = StrategyAll | StrategyRandom | StrategyOne

datatype reference =
    Uri string
  | HuggingFace string "string option" "string list" "string option"
  | Peers "peer_id list" selection_strategy "data_slice option"
  | SchedulerRef peer_id string

datatype fetch = Fetch reference

definition fetch_uri :: "string \<Rightarrow> fetch" where
  "fetch_uri v = Fetch (Uri v)"

definition fetch_huggingface ::
    "string \<Rightarrow> string option \<Rightarrow> string list \<Rightarrow> string option \<Rightarrow> fetch" where
  "fetch_huggingface repository revision filenames token =
     Fetch (HuggingFace repository revision filenames token)"

definition fetch_data_peer :: "peer_id \<Rightarrow> data_slice \<Rightarrow> fetch" where
  "fetch_data_peer p r = Fetch (Peers [p] StrategyOne (Some r))"

definition fetch_scheduler :: "peer_id \<Rightarrow> string \<Rightarrow> fetch" where
  "fetch_scheduler p dataset = Fetch (SchedulerRef p dataset)"

definition fetch_try_from :: "reference \<Rightarrow> string + fetch" where
  "fetch_try_from r = Inr (Fetch r)"

fun fetch_reference :: "fetch \<Rightarrow> reference" where
  "fetch_reference (Fetch r) = r"

datatype send = Send reference

definition send_peers :: "peer_id list \<Rightarrow> selection_strategy \<Rightarrow> send" where
  "send_peers ps s = Send (Peers ps s None)"

definition send_try_from :: "reference \<Rightarrow> string + send" where
  "send_try_from r =
     (case r of Peers _ _ _ \<Rightarrow> Inr (Send r) | _ \<Rightarrow> Inl ''Send can only be created from Peers'')"

fun send_reference :: "send \<Rightarrow> reference" where
  "send_reference (Send r) = r"

datatype receive = Receive reference

definition receive_peers :: "peer_id list \<Rightarrow> receive" where
  "receive_peers ps = Receive (Peers ps StrategyAll None)"

text \<open>\<^verbatim>\<open>get_peers\<close> panics on a reference that is not a list of peers: \<open>None\<close> is the panic.\<close>

fun get_peers :: "receive \<Rightarrow> peer_id list option" where
  "get_peers (Receive (Peers ps _ _)) = Some ps"
| "get_peers (Receive _) = None"

definition receive_try_from :: "reference \<Rightarrow> string + receive" where
  "receive_try_from r =
     (case r of
        Peers _ StrategyAll _ \<Rightarrow> Inr (Receive r)
      | Peers _ _ _ \<Rightarrow> Inl ''Receive requires SelectionStrategy::All''
      | _ \<Rightarrow> Inl ''Receive can only be created from Peers'')"

fun receive_reference :: "receive \<Rightarrow> reference" where
  "receive_reference (Receive r) = r"

section \<open>Executors and jobs\<close>

datatype model_type =
    Auto | Pretraining | CausalLm | MaskedLm | MaskGeneration | Seq2SeqLm | SequenceClassification
  | MultipleChoice | NextSentencePrediction | TokenClassification | QuestionAnswering
  | TextEncoding | DepthEstimation | ImageClassification | VideoClassification
  | KeypointDetection | KeypointMatching | ObjectDetection | ImageSegmentation | ImageToImage
  | SemanticSegmentation | InstanceSegmentation | UniversalSegmentation
  | ZeroShotImageClassification | ZeroShotObjectDetection | AudioClassification
  | AudioFrameClassification | Ctc | SpeechSeq2Seq | AudioXVector | TextToSpectrogram
  | TextToWaveform | AudioTokenization | TableQuestionAnswering | DocumentQuestionAnswering
  | Vison2Seq | ImageTextToText | TimeSeriesPrediction

record model =
  model_task :: model_type
  model_artifact :: fetch
  model_input_names :: "string list"

datatype preprocessor_type = Tokenizer | Feature | Image | Video | PreprocessorAuto

record preprocessor =
  pre_task :: preprocessor_type
  pre_artifact :: fetch
  pre_input_names :: "string list"

record nesterov =
  outer_learning_rate :: float
  momentum :: float

record adam =
  inner_learning_rate :: float
  betas :: "(float \<times> float) option"
  epsilon :: "float option"

datatype lr_scheduler =
    CosineWithWarmup "32 word" "32 word"
  | LinearWithWarmup "32 word" "32 word"
  | Wsd "32 word" "32 word"

record train_executor_config =
  tc_model :: model
  tc_data :: fetch
  tc_optimizer :: adam
  tc_batch_size :: u32
  tc_preprocessor :: "preprocessor option"
  tc_scheduler :: "lr_scheduler option"

record aggregate_executor_config =
  ac_optimizer :: nesterov

text \<open>A \<^verbatim>\<open>TrainExecutorDescriptor\<close> and an \<^verbatim>\<open>AggregateExecutorDescriptor\<close> are each one name.\<close>

datatype executor_descriptor = TrainDescriptor string | AggregateDescriptor string

datatype executor =
    TrainExecutor string train_executor_config
  | AggregateExecutor string aggregate_executor_config

fun descriptor_of :: "executor \<Rightarrow> executor_descriptor" where
  "descriptor_of (TrainExecutor name _) = TrainDescriptor name"
| "descriptor_of (AggregateExecutor name _) = AggregateDescriptor name"

record job_spec =
  spec_job_id :: uuid
  spec_executor :: executor

record worker_spec =
  spec_resources :: resources
  spec_executors :: "executor_descriptor list"

datatype job_status = JobRunning | JobFinished | JobFailed | JobUnknown

section \<open>The action protocol\<close>

datatype train_error = TrainConnection string | TrainOther string

datatype aggregate_error = AggregateConnection string | AggregateOther string

type_synonym metrics_map = "string \<rightharpoonup> float"

datatype train_status =
    Joined
  | TrainIdle
  | BatchCompleted u32 u32
  | SentUpdate u32 metrics_map
  | AppliedUpdate
  | PushedToHub
  | SentModel
  | ReceivedModel
  | WaitedForModel
  | TrainTerminated
  | TrainErrorStatus train_error

datatype aggregate_status =
    AggregateIdle
  | AggregatedUpdates "metrics_map option"
  | BroadcastedUpdate "metrics_map option"
  | AggregateTerminated
  | AggregateErrorStatus aggregate_error

datatype executor_status = TrainStatus train_status | AggregateStatus aggregate_status

datatype train_action =
    Idle system_time
  | WaitForModel system_time
  | ReceiveModel reference system_time
  | SendModel reference
  | ExecuteBatch u32
  | SendUpdate reference float
  | ApplyUpdate reference system_time
  | PushToHub string string
  | Terminate

datatype aggregate_action =
    IdleAggregate system_time
  | AggregateUpdates reference
  | BroadcastUpdate reference
  | TerminateAggregate

datatype executor_action = TrainAction train_action | AggregateAction aggregate_action

record action_request =
  areq_job_id :: uuid
  areq_status :: executor_status

record action_response =
  aresp_job_id :: uuid
  aresp_next :: executor_action

section \<open>The request protocols\<close>

record worker_request =
  wr_id :: uuid
  wr_spec :: worker_spec
  wr_timeout :: system_time
  wr_bid :: float

record worker_offer =
  wo_id :: uuid
  wo_request_id :: uuid
  wo_price :: float
  wo_resources :: resources
  wo_timeout :: system_time

datatype renew_response = Renewed uuid system_time | RenewNotFound | RenewForbidden | RenewFailed

datatype dispatch_response = Dispatched uuid system_time | DispatchFailed

datatype data_response = DataSuccess "peer_id list" u64 | DataNotFound | DataError string

datatype parameter_pull_response = PullSuccess u64 uuid | PullNotFound | PullError string

datatype parameter_push_response = PushSuccess u64 | PushError string

datatype data_record_response = RecordSuccess "u64 list" | RecordNotFound | RecordError string

datatype api_request =
    WorkerOfferReq worker_offer
  | RenewLeaseReq uuid
  | JobStatusReq uuid job_status
  | DispatchJobReq uuid job_spec
  | ParameterPullReq uuid string "u64 option"
  | ParameterPushReq uuid string "u64 option" uuid u64
  | DataReq string

datatype api_response =
    WorkerOfferResp
  | RenewLeaseResp renew_response
  | JobStatusResp
  | DispatchJobResp dispatch_response
  | ParameterPullResp parameter_pull_response
  | ParameterPushResp parameter_push_response
  | DataResp data_response

section \<open>Properties\<close>

text \<open>
  A \<^verbatim>\<open>Receive\<close> that came out of the checked conversion never panics: the conversion accepts
  exactly the peer lists with the strategy \<^verbatim>\<open>All\<close>, keeps the reference, and \<^verbatim>\<open>get_peers\<close> on its result
  returns the list. \<^verbatim>\<open>Send\<close> accepts every peer list, so it accepts whatever \<^verbatim>\<open>Receive\<close> does.
\<close>

lemma receive_conversion_safe:
  "(case receive_try_from r of
      Inr v \<Rightarrow> receive_reference v = r \<and> (\<exists>ps d. r = Peers ps StrategyAll d \<and> get_peers v = Some ps)
        \<and> send_try_from r = Inr (Send r)
    | Inl _ \<Rightarrow> \<not> (\<exists>ps d. r = Peers ps StrategyAll d))
   \<and> receive_try_from (receive_reference (receive_peers ps)) = Inr (receive_peers ps)
   \<and> get_peers (receive_peers ps) = Some ps
   \<and> send_try_from (send_reference (send_peers ps s)) = Inr (send_peers ps s)"
  by (auto simp: receive_try_from_def send_try_from_def receive_peers_def send_peers_def
      split: reference.splits selection_strategy.splits sum.splits)

end
