(* ===== verification/Lease_Manager.thy ===== *)
theory Lease_Manager
  imports Leases Resource_Manager Messages
begin

text \<open>
  The worker's \<^verbatim>\<open>ResourceLeaseManager\<close> (\<^verbatim>\<open>crates/worker/src/lease_manager.rs\<close>): it couples the ledger
  of leases with the resource manager, so that every lease holds one reservation. The operations
  are the source's, composed of the ledger's and the manager's; the second half of the theory runs
  them at the granularity of the two locks, where other tasks interleave.
\<close>

section \<open>State and operations\<close>

datatype lease_error = ResourcesReservation manager_error | LedgerError ledger_error

record resource_lease =
  lease_peer :: peer_id
  reservation :: uuid

record lease_manager =
  resource_manager :: manager
  ledger :: "resource_lease ledger"

definition lease_manager_new :: "manager \<Rightarrow> lease_manager" where
  "lease_manager_new m = \<lparr>resource_manager = m, ledger = ledger_new\<rparr>"

definition lm_request ::
    "uuid list \<Rightarrow> uuid \<Rightarrow> uuid \<Rightarrow> system_time \<Rightarrow> peer_id \<Rightarrow> worker_spec \<Rightarrow> duration \<Rightarrow> lease_manager
      \<Rightarrow> (lease_error + resource_lease lease) \<times> lease_manager" where
  "lm_request ks rid lid now peer spec d s =
     (case reserve ks (resource_manager s) ks rid (spec_resources spec) (resource_manager s) of
        (Inl e, m) \<Rightarrow> (Inl (ResourcesReservation e), s\<lparr>resource_manager := m\<rparr>)
      | (Inr r, m) \<Rightarrow>
          (case ledger_insert lid now \<lparr>lease_peer = peer, reservation = r\<rparr> d (ledger s) of
             (Inr l, L) \<Rightarrow> (Inr l, s\<lparr>resource_manager := m, ledger := L\<rparr>)
           | (Inl e, L) \<Rightarrow>
               (case release r m of
                  (Inl e', m') \<Rightarrow> (Inl (ResourcesReservation e'), s\<lparr>resource_manager := m', ledger := L\<rparr>)
                | (Inr _, m') \<Rightarrow> (Inl (LedgerError e), s\<lparr>resource_manager := m', ledger := L\<rparr>))))"

definition lm_get :: "uuid \<Rightarrow> lease_manager \<Rightarrow> lease_error + resource_lease lease" where
  "lm_get lid s = (case ledger_get lid (ledger s) of Inl e \<Rightarrow> Inl (LedgerError e) | Inr l \<Rightarrow> Inr l)"

text \<open>The error of a missing peer carries a made-up identifier, drawn like any other.\<close>

definition lm_get_by_peer ::
    "uuid list \<Rightarrow> uuid \<Rightarrow> peer_id \<Rightarrow> lease_manager \<Rightarrow> lease_error + resource_lease lease" where
  "lm_get_by_peer ks dummy peer s =
     (case List.find (\<lambda>l. lease_peer (leasable l) = peer) (ledger_list ks (ledger s)) of
        Some l \<Rightarrow> Inr l
      | None \<Rightarrow> Inl (LedgerError (LeaseNotFound dummy)))"

definition lm_remove ::
    "uuid \<Rightarrow> lease_manager \<Rightarrow> (lease_error + resource_lease lease) \<times> lease_manager" where
  "lm_remove lid s =
     (case ledger_remove lid (ledger s) of
        (Inl e, L) \<Rightarrow> (Inl (LedgerError e), s\<lparr>ledger := L\<rparr>)
      | (Inr l, L) \<Rightarrow>
          (case release (reservation (leasable l)) (resource_manager s) of
             (Inl e, m) \<Rightarrow> (Inl (ResourcesReservation e), s\<lparr>ledger := L, resource_manager := m\<rparr>)
           | (Inr _, m) \<Rightarrow> (Inr l, s\<lparr>ledger := L, resource_manager := m\<rparr>)))"

definition lm_renew ::
    "uuid \<Rightarrow> system_time \<Rightarrow> duration \<Rightarrow> lease_manager
      \<Rightarrow> (lease_error + resource_lease lease) \<times> lease_manager" where
  "lm_renew lid now d s =
     (case ledger_renew lid now d (ledger s) of
        (Inl e, L) \<Rightarrow> (Inl (LedgerError e), s\<lparr>ledger := L\<rparr>)
      | (Inr l, L) \<Rightarrow> (Inr l, s\<lparr>ledger := L\<rparr>))"

text \<open>The loop of \<^verbatim>\<open>proceed\<close>: a lease that is gone already is skipped, another error ends it.\<close>

fun proceed_loop ::
    "resource_lease lease list \<Rightarrow> resource_lease lease list \<Rightarrow> lease_manager
      \<Rightarrow> (lease_error + resource_lease lease list) \<times> lease_manager" where
  "proceed_loop [] removed s = (Inr removed, s)"
| "proceed_loop (l # ls) removed s =
     (case lm_remove (lease_id l) s of
        (Inr l', s') \<Rightarrow> proceed_loop ls (removed @ [l']) s'
      | (Inl (LedgerError (LeaseNotFound _)), s') \<Rightarrow> proceed_loop ls removed s'
      | (Inl e, s') \<Rightarrow> (Inl e, s'))"

definition lm_proceed ::
    "uuid list \<Rightarrow> system_time \<Rightarrow> lease_manager
      \<Rightarrow> (lease_error + resource_lease lease list) \<times> lease_manager" where
  "lm_proceed ks now s = proceed_loop (ledger_list_expired ks now (ledger s)) [] s"

section \<open>The coupling invariant\<close>

text \<open>
  Leases and reservations correspond one to one, apart from a set of reservations that some
  operation in flight still holds without a lease.
\<close>

definition coupled :: "uuid set \<Rightarrow> resource_lease ledger \<Rightarrow> (uuid \<rightharpoonup> resources) \<Rightarrow> bool" where
  "coupled X L B \<longleftrightarrow> ledger_ok L \<and> finite (dom L)
     \<and> inj_on (\<lambda>l. reservation (leasable l)) (ran L)
     \<and> X \<inter> (\<lambda>l. reservation (leasable l)) ` ran L = {}
     \<and> dom B = X \<union> (\<lambda>l. reservation (leasable l)) ` ran L"

definition lm_ok :: "int \<Rightarrow> lease_manager \<Rightarrow> bool" where
  "lm_ok g s \<longleftrightarrow> manager_ok g (resource_manager s) \<and> coupled {} (ledger s) (reservations (resource_manager s))"

lemma coupled_insert:
  assumes "coupled X L B" and "r \<in> X" and "lid \<notin> dom L" and "reservation x = r"
  shows "coupled (X - {r}) (L(lid \<mapsto> \<lparr>lease_id = lid, leasable = x, timeout = t\<rparr>)) B"
proof -
  let ?l = "\<lparr>lease_id = lid, leasable = x, timeout = t\<rparr>"
  let ?f = "\<lambda>l. reservation (leasable l)"
  have ran: "ran (L(lid \<mapsto> ?l)) = insert ?l (ran L)" using assms(3) by (simp add: domIff)
  have r: "r \<notin> ?f ` ran L" "?f ?l = r" using assms by (auto simp: coupled_def)
  have "inj_on ?f (insert ?l (ran L))"
    using assms(1) r by (auto simp: coupled_def inj_on_insert)
  moreover have "ledger_ok (L(lid \<mapsto> ?l))" using assms(1) by (simp add: coupled_def ledger_ok_def)
  moreover have "(X - {r}) \<inter> insert r (?f ` ran L) = {}" "dom B = (X - {r}) \<union> insert r (?f ` ran L)"
    using assms(1,2) r by (auto simp: coupled_def)
  ultimately show ?thesis
    using assms(1) r(2) unfolding coupled_def ran by simp
qed

lemma ran_delete:
  assumes "ledger_ok L" and "L lid = Some l"
  shows "ran (L(lid := None)) = ran L - {l}"
proof (rule set_eqI)
  fix x
  have "x \<in> ran (L(lid := None)) \<longleftrightarrow> (\<exists>k. k \<noteq> lid \<and> L k = Some x)" by (auto simp: ran_def)
  also have "\<dots> \<longleftrightarrow> (\<exists>k. L k = Some x \<and> x \<noteq> l)"
    using assms by (metis ledger_ok_def option.inject)
  finally show "x \<in> ran (L(lid := None)) \<longleftrightarrow> x \<in> ran L - {l}" by (auto simp: ran_def)
qed

lemma coupled_remove:
  assumes "coupled X L B" and "L lid = Some l"
  shows "coupled (insert (reservation (leasable l)) X) (L(lid := None)) B"
proof -
  have l: "l \<in> ran L" using assms(2) by (rule ranI)
  have ran: "ran (L(lid := None)) = ran L - {l}"
    using assms by (intro ran_delete) (auto simp: coupled_def)
  have inj: "inj_on (\<lambda>l. reservation (leasable l)) (ran L)" using assms(1) by (simp add: coupled_def)
  have "(\<lambda>l. reservation (leasable l)) ` (ran L - {l}) =
      (\<lambda>l. reservation (leasable l)) ` ran L - {reservation (leasable l)}"
    using inj l by (auto simp: inj_on_def)
  then show ?thesis using assms l ran inj
    by (auto simp: coupled_def ledger_ok_def intro: inj_on_subset)
qed

lemma coupled_renew:
  assumes "coupled X L B" and "L lid = Some l"
  shows "coupled X (L(lid \<mapsto> l\<lparr>timeout := t\<rparr>)) B"
proof -
  have ok: "ledger_ok L" using assms(1) by (simp add: coupled_def)
  have "ran (L(lid \<mapsto> l\<lparr>timeout := t\<rparr>)) = insert (l\<lparr>timeout := t\<rparr>) (ran L - {l})"
    using ran_delete [OF ok assms(2)] by (auto simp: ran_def split: if_splits)
  moreover have "l \<in> ran L" using assms(2) by (rule ranI)
  ultimately show ?thesis using assms
    by (auto simp: coupled_def ledger_ok_def inj_on_def)
qed

lemma coupled_release:
  assumes "coupled X L B" and "r \<in> X"
  shows "coupled (X - {r}) L (B(r := None))"
  using assms by (auto simp: coupled_def)

lemma coupled_reserve:
  assumes "coupled X L B" and "r \<notin> dom B"
  shows "coupled (insert r X) L (B(r \<mapsto> q))"
  using assms by (auto simp: coupled_def)

section \<open>The operations keep the invariant\<close>

lemma lm_request_cases:
  "lm_request ks rid lid now peer spec d s =
     (case reserve ks (resource_manager s) ks rid (spec_resources spec) (resource_manager s) of
        (Inl e, m) \<Rightarrow> (Inl (ResourcesReservation e), s\<lparr>resource_manager := m\<rparr>)
      | (Inr r, m) \<Rightarrow>
          let l = \<lparr>lease_id = lid, leasable = \<lparr>lease_peer = peer, reservation = r\<rparr>, timeout = now + d\<rparr>
          in (Inr l, s\<lparr>resource_manager := m, ledger := (ledger s)(lid \<mapsto> l)\<rparr>))"
  by (auto simp: lm_request_def ledger_insert_def Let_def split: prod.splits sum.splits)

lemma lm_ok_request:
  assumes "lm_ok g s" and "hash_order ks (reservations (resource_manager s))"
    and "request_ok g (spec_resources spec)"
    and "rid \<notin> dom (reservations (resource_manager s))" and "lid \<notin> dom (ledger s)"
    and "lm_request ks rid lid now peer spec d s = (res, s')"
  shows "lm_ok g s'"
proof -
  let ?m = "resource_manager s"
  obtain out m' where rsv: "reserve ks ?m ks rid (spec_resources spec) ?m = (out, m')" by force
  have m': "manager_ok g m'"
    using assms(1-4) rsv by (intro manager_ok_reserve [OF _ _ _ _ rsv]) (auto simp: lm_ok_def)
  show ?thesis
  proof (cases out)
    case (Inl e)
    then show ?thesis using assms(1,6) rsv
      by (auto simp: lm_request_cases lm_ok_def reserve_def split: if_splits)
  next
    case (Inr r)
    let ?x = "\<lparr>lease_peer = peer, reservation = rid\<rparr>"
    have r: "r = rid" and mr: "reservations m' = (reservations ?m)(rid \<mapsto> spec_resources spec)"
      using Inr rsv by (auto simp: reserve_def split: if_splits)
    have "coupled {rid} (ledger s) (reservations m')"
      using assms(1,4) coupled_reserve [of "{}" "ledger s" "reservations ?m" rid "spec_resources spec"]
      by (simp add: mr lm_ok_def)
    then have "coupled ({rid} - {rid}) ((ledger s)(lid \<mapsto> \<lparr>lease_id = lid, leasable = ?x,
        timeout = now + d\<rparr>)) (reservations m')"
      by (rule coupled_insert) (use assms(5) in auto)
    then show ?thesis using assms(6) rsv Inr r m' by (auto simp: lm_request_cases lm_ok_def Let_def)
  qed
qed

text \<open>The two outcomes of a request, in terms of what is free.\<close>

lemma lm_request_fits:
  assumes "lm_ok g s" and "hash_order ks (reservations (resource_manager s))"
    and "request_ok g (spec_resources spec)"
    and "\<forall>c. reserved c (resource_manager s) + fval (rcomp c (spec_resources spec))
      \<le> fval (rcomp c (compute (resource_manager s)))"
  shows "lm_request ks rid lid now peer spec d s =
    (let l = \<lparr>lease_id = lid, leasable = \<lparr>lease_peer = peer, reservation = rid\<rparr>, timeout = now + d\<rparr>
     in (Inr l, s\<lparr>resource_manager := (resource_manager s)\<lparr>reservations :=
           (reservations (resource_manager s))(rid \<mapsto> spec_resources spec)\<rparr>,
         ledger := (ledger s)(lid \<mapsto> l)\<rparr>))"
proof -
  have "manager_ok g (resource_manager s)" using assms(1) by (simp add: lm_ok_def)
  then have "res_ge (compute_resources ks (resource_manager s)) (spec_resources spec)"
    using res_ge_available assms(2-4) by blast
  then show ?thesis by (simp add: lm_request_cases reserve_def)
qed

lemma lm_request_rejects:
  assumes "lm_ok g s" and "hash_order ks (reservations (resource_manager s))"
    and "request_ok g (spec_resources spec)"
    and "\<not> (\<forall>c. reserved c (resource_manager s) + fval (rcomp c (spec_resources spec))
      \<le> fval (rcomp c (compute (resource_manager s))))"
  shows "lm_request ks rid lid now peer spec d s = (Inl (ResourcesReservation InsufficientResources), s)"
proof -
  have "manager_ok g (resource_manager s)" using assms(1) by (simp add: lm_ok_def)
  then have "\<not> res_ge (compute_resources ks (resource_manager s)) (spec_resources spec)"
    using res_ge_available assms(2-4) by blast
  then show ?thesis by (simp add: lm_request_cases reserve_def)
qed

section \<open>Leases over any invariant of the resource manager\<close>

definition drop_lease :: "resource_lease lease \<Rightarrow> lease_manager \<Rightarrow> lease_manager" where
  "drop_lease l s = s\<lparr>ledger := (ledger s)(lease_id l := None),
     resource_manager := (resource_manager s)\<lparr>reservations :=
       (reservations (resource_manager s))(reservation (leasable l) := None)\<rparr>\<rparr>"

lemma lm_remove_None:
  "ledger s lid = None \<Longrightarrow> lm_remove lid s = (Inl (LedgerError (LeaseNotFound lid)), s)"
  by (simp add: lm_remove_def ledger_remove_def)

lemma ledger_drop_leases:
  "ledger (foldl (\<lambda>s l. drop_lease l s) s ls) = (\<lambda>k. if k \<in> lease_id ` set ls then None else ledger s k)"
  by (induction ls arbitrary: s) (simp_all add: drop_lease_def fun_eq_iff)

lemma reservations_drop_leases:
  "reservations (resource_manager (foldl (\<lambda>s l. drop_lease l s) s ls)) =
     (\<lambda>r. if r \<in> (\<lambda>l. reservation (leasable l)) ` set ls then None else reservations (resource_manager s) r)"
  by (induction ls arbitrary: s) (simp_all add: drop_lease_def fun_eq_iff)

text \<open>
  What the operations do to the leases does not depend on the quantities. The contract asks of an
  invariant of the resource manager only that releasing keeps it; the lemmas on removal, renewal
  and expiry then hold with it.
\<close>

locale lease_ops =
  fixes I :: "manager \<Rightarrow> bool"
  assumes I_release: "I m \<Longrightarrow> release rid m = (out, m') \<Longrightarrow> I m'"
begin

definition holds :: "lease_manager \<Rightarrow> bool" where
  "holds s \<longleftrightarrow> I (resource_manager s) \<and> coupled {} (ledger s) (reservations (resource_manager s))"

lemma lease_of:
  assumes "holds s" and "ledger s lid = Some l"
  shows "lease_id l = lid" and "\<exists>q. reservations (resource_manager s) (reservation (leasable l)) = Some q"
proof -
  show "lease_id l = lid" using assms by (auto simp: holds_def coupled_def ledger_ok_def)
  have "reservation (leasable l) \<in> dom (reservations (resource_manager s))"
    using assms ranI [of "ledger s" lid l] by (auto simp: holds_def coupled_def)
  then show "\<exists>q. reservations (resource_manager s) (reservation (leasable l)) = Some q" by auto
qed

lemma remove_Some:
  assumes "holds s" and "ledger s lid = Some l"
  shows "lm_remove lid s = (Inr l, drop_lease l s)" and "holds (drop_lease l s)"
proof -
  obtain q where q: "reservations (resource_manager s) (reservation (leasable l)) = Some q"
    and lid: "lease_id l = lid" using lease_of [OF assms] by blast
  show "lm_remove lid s = (Inr l, drop_lease l s)"
    using assms(2) q lid by (simp add: lm_remove_def ledger_remove_def release_def drop_lease_def)
  have "coupled {reservation (leasable l)} ((ledger s)(lid := None)) (reservations (resource_manager s))"
    using assms by (intro coupled_remove) (auto simp: holds_def)
  then have "coupled {} ((ledger s)(lid := None))
      ((reservations (resource_manager s))(reservation (leasable l) := None))"
    using coupled_release [of "{reservation (leasable l)}"] by fastforce
  moreover have "I (snd (release (reservation (leasable l)) (resource_manager s)))"
    using assms(1) by (intro I_release [OF _ prod.collapse [symmetric]]) (simp add: holds_def)
  ultimately show "holds (drop_lease l s)"
    using q lid by (simp add: holds_def drop_lease_def release_def)
qed

lemma holds_renew:
  assumes "holds s" and "lm_renew lid now d s = (res, s')"
  shows "holds s'"
  using assms coupled_renew [of "{}" "ledger s" _ lid]
  by (auto simp: lm_renew_def ledger_renew_def holds_def Let_def split: option.splits)

lemma holds_remove: "holds s \<Longrightarrow> lm_remove lid s = (res, s') \<Longrightarrow> holds s'"
  by (cases "ledger s lid") (auto simp: lm_remove_None remove_Some)

lemma proceed_all:
  assumes "holds s" and "set ls \<subseteq> ran (ledger s)" and "distinct (map lease_id ls)"
  shows "proceed_loop ls removed s = (Inr (removed @ ls), foldl (\<lambda>s l. drop_lease l s) s ls)
    \<and> holds (foldl (\<lambda>s l. drop_lease l s) s ls)"
  using assms
proof (induction ls arbitrary: s removed)
  case (Cons l ls)
  from Cons.prems(2) obtain k where k: "ledger s k = Some l" by (auto simp: ran_def)
  then have l: "ledger s (lease_id l) = Some l" using lease_of(1) [OF Cons.prems(1) k] by simp
  note rem = remove_Some [OF Cons.prems(1) l]
  have "ledger_ok (ledger s)" using Cons.prems(1) by (simp add: holds_def coupled_def)
  then have "ran (ledger (drop_lease l s)) = ran (ledger s) - {l}"
    using l by (simp add: drop_lease_def ran_delete)
  moreover have "l \<notin> set ls" using Cons.prems(3) by auto
  ultimately have "set ls \<subseteq> ran (ledger (drop_lease l s))" using Cons.prems(2) by auto
  then show ?case using Cons.IH [OF rem(2), of "removed @ [l]"] Cons.prems(3) rem(1) by simp
qed simp

lemma proceed_run:
  assumes "holds s" and "hash_order ks (ledger s)"
  shows "lm_proceed ks now s = (Inr (ledger_list_expired ks now (ledger s)),
      foldl (\<lambda>s l. drop_lease l s) s (ledger_list_expired ks now (ledger s)))
    \<and> holds (foldl (\<lambda>s l. drop_lease l s) s (ledger_list_expired ks now (ledger s)))"
proof -
  have "ledger_ok (ledger s)" using assms(1) by (simp add: holds_def coupled_def)
  with assms(2) have d: "distinct (map lease_id (ledger_list_expired ks now (ledger s)))"
    by (rule distinct_expired)
  have "set (ledger_list_expired ks now (ledger s)) \<subseteq> ran (ledger s)"
    using set_ledger_list_expired [OF assms(2)] by auto
  from proceed_all [OF assms(1) this d, of "[]"] show ?thesis by (simp add: lm_proceed_def)
qed

lemma proceed_ledger:
  assumes "holds s" and "hash_order ks (ledger s)" and "lm_proceed ks now s = (res, s')"
  shows "ledger s' k = Some l \<longleftrightarrow> ledger s k = Some l \<and> \<not> is_expired now l"
proof -
  have lid: "\<And>l. ledger s k = Some l \<Longrightarrow> lease_id l = k" by (rule lease_of(1) [OF assms(1)])
  have "k \<in> lease_id ` set (ledger_list_expired ks now (ledger s)) \<longleftrightarrow>
      (\<exists>l. ledger s k = Some l \<and> is_expired now l)"
  proof
    assume "k \<in> lease_id ` set (ledger_list_expired ks now (ledger s))"
    then obtain l k' where "ledger s k' = Some l" "is_expired now l" "lease_id l = k"
      by (auto simp: set_ledger_list_expired [OF assms(2)] ran_def)
    then show "\<exists>l. ledger s k = Some l \<and> is_expired now l"
      using lease_of(1) [OF assms(1), of k' l] by auto
  next
    assume "\<exists>l. ledger s k = Some l \<and> is_expired now l"
    then show "k \<in> lease_id ` set (ledger_list_expired ks now (ledger s))"
      using lid by (force simp: set_ledger_list_expired [OF assms(2)] intro: ranI)
  qed
  then show ?thesis using proceed_run [OF assms(1,2), of now] assms(3)
    by (auto simp: ledger_drop_leases)
qed

end

interpretation any: lease_ops "\<lambda>_. True"
  by unfold_locales simp

interpretation exact: lease_ops "manager_ok g" for g
  by unfold_locales (rule manager_ok_release)

interpretation fit: lease_ops "manager_fits N" for N
  by unfold_locales (rule manager_fits_release)

lemma lm_ok_holds: "lm_ok g s \<longleftrightarrow> exact.holds g s"
  by (simp add: lm_ok_def exact.holds_def)

text \<open>The instance for the quantities the accounting is exact for.\<close>

lemma lease_reservation:
  assumes "lm_ok g s" and "ledger s lid = Some l"
  shows "lease_id l = lid" and "\<exists>q. reservations (resource_manager s) (reservation (leasable l)) = Some q"
  using exact.lease_of [OF assms [unfolded lm_ok_holds]] by (simp_all add: lm_ok_holds)

lemma lm_remove_Some:
  assumes "lm_ok g s" and "ledger s lid = Some l"
  shows "lm_remove lid s = (Inr l, drop_lease l s)" and "lm_ok g (drop_lease l s)"
  using exact.remove_Some [OF assms [unfolded lm_ok_holds]] by (simp_all add: lm_ok_holds)

lemma lm_ok_renew:
  assumes "lm_ok g s" and "lm_renew lid now d s = (res, s')"
  shows "lm_ok g s'"
  using exact.holds_renew [OF assms [unfolded lm_ok_holds]] by (simp add: lm_ok_holds)

lemma lm_ok_remove: "lm_ok g s \<Longrightarrow> lm_remove lid s = (res, s') \<Longrightarrow> lm_ok g s'"
  unfolding lm_ok_holds by (rule exact.holds_remove)

lemma proceed_loop_all:
  assumes "lm_ok g s" and "set ls \<subseteq> ran (ledger s)" and "distinct (map lease_id ls)"
  shows "proceed_loop ls removed s = (Inr (removed @ ls), foldl (\<lambda>s l. drop_lease l s) s ls)
    \<and> lm_ok g (foldl (\<lambda>s l. drop_lease l s) s ls)"
  using exact.proceed_all [OF assms [unfolded lm_ok_holds]] by (simp add: lm_ok_holds)

lemma lm_proceed_run:
  assumes "lm_ok g s" and "hash_order ks (ledger s)"
  shows "lm_proceed ks now s = (Inr (ledger_list_expired ks now (ledger s)),
      foldl (\<lambda>s l. drop_lease l s) s (ledger_list_expired ks now (ledger s)))
    \<and> lm_ok g (foldl (\<lambda>s l. drop_lease l s) s (ledger_list_expired ks now (ledger s)))"
  using exact.proceed_run [OF assms [unfolded lm_ok_holds]] by (simp add: lm_ok_holds)

lemma lm_proceed_ledger:
  assumes "lm_ok g s" and "hash_order ks (ledger s)" and "lm_proceed ks now s = (res, s')"
  shows "ledger s' k = Some l \<longleftrightarrow> ledger s k = Some l \<and> \<not> is_expired now l"
  using exact.proceed_ledger [OF assms [unfolded lm_ok_holds]] by (simp add: lm_ok_holds)

section \<open>Lock granularity\<close>

text \<open>
  The two maps have a lock each, and an operation holds one at a time. The state of the relation
  below adds the reservations some request holds before its lease is filed (\<open>booking\<close>) and those of
  leases already removed whose release is still to come (\<open>releasing\<close>); the steps are the critical
  sections. A reservation decides with a first check on any earlier state.
\<close>

record lm_sys =
  core :: lease_manager
  booking :: "uuid set"
  releasing :: "uuid set"

inductive lm_step :: "int \<Rightarrow> lm_sys \<Rightarrow> lm_sys \<Rightarrow> bool" for g where
  lock_reserve: "request_ok g req \<Longrightarrow> rid \<notin> dom (reservations (resource_manager (core s))) \<Longrightarrow>
     hash_order ks (reservations (resource_manager (core s))) \<Longrightarrow>
     reserve ks0 m0 ks rid req (resource_manager (core s)) = (Inr r, m) \<Longrightarrow>
     lm_step g s (s\<lparr>core := (core s)\<lparr>resource_manager := m\<rparr>, booking := insert r (booking s)\<rparr>)"
| lock_insert: "r \<in> booking s \<Longrightarrow> lid \<notin> dom (ledger (core s)) \<Longrightarrow>
     ledger_insert lid now \<lparr>lease_peer = p, reservation = r\<rparr> d (ledger (core s)) = (Inr l, L) \<Longrightarrow>
     lm_step g s (s\<lparr>core := (core s)\<lparr>ledger := L\<rparr>, booking := booking s - {r}\<rparr>)"
| lock_remove: "ledger_remove lid (ledger (core s)) = (Inr l, L) \<Longrightarrow>
     lm_step g s (s\<lparr>core := (core s)\<lparr>ledger := L\<rparr>,
       releasing := insert (reservation (leasable l)) (releasing s)\<rparr>)"
| lock_release: "r \<in> releasing s \<Longrightarrow>
     release r (resource_manager (core s)) = (out, m) \<Longrightarrow>
     lm_step g s (s\<lparr>core := (core s)\<lparr>resource_manager := m\<rparr>, releasing := releasing s - {r}\<rparr>)"
| lock_renew: "ledger_renew lid now d (ledger (core s)) = (Inr l, L) \<Longrightarrow>
     lm_step g s (s\<lparr>core := (core s)\<lparr>ledger := L\<rparr>\<rparr>)"

definition lm_sys_ok :: "int \<Rightarrow> lm_sys \<Rightarrow> bool" where
  "lm_sys_ok g s \<longleftrightarrow> manager_ok g (resource_manager (core s)) \<and> booking s \<inter> releasing s = {}
     \<and> coupled (booking s \<union> releasing s) (ledger (core s)) (reservations (resource_manager (core s)))"

lemma lm_step_ok:
  assumes "lm_step g s s'" and "lm_sys_ok g s"
  shows "lm_sys_ok g s'"
  using assms
proof (induction rule: lm_step.induct)
  case (lock_reserve req rid s ks ks0 m0 r m)
  have m: "manager_ok g m"
    by (rule manager_ok_reserve [OF _ lock_reserve(3,1,2,4)]) (use lock_reserve in \<open>simp add: lm_sys_ok_def\<close>)
  have r: "r = rid" and B: "reservations m = (reservations (resource_manager (core s)))(rid \<mapsto> req)"
    using lock_reserve(4) by (auto simp: reserve_def split: if_splits)
  have "coupled (insert rid (booking s \<union> releasing s)) (ledger (core s)) (reservations m)"
    unfolding B using lock_reserve by (intro coupled_reserve) (auto simp: lm_sys_ok_def)
  moreover have "rid \<notin> releasing s" using lock_reserve by (auto simp: lm_sys_ok_def coupled_def)
  ultimately show ?case using m r lock_reserve by (auto simp: lm_sys_ok_def)
next
  case (lock_insert r s lid now p d l L)
  from lock_insert(3) have L: "L = (ledger (core s))(lid \<mapsto>
      \<lparr>lease_id = lid, leasable = \<lparr>lease_peer = p, reservation = r\<rparr>, timeout = now + d\<rparr>)"
    by (auto simp: ledger_insert_def Let_def)
  have "coupled (booking s \<union> releasing s - {r}) L (reservations (resource_manager (core s)))"
    unfolding L by (rule coupled_insert) (use lock_insert in \<open>simp_all add: lm_sys_ok_def\<close>)
  moreover have "booking s \<union> releasing s - {r} = booking s - {r} \<union> releasing s"
    using lock_insert by (auto simp: lm_sys_ok_def)
  ultimately show ?case using lock_insert by (auto simp: lm_sys_ok_def)
next
  case (lock_remove lid s l L)
  then have L: "ledger (core s) lid = Some l" "L = (ledger (core s))(lid := None)"
    by (auto simp: ledger_remove_def split: option.splits)
  have "reservation (leasable l) \<notin> booking s"
    using lock_remove(2) ranI [of "ledger (core s)", OF L(1)] by (auto simp: lm_sys_ok_def coupled_def)
  moreover have "coupled (insert (reservation (leasable l)) (booking s \<union> releasing s)) L
      (reservations (resource_manager (core s)))"
    unfolding L(2) using lock_remove(2) L(1) by (intro coupled_remove) (auto simp: lm_sys_ok_def)
  ultimately show ?case using lock_remove(2) by (auto simp: lm_sys_ok_def)
next
  case (lock_release r s out m)
  have m: "manager_ok g m"
    by (rule manager_ok_release [OF _ lock_release(2)]) (use lock_release in \<open>simp add: lm_sys_ok_def\<close>)
  have "r \<in> dom (reservations (resource_manager (core s)))"
    using lock_release by (auto simp: lm_sys_ok_def coupled_def)
  then have B: "reservations m = (reservations (resource_manager (core s)))(r := None)"
    using lock_release(2) by (auto simp: release_def)
  have "coupled (booking s \<union> releasing s - {r}) (ledger (core s)) (reservations m)"
    unfolding B using lock_release by (intro coupled_release) (auto simp: lm_sys_ok_def)
  moreover have "booking s \<union> releasing s - {r} = booking s \<union> (releasing s - {r})"
    using lock_release by (auto simp: lm_sys_ok_def)
  ultimately show ?case using m lock_release by (auto simp: lm_sys_ok_def)
next
  case (lock_renew lid now d s l L)
  then obtain l0 where "ledger (core s) lid = Some l0"
    "L = (ledger (core s))(lid \<mapsto> l0\<lparr>timeout := now + d\<rparr>)"
    by (auto simp: ledger_renew_def Let_def split: option.splits)
  then show ?case using lock_renew coupled_renew by (auto simp: lm_sys_ok_def)
qed

lemma lm_steps_ok: "(lm_step g)\<^sup>*\<^sup>* s s' \<Longrightarrow> lm_sys_ok g s \<Longrightarrow> lm_sys_ok g s'"
  by (induction rule: rtranclp_induct) (auto intro: lm_step_ok)

section \<open>Properties\<close>

text \<open>A worker whose second processor is leased, for the witnesses.\<close>

definition leased_lm :: lease_manager where
  "leased_lm = \<lparr>resource_manager = two_cpus, ledger =
     [3 \<mapsto> \<lparr>lease_id = 3, leasable = \<lparr>lease_peer = 5, reservation = 7\<rparr>, timeout = 100\<rparr>]\<rparr>"

lemma lm_ok_leased: "lm_ok 0 leased_lm"
  using manager_ok_two_cpus by (simp add: lm_ok_def leased_lm_def coupled_def ledger_ok_def two_cpus_def)

text \<open>
  C5. A lease request is all or nothing and keeps leases and reservations in one to one
  correspondence: it grants a lease with the requested peer and timeout, backed by a reservation of
  the requested quantities, exactly when they fit what is free; otherwise it reports insufficient
  resources and neither map changes. The quantities are not negative and on one grid, so that what is free is exact.
\<close>

theorem lm_request_correct:
  assumes "lm_ok g s" and "hash_order ks (reservations (resource_manager s))"
    and "request_ok g (spec_resources spec)"
    and "rid \<notin> dom (reservations (resource_manager s))" and "lid \<notin> dom (ledger s)"
  shows "let l = \<lparr>lease_id = lid, leasable = \<lparr>lease_peer = peer, reservation = rid\<rparr>, timeout = now + d\<rparr>;
      m = resource_manager s; (res, s') = lm_request ks rid lid now peer spec d s
    in lm_ok g s' \<and>
      (if \<forall>c. reserved c m + fval (rcomp c (spec_resources spec)) \<le> fval (rcomp c (compute m))
       then res = Inr l \<and> ledger s' = (ledger s)(lid \<mapsto> l)
         \<and> reservations (resource_manager s') = (reservations m)(rid \<mapsto> spec_resources spec)
       else res = Inl (ResourcesReservation InsufficientResources) \<and> s' = s)"
proof (cases "\<forall>c. reserved c (resource_manager s) + fval (rcomp c (spec_resources spec))
      \<le> fval (rcomp c (compute (resource_manager s)))")
  case True
  show ?thesis
    using True lm_request_fits [OF assms(1-3) True, of rid lid now peer d] lm_ok_request [OF assms]
    by (auto simp: Let_def)
next
  case False
  then show ?thesis using assms(1) lm_request_rejects [OF assms(1-3) False, of rid lid now peer d]
    by (auto simp: Let_def)
qed

theorem lm_request_correct_witness:
  "let spec = \<lparr>spec_resources = cpus 1, spec_executors = []\<rparr>;
     (res, s') = lm_request [7] 8 4 10 6 spec 50 leased_lm
   in lm_ok 0 s' \<and> res = Inr \<lparr>lease_id = 4, leasable = \<lparr>lease_peer = 6, reservation = 8\<rparr>, timeout = 60\<rparr>"
proof -
  have "hash_order [7] (reservations (resource_manager leased_lm))"
    by (simp add: hash_order_def leased_lm_def two_cpus_def)
  note rq = lm_request_correct [OF lm_ok_leased this, of "\<lparr>spec_resources = cpus 1, spec_executors = []\<rparr>" 8 4]
  have "reserved c two_cpus = (if c = Cpu then 1 else 0)" for c
    by (simp add: reserved_def two_cpus_def)
  then show ?thesis
    using rq [of 6 10 50] request_ok_cpus [of 1]
    by (simp add: leased_lm_def two_cpus_def all_component cpus_def Let_def split: prod.splits)
qed

text \<open>
  Removing a lease frees exactly its reservation and never fails half way: a lease that is
  there is returned, it and its reservation are gone and everything else is untouched; a lease that
  is not there is an error that changes nothing. So the error for an unknown reservation, which
  would leave the lease removed and the quantities booked, cannot occur.
\<close>

lemma lm_remove_frees:
  assumes "lm_ok g s"
  shows "case ledger s lid of
      None \<Rightarrow> lm_remove lid s = (Inl (LedgerError (LeaseNotFound lid)), s)
    | Some l \<Rightarrow> fst (lm_remove lid s) = Inr l \<and> lm_ok g (snd (lm_remove lid s))
        \<and> ledger (snd (lm_remove lid s)) = (ledger s)(lid := None)
        \<and> reservations (resource_manager (snd (lm_remove lid s)))
            = (reservations (resource_manager s))(reservation (leasable l) := None)
        \<and> reservation (leasable l) \<in> dom (reservations (resource_manager s))"
proof (cases "ledger s lid")
  case (Some l)
  show ?thesis
    using Some lm_remove_Some [OF assms Some] lease_reservation [OF assms Some]
    by (auto simp: drop_lease_def)
qed (simp add: lm_remove_None)

lemma lm_remove_frees_witness:
  "fst (lm_remove 3 leased_lm) = Inr \<lparr>lease_id = 3, leasable = \<lparr>lease_peer = 5, reservation = 7\<rparr>, timeout = 100\<rparr>
   \<and> reservations (resource_manager (snd (lm_remove 3 leased_lm))) 7 = None"
  using lm_remove_frees [OF lm_ok_leased, of 3] by (simp add: leased_lm_def)

text \<open>
  Expiry is exact: \<^verbatim>\<open>proceed\<close> succeeds, returns the leases whose timeout has passed, each once,
  removes these leases and their reservations and nothing else, and keeps the invariant.
\<close>

lemma lm_proceed_exact:
  assumes "lm_ok g s" and "hash_order ks (ledger s)"
  shows "\<exists>ls s'. lm_proceed ks now s = (Inr ls, s') \<and> lm_ok g s' \<and> distinct (map lease_id ls)
    \<and> set ls = {l \<in> ran (ledger s). is_expired now l}
    \<and> ledger s' = (\<lambda>k. if k \<in> lease_id ` set ls then None else ledger s k)
    \<and> reservations (resource_manager s') = (\<lambda>r. if r \<in> (\<lambda>l. reservation (leasable l)) ` set ls then None
        else reservations (resource_manager s) r)"
proof -
  have "ledger_ok (ledger s)" using assms(1) by (simp add: lm_ok_def coupled_def)
  with assms(2) have d: "distinct (map lease_id (ledger_list_expired ks now (ledger s)))"
    by (rule distinct_expired)
  note run = lm_proceed_run [OF assms, of now]
  show ?thesis
    by (intro exI conjI, rule conjunct1 [OF run], rule conjunct2 [OF run], rule d,
        rule set_ledger_list_expired [OF assms(2)], rule ledger_drop_leases,
        rule reservations_drop_leases)
qed

lemma lm_proceed_exact_witness:
  "\<exists>ls s'. lm_proceed [3] 100 leased_lm = (Inr ls, s') \<and> lm_ok 0 s' \<and> ledger s' 3 = None
    \<and> reservations (resource_manager s') 7 = None"
proof -
  have "hash_order [3] (ledger leased_lm)" by (simp add: hash_order_def leased_lm_def)
  from lm_proceed_exact [OF lm_ok_leased this, of 100] obtain ls s' where
    ok: "lm_proceed [3] 100 leased_lm = (Inr ls, s')" "lm_ok 0 s'"
    and set: "set ls = {l \<in> ran (ledger leased_lm). is_expired 100 l}"
    and L: "ledger s' = (\<lambda>k. if k \<in> lease_id ` set ls then None else ledger leased_lm k)"
    and B: "reservations (resource_manager s') = (\<lambda>r. if r \<in> (\<lambda>l. reservation (leasable l)) ` set ls
      then None else reservations (resource_manager leased_lm) r)"
    by blast
  have "set ls = {\<lparr>lease_id = 3, leasable = \<lparr>lease_peer = 5, reservation = 7\<rparr>, timeout = 100\<rparr>}"
    unfolding set by (auto simp: leased_lm_def is_expired_def)
  with ok L B show ?thesis by simp
qed

text \<open>
  C2. No interleaving of the critical sections of requests, removals, renewals and expiries
  breaks the coupling: a reservation is always backed by exactly one lease or held by exactly one
  operation in flight, and a release in flight finds its reservation, so it frees it.
\<close>

theorem lm_interleavings_coupled:
  assumes "lm_ok g s" and "(lm_step g)\<^sup>*\<^sup>* \<lparr>core = s, booking = {}, releasing = {}\<rparr> s'"
  shows "manager_ok g (resource_manager (core s'))
    \<and> dom (reservations (resource_manager (core s'))) =
        booking s' \<union> releasing s' \<union> (\<lambda>l. reservation (leasable l)) ` ran (ledger (core s'))
    \<and> inj_on (\<lambda>l. reservation (leasable l)) (ran (ledger (core s')))
    \<and> booking s' \<inter> releasing s' = {}
    \<and> (\<forall>l. l \<in> ran (ledger (core s')) \<longrightarrow> reservation (leasable l) \<notin> booking s' \<union> releasing s')
    \<and> (booking s' = {} \<and> releasing s' = {} \<longrightarrow> lm_ok g (core s'))"
proof -
  have "lm_sys_ok g \<lparr>core = s, booking = {}, releasing = {}\<rparr>"
    using assms(1) by (simp add: lm_sys_ok_def lm_ok_def)
  from lm_steps_ok [OF assms(2) this] show ?thesis
    by (auto simp: lm_sys_ok_def lm_ok_def coupled_def)
qed

theorem lm_interleavings_coupled_witness:
  "\<exists>s'. lm_step 0 \<lparr>core = leased_lm, booking = {}, releasing = {}\<rparr> s' \<and> releasing s' = {7}
     \<and> dom (reservations (resource_manager (core s'))) = {7}"
proof -
  let ?s = "\<lparr>core = leased_lm, booking = {}, releasing = {}\<rparr>"
  let ?l = "\<lparr>lease_id = 3, leasable = \<lparr>lease_peer = 5, reservation = 7\<rparr>, timeout = 100\<rparr>"
  have "ledger_remove 3 (ledger (core ?s)) = (Inr ?l, (ledger leased_lm)(3 := None))"
    by (simp add: ledger_remove_def leased_lm_def)
  from lock_remove [OF this, of 0]
  have st: "lm_step 0 ?s (?s\<lparr>core := leased_lm\<lparr>ledger := (ledger leased_lm)(3 := None)\<rparr>, releasing := {7}\<rparr>)"
    by simp
  note dom = conjunct1 [OF conjunct2 [OF lm_interleavings_coupled
    [OF lm_ok_leased r_into_rtranclp [of "lm_step 0", OF st]]]]
  show ?thesis
    by (rule exI, rule conjI, rule st, subst dom) (simp add: leased_lm_def)
qed

end
