(* ===== verification/Job_Manager.thy ===== *)
theory Job_Manager
  imports Messages
begin

text \<open>
  The worker's \<^verbatim>\<open>JobManager\<close> (\<^verbatim>\<open>crates/worker/src/job_manager.rs\<close>) with the executor status of
  \<^verbatim>\<open>executor/mod.rs\<close> and the executor table of the worker's configuration. A job's cancellation token,
  its execution and the monitor task that waits for it come into being together and are named by
  one handle. The monitors that still wait and the tokens that were cancelled are state too: they
  are what tokio keeps. Starting an execution is the executors' business; whether it succeeds, and
  how an execution ends, are arguments.
\<close>

section \<open>State\<close>

type_synonym exec_handle = nat

datatype status =
    Running
  | Success "string option" "string option" "string option"
  | Failed "string option" "string option" "string option"
  | Cancelled "string option" "string option" "string option"

definition status_success :: "string option \<Rightarrow> status" where
  "status_success d = Success d None None"

definition status_failed :: "string option \<Rightarrow> status" where
  "status_failed d = Failed d None None"

definition status_cancelled :: "string option \<Rightarrow> status" where
  "status_cancelled d = Cancelled d None None"

datatype executor_runtime = ParameterServerRuntime | ProcessRuntime string "string list"

record executor_config =
  config_descriptor :: executor_descriptor
  config_runtime :: executor_runtime

datatype job_manager_error =
    TaskNotFound uuid
  | ExecutionError string
  | ExecutorNotSupported
  | ExecutorConfigMissing executor_descriptor

record job =
  job_id :: uuid
  job_lease :: uuid
  job_scheduler :: peer_id
  job_job_spec :: job_spec
  job_handle :: exec_handle
  job_state :: status

record job_descriptor =
  jd_id :: uuid
  jd_lease :: uuid
  jd_scheduler :: peer_id
  jd_spec :: job_spec
  jd_status :: status

definition descriptor_of_job :: "job \<Rightarrow> job_descriptor" where
  "descriptor_of_job j = \<lparr>jd_id = job_id j, jd_lease = job_lease j, jd_scheduler = job_scheduler j,
     jd_spec = job_job_spec j, jd_status = job_state j\<rparr>"

record job_manager =
  jobs :: "uuid \<rightharpoonup> job"
  executors :: "executor_config list"
  monitors :: "exec_handle \<rightharpoonup> uuid"
  cancelled :: "exec_handle set"

definition job_manager_new :: "executor_config list \<Rightarrow> job_manager" where
  "job_manager_new cs = \<lparr>jobs = Map.empty, executors = cs, monitors = Map.empty, cancelled = {}\<rparr>"

section \<open>Operations\<close>

definition find_executor_config :: "executor_descriptor \<Rightarrow> job_manager \<Rightarrow> executor_config option" where
  "find_executor_config d s = List.find (\<lambda>c. config_descriptor c = d) (executors s)"

fun runtime_matches :: "executor \<Rightarrow> executor_runtime \<Rightarrow> bool" where
  "runtime_matches (TrainExecutor _ _) (ProcessRuntime _ _) = True"
| "runtime_matches (AggregateExecutor _ _) ParameterServerRuntime = True"
| "runtime_matches _ _ = False"

text \<open>
  \<^verbatim>\<open>execute\<close> spawns the monitor and then takes the lock to file the job, so it has two steps:
  \<open>jm_spawn\<close> up to the spawned monitor, and \<open>jm_file\<close>.
\<close>

definition jm_spawn ::
    "(executor_config \<Rightarrow> job_spec \<Rightarrow> string + unit) \<Rightarrow> exec_handle \<Rightarrow> uuid \<Rightarrow> job_spec \<Rightarrow> job_manager
      \<Rightarrow> (job_manager_error + unit) \<times> job_manager" where
  "jm_spawn start h jid spec s =
     (let d = descriptor_of (spec_executor spec)
      in case find_executor_config d s of
           None \<Rightarrow> (Inl (ExecutorConfigMissing d), s)
         | Some c \<Rightarrow>
             if \<not> runtime_matches (spec_executor spec) (config_runtime c)
             then (Inl ExecutorNotSupported, s)
             else case start c spec of
                    Inl e \<Rightarrow> (Inl (ExecutionError e), s)
                  | Inr _ \<Rightarrow> (Inr (), s\<lparr>monitors := (monitors s)(h \<mapsto> jid)\<rparr>))"

definition jm_file ::
    "exec_handle \<Rightarrow> uuid \<Rightarrow> job_spec \<Rightarrow> uuid \<Rightarrow> peer_id \<Rightarrow> job_manager \<Rightarrow> job_manager" where
  "jm_file h jid spec lease scheduler s =
     s\<lparr>jobs := (jobs s)(jid \<mapsto> \<lparr>job_id = jid, job_lease = lease, job_scheduler = scheduler,
        job_job_spec = spec, job_handle = h, job_state = Running\<rparr>)\<rparr>"

definition jm_execute ::
    "(executor_config \<Rightarrow> job_spec \<Rightarrow> string + unit) \<Rightarrow> exec_handle \<Rightarrow> uuid \<Rightarrow> job_spec \<Rightarrow> uuid \<Rightarrow> peer_id
      \<Rightarrow> job_manager \<Rightarrow> (job_manager_error + unit) \<times> job_manager" where
  "jm_execute start h jid spec lease scheduler s =
     (case jm_spawn start h jid spec s of
        (Inl e, s') \<Rightarrow> (Inl e, s')
      | (Inr _, s') \<Rightarrow> (Inr (), jm_file h jid spec lease scheduler s'))"

text \<open>The rest of a monitor task, once its execution has ended.\<close>

definition jm_monitor :: "exec_handle \<Rightarrow> string + status \<Rightarrow> job_manager \<Rightarrow> job_manager" where
  "jm_monitor h out s =
     (case monitors s h of
        None \<Rightarrow> s
      | Some jid \<Rightarrow>
          let st = (case out of Inr st \<Rightarrow> st | Inl e \<Rightarrow> status_failed (Some e));
              s' = s\<lparr>monitors := (monitors s)(h := None)\<rparr>
          in case jobs s' jid of
               None \<Rightarrow> s'
             | Some j \<Rightarrow> s'\<lparr>jobs := (jobs s')(jid \<mapsto> j\<lparr>job_state := st\<rparr>)\<rparr>)"

text \<open>\<^verbatim>\<open>Job::cancel\<close> cancels the token and waits for the monitor, which runs to its end.\<close>

definition job_cancel :: "(exec_handle \<Rightarrow> string + status) \<Rightarrow> job \<Rightarrow> job_manager \<Rightarrow> job_manager" where
  "job_cancel outs j s =
     jm_monitor (job_handle j) (outs (job_handle j)) (s\<lparr>cancelled := insert (job_handle j) (cancelled s)\<rparr>)"

definition jm_cancel ::
    "(exec_handle \<Rightarrow> string + status) \<Rightarrow> uuid \<Rightarrow> job_manager \<Rightarrow> (job_manager_error + unit) \<times> job_manager" where
  "jm_cancel outs jid s =
     (case jobs s jid of
        None \<Rightarrow> (Inl (TaskNotFound jid), s)
      | Some j \<Rightarrow> (Inr (), job_cancel outs j (s\<lparr>jobs := (jobs s)(jid := None)\<rparr>)))"

definition find_jobs_where :: "uuid list \<Rightarrow> (job_descriptor \<Rightarrow> bool) \<Rightarrow> job_manager \<Rightarrow> job_descriptor list" where
  "find_jobs_where ks P s = filter P (map descriptor_of_job (hash_values ks (jobs s)))"

definition jm_shutdown :: "(exec_handle \<Rightarrow> string + status) \<Rightarrow> uuid list \<Rightarrow> job_manager \<Rightarrow> job_manager" where
  "jm_shutdown outs ks s =
     foldl (\<lambda>s j. job_cancel outs j s) (s\<lparr>jobs := Map.empty\<rparr>) (hash_values ks (jobs s))"

section \<open>The invariant\<close>

text \<open>
  Jobs are filed under their identifiers with handles of their own, and every execution that is
  still monitored belongs to a filed job, so that it can be cancelled.
\<close>

definition jm_ok :: "job_manager \<Rightarrow> bool" where
  "jm_ok s \<longleftrightarrow> finite (dom (jobs s)) \<and> (\<forall>jid j. jobs s jid = Some j \<longrightarrow> job_id j = jid)
     \<and> inj_on (\<lambda>jid. job_handle (the (jobs s jid))) (dom (jobs s))
     \<and> (\<forall>h jid. monitors s h = Some jid \<longrightarrow> map_option job_handle (jobs s jid) = Some h)"

definition fresh_handle :: "exec_handle \<Rightarrow> job_manager \<Rightarrow> bool" where
  "fresh_handle h s \<longleftrightarrow> monitors s h = None \<and> (\<forall>j\<in>ran (jobs s). job_handle j \<noteq> h)"

lemma jm_ok_monitorD:
  "jm_ok s \<Longrightarrow> monitors s h = Some jid \<Longrightarrow> \<exists>j. jobs s jid = Some j \<and> job_handle j = h"
  by (simp add: jm_ok_def)

lemma jm_ok_handleD:
  assumes "jm_ok s" and "jobs s jid = Some j" and "jobs s k = Some j'" and "job_handle j' = job_handle j"
  shows "k = jid"
proof -
  have "inj_on (\<lambda>jid. job_handle (the (jobs s jid))) (dom (jobs s))" using assms(1) by (simp add: jm_ok_def)
  from inj_onD [OF this, of k jid] assms(2-4) show ?thesis by auto
qed

lemma jm_ok_new: "jm_ok (job_manager_new cs)"
  by (simp add: jm_ok_def job_manager_new_def)

lemma jm_spawn_cases:
  "(\<exists>e. jm_spawn start h jid spec s = (Inl e, s))
   \<or> jm_spawn start h jid spec s = (Inr (), s\<lparr>monitors := (monitors s)(h \<mapsto> jid)\<rparr>)"
  by (auto simp: jm_spawn_def Let_def split: option.splits sum.splits)

lemma jm_execute_cases:
  obtains e where "jm_execute start h jid spec lease sched s = (Inl e, s)"
  | "jm_execute start h jid spec lease sched s =
      (Inr (), s\<lparr>jobs := (jobs s)(jid \<mapsto> \<lparr>job_id = jid, job_lease = lease, job_scheduler = sched,
        job_job_spec = spec, job_handle = h, job_state = Running\<rparr>), monitors := (monitors s)(h \<mapsto> jid)\<rparr>)"
  using jm_spawn_cases [of start h jid spec s] by (auto simp: jm_execute_def jm_file_def)

lemma jm_ok_execute:
  assumes "jm_ok s" and "jid \<notin> dom (jobs s)" and "fresh_handle h s"
    and "jm_execute start h jid spec lease sched s = (res, s')"
  shows "jm_ok s'"
  using jm_execute_cases [of start h jid spec lease sched s]
proof cases
  case 2
  have new: "monitors s k \<noteq> Some jid" for k using jm_ok_monitorD [OF assms(1)] assms(2) by blast
  have "job_handle (the (jobs s k)) \<noteq> h" if "k \<in> dom (jobs s)" for k
    using assms(3) that by (auto simp: fresh_handle_def ran_def)
  then have "inj_on (\<lambda>k. job_handle (the (jobs s' k))) (dom (jobs s'))"
    using 2 assms by (auto simp: jm_ok_def inj_on_def)
  then show ?thesis using 2 assms new by (auto simp: jm_ok_def)
qed (use assms in simp)

lemma jm_monitor_jobs:
  "jobs (jm_monitor h out s) jid =
     (if monitors s h = Some jid
      then map_option (job_state_update (\<lambda>_. case out of Inr st \<Rightarrow> st | Inl e \<Rightarrow> status_failed (Some e))) (jobs s jid)
      else jobs s jid)"
  by (auto simp: jm_monitor_def Let_def split: option.splits)

lemma jm_monitor_monitors: "monitors (jm_monitor h out s) = (monitors s)(h := None)"
  by (auto simp: jm_monitor_def Let_def split: option.splits)

lemma jm_monitor_other [simp]:
  "cancelled (jm_monitor h out s) = cancelled s" "executors (jm_monitor h out s) = executors s"
  by (auto simp: jm_monitor_def Let_def split: option.splits)

lemma jm_monitor_dom: "dom (jobs (jm_monitor h out s)) = dom (jobs s)"
  by (auto simp: jm_monitor_jobs dom_def)

lemma jm_ok_monitor:
  assumes "jm_ok s"
  shows "jm_ok (jm_monitor h out s)"
proof -
  have hd: "map_option job_handle (jobs (jm_monitor h out s) jid) = map_option job_handle (jobs s jid)"
    for jid by (auto simp: jm_monitor_jobs option.map_comp comp_def)
  then have "job_handle (the (jobs (jm_monitor h out s) jid)) = job_handle (the (jobs s jid))"
    if "jid \<in> dom (jobs s)" for jid using that
    by (metis domIff jm_monitor_dom option.map_sel)
  then show ?thesis using assms hd unfolding jm_ok_def jm_monitor_dom jm_monitor_monitors
    by (auto simp: jm_monitor_jobs inj_on_def split: if_splits)
qed

lemma monitor_of_job:
  assumes "jm_ok s" and "jobs s jid = Some j" and "monitors s (job_handle j) = Some k"
  shows "k = jid"
proof -
  obtain j' where "jobs s k = Some j'" "job_handle j' = job_handle j"
    using jm_ok_monitorD [OF assms(1,3)] by blast
  then show ?thesis by (rule jm_ok_handleD [OF assms(1,2)])
qed

definition drop_job :: "job \<Rightarrow> job_manager \<Rightarrow> job_manager" where
  "drop_job j s = s\<lparr>jobs := (jobs s)(job_id j := None), monitors := (monitors s)(job_handle j := None),
     cancelled := insert (job_handle j) (cancelled s)\<rparr>"

lemma jm_cancel_Some:
  assumes "jm_ok s" and "jobs s jid = Some j"
  shows "jm_cancel outs jid s = (Inr (), drop_job j s)" and "jm_ok (drop_job j s)"
proof -
  have jid: "job_id j = jid" using assms by (simp add: jm_ok_def)
  show "jm_cancel outs jid s = (Inr (), drop_job j s)"
  proof (cases "monitors s (job_handle j)")
    case None
    then show ?thesis using assms(2) jid
      by (simp add: jm_cancel_def job_cancel_def jm_monitor_def drop_job_def fun_upd_idem)
  next
    case (Some k)
    then show ?thesis using assms(2) jid monitor_of_job [OF assms Some]
      by (simp add: jm_cancel_def job_cancel_def jm_monitor_def drop_job_def Let_def)
  qed
  have "monitors s h = Some jid \<Longrightarrow> h = job_handle j" for h
    using jm_ok_monitorD [OF assms(1)] assms(2) by fastforce
  moreover have "inj_on (\<lambda>k. job_handle (the (jobs (drop_job j s) k))) (dom (jobs s) - {jid})"
    using assms(1) jid by (auto simp: jm_ok_def inj_on_def drop_job_def)
  ultimately show "jm_ok (drop_job j s)"
    using assms(1) jid by (auto simp: jm_ok_def drop_job_def)
qed

lemma jm_cancel_None: "jobs s jid = None \<Longrightarrow> jm_cancel outs jid s = (Inl (TaskNotFound jid), s)"
  by (simp add: jm_cancel_def)

lemma jm_ok_cancel: "jm_ok s \<Longrightarrow> jm_cancel outs jid s = (res, s') \<Longrightarrow> jm_ok s'"
  by (cases "jobs s jid") (auto simp: jm_cancel_None jm_cancel_Some)

section \<open>Shutdown\<close>

lemma shutdown_fold:
  "jobs s = Map.empty \<Longrightarrow> jobs (foldl (\<lambda>s j. job_cancel outs j s) s js) = Map.empty
   \<and> monitors (foldl (\<lambda>s j. job_cancel outs j s) s js)
       = (\<lambda>h. if h \<in> job_handle ` set js then None else monitors s h)
   \<and> cancelled (foldl (\<lambda>s j. job_cancel outs j s) s js) = cancelled s \<union> job_handle ` set js"
proof (induction js arbitrary: s)
  case (Cons j js)
  let ?s = "job_cancel outs j s"
  have "jobs ?s = Map.empty"
    using Cons.prems by (simp add: fun_eq_iff job_cancel_def jm_monitor_jobs)
  moreover have "monitors ?s = (monitors s)(job_handle j := None)"
    "cancelled ?s = insert (job_handle j) (cancelled s)"
    by (simp_all add: job_cancel_def jm_monitor_monitors)
  ultimately show ?case using Cons.IH [of ?s] by (simp add: fun_eq_iff)
qed simp

section \<open>The life of the manager\<close>

text \<open>
  The operations as steps. Identifiers of jobs come from the schedulers; \<open>step_execute\<close> takes one
  that is not in use, which the source does not check.
\<close>

inductive jm_step :: "job_manager \<Rightarrow> job_manager \<Rightarrow> bool" where
  step_execute: "jid \<notin> dom (jobs s) \<Longrightarrow> fresh_handle h s \<Longrightarrow>
     jm_execute start h jid spec lease sched s = (res, s') \<Longrightarrow> jm_step s s'"
| step_monitor: "jm_step s (jm_monitor h out s)"
| step_cancel: "jm_cancel outs jid s = (res, s') \<Longrightarrow> jm_step s s'"

inductive_cases jm_stepE: "jm_step s s'"

lemma jm_step_ok: "jm_step s s' \<Longrightarrow> jm_ok s \<Longrightarrow> jm_ok s'"
  by (erule jm_stepE) (auto intro: jm_ok_execute jm_ok_monitor jm_ok_cancel)

lemma jm_steps_ok: "jm_step\<^sup>*\<^sup>* s s' \<Longrightarrow> jm_ok s \<Longrightarrow> jm_ok s'"
  by (induction rule: rtranclp_induct) (auto intro: jm_step_ok)

text \<open>
  C6. No execution is lost: after any sequence of dispatches under new identifiers, ends of
  executions and cancellations, a shutdown leaves no monitored execution behind and has cancelled
  the token of every one that was still monitored, in whatever order the map is drained.
\<close>

theorem shutdown_ends_all:
  assumes "jm_step\<^sup>*\<^sup>* (job_manager_new cs) s" and "hash_order ks (jobs s)"
  shows "jobs (jm_shutdown outs ks s) = Map.empty \<and> monitors (jm_shutdown outs ks s) = Map.empty
    \<and> dom (monitors s) \<subseteq> cancelled (jm_shutdown outs ks s)"
proof -
  have ok: "jm_ok s" by (rule jm_steps_ok [OF assms(1) jm_ok_new])
  have h: "h \<in> job_handle ` ran (jobs s)" if "monitors s h = Some jid" for h jid
    using jm_ok_monitorD [OF ok that] by (auto intro: ranI)
  then have "monitors s h = None" if "h \<notin> job_handle ` ran (jobs s)" for h
    using that by (cases "monitors s h") auto
  then show ?thesis
    using shutdown_fold [of "s\<lparr>jobs := Map.empty\<rparr>" outs "hash_values ks (jobs s)"] h assms(2)
    by (auto simp: jm_shutdown_def set_hash_values_order fun_eq_iff)
qed

text \<open>One training executor and a job for it, for the witnesses.\<close>

definition demo_train :: executor where
  "demo_train = TrainExecutor ''t'' \<lparr>tc_model = \<lparr>model_task = Auto, model_artifact = Fetch (Uri ''m''),
     model_input_names = []\<rparr>, tc_data = Fetch (Uri ''d''),
     tc_optimizer = \<lparr>inner_learning_rate = Fin 1, betas = None, epsilon = None\<rparr>,
     tc_batch_size = 1, tc_preprocessor = None, tc_scheduler = None\<rparr>"

definition demo_spec :: job_spec where
  "demo_spec = \<lparr>spec_job_id = 9, spec_executor = demo_train\<rparr>"

definition demo_jm :: job_manager where
  "demo_jm = job_manager_new [\<lparr>config_descriptor = TrainDescriptor ''t'',
     config_runtime = ProcessRuntime ''python'' []\<rparr>]"

definition always_starts :: "executor_config \<Rightarrow> job_spec \<Rightarrow> string + unit" where
  "always_starts c spec = Inr ()"

lemma demo_spawn: "monitors s = monitors demo_jm \<Longrightarrow> executors s = executors demo_jm \<Longrightarrow>
    jm_spawn always_starts h jid demo_spec s = (Inr (), s\<lparr>monitors := [h \<mapsto> jid]\<rparr>)"
  by (simp add: jm_spawn_def demo_spec_def demo_train_def demo_jm_def job_manager_new_def
      always_starts_def find_executor_config_def)

theorem shutdown_ends_all_witness:
  "\<exists>s. jm_step demo_jm s \<and> monitors s = [0 \<mapsto> 1] \<and> monitors (jm_shutdown (\<lambda>_. Inl []) [1] s) = Map.empty
     \<and> cancelled (jm_shutdown (\<lambda>_. Inl []) [1] s) \<noteq> {}"
proof -
  let ?s = "jm_file 0 1 demo_spec 2 3 (demo_jm\<lparr>monitors := [0 \<mapsto> 1]\<rparr>)"
  have "jm_execute always_starts 0 1 demo_spec 2 3 demo_jm = (Inr (), ?s)"
    by (simp add: jm_execute_def demo_spawn)
  then have st: "jm_step demo_jm ?s"
    by (rule step_execute [rotated 2]) (simp_all add: demo_jm_def job_manager_new_def fresh_handle_def)
  have "hash_order [1] (jobs ?s)"
    by (simp add: hash_order_def jm_file_def demo_jm_def job_manager_new_def)
  from shutdown_ends_all [OF r_into_rtranclp [of jm_step, OF st [unfolded demo_jm_def]], folded demo_jm_def, OF this]
  show ?thesis using st by (intro exI [of _ ?s]) (auto simp: jm_file_def)
qed

text \<open>
  The identifier has to be new, and nothing checks it: a scheduler that dispatches a second
  job under an identifier in use replaces the first job in the map without cancelling it. Its
  execution runs on, and a shutdown neither cancels nor awaits it.
\<close>

lemma redispatch_orphans_execution:
  "\<exists>s1 s2. jm_execute always_starts 0 1 demo_spec 2 3 demo_jm = (Inr (), s1)
     \<and> jm_execute always_starts 5 1 demo_spec 2 3 s1 = (Inr (), s2)
     \<and> hash_order [1] (jobs s2) \<and> monitors (jm_shutdown outs [1] s2) 0 = Some 1
     \<and> 0 \<notin> cancelled (jm_shutdown outs [1] s2)"
proof -
  let ?s1 = "jm_file 0 1 demo_spec 2 3 (demo_jm\<lparr>monitors := [0 \<mapsto> 1]\<rparr>)"
  let ?s2 = "jm_file 5 1 demo_spec 2 3 (?s1\<lparr>monitors := [0 \<mapsto> 1, 5 \<mapsto> 1]\<rparr>)"
  have "jm_execute always_starts 0 1 demo_spec 2 3 demo_jm = (Inr (), ?s1)"
    by (simp add: jm_execute_def demo_spawn)
  moreover have "jm_execute always_starts 5 1 demo_spec 2 3 ?s1 = (Inr (), ?s2)"
    by (simp add: jm_execute_def jm_spawn_def demo_spec_def demo_train_def demo_jm_def
        job_manager_new_def always_starts_def find_executor_config_def jm_file_def)
  moreover have "hash_order [1] (jobs ?s2)"
    by (simp add: hash_order_def jm_file_def demo_jm_def job_manager_new_def)
  moreover have "monitors (jm_shutdown outs [1] ?s2) 0 = Some 1" "0 \<notin> cancelled (jm_shutdown outs [1] ?s2)"
    using shutdown_fold [of "?s2\<lparr>jobs := Map.empty\<rparr>" outs "hash_values [1] (jobs ?s2)"]
    by (auto simp: jm_shutdown_def jm_file_def demo_jm_def job_manager_new_def)
  ultimately show ?thesis by blast
qed

text \<open>
  The monitor is spawned before the job is filed. An execution that ends in between finds no
  job to write its status to: the job is then filed as running and no monitor is left to change it.
\<close>

lemma early_end_is_lost:
  "\<exists>s1. jm_spawn always_starts 0 1 demo_spec demo_jm = (Inr (), s1)
     \<and> (let s3 = jm_file 0 1 demo_spec 2 3 (jm_monitor 0 (Inr (status_failed None)) s1)
        in map_option job_state (jobs s3 1) = Some Running \<and> monitors s3 = Map.empty)"
  by (simp add: demo_spawn jm_monitor_def Let_def jm_file_def demo_jm_def job_manager_new_def)

end
