(* ===== verification/Arbiter.thy ===== *)
theory Arbiter
  imports Lease_Manager Job_Manager "HOL-Library.Sublist"
begin

text \<open>
  The worker's \<^verbatim>\<open>Arbiter\<close> (\<^verbatim>\<open>crates/worker/src/arbiter.rs\<close>): the handlers for lease renewals and job
  dispatches, the pruning task, and the processing of a batch of worker requests into offers. A
  handler that takes two locks in turn gets the state it sees under each. The iteration orders of
  the maps are functions of the maps, as one run of a handler iterates several times.
\<close>

section \<open>Configuration and state\<close>

datatype offer_strategy = Flexible | Whole

record offer_config =
  offer_price :: float
  offer_floor :: float
  strategy :: offer_strategy

definition offer_config_default :: offer_config where
  "offer_config_default = \<lparr>offer_price = Fin 100, offer_floor = Fin 100, strategy = Whole\<rparr>"

definition OFFER_TIMEOUT :: duration where
  "OFFER_TIMEOUT = from_secs 10"

definition LEASE_TIMEOUT :: duration where
  "LEASE_TIMEOUT = from_secs (3 * 60)"

record arbiter =
  resource_evaluator :: evaluator
  supported_executors :: "executor_descriptor list"
  worker_resources :: resources
  offer :: offer_config

section \<open>Renewal and dispatch\<close>

definition renew_handler ::
    "system_time \<Rightarrow> peer_id \<Rightarrow> api_request \<Rightarrow> lease_manager \<Rightarrow> lease_manager \<Rightarrow> renew_response \<times> lease_manager" where
  "renew_handler now peer req s0 s =
     (case req of
        RenewLeaseReq lid \<Rightarrow>
          (case lm_get lid s0 of
             Inr l \<Rightarrow>
               if lease_peer (leasable l) = peer
               then case lm_renew lid now LEASE_TIMEOUT s of
                      (Inr l', s') \<Rightarrow> (Renewed lid (timeout l'), s')
                    | (Inl _, s') \<Rightarrow> (RenewFailed, s')
               else (RenewForbidden, s)
           | Inl _ \<Rightarrow> (RenewNotFound, s))
      | _ \<Rightarrow> (RenewForbidden, s))"

definition dispatch_handler ::
    "(executor_config \<Rightarrow> job_spec \<Rightarrow> string + unit) \<Rightarrow> exec_handle \<Rightarrow> uuid list \<Rightarrow> uuid \<Rightarrow> peer_id \<Rightarrow> api_request
      \<Rightarrow> lease_manager \<Rightarrow> job_manager \<Rightarrow> dispatch_response \<times> job_manager" where
  "dispatch_handler start h ks dummy peer req s jm =
     (case req of
        DispatchJobReq jid spec \<Rightarrow>
          (case lm_get_by_peer ks dummy peer s of
             Inr l \<Rightarrow>
               (case jm_execute start h jid spec (lease_id l) peer jm of
                  (Inr _, jm') \<Rightarrow> (Dispatched jid (timeout l), jm')
                | (Inl _, jm') \<Rightarrow> (DispatchFailed, jm'))
           | Inl _ \<Rightarrow> (DispatchFailed, jm))
      | _ \<Rightarrow> (DispatchFailed, jm))"

section \<open>Pruning\<close>

fun is_finished :: "status \<Rightarrow> bool" where
  "is_finished Running = False"
| "is_finished _ = True"

fun is_failed :: "status \<Rightarrow> bool" where
  "is_failed (Failed _ _ _) = True"
| "is_failed _ = False"

fun revoke_failed ::
    "(exec_handle \<Rightarrow> string + status) \<Rightarrow> job_descriptor list \<Rightarrow> lease_manager \<Rightarrow> job_manager
      \<Rightarrow> lease_manager \<times> job_manager" where
  "revoke_failed outs [] s jm = (s, jm)"
| "revoke_failed outs (d # ds) s jm =
     (if is_failed (jd_status d)
      then revoke_failed outs ds (snd (lm_remove (jd_lease d) s)) (snd (jm_cancel outs (jd_id d) jm))
      else revoke_failed outs ds s jm)"

definition cancel_jobs ::
    "(exec_handle \<Rightarrow> string + status) \<Rightarrow> job_descriptor list \<Rightarrow> job_manager \<Rightarrow> job_manager" where
  "cancel_jobs outs ds jm = foldl (\<lambda>jm d. snd (jm_cancel outs (jd_id d) jm)) jm ds"

fun cancel_expired ::
    "(exec_handle \<Rightarrow> string + status) \<Rightarrow> ((uuid \<rightharpoonup> job) \<Rightarrow> uuid list) \<Rightarrow> resource_lease lease list \<Rightarrow> job_manager
      \<Rightarrow> job_manager" where
  "cancel_expired outs ord [] jm = jm"
| "cancel_expired outs ord (l # ls) jm =
     cancel_expired outs ord ls
       (cancel_jobs outs (find_jobs_where (ord (jobs jm)) (\<lambda>d. jd_lease d = lease_id l) jm) jm)"

text \<open>One round of the pruning loop.\<close>

definition prune_tick ::
    "(exec_handle \<Rightarrow> string + status) \<Rightarrow> ((uuid \<rightharpoonup> resource_lease lease) \<Rightarrow> uuid list) \<Rightarrow> ((uuid \<rightharpoonup> job) \<Rightarrow> uuid list)
      \<Rightarrow> system_time \<Rightarrow> lease_manager \<Rightarrow> job_manager \<Rightarrow> lease_manager \<times> job_manager" where
  "prune_tick outs ordl ordj now s jm =
     (let finished = find_jobs_where (ordj (jobs jm)) (\<lambda>d. is_finished (jd_status d)) jm;
          (s1, jm1) = revoke_failed outs finished s jm
      in case lm_proceed (ordl (ledger s1)) now s1 of
           (Inr expired, s2) \<Rightarrow> (s2, cancel_expired outs ordj expired jm1)
         | (Inl _, s2) \<Rightarrow> (s2, jm1))"

section \<open>Offers\<close>

definition accepts :: "arbiter \<Rightarrow> worker_request \<Rightarrow> bool" where
  "accepts a r \<longleftrightarrow>
     (\<forall>e\<in>set (spec_executors (wr_spec r)). e \<in> set (supported_executors a))
     \<and> \<not> flt (wr_bid r) (offer_floor (offer a))
     \<and> \<not> res_gt (spec_resources (wr_spec r)) (worker_resources a)"

fun score_requests ::
    "arbiter \<Rightarrow> (peer_id \<times> worker_request) list \<Rightarrow> (float \<times> peer_id \<times> worker_request) list" where
  "score_requests a [] = []"
| "score_requests a ((p, r) # rs) =
     (if accepts a r
      then (score (resource_evaluator a) (wr_bid r) (spec_resources (wr_spec r)), p, r) # score_requests a rs
      else score_requests a rs)"

text \<open>\<^verbatim>\<open>sort_by_key\<close> is stable; \<^verbatim>\<open>OrderedFloat\<close> orders a NaN last and does not tell the zeros apart.\<close>

definition rank_requests :: "(float \<times> 'p \<times> 'r) list \<Rightarrow> (float \<times> 'p \<times> 'r) list" where
  "rank_requests = sort_key (\<lambda>x. order_key (fneg (fst x)))"

definition offer_terms :: "arbiter \<Rightarrow> worker_request \<Rightarrow> resources \<times> float" where
  "offer_terms a r =
     (if strategy (offer a) = Whole
      then (worker_resources a, fmax (offer_price (offer a)) (wr_bid r))
      else (spec_resources (wr_spec r), wr_bid r))"

text \<open>
  The second loop. \<open>draw n\<close> gives the identifiers that the \<open>n\<close>-th lease request draws for its
  reservation and its lease, and the time; the offers are what the spawned tasks send.
\<close>

fun offer_loop ::
    "((uuid \<rightharpoonup> resources) \<Rightarrow> uuid list) \<Rightarrow> (nat \<Rightarrow> uuid \<times> uuid \<times> system_time) \<Rightarrow> nat \<Rightarrow> arbiter
      \<Rightarrow> (float \<times> peer_id \<times> worker_request) list \<Rightarrow> lease_manager \<Rightarrow> (peer_id \<times> worker_offer) list \<times> lease_manager" where
  "offer_loop ord draw n a [] s = ([], s)"
| "offer_loop ord draw n a ((_, p, r) # rs) s =
     (let (res, price) = offer_terms a r;
          (rid, lid, now) = draw n;
          spec = \<lparr>spec_resources = res, spec_executors = spec_executors (wr_spec r)\<rparr>
      in case lm_request (ord (reservations (resource_manager s))) rid lid now p spec OFFER_TIMEOUT s of
           (Inr l, s') \<Rightarrow>
             (let (os, s'') = offer_loop ord draw (Suc n) a rs s'
              in ((p, \<lparr>wo_id = lease_id l, wo_request_id = wr_id r, wo_price = price, wo_resources = res,
                       wo_timeout = timeout l\<rparr>) # os, s''))
         | (Inl _, s') \<Rightarrow> offer_loop ord draw (Suc n) a rs s')"

definition process_requests ::
    "((uuid \<rightharpoonup> resources) \<Rightarrow> uuid list) \<Rightarrow> (nat \<Rightarrow> uuid \<times> uuid \<times> system_time) \<Rightarrow> arbiter
      \<Rightarrow> (peer_id \<times> worker_request) list \<Rightarrow> lease_manager \<Rightarrow> (peer_id \<times> worker_offer) list \<times> lease_manager" where
  "process_requests ord draw a reqs s = offer_loop ord draw 0 a (rank_requests (score_requests a reqs)) s"

text \<open>The task that sends an offer: when the send fails the lease is given up.\<close>

definition offer_send :: "string + api_response \<Rightarrow> uuid \<Rightarrow> lease_manager \<Rightarrow> lease_manager" where
  "offer_send answer lid s = (case answer of Inl _ \<Rightarrow> snd (lm_remove lid s) | Inr _ \<Rightarrow> s)"

section \<open>Lemmas on pruning\<close>

lemma jobs_jm_cancel: "jm_ok jm \<Longrightarrow> jobs (snd (jm_cancel outs jid jm)) = (jobs jm)(jid := None)"
proof (cases "jobs jm jid")
  case (Some j)
  assume "jm_ok jm"
  with Some show ?thesis by (simp add: jm_cancel_Some drop_job_def jm_ok_def)
qed (auto simp: jm_cancel_None)

lemma jm_ok_jm_cancel: "jm_ok jm \<Longrightarrow> jm_ok (snd (jm_cancel outs jid jm))"
  by (metis jm_ok_cancel prod.collapse)

lemma cancel_jobs_result:
  "jm_ok jm \<Longrightarrow> jm_ok (cancel_jobs outs ds jm)
    \<and> jobs (cancel_jobs outs ds jm) = (\<lambda>k. if k \<in> jd_id ` set ds then None else jobs jm k)"
proof (induction ds arbitrary: jm)
  case (Cons d ds)
  from Cons.IH [OF jm_ok_jm_cancel [OF Cons.prems, of outs "jd_id d"]] show ?case
    by (simp add: cancel_jobs_def jobs_jm_cancel [OF Cons.prems] fun_eq_iff)
qed (simp add: cancel_jobs_def)

lemma jd_find_jobs:
  assumes "jm_ok jm" and "hash_order ks (jobs jm)"
  shows "(\<exists>d\<in>set (find_jobs_where ks P jm). Q d \<and> jd_id d = k) \<longleftrightarrow>
    (\<exists>j. jobs jm k = Some j \<and> P (descriptor_of_job j) \<and> Q (descriptor_of_job j))"
proof -
  have "jobs jm (job_id j) = Some j" if "j \<in> ran (jobs jm)" for j
    using assms(1) that by (auto simp: jm_ok_def ran_def)
  moreover have "job_id j = k" if "jobs jm k = Some j" for j
    using assms(1) that by (simp add: jm_ok_def)
  ultimately show ?thesis using assms(2)
    by (auto simp: find_jobs_where_def set_hash_values_order descriptor_of_job_def intro!: ranI)
qed

definition orders_maps :: "((uuid \<rightharpoonup> 'v) \<Rightarrow> uuid list) \<Rightarrow> bool" where
  "orders_maps ord \<longleftrightarrow> (\<forall>m. finite (dom m) \<longrightarrow> hash_order (ord m) m)"

lemma orders_jobs: "orders_maps ord \<Longrightarrow> jm_ok jm \<Longrightarrow> hash_order (ord (jobs jm)) (jobs jm)"
  by (simp add: orders_maps_def jm_ok_def)

lemma cancel_expired_result:
  assumes "jm_ok jm" and "orders_maps ord"
  shows "jm_ok (cancel_expired outs ord ls jm)
    \<and> jobs (cancel_expired outs ord ls jm) = (\<lambda>k. case jobs jm k of None \<Rightarrow> None
        | Some j \<Rightarrow> if job_lease j \<in> lease_id ` set ls then None else Some j)"
  using assms(1)
proof (induction ls arbitrary: jm)
  case (Cons l ls)
  let ?ds = "find_jobs_where (ord (jobs jm)) (\<lambda>d. jd_lease d = lease_id l) jm"
  let ?jm = "cancel_jobs outs ?ds jm"
  note c = cancel_jobs_result [OF Cons.prems, of outs ?ds]
  have mem: "k \<in> jd_id ` set ?ds \<longleftrightarrow> (\<exists>j. jobs jm k = Some j \<and> job_lease j = lease_id l)" for k
    using jd_find_jobs [OF Cons.prems orders_jobs [OF assms(2) Cons.prems],
        of "\<lambda>d. jd_lease d = lease_id l" "\<lambda>_. True" k]
    by (force simp: descriptor_of_job_def)
  have jobs: "jobs ?jm k = (case jobs jm k of None \<Rightarrow> None
      | Some j \<Rightarrow> if job_lease j = lease_id l then None else Some j)" for k
    using c by (auto simp: mem split: option.split)
  have "jm_ok (cancel_expired outs ord ls ?jm)
    \<and> jobs (cancel_expired outs ord ls ?jm) = (\<lambda>k. case jobs ?jm k of None \<Rightarrow> None
        | Some j \<Rightarrow> if job_lease j \<in> lease_id ` set ls then None else Some j)"
    using Cons.IH c by blast
  then show ?case by (simp add: jobs fun_eq_iff split: option.split)
qed (auto simp: fun_eq_iff split: option.split)

context lease_ops begin

lemma ledger_remove_holds: "holds s \<Longrightarrow> ledger (snd (lm_remove lid s)) = (ledger s)(lid := None)"
  by (cases "ledger s lid")
    (auto simp: lm_remove_None remove_Some drop_lease_def lease_of(1) fun_eq_iff)

lemma holds_lm_remove: "holds s \<Longrightarrow> holds (snd (lm_remove lid s))"
  by (metis holds_remove prod.collapse)

lemma revoke_result:
  assumes "holds s" and "jm_ok jm"
  shows "\<exists>s' jm'. revoke_failed outs ds s jm = (s', jm') \<and> holds s' \<and> jm_ok jm'
    \<and> ledger s' = (\<lambda>k. if \<exists>d\<in>set ds. is_failed (jd_status d) \<and> jd_lease d = k then None else ledger s k)
    \<and> jobs jm' = (\<lambda>k. if \<exists>d\<in>set ds. is_failed (jd_status d) \<and> jd_id d = k then None else jobs jm k)"
  using assms
proof (induction ds arbitrary: s jm)
  case (Cons d ds)
  show ?case
  proof (cases "is_failed (jd_status d)")
    case True
    from Cons.IH [OF holds_lm_remove [OF Cons.prems(1), of "jd_lease d"]
        jm_ok_jm_cancel [OF Cons.prems(2), of outs "jd_id d"]] True
    show ?thesis by (auto simp: ledger_remove_holds [OF Cons.prems(1)] jobs_jm_cancel [OF Cons.prems(2)] fun_eq_iff)
  next
    case False
    with Cons.IH [OF Cons.prems] show ?thesis by (auto simp: fun_eq_iff)
  qed
qed auto

lemma orders_leases: "orders_maps ord \<Longrightarrow> holds s \<Longrightarrow> hash_order (ord (ledger s)) (ledger s)"
  by (simp add: orders_maps_def holds_def coupled_def)

lemma prune_result:
  assumes "holds s" and "jm_ok jm" and "orders_maps ordl" and "orders_maps ordj"
    and "prune_tick outs ordl ordj now s jm = (s', jm')"
  shows "holds s'" and "jm_ok jm'"
    and "ledger s' k = Some l \<longleftrightarrow> ledger s k = Some l \<and> \<not> is_expired now l
      \<and> (\<forall>j\<in>ran (jobs jm). job_lease j = k \<longrightarrow> \<not> is_failed (job_state j))"
    and "jobs jm' jid = Some j \<longleftrightarrow> jobs jm jid = Some j \<and> \<not> is_failed (job_state j)
      \<and> \<not> (\<exists>l. ledger s (job_lease j) = Some l \<and> is_expired now l
        \<and> (\<forall>i\<in>ran (jobs jm). job_lease i = job_lease j \<longrightarrow> \<not> is_failed (job_state i)))"
proof -
  let ?ds = "find_jobs_where (ordj (jobs jm)) (\<lambda>d. is_finished (jd_status d)) jm"
  obtain s1 jm1 where r: "revoke_failed outs ?ds s jm = (s1, jm1)" and ok1: "holds s1" "jm_ok jm1"
    and l1: "ledger s1 = (\<lambda>k. if \<exists>d\<in>set ?ds. is_failed (jd_status d) \<and> jd_lease d = k then None else ledger s k)"
    and j1: "jobs jm1 = (\<lambda>k. if \<exists>d\<in>set ?ds. is_failed (jd_status d) \<and> jd_id d = k then None else jobs jm k)"
    using revoke_result [OF assms(1,2), of outs ?ds] by blast
  have fin: "is_failed st \<Longrightarrow> is_finished st" for st by (cases st) auto
  note hj = orders_jobs [OF assms(4,2)]
  have j1k: "jobs jm1 k = Some j \<longleftrightarrow> jobs jm k = Some j \<and> \<not> is_failed (job_state j)" for k j
    unfolding j1 jd_find_jobs [OF assms(2) hj] by (auto simp: descriptor_of_job_def fin)
  have "(\<exists>d\<in>set ?ds. is_failed (jd_status d) \<and> jd_lease d = k) \<longleftrightarrow>
      (\<exists>j\<in>ran (jobs jm). is_failed (job_state j) \<and> job_lease j = k)" for k
    using hj fin by (auto simp: find_jobs_where_def set_hash_values_order descriptor_of_job_def)
  then have l1k: "ledger s1 k = Some l \<longleftrightarrow> ledger s k = Some l
      \<and> (\<forall>j\<in>ran (jobs jm). job_lease j = k \<longrightarrow> \<not> is_failed (job_state j))" for k l
    unfolding l1 by auto
  note hl = orders_leases [OF assms(3) ok1(1)]
  obtain s2 where p: "lm_proceed (ordl (ledger s1)) now s1
      = (Inr (ledger_list_expired (ordl (ledger s1)) now (ledger s1)), s2)" and ok2: "holds s2"
    using proceed_run [OF ok1(1) hl, of now] by blast
  have s': "s' = s2"
    and jm': "jm' = cancel_expired outs ordj (ledger_list_expired (ordl (ledger s1)) now (ledger s1)) jm1"
    using assms(5) r p by (auto simp: prune_tick_def)
  note c = cancel_expired_result [OF ok1(2) assms(4)]
  show "holds s'" "jm_ok jm'" using s' jm' ok2 c by simp_all
  show "ledger s' k = Some l \<longleftrightarrow> ledger s k = Some l \<and> \<not> is_expired now l
      \<and> (\<forall>j\<in>ran (jobs jm). job_lease j = k \<longrightarrow> \<not> is_failed (job_state j))"
    using proceed_ledger [OF ok1(1) hl p] s' l1k by auto
  have "k \<in> lease_id ` set (ledger_list_expired (ordl (ledger s1)) now (ledger s1)) \<longleftrightarrow>
      (\<exists>l. ledger s1 k = Some l \<and> is_expired now l)" for k
    using lease_of(1) [OF ok1(1)] by (force simp: set_ledger_list_expired [OF hl] ran_def)
  moreover have "jobs jm' jid = Some j \<longleftrightarrow> jobs jm1 jid = Some j
      \<and> job_lease j \<notin> lease_id ` set (ledger_list_expired (ordl (ledger s1)) now (ledger s1))"
    using c [of outs "ledger_list_expired (ordl (ledger s1)) now (ledger s1)"] jm'
    by (auto split: option.splits if_splits)
  ultimately show "jobs jm' jid = Some j \<longleftrightarrow> jobs jm jid = Some j \<and> \<not> is_failed (job_state j)
      \<and> \<not> (\<exists>l. ledger s (job_lease j) = Some l \<and> is_expired now l
        \<and> (\<forall>i\<in>ran (jobs jm). job_lease i = job_lease j \<longrightarrow> \<not> is_failed (job_state i)))"
    by (auto simp: j1k l1k)
qed

end

lemma ledger_lm_remove: "lm_ok g s \<Longrightarrow> ledger (snd (lm_remove lid s)) = (ledger s)(lid := None)"
  unfolding lm_ok_holds by (rule exact.ledger_remove_holds)

lemma lm_ok_lm_remove: "lm_ok g s \<Longrightarrow> lm_ok g (snd (lm_remove lid s))"
  unfolding lm_ok_holds by (rule exact.holds_lm_remove)

lemmas prune_tick_result = exact.prune_result [folded lm_ok_holds]

section \<open>Properties of the handlers\<close>

text \<open>
  C4. Pruning is exact when the source's assumption of one job per lease holds and every job has
  its lease: the jobs that stay are those that have not failed and whose lease has not expired, the
  leases that stay are those that have not expired and whose job has not failed, and so every job
  that stays still has its lease. Both managers keep their invariants.
\<close>

theorem prune_tick_exact:
  assumes "lm_ok g s" and "jm_ok jm" and "orders_maps ordl" and "orders_maps ordj"
    and "\<forall>j\<in>ran (jobs jm). job_lease j \<in> dom (ledger s)"
    and "inj_on job_lease (ran (jobs jm))"
    and "prune_tick outs ordl ordj now s jm = (s', jm')"
  shows "lm_ok g s' \<and> jm_ok jm'
    \<and> (\<forall>jid j. jobs jm' jid = Some j \<longleftrightarrow> jobs jm jid = Some j \<and> \<not> is_failed (job_state j)
        \<and> \<not> is_expired now (the (ledger s (job_lease j))))
    \<and> (\<forall>k l. ledger s' k = Some l \<longleftrightarrow> ledger s k = Some l \<and> \<not> is_expired now l
        \<and> (\<forall>j\<in>ran (jobs jm). job_lease j = k \<longrightarrow> \<not> is_failed (job_state j)))
    \<and> (\<forall>j\<in>ran (jobs jm'). job_lease j \<in> dom (ledger s'))"
proof -
  note r = prune_tick_result [OF assms(1-4,7)]
  have same: "i = j" if "jobs jm jid = Some j" "i \<in> ran (jobs jm)" "job_lease i = job_lease j" for i j jid
    using inj_onD [OF assms(6) that(3,2)] that(1) by (auto intro: ranI)
  have jobs: "jobs jm' jid = Some j \<longleftrightarrow> jobs jm jid = Some j \<and> \<not> is_failed (job_state j)
        \<and> \<not> is_expired now (the (ledger s (job_lease j)))" for jid j
  proof (cases "jobs jm jid = Some j")
    case True
    then obtain l where "ledger s (job_lease j) = Some l" using assms(5) by (auto dest: ranI)
    then show ?thesis using r(4) [of jid j] True same [OF True] by auto
  qed (use r(4) in blast)
  have "job_lease j \<in> dom (ledger s')" if "jobs jm' jid = Some j" for jid j
  proof -
    have j: "jobs jm jid = Some j" "\<not> is_failed (job_state j)"
        "\<not> is_expired now (the (ledger s (job_lease j)))" using that jobs by blast+
    then obtain l where "ledger s (job_lease j) = Some l" using assms(5) by (auto dest: ranI)
    then show ?thesis using r(3) [of "job_lease j" l] j same [OF j(1)] by auto
  qed
  then have "\<forall>j\<in>ran (jobs jm'). job_lease j \<in> dom (ledger s')" by (auto simp: ran_def)
  with r(1-3) jobs show ?thesis by blast
qed

text \<open>For the witnesses: an order of the maps, and a worker that runs jobs under the lease 3.\<close>

definition key_order :: "(uuid \<rightharpoonup> 'v) \<Rightarrow> uuid list" where
  "key_order m = sorted_list_of_set (dom m)"

lemma orders_key_order: "orders_maps key_order"
  by (simp add: orders_maps_def hash_order_def key_order_def)

definition demo_job :: "uuid \<Rightarrow> exec_handle \<Rightarrow> status \<Rightarrow> job" where
  "demo_job jid h st = \<lparr>job_id = jid, job_lease = 3, job_scheduler = 5, job_job_spec = demo_spec,
     job_handle = h, job_state = st\<rparr>"

definition one_job :: job_manager where
  "one_job = demo_jm\<lparr>jobs := [1 \<mapsto> demo_job 1 0 Running], monitors := [0 \<mapsto> 1]\<rparr>"

definition two_jobs :: job_manager where
  "two_jobs = demo_jm\<lparr>jobs := [1 \<mapsto> demo_job 1 0 (status_failed None), 2 \<mapsto> demo_job 2 1 Running],
     monitors := [1 \<mapsto> 2]\<rparr>"

lemma jm_ok_demo: "jm_ok one_job" "jm_ok two_jobs"
  by (auto simp: jm_ok_def one_job_def two_jobs_def demo_job_def)

theorem prune_tick_exact_witness:
  "\<exists>s' jm'. prune_tick (\<lambda>_. Inl []) key_order key_order 100 leased_lm one_job = (s', jm')
     \<and> lm_ok 0 s' \<and> jobs jm' 1 = None \<and> ledger s' 3 = None"
proof -
  obtain s' jm' where p: "prune_tick (\<lambda>_. Inl []) key_order key_order 100 leased_lm one_job = (s', jm')"
    by force
  have ran: "ran (jobs one_job) = {demo_job 1 0 Running}" by (simp add: one_job_def)
  have "\<forall>j\<in>ran (jobs one_job). job_lease j \<in> dom (ledger leased_lm)" "inj_on job_lease (ran (jobs one_job))"
    unfolding ran by (simp_all add: demo_job_def leased_lm_def)
  note r = prune_tick_exact [OF lm_ok_leased jm_ok_demo(1) orders_key_order orders_key_order this p]
  have "jobs jm' 1 \<noteq> Some j" for j
  proof
    assume "jobs jm' 1 = Some j"
    with r have "jobs one_job 1 = Some j" "\<not> is_expired 100 (the (ledger leased_lm (job_lease j)))" by blast+
    moreover from this(1) have "j = demo_job 1 0 Running" by (simp add: one_job_def)
    ultimately show False by (simp add: demo_job_def leased_lm_def is_expired_def)
  qed
  moreover from r have "ledger s' 3 = Some l \<Longrightarrow> ledger leased_lm 3 = Some l \<and> \<not> is_expired 100 l" for l
    by blast
  then have "ledger s' 3 \<noteq> Some l" for l by (auto simp: leased_lm_def is_expired_def)
  ultimately show ?thesis using p r by (metis not_None_eq)
qed

text \<open>
  The assumption is needed, and nothing enforces it: dispatches file every job of a scheduler
  under the same lease. When one of two such jobs fails, pruning revokes the lease, and the other
  job keeps running without a lease while its quantities are free for others. No later round of
  pruning with an unchanged ledger removes it.
\<close>

lemma shared_lease_orphans_job:
  "\<exists>s' jm'. prune_tick outs key_order key_order 50 leased_lm two_jobs = (s', jm')
     \<and> jobs jm' 2 = Some (demo_job 2 1 Running) \<and> ledger s' = Map.empty
     \<and> reservations (resource_manager s') = Map.empty
     \<and> jobs (snd (prune_tick outs key_order key_order later s' jm')) 2 = Some (demo_job 2 1 Running)"
proof -
  obtain s' jm' where p: "prune_tick outs key_order key_order 50 leased_lm two_jobs = (s', jm')" by force
  obtain s2 jm2 where p2: "prune_tick outs key_order key_order later s' jm' = (s2, jm2)" by force
  note r = prune_tick_result [OF lm_ok_leased jm_ok_demo(2) orders_key_order orders_key_order p]
  have ran: "ran (jobs two_jobs) = {demo_job 1 0 (status_failed None), demo_job 2 1 Running}"
    by (simp add: two_jobs_def insert_commute)
  have "ledger s' k \<noteq> Some l" for k l
  proof
    assume "ledger s' k = Some l"
    then have "ledger leased_lm k = Some l"
      and f: "\<forall>j\<in>ran (jobs two_jobs). job_lease j = k \<longrightarrow> \<not> is_failed (job_state j)"
      using r(3) [of k l] by blast+
    then have "k = 3" by (simp add: leased_lm_def split: if_splits)
    with f show False by (simp add: ran demo_job_def status_failed_def)
  qed
  then have L: "ledger s' = Map.empty" by (metis not_None_eq ext)
  have j: "jobs jm' 2 = Some (demo_job 2 1 Running)"
    using r(4) [of 2 "demo_job 2 1 Running"] unfolding ran
    by (auto simp: two_jobs_def leased_lm_def demo_job_def status_failed_def)
  have "dom (reservations (resource_manager s')) = {}" using r(1) L by (simp add: lm_ok_def coupled_def)
  moreover have "jobs jm2 2 = Some (demo_job 2 1 Running)"
    using prune_tick_result(4) [OF r(1,2) orders_key_order orders_key_order p2, of 2 "demo_job 2 1 Running"] j L
    by (simp add: demo_job_def)
  ultimately show ?thesis using p p2 j L by (intro exI [of _ s'] exI [of _ jm']) simp
qed

text \<open>
  C7. Only the owner renews: whatever happens between the ownership check and the renewal, the
  handler answers with a renewal exactly when the lease was there with that owner at the check and
  is still there, the new timeout is the worker's lease time from now, nothing else in the ledger
  and nothing in the resource manager changes, and every other answer leaves the state alone.
\<close>

theorem renew_handler_owner:
  assumes "lm_ok g s" and "renew_handler now peer (RenewLeaseReq lid) s0 s = (resp, s')"
  shows "lm_ok g s' \<and>
    (case resp of
       Renewed k t \<Rightarrow> k = lid \<and> t = now + from_secs 180
         \<and> (\<exists>l0 l. ledger s0 lid = Some l0 \<and> lease_peer (leasable l0) = peer \<and> ledger s lid = Some l
              \<and> s' = s\<lparr>ledger := (ledger s)(lid \<mapsto> l\<lparr>timeout := t\<rparr>)\<rparr>)
     | RenewNotFound \<Rightarrow> s' = s \<and> ledger s0 lid = None
     | RenewForbidden \<Rightarrow> s' = s \<and> (\<exists>l0. ledger s0 lid = Some l0 \<and> lease_peer (leasable l0) \<noteq> peer)
     | RenewFailed \<Rightarrow> s' = s \<and> ledger s lid = None
         \<and> (\<exists>l0. ledger s0 lid = Some l0 \<and> lease_peer (leasable l0) = peer))"
proof -
  have "s' = s \<or> lm_renew lid now LEASE_TIMEOUT s = (fst (lm_renew lid now LEASE_TIMEOUT s), s')"
    using assms(2) by (auto simp: renew_handler_def split: sum.splits prod.splits if_splits)
  then have "lm_ok g s'" using lm_ok_renew [OF assms(1)] assms(1) by blast
  with assms(2) show ?thesis
    by (auto simp: renew_handler_def lm_get_def ledger_get_def lm_renew_def ledger_renew_def
        LEASE_TIMEOUT_def Let_def split: option.splits if_splits)
qed

theorem renew_handler_owner_witness:
  "fst (renew_handler 1 5 (RenewLeaseReq 3) leased_lm leased_lm) = Renewed 3 180000000001
   \<and> fst (renew_handler 1 6 (RenewLeaseReq 3) leased_lm leased_lm) = RenewForbidden"
proof -
  note r = renew_handler_owner [OF lm_ok_leased prod.collapse [symmetric], of 1 _ 3 leased_lm]
  have "fst (renew_handler 1 5 (RenewLeaseReq 3) leased_lm leased_lm) = Renewed 3 180000000001"
    using r [of 5] by (simp add: leased_lm_def split: renew_response.splits)
  moreover have "fst (renew_handler 1 6 (RenewLeaseReq 3) leased_lm leased_lm) = RenewForbidden"
    using r [of 6] by (simp add: leased_lm_def split: renew_response.splits)
  ultimately show ?thesis ..
qed

text \<open>
  C8. A job is dispatched only on a lease of the scheduler that asks: an acceptance means the
  ledger held a lease of that peer whose timeout it reports, an executor of the right kind is
  configured under the job's name, and the new job is filed as running for that peer under that
  lease; otherwise no job is filed and nothing changes.
\<close>

theorem dispatch_needs_lease:
  assumes "hash_order ks (ledger s)"
    and "dispatch_handler start h ks dummy peer (DispatchJobReq jid spec) s jm = (resp, jm')"
  shows "case resp of
      DispatchFailed \<Rightarrow> jm' = jm
    | Dispatched k t \<Rightarrow> k = jid \<and>
        (\<exists>l c. l \<in> ran (ledger s) \<and> lease_peer (leasable l) = peer \<and> timeout l = t
          \<and> c \<in> set (executors jm) \<and> config_descriptor c = descriptor_of (spec_executor spec)
          \<and> runtime_matches (spec_executor spec) (config_runtime c)
          \<and> jobs jm' = (jobs jm)(jid \<mapsto> \<lparr>job_id = jid, job_lease = lease_id l, job_scheduler = peer,
              job_job_spec = spec, job_handle = h, job_state = Running\<rparr>))"
proof (cases "lm_get_by_peer ks dummy peer s")
  case (Inl e)
  then show ?thesis using assms(2) by (auto simp: dispatch_handler_def)
next
  case (Inr l)
  then have l: "l \<in> ran (ledger s)" "lease_peer (leasable l) = peer"
    using find_SomeD [of _ "ledger_list ks (ledger s)" l] set_ledger_list [OF assms(1)]
    by (auto simp: lm_get_by_peer_def split: option.splits)
  show ?thesis
  proof (rule jm_execute_cases [of start h jid spec "lease_id l" peer jm], goal_cases)
    case (1 e)
    then show ?thesis using assms(2) Inr by (auto simp: dispatch_handler_def)
  next
    case 2
    then obtain c where "find_executor_config (descriptor_of (spec_executor spec)) jm = Some c"
      "runtime_matches (spec_executor spec) (config_runtime c)"
      by (auto simp: jm_execute_def jm_spawn_def Let_def split: option.splits if_splits)
    then have c: "c \<in> set (executors jm)" "config_descriptor c = descriptor_of (spec_executor spec)"
      "runtime_matches (spec_executor spec) (config_runtime c)"
      by (auto simp: find_executor_config_def dest!: find_SomeD)
    show ?thesis using 2 assms(2) Inr l c
      by (auto simp: dispatch_handler_def intro!: exI [of _ l] exI [of _ c])
  qed
qed

theorem dispatch_needs_lease_witness:
  "fst (dispatch_handler always_starts 0 [3] 0 6 (DispatchJobReq 1 demo_spec) leased_lm demo_jm) = DispatchFailed
   \<and> fst (dispatch_handler always_starts 0 [3] 0 5 (DispatchJobReq 1 demo_spec) leased_lm demo_jm) = Dispatched 1 100"
proof -
  have o: "hash_order [3] (ledger leased_lm)" by (simp add: hash_order_def leased_lm_def)
  note r = dispatch_needs_lease [OF o prod.collapse [symmetric], where ?start = always_starts and ?h = 0 and ?dummy = 0 and ?jid = 1
    and ?spec = demo_spec and ?jm = demo_jm]
  have "fst (dispatch_handler always_starts 0 [3] 0 6 (DispatchJobReq 1 demo_spec) leased_lm demo_jm) = DispatchFailed"
    using r [where ?peer = 6] by (auto simp: leased_lm_def split: dispatch_response.splits)
  moreover have "fst (dispatch_handler always_starts 0 [3] 0 5 (DispatchJobReq 1 demo_spec) leased_lm demo_jm)
      = Dispatched 1 100"
    by (simp add: dispatch_handler_def lm_get_by_peer_def ledger_list_def leased_lm_def jm_execute_def demo_spawn)
  ultimately show ?thesis ..
qed

section \<open>Lemmas on offers\<close>

definition draws_fresh :: "(nat \<Rightarrow> uuid \<times> uuid \<times> system_time) \<Rightarrow> nat \<Rightarrow> lease_manager \<Rightarrow> bool" where
  "draws_fresh draw n s \<longleftrightarrow> inj (\<lambda>i. fst (draw i)) \<and> inj (\<lambda>i. fst (snd (draw i)))
     \<and> (\<forall>i\<ge>n. fst (draw i) \<notin> dom (reservations (resource_manager s)) \<and> fst (snd (draw i)) \<notin> dom (ledger s))"

definition backed :: "lease_manager \<Rightarrow> peer_id \<Rightarrow> worker_offer \<Rightarrow> bool" where
  "backed s p w \<longleftrightarrow> (\<exists>l. ledger s (wo_id w) = Some l \<and> lease_peer (leasable l) = p \<and> timeout l = wo_timeout w
     \<and> reservations (resource_manager s) (reservation (leasable l)) = Some (wo_resources w))"

lemma backed_mono:
  assumes "backed s p w" and "ledger s \<subseteq>\<^sub>m ledger s'"
    and "reservations (resource_manager s) \<subseteq>\<^sub>m reservations (resource_manager s')"
  shows "backed s' p w"
  using assms unfolding backed_def by (metis map_le_def domI)

text \<open>One round of the loop: a rejected request changes nothing, a granted one adds its lease.\<close>

lemma offer_loop_step:
  assumes "lm_ok g s" and "orders_maps ord" and "draws_fresh draw n s"
    and "request_ok g (fst (offer_terms a r))"
  obtains (reject) "offer_loop ord draw n a ((x, p, r) # rs) s = offer_loop ord draw (Suc n) a rs s"
      and "draws_fresh draw (Suc n) s"
      and "\<not> (\<forall>c. reserved c (resource_manager s) + fval (rcomp c (fst (offer_terms a r)))
            \<le> fval (rcomp c (compute (resource_manager s))))"
  | (grant) w s1 where "offer_loop ord draw n a ((x, p, r) # rs) s
        = (let (os, s') = offer_loop ord draw (Suc n) a rs s1 in ((p, w) # os, s'))"
      and "lm_ok g s1" and "draws_fresh draw (Suc n) s1" and "backed s1 p w"
      and "wo_request_id w = wr_id r" and "(wo_resources w, wo_price w) = offer_terms a r"
      and "ledger s \<subseteq>\<^sub>m ledger s1" and "reservations (resource_manager s) \<subseteq>\<^sub>m reservations (resource_manager s1)"
      and "compute (resource_manager s1) = compute (resource_manager s)"
      and "\<forall>c. reserved c (resource_manager s1) = reserved c (resource_manager s) + fval (rcomp c (wo_resources w))"
      and "\<forall>c. reserved c (resource_manager s1) \<le> fval (rcomp c (compute (resource_manager s1)))"
proof -
  obtain res price where t: "offer_terms a r = (res, price)" by force
  obtain rid lid now where d: "draw n = (rid, lid, now)" by (metis prod.exhaust)
  define spec where "spec = \<lparr>spec_resources = res, spec_executors = spec_executors (wr_spec r)\<rparr>"
  define l where "l = \<lparr>lease_id = lid, leasable = \<lparr>lease_peer = p, reservation = rid\<rparr>, timeout = now + OFFER_TIMEOUT\<rparr>"
  let ?ks = "ord (reservations (resource_manager s))"
  have ok: "manager_ok g (resource_manager s)" using assms(1) by (simp add: lm_ok_def)
  then have ho: "hash_order ?ks (reservations (resource_manager s))"
    using assms(2) by (simp add: orders_maps_def manager_ok_def)
  have rq: "request_ok g (spec_resources spec)" using assms(4) t by (simp add: spec_def)
  have new: "rid \<notin> dom (reservations (resource_manager s))" "lid \<notin> dom (ledger s)"
    using assms(3) d by (force simp: draws_fresh_def)+
  show thesis
  proof (cases "\<forall>c. reserved c (resource_manager s) + fval (rcomp c (spec_resources spec))
            \<le> fval (rcomp c (compute (resource_manager s)))")
    case False
    have "draws_fresh draw (Suc n) s" using assms(3) by (simp add: draws_fresh_def)
    then show thesis using reject False lm_request_rejects [OF assms(1) ho rq False, of rid lid now p OFFER_TIMEOUT]
      by (simp add: t d flip: spec_def) (simp add: spec_def)
  next
    case True
    define s1 where "s1 = s\<lparr>resource_manager := (resource_manager s)\<lparr>reservations :=
      (reservations (resource_manager s))(rid \<mapsto> res)\<rparr>, ledger := (ledger s)(lid \<mapsto> l)\<rparr>"
    define w where "w = \<lparr>wo_id = lid, wo_request_id = wr_id r, wo_price = price, wo_resources = res,
      wo_timeout = now + OFFER_TIMEOUT\<rparr>"
    have req: "lm_request ?ks rid lid now p spec OFFER_TIMEOUT s = (Inr l, s1)"
      using lm_request_fits [OF assms(1) ho rq True, of rid lid now p OFFER_TIMEOUT]
      by (simp add: l_def s1_def spec_def Let_def)
    have "reserved c (resource_manager s1) = reserved c (resource_manager s) + fval (rcomp c res)" for c
      using reserved_insert [OF _ new(1), of c res] ok by (simp add: s1_def manager_ok_def)
    moreover have "fst (draw i) \<noteq> rid \<and> fst (snd (draw i)) \<noteq> lid" if "Suc n \<le> i" for i
      using assms(3) d that inj_eq [of "\<lambda>i. fst (draw i)" i n] inj_eq [of "\<lambda>i. fst (snd (draw i))" i n]
      by (auto simp: draws_fresh_def)
    then have "draws_fresh draw (Suc n) s1"
      using assms(3) by (simp add: draws_fresh_def s1_def)
    moreover have "ledger s \<subseteq>\<^sub>m ledger s1"
      "reservations (resource_manager s) \<subseteq>\<^sub>m reservations (resource_manager s1)"
      using new by (auto simp: s1_def map_le_def)
    moreover have "lm_ok g s1" by (rule lm_ok_request [OF assms(1) ho rq new req])
    moreover have "backed s1 p w" by (simp add: backed_def s1_def w_def l_def)
    moreover have "offer_loop ord draw n a ((x, p, r) # rs) s
        = (let (os, s') = offer_loop ord draw (Suc n) a rs s1 in ((p, w) # os, s'))"
      using req by (simp add: t d w_def l_def flip: spec_def)
    ultimately show thesis using True
      by (intro grant [of s1 w]) (simp_all add: t w_def s1_def spec_def)
  qed
qed

text \<open>
  The same loop without any assumption on the quantities: the leases and reservations correspond,
  and what the loop does to the resource manager is a run of it, in which only the requested terms
  are reserved.
\<close>

abbreviation lm_coupled :: "lease_manager \<Rightarrow> bool" where
  "lm_coupled s \<equiv> coupled {} (ledger s) (reservations (resource_manager s))"

lemma coupled_finite: "coupled {} L B \<Longrightarrow> finite (dom B)"
  by (simp add: coupled_def finite_ran)

definition batch_comes :: "arbiter \<Rightarrow> (float \<times> peer_id \<times> worker_request) list \<Rightarrow> nat \<Rightarrow> manager \<Rightarrow> resources \<Rightarrow> bool" where
  "batch_comes a rs N m q \<longleftrightarrow> (\<exists>(x, p, r)\<in>set rs. q = fst (offer_terms a r)) \<and> card (dom (reservations m)) < N"

lemma batch_comes_mono:
  "(manager_step (batch_comes a rs N))\<^sup>*\<^sup>* m m' \<Longrightarrow> set rs \<subseteq> set rs' \<Longrightarrow> N \<le> N' \<Longrightarrow>
     (manager_step (batch_comes a rs' N'))\<^sup>*\<^sup>* m m'"
  by (erule manager_run_mono) (fastforce simp: batch_comes_def)

lemma coupled_request:
  assumes "lm_coupled s" and "rid \<notin> dom (reservations (resource_manager s))" and "lid \<notin> dom (ledger s)"
  shows "coupled {} ((ledger s)(lid \<mapsto> \<lparr>lease_id = lid, leasable = \<lparr>lease_peer = p, reservation = rid\<rparr>, timeout = t\<rparr>))
    ((reservations (resource_manager s))(rid \<mapsto> q))"
  using coupled_insert [OF coupled_reserve [OF assms(1,2)], of rid lid "\<lparr>lease_peer = p, reservation = rid\<rparr>"]
    assms(3) by simp

lemma offer_loop_step_any:
  assumes "lm_coupled s" and "orders_maps ord" and "draws_fresh draw n s"
  obtains (reject) "offer_loop ord draw n a ((x, p, r) # rs) s = offer_loop ord draw (Suc n) a rs s"
      and "draws_fresh draw (Suc n) s"
  | (grant) w s1 where "offer_loop ord draw n a ((x, p, r) # rs) s
        = (let (os, s') = offer_loop ord draw (Suc n) a rs s1 in ((p, w) # os, s'))"
      and "lm_coupled s1" and "draws_fresh draw (Suc n) s1" and "backed s1 p w"
      and "wo_request_id w = wr_id r" and "(wo_resources w, wo_price w) = offer_terms a r"
      and "ledger s \<subseteq>\<^sub>m ledger s1" and "reservations (resource_manager s) \<subseteq>\<^sub>m reservations (resource_manager s1)"
      and "card (dom (reservations (resource_manager s1))) = Suc (card (dom (reservations (resource_manager s))))"
      and "\<And>comes. comes (resource_manager s) (fst (offer_terms a r)) \<Longrightarrow>
        manager_step comes (resource_manager s) (resource_manager s1)"
proof -
  obtain res price where t: "offer_terms a r = (res, price)" by force
  obtain rid lid now where d: "draw n = (rid, lid, now)" by (metis prod.exhaust)
  define l where "l = \<lparr>lease_id = lid, leasable = \<lparr>lease_peer = p, reservation = rid\<rparr>, timeout = now + OFFER_TIMEOUT\<rparr>"
  let ?m = "resource_manager s" and ?ks = "ord (reservations (resource_manager s))"
  have fin: "finite (dom (reservations ?m))" using assms(1) by (rule coupled_finite)
  have new: "rid \<notin> dom (reservations ?m)" "lid \<notin> dom (ledger s)"
    using assms(3) d by (force simp: draws_fresh_def)+
  have later: "fst (draw i) \<noteq> rid \<and> fst (snd (draw i)) \<noteq> lid" if "Suc n \<le> i" for i
    using assms(3) d that inj_eq [of "\<lambda>i. fst (draw i)" i n] inj_eq [of "\<lambda>i. fst (snd (draw i))" i n]
    by (auto simp: draws_fresh_def)
  show thesis
  proof (cases "res_ge (compute_resources ?ks ?m) res")
    case False
    then show thesis using reject assms(3)
      by (simp add: t d lm_request_cases reserve_def draws_fresh_def)
  next
    case True
    define m1 where "m1 = ?m\<lparr>reservations := (reservations ?m)(rid \<mapsto> res)\<rparr>"
    define s1 where "s1 = s\<lparr>resource_manager := m1, ledger := (ledger s)(lid \<mapsto> l)\<rparr>"
    define w where "w = \<lparr>wo_id = lid, wo_request_id = wr_id r, wo_price = price, wo_resources = res,
      wo_timeout = now + OFFER_TIMEOUT\<rparr>"
    have rsv: "reserve ?ks ?m ?ks rid res ?m = (Inr rid, m1)" using True by (simp add: reserve_def m1_def)
    show thesis
    proof (rule grant [of s1 w])
      show "lm_coupled s1" using coupled_request [OF assms(1) new] by (simp add: s1_def l_def m1_def)
      show "draws_fresh draw (Suc n) s1" using assms(3) later by (simp add: draws_fresh_def s1_def m1_def)
      show "manager_step comes ?m (resource_manager s1)" if "comes ?m (fst (offer_terms a r))" for comes
        using step_reserve [of comes ?m res rid ?ks] that new(1) fin rsv assms(2)
        by (simp add: t s1_def orders_maps_def)
    qed (use new fin rsv in \<open>auto simp: s1_def m1_def w_def l_def t d backed_def map_le_def
        lm_request_cases Let_def\<close>)
  qed
qed

lemma offer_loop_run:
  assumes "lm_coupled s" and "orders_maps ord" and "draws_fresh draw n s"
    and "offer_loop ord draw n a rs s = (os, s')"
  shows "(manager_step (batch_comes a rs (card (dom (reservations (resource_manager s))) + length rs)))\<^sup>*\<^sup>*
    (resource_manager s) (resource_manager s')"
  using assms(1,3-)
proof (induction rs arbitrary: s n os)
  case (Cons y rs)
  obtain x p r where y: "y = (x, p, r)" by (metis prod.exhaust)
  from Cons.prems(1) assms(2) Cons.prems(2) show ?case
  proof (cases rule: offer_loop_step_any [where x = x and p = p and rs = rs and a = a and r = r])
    case reject
    have "offer_loop ord draw (Suc n) a rs s = (os, s')" using reject(1) Cons.prems(3) y by simp
    from Cons.IH [OF Cons.prems(1) reject(2) this] show ?thesis
      by (rule batch_comes_mono) auto
  next
    case (grant w s1)
    obtain os' where os': "offer_loop ord draw (Suc n) a rs s1 = (os', s')"
      using grant(1) Cons.prems(3) y by (auto split: prod.splits)
    let ?c = "batch_comes a (y # rs) (card (dom (reservations (resource_manager s))) + length (y # rs))"
    have "manager_step ?c (resource_manager s) (resource_manager s1)"
      by (rule grant(10)) (auto simp: batch_comes_def y)
    moreover have "(manager_step ?c)\<^sup>*\<^sup>* (resource_manager s1) (resource_manager s')"
      by (rule batch_comes_mono [OF Cons.IH [OF grant(2,3) os']]) (auto simp: grant(9))
    ultimately show ?thesis by (rule converse_rtranclp_into_rtranclp)
  qed
qed simp

lemma offer_loop_result:
  assumes "lm_coupled s" and "orders_maps ord" and "draws_fresh draw n s"
    and "offer_loop ord draw n a rs s = (os, s')"
  shows "lm_coupled s' \<and> ledger s \<subseteq>\<^sub>m ledger s'
    \<and> reservations (resource_manager s) \<subseteq>\<^sub>m reservations (resource_manager s')
    \<and> (\<forall>(p, w)\<in>set os. backed s' p w
        \<and> (\<exists>x r. (x, p, r) \<in> set rs \<and> wo_request_id w = wr_id r \<and> (wo_resources w, wo_price w) = offer_terms a r))
    \<and> subseq (map (\<lambda>(p, w). (p, wo_request_id w)) os) (map (\<lambda>(x, p, r). (p, wr_id r)) rs)"
  using assms(1,3-)
proof (induction rs arbitrary: s n os)
  case (Cons y rs)
  obtain x p r where y: "y = (x, p, r)" by (metis prod.exhaust)
  from Cons.prems(1) assms(2) Cons.prems(2) show ?case
  proof (cases rule: offer_loop_step_any [where x = x and p = p and rs = rs and a = a and r = r])
    case reject
    have "offer_loop ord draw (Suc n) a rs s = (os, s')" using reject(1) Cons.prems(3) y by simp
    note ih = Cons.IH [OF Cons.prems(1) reject(2) this]
    then show ?thesis by (fastforce simp: y)
  next
    case (grant w s1)
    obtain os' where os': "offer_loop ord draw (Suc n) a rs s1 = (os', s')" "os = (p, w) # os'"
      using grant(1) Cons.prems(3) y by (auto split: prod.splits)
    from Cons.IH [OF grant(2,3) os'(1)]
    have ih: "lm_coupled s'" "ledger s1 \<subseteq>\<^sub>m ledger s'"
      "reservations (resource_manager s1) \<subseteq>\<^sub>m reservations (resource_manager s')"
      "\<forall>(p, w)\<in>set os'. backed s' p w
        \<and> (\<exists>x r. (x, p, r) \<in> set rs \<and> wo_request_id w = wr_id r \<and> (wo_resources w, wo_price w) = offer_terms a r)"
      "subseq (map (\<lambda>(p, w). (p, wo_request_id w)) os') (map (\<lambda>(x, p, r). (p, wr_id r)) rs)"
      by auto
    have "backed s' p w" by (rule backed_mono [OF grant(4) ih(2,3)])
    moreover have "ledger s \<subseteq>\<^sub>m ledger s'" using grant(7) ih(2) by (rule map_le_trans)
    moreover have "reservations (resource_manager s) \<subseteq>\<^sub>m reservations (resource_manager s')"
      using grant(8) ih(3) by (rule map_le_trans)
    ultimately show ?thesis using ih(1,4,5) grant(5,6) y os'(2) by fastforce
  qed
qed auto

text \<open>The invariants of the capacity, over a batch of requests that satisfy their condition.\<close>

lemma length_rank_requests [simp]: "length (rank_requests xs) = length xs"
  by (simp add: rank_requests_def)

lemma length_score_requests: "length (score_requests a reqs) \<le> length reqs"
  by (induction a reqs rule: score_requests.induct) auto

lemma set_score_requests:
  "(x, p, r) \<in> set (score_requests a reqs) \<longleftrightarrow> (p, r) \<in> set reqs \<and> accepts a r
     \<and> x = score (resource_evaluator a) (wr_bid r) (spec_resources (wr_spec r))"
  by (induction a reqs rule: score_requests.induct) auto

lemma set_rank_requests [simp]: "set (rank_requests xs) = set xs"
  by (simp add: rank_requests_def)

lemma offered_terms:
  assumes "(x, p, r) \<in> set (rank_requests (score_requests a reqs))" and "P (worker_resources a)"
    and "\<forall>(p, r)\<in>set reqs. P (spec_resources (wr_spec r))"
  shows "P (fst (offer_terms a r))"
  using assms by (auto simp: offer_terms_def set_score_requests)

lemma batch_run:
  assumes "lm_coupled s" and "orders_maps ord" and "draws_fresh draw 0 s"
    and "process_requests ord draw a reqs s = (os, s')"
    and "P (worker_resources a)" and "\<forall>(p, r)\<in>set reqs. P (spec_resources (wr_spec r))"
    and "card (dom (reservations (resource_manager s))) + length reqs \<le> N"
  shows "(manager_step (\<lambda>m q. P q \<and> card (dom (reservations m)) < N))\<^sup>*\<^sup>* (resource_manager s) (resource_manager s')"
proof -
  let ?rs = "rank_requests (score_requests a reqs)"
  have "(manager_step (batch_comes a ?rs N))\<^sup>*\<^sup>* (resource_manager s) (resource_manager s')"
    by (rule batch_comes_mono [OF offer_loop_run [OF assms(1-3) assms(4) [unfolded process_requests_def]]])
      (use length_score_requests [of a reqs] assms(7) in auto)
  then show ?thesis
    by (rule manager_run_mono) (auto simp: batch_comes_def intro: offered_terms [OF _ assms(5,6)])
qed

lemma batch_fits:
  assumes "lm_coupled s" and "orders_maps ord" and "draws_fresh draw 0 s"
    and "process_requests ord draw a reqs s = (os, s')"
    and "plain (worker_resources a)" and "\<forall>(p, r)\<in>set reqs. plain (spec_resources (wr_spec r))"
    and "card (dom (reservations (resource_manager s))) + length reqs \<le> N" and "N \<le> 2 ^ 52"
    and "manager_fits N (resource_manager s)"
  shows "manager_fits N (resource_manager s')"
proof -
  have "(manager_step (not_negative N))\<^sup>*\<^sup>* (resource_manager s) (resource_manager s')"
    by (rule manager_run_mono [OF batch_run [where P = plain, OF assms(1-7)]]) (simp add: not_negative_def)
  from fits_run [OF assms(8,9) this] show ?thesis by blast
qed

lemma batch_grid:
  assumes "lm_coupled s" and "orders_maps ord" and "draws_fresh draw 0 s"
    and "process_requests ord draw a reqs s = (os, s')"
    and "request_ok g (worker_resources a)" and "\<forall>(p, r)\<in>set reqs. request_ok g (spec_resources (wr_spec r))"
    and "manager_ok g (resource_manager s)"
  shows "manager_ok g (resource_manager s')"
proof -
  have "(manager_step (on_the_grid g))\<^sup>*\<^sup>* (resource_manager s) (resource_manager s')"
    by (rule manager_run_mono [OF batch_run [where P = "request_ok g", OF assms(1-6) order_refl]])
      (simp add: on_the_grid_def)
  from grid_run [OF assms(7) this] show ?thesis by blast
qed

text \<open>With the whole worker on offer, a second grant does not fit.\<close>

lemma offer_loop_whole:
  assumes "lm_ok g s" and "orders_maps ord" and "draws_fresh draw n s" and "strategy (offer a) = Whole"
    and "worker_resources a = compute (resource_manager s)" and "request_ok g (worker_resources a)"
    and "0 < fval (rcomp c (worker_resources a))"
  shows "length (fst (offer_loop ord draw n a rs s)) \<le> (if 0 < reserved c (resource_manager s) then 0 else 1)"
  using assms(1,3,5)
proof (induction rs arbitrary: s n)
  case (Cons y rs)
  obtain x p r where y: "y = (x, p, r)" by (metis prod.exhaust)
  have t: "fst (offer_terms a r) = worker_resources a" using assms(4) by (simp add: offer_terms_def)
  have rq: "request_ok g (fst (offer_terms a r))" using assms(6) t by simp
  from Cons.prems(1) assms(2) Cons.prems(2) rq show ?case
  proof (cases rule: offer_loop_step [where x = x and p = p and rs = rs])
    case reject
    with Cons.IH [OF Cons.prems(1) reject(2) Cons.prems(3)] y show ?thesis by simp
  next
    case (grant w s1)
    have w: "wo_resources w = worker_resources a" using grant(6) t by (metis fst_conv)
    have "manager_ok g (resource_manager s)" using Cons.prems(1) by (simp add: lm_ok_def)
    then have "0 \<le> reserved c (resource_manager s)"
      by (intro reserved_nonneg) (auto simp: manager_ok_def request_ok_def)
    then have "0 < reserved c (resource_manager s1)" "reserved c (resource_manager s) \<le> 0"
      using spec [OF grant(10), of c] spec [OF grant(11), of c] assms(7) Cons.prems(3) grant(9) w by auto
    then show ?thesis
      using Cons.IH [OF grant(2,3)] Cons.prems(3) grant(1,9) y by (auto split: prod.splits)
  qed
qed simp

lemma fle_fmax: "x \<noteq> NaN \<Longrightarrow> fle x (fmax y x)"
  by (auto simp: fmax_def fle_iff flt_iff)

lemma not_flt_fle: "x \<noteq> NaN \<Longrightarrow> y \<noteq> NaN \<Longrightarrow> \<not> flt x y \<Longrightarrow> fle y x"
  by (auto simp: fle_iff flt_iff)

lemma offered_price:
  assumes "accepts a q" and "(wo_resources w, wo_price w) = offer_terms a q" and "wr_bid q \<noteq> NaN"
  shows "fle (wr_bid q) (wo_price w) \<and> (offer_floor (offer a) \<noteq> NaN \<longrightarrow> fle (offer_floor (offer a)) (wo_price w))"
proof -
  have "wo_price w = fmax (offer_price (offer a)) (wr_bid q) \<or> wo_price w = wr_bid q"
    using assms(2) by (auto simp: offer_terms_def split: if_splits)
  moreover have "fle (wr_bid q) (wr_bid q)" using assms(3) by (simp add: fle_iff)
  ultimately have "fle (wr_bid q) (wo_price w)" using fle_fmax [OF assms(3)] by metis
  then show ?thesis using assms(1,3) not_flt_fle [of "wr_bid q"] fle_trans by (auto simp: accepts_def)
qed

section \<open>Properties of the offers\<close>

text \<open>
  C3. Every offer is backed, whatever quantities the requests ask for: for each offer of a batch the
  ledger holds a lease of that peer with the offered timeout, whose reservation is exactly the
  offered resources; the offer answers a request of the batch from that peer which passed the three
  checks, on the terms of the configured strategy, at a price no lower than the bid and the floor
  (unless these are NaNs); the offers come in the order of the ranking; and leases and reservations
  still correspond. The capacity is kept under the conditions the resource manager needs: when no
  quantity of the batch or of the worker is below zero (the arbiter does not check this), the
  reservations stay within the capacity and the rounding of the sums for \<open>N\<close> reservations; and
  exactly within it when the quantities are on one grid.
\<close>

theorem process_requests_backed:
  assumes "lm_coupled s" and "orders_maps ord" and "draws_fresh draw 0 s"
    and "process_requests ord draw a reqs s = (os, s')"
  shows "lm_coupled s'
    \<and> (\<forall>(p, w)\<in>set os. backed s' p w \<and>
        (\<exists>r. (p, r) \<in> set reqs \<and> wo_request_id w = wr_id r \<and> accepts a r
          \<and> (wo_resources w, wo_price w) = offer_terms a r
          \<and> (wr_bid r \<noteq> NaN \<longrightarrow> fle (wr_bid r) (wo_price w)
               \<and> (offer_floor (offer a) \<noteq> NaN \<longrightarrow> fle (offer_floor (offer a)) (wo_price w)))))
    \<and> subseq (map (\<lambda>(p, w). (p, wo_request_id w)) os)
        (map (\<lambda>(x, p, r). (p, wr_id r)) (rank_requests (score_requests a reqs)))
    \<and> (plain (worker_resources a) \<and> (\<forall>(p, r)\<in>set reqs. plain (spec_resources (wr_spec r)))
        \<and> card (dom (reservations (resource_manager s))) + length reqs \<le> N \<and> N \<le> 2 ^ 52
        \<and> manager_fits N (resource_manager s) \<longrightarrow> manager_fits N (resource_manager s'))
    \<and> (request_ok g (worker_resources a) \<and> (\<forall>(p, r)\<in>set reqs. request_ok g (spec_resources (wr_spec r)))
        \<and> manager_ok g (resource_manager s) \<longrightarrow> manager_ok g (resource_manager s'))"
proof -
  let ?rs = "rank_requests (score_requests a reqs)"
  from offer_loop_result [OF assms(1-3) assms(4) [unfolded process_requests_def]]
  have r: "lm_coupled s'"
    "\<forall>(p, w)\<in>set os. backed s' p w \<and> (\<exists>x r. (x, p, r) \<in> set ?rs \<and> wo_request_id w = wr_id r
        \<and> (wo_resources w, wo_price w) = offer_terms a r)"
    "subseq (map (\<lambda>(p, w). (p, wo_request_id w)) os) (map (\<lambda>(x, p, r). (p, wr_id r)) ?rs)"
    by blast+
  have "\<exists>q. (p, q) \<in> set reqs \<and> wo_request_id w = wr_id q \<and> accepts a q
      \<and> (wo_resources w, wo_price w) = offer_terms a q
      \<and> (wr_bid q \<noteq> NaN \<longrightarrow> fle (wr_bid q) (wo_price w)
           \<and> (offer_floor (offer a) \<noteq> NaN \<longrightarrow> fle (offer_floor (offer a)) (wo_price w)))"
    if "(p, w) \<in> set os" for p w
  proof -
    from bspec [OF r(2) that] obtain x q where "(x, p, q) \<in> set ?rs" "wo_request_id w = wr_id q"
      and t: "(wo_resources w, wo_price w) = offer_terms a q" by auto
    then show ?thesis using offered_price [OF _ t] by (auto simp: set_score_requests)
  qed
  with r(2) have "\<forall>(p, w)\<in>set os. backed s' p w \<and>
        (\<exists>r. (p, r) \<in> set reqs \<and> wo_request_id w = wr_id r \<and> accepts a r
          \<and> (wo_resources w, wo_price w) = offer_terms a r
          \<and> (wr_bid r \<noteq> NaN \<longrightarrow> fle (wr_bid r) (wo_price w)
               \<and> (offer_floor (offer a) \<noteq> NaN \<longrightarrow> fle (offer_floor (offer a)) (wo_price w))))"
    by blast
  with r(1,3) show ?thesis using batch_fits [OF assms] batch_grid [OF assms] by (intro conjI impI; (elim conjE)?) assumption+
qed

text \<open>
  The whole worker is offered as one unit: under the strategy \<^verbatim>\<open>Whole\<close>, with the worker's
  resources as the capacity and some component of them positive, a batch yields at most one offer,
  and none while any quantity of that component is reserved.
\<close>

lemma whole_worker_exclusive:
  assumes "lm_ok g s" and "orders_maps ord" and "draws_fresh draw 0 s" and "strategy (offer a) = Whole"
    and "worker_resources a = compute (resource_manager s)" and "request_ok g (worker_resources a)"
    and "0 < fval (rcomp c (worker_resources a))"
  shows "length (fst (process_requests ord draw a reqs s))
    \<le> (if 0 < reserved c (resource_manager s) then 0 else 1)"
  unfolding process_requests_def by (rule offer_loop_whole [OF assms])

definition cpu_arbiter :: "offer_strategy \<Rightarrow> arbiter" where
  "cpu_arbiter st = \<lparr>resource_evaluator = evaluator_default, supported_executors = [TrainDescriptor ''t''],
     worker_resources = cpus 2, offer = \<lparr>offer_price = Fin 100, offer_floor = Fin 100, strategy = st\<rparr>\<rparr>"

definition cpu_request :: "resources \<Rightarrow> float \<Rightarrow> worker_request" where
  "cpu_request res bid = \<lparr>wr_id = 11, wr_spec = \<lparr>spec_resources = res, spec_executors = [TrainDescriptor ''t'']\<rparr>,
     wr_timeout = 1, wr_bid = bid\<rparr>"

definition demo_draw :: "nat \<Rightarrow> uuid \<times> uuid \<times> system_time" where
  "demo_draw i = (8 + i, 4 + i, 0)"

lemma draws_fresh_demo: "draws_fresh demo_draw 0 leased_lm"
  by (simp add: draws_fresh_def demo_draw_def leased_lm_def two_cpus_def inj_def)

lemma offer_demo:
  assumes "res_ge (compute_resources (ord (reservations (resource_manager s))) (resource_manager s)) (fst (offer_terms a r))"
    and "accepts a r"
  shows "fst (process_requests ord demo_draw a [(p, r)] s)
    = [(p, \<lparr>wo_id = 4, wo_request_id = wr_id r, wo_price = snd (offer_terms a r),
        wo_resources = fst (offer_terms a r), wo_timeout = 10000000000\<rparr>)]"
  using assms
  by (auto simp: process_requests_def rank_requests_def demo_draw_def lm_request_cases reserve_def
      OFFER_TIMEOUT_def Let_def split: prod.splits)

theorem process_requests_backed_witness:
  "\<exists>w s'. process_requests key_order demo_draw (cpu_arbiter Flexible) [(6, cpu_request (cpus 1) (Fin 150))] leased_lm
       = ([(6, w)], s') \<and> lm_coupled s' \<and> backed s' 6 w \<and> wo_price w = Fin 150
     \<and> manager_fits 10 (resource_manager leased_lm) \<and> manager_fits 10 (resource_manager s')
     \<and> manager_ok 0 (resource_manager leased_lm) \<and> manager_ok 0 (resource_manager s')"
proof -
  let ?r = "cpu_request (cpus 1) (Fin 150)" and ?a = "cpu_arbiter Flexible"
  obtain os s' where p: "process_requests key_order demo_draw ?a [(6, ?r)] leased_lm = (os, s')" by force
  have acc: "accepts ?a ?r"
    by (auto simp: accepts_def cpu_arbiter_def cpu_request_def flt_finite res_gt_iff ex_component)
  have "res_ge (compute_resources [7] two_cpus) (cpus 1)"
    by (simp add: res_ge_iff all_component compute_resources_def two_cpus_def res_sum_def float_simps)
  then have "\<exists>w. os = [(6, w)] \<and> wo_price w = Fin 150"
    using offer_demo [OF _ acc, of key_order leased_lm 6] p
    by (simp add: offer_terms_def cpu_arbiter_def cpu_request_def leased_lm_def key_order_def two_cpus_def)
  moreover have "plain (worker_resources ?a)" "plain (spec_resources (wr_spec ?r))"
    "request_ok 0 (worker_resources ?a)" "request_ok 0 (spec_resources (wr_spec ?r))"
    using request_ok_cpus finite_plain_cpus [OF f64_examples(2)] finite_plain_cpus [OF f64_examples(3)]
    by (simp_all add: cpu_arbiter_def cpu_request_def finite_plain_def)
  moreover have fits: "manager_fits 10 (resource_manager leased_lm)"
    "manager_ok 0 (resource_manager leased_lm)" "lm_coupled leased_lm"
    "card (dom (reservations (resource_manager leased_lm))) = 1"
    using lm_ok_leased finite_plain_cpus [OF f64_examples(2)] finite_plain_cpus [OF f64_examples(3)]
    by (auto simp: lm_ok_def) (auto simp: manager_fits_def leased_lm_def two_cpus_def reserved_def slack_def)
  ultimately show ?thesis
    using process_requests_backed [OF fits(3) orders_key_order draws_fresh_demo p, of 10 0] p by auto
qed

lemma whole_worker_exclusive_witness:
  "fst (process_requests key_order demo_draw (cpu_arbiter Whole) [(6, cpu_request (cpus 1) (Fin 150))] leased_lm) = []"
proof -
  have "worker_resources (cpu_arbiter Whole) = compute (resource_manager leased_lm)"
    "request_ok 0 (worker_resources (cpu_arbiter Whole))" "0 < fval (rcomp Cpu (worker_resources (cpu_arbiter Whole)))"
    "0 < reserved Cpu (resource_manager leased_lm)"
    using request_ok_cpus [of 2]
    by (simp_all add: cpu_arbiter_def leased_lm_def two_cpus_def reserved_def del: rcomp.simps)
  with whole_worker_exclusive [OF lm_ok_leased orders_key_order draws_fresh_demo, of "cpu_arbiter Whole" Cpu]
  show ?thesis by (simp add: cpu_arbiter_def)
qed

text \<open>
  The check against the worker's resources rejects a request only when it exceeds them in every
  component at once. A request for one processor and five units of memory passes at a worker
  that has no memory, and under the strategy \<^verbatim>\<open>Whole\<close> it is offered a lease on resources that do not
  cover it.
\<close>

lemma incomparable_request_offered:
  "let r = cpu_request (with_memory (Fin 5) (cpus 1)) (Fin 150);
       s = lease_manager_new (manager_new (cpus 2));
       a = cpu_arbiter Whole
   in accepts a r \<and> \<not> res_ge (worker_resources a) (spec_resources (wr_spec r))
      \<and> map (\<lambda>(p, w). (p, wo_request_id w, wo_resources w)) (fst (process_requests key_order demo_draw a [(6, r)] s))
        = [(6, wr_id r, worker_resources a)]"
proof -
  let ?r = "cpu_request (with_memory (Fin 5) (cpus 1)) (Fin 150)"
  let ?s = "lease_manager_new (manager_new (cpus 2))" and ?a = "cpu_arbiter Whole"
  have acc: "accepts ?a ?r"
    by (auto simp: accepts_def cpu_arbiter_def cpu_request_def flt_finite res_gt_iff ex_component
        all_component fle_finite with_memory_def cpus_def)
  moreover have "\<not> res_ge (worker_resources ?a) (spec_resources (wr_spec ?r))"
    by (simp add: res_ge_iff all_component cpu_arbiter_def cpu_request_def fle_finite with_memory_def cpus_def)
  moreover have "res_ge (compute_resources [] (manager_new (cpus 2))) (cpus 2)"
    by (simp add: res_ge_iff all_component compute_resources_def manager_new_def res_sum_def float_simps)
  then have "map (\<lambda>(p, w). (p, wo_request_id w, wo_resources w)) (fst (process_requests key_order demo_draw ?a [(6, ?r)] ?s))
      = [(6, wr_id ?r, worker_resources ?a)]"
    using offer_demo [OF _ acc, of key_order ?s 6]
    by (simp add: offer_terms_def cpu_arbiter_def lease_manager_new_def key_order_def manager_new_def)
  ultimately show ?thesis by (simp add: Let_def)
qed

text \<open>
  The floor price is no bar to a bid that is not a number: it passes the floor check of every
  configuration, and under the strategy \<^verbatim>\<open>Flexible\<close> the offer carries it as its price.
\<close>

lemma nan_bid_passes_floor:
  "(accepts a (cpu_request res NaN) \<longleftrightarrow>
      TrainDescriptor ''t'' \<in> set (supported_executors a) \<and> \<not> res_gt res (worker_resources a))
   \<and> snd (offer_terms (a\<lparr>offer := (offer a)\<lparr>strategy := Flexible\<rparr>\<rparr>) (cpu_request res NaN)) = NaN"
  by (simp add: accepts_def cpu_request_def flt_iff offer_terms_def)

end
