(* ===== verification/Statistics.thy ===== *)
theory Statistics
  imports Prelude "HOL-Library.Signed_Division"
begin

text \<open>
  The scheduler's runtime statistic (\<^verbatim>\<open>crates/scheduler/src/statistics.rs\<close>): a running mean of the
  time per batch, kept in 64-bit words. The casts to \<^verbatim>\<open>i64\<close> and the truncating division are written
  out on the signed values; a division that panics is \<open>None\<close>.
\<close>

record running_mean =
  mean :: u64
  samples :: u64

definition rm_new :: running_mean where
  "rm_new = \<lparr>mean = - 1, samples = 0\<rparr>"

definition i64_div :: "u64 \<Rightarrow> u64 \<Rightarrow> u64 option" where
  "i64_div a b =
     (if b = 0 \<or> (sint a = - (2 ^ 63) \<and> sint b = - 1) then None
      else Some (word_of_int (sint a sdiv sint b)))"

definition rm_update :: "u64 \<Rightarrow> u64 \<Rightarrow> running_mean \<Rightarrow> running_mean option" where
  "rm_update time count s =
     (if count > 0 then
        if samples s = 0 then Some \<lparr>mean = time div count, samples = count\<rparr>
        else let n = samples s + count
             in case i64_div (time div count - mean s) n of
                  None \<Rightarrow> None
                | Some q \<Rightarrow> Some \<lparr>mean = mean s + q, samples = n\<rparr>
      else Some s)"

definition rm_value :: "running_mean \<Rightarrow> u64" where
  "rm_value s = mean s"

section \<open>Signed reading of small words\<close>

lemma sint_small: "uint x < 2 ^ 63 \<Longrightarrow> sint x = uint x" for x :: u64
proof -
  assume x: "uint x < 2 ^ 63"
  have "sint x = signed_take_bit 63 (uint x)" by (simp add: sint_uint)
  also have "\<dots> = uint x"
    by (rule signed_take_bit_int_eq_self) (use x uint_ge_0 [of x] in linarith)+
  finally show ?thesis .
qed

lemma sint_diff_small:
  assumes "uint x < 2 ^ 63" and "uint y < 2 ^ 63"
  shows "sint (x - y :: u64) = uint x - uint y"
proof -
  have "sint (x - y) = signed_take_bit 63 (sint x - sint y)"
    by (simp add: sint_word_ariths)
  also have "\<dots> = uint x - uint y" unfolding sint_small [OF assms(1)] sint_small [OF assms(2)]
    by (rule signed_take_bit_int_eq_self) (use assms uint_ge_0 [of x] uint_ge_0 [of y] in linarith)+
  finally show ?thesis .
qed

lemma int_div_le: "0 \<le> b \<Longrightarrow> 0 < n \<Longrightarrow> b div n \<le> b" for b n :: int
  using zdiv_mono2 [of b 1 n] by simp

lemma sdiv_between:
  fixes a n :: int
  assumes "0 < n"
  shows "0 \<le> a \<Longrightarrow> 0 \<le> a sdiv n \<and> a sdiv n \<le> a" and "a \<le> 0 \<Longrightarrow> a \<le> a sdiv n \<and> a sdiv n \<le> 0"
proof -
  have nn: "0 \<le> b div n \<and> b div n \<le> b" if "0 \<le> b" for b
    using assms that by (simp add: pos_imp_zdiv_nonneg_iff int_div_le)
  show "0 \<le> a \<Longrightarrow> 0 \<le> a sdiv n \<and> a sdiv n \<le> a"
    using nn [of a] assms by (simp add: signed_divide_int_def sgn_if)
  show "a \<le> 0 \<Longrightarrow> a \<le> a sdiv n \<and> a sdiv n \<le> 0"
    using nn [of "- a"] assms by (auto simp: signed_divide_int_def sgn_if)
qed

lemma rm_update_between:
  assumes "0 < count" and "uint (samples s) + uint count < 2 ^ 63" and "uint time < 2 ^ 63"
    and "samples s \<noteq> 0 \<longrightarrow> uint (mean s) < 2 ^ 63"
  shows "\<exists>s'. rm_update time count s = Some s' \<and> uint (samples s') = uint (samples s) + uint count
    \<and> (if samples s = 0 then mean s' = time div count
       else min (mean s) (time div count) \<le> mean s' \<and> mean s' \<le> max (mean s) (time div count))"
proof (cases "samples s = 0")
  case True
  then show ?thesis using assms(1) by (simp add: rm_update_def)
next
  case False
  define x where "x = time div count"
  define n where "n = samples s + count"
  have "uint x = uint time div uint count" by (simp add: x_def uint_div_distrib)
  moreover have "0 < uint count" using assms(1) by (simp add: word_less_def)
  moreover have "uint time div uint count \<le> uint time"
    using calculation(2) by (intro int_div_le) auto
  ultimately have x: "uint x < 2 ^ 63" using assms(3) by linarith
  have m: "uint (mean s) < 2 ^ 63" using assms(4) False by simp
  have n: "uint n = uint (samples s) + uint count"
    unfolding n_def using assms(2) by (intro uint_plus_if_size [THEN trans]) (simp add: word_size)
  have n0: "0 < uint n" using n uint_ge_0 [of "samples s"] assms(1)
    by (simp add: word_less_def add_nonneg_pos)
  have sn: "sint n = uint n" using n assms(2) by (intro sint_small) linarith
  have sd: "sint (x - mean s) = uint x - uint (mean s)" by (rule sint_diff_small [OF x m])
  define q where "q = (uint x - uint (mean s)) sdiv uint n"
  have div: "i64_div (x - mean s) n = Some (word_of_int q)"
    using n0 sn sd by (auto simp: i64_div_def q_def word_neq_0_conv word_less_def)
  have b: "min (uint (mean s)) (uint x) \<le> uint (mean s) + q \<and> uint (mean s) + q \<le> max (uint (mean s)) (uint x)"
    using sdiv_between [OF n0, of "uint x - uint (mean s)"] by (cases "uint (mean s) \<le> uint x") (auto simp: q_def)
  then have "0 \<le> uint (mean s) + q" "uint (mean s) + q < 2 ^ 63"
    using x m uint_ge_0 [of x] uint_ge_0 [of "mean s"] by linarith+
  then have u: "uint (mean s + word_of_int q) = uint (mean s) + q"
    by (simp add: uint_word_ariths uint_word_of_int mod_add_right_eq)
  have "rm_update time count s = Some \<lparr>mean = mean s + word_of_int q, samples = n\<rparr>"
    using assms(1) False div by (simp add: rm_update_def Let_def x_def n_def)
  then show ?thesis using False n b u by (auto simp: x_def word_le_def min_def max_def)
qed

text \<open>
  The statistic does not leave the range of what it saw: with times and the sample count below
  half of the word range, an update never panics, and the new mean lies between the old mean and
  the new time per batch. The first update replaces the initial maximum by the time per batch.
\<close>

lemma running_mean_between:
  assumes "0 < count" and "uint (samples s) + uint count < 2 ^ 63" and "uint time < 2 ^ 63"
    and "samples s \<noteq> 0 \<longrightarrow> uint (mean s) < 2 ^ 63"
  shows "\<exists>s'. rm_update time count s = Some s' \<and> uint (samples s') = uint (samples s) + uint count
    \<and> (if samples s = 0 then mean s' = time div count
       else min (mean s) (time div count) \<le> mean s' \<and> mean s' \<le> max (mean s) (time div count))"
  by (rule rm_update_between [OF assms])

lemma running_mean_between_witness:
  "\<exists>s'. rm_update 600 3 \<lparr>mean = 100, samples = 1\<rparr> = Some s' \<and> 100 \<le> mean s' \<and> mean s' \<le> 200"
  using running_mean_between [of 3 "\<lparr>mean = 100, samples = 1\<rparr>" 600] by auto

text \<open>
  The statistic is not the mean of the batches it counts: an update over several batches adds
  all of them to the sample count but weighs their mean like one sample. After one batch of
  100 ms and three of 200 ms each it holds 125 ms; the mean is 175 ms.
\<close>

lemma running_mean_underweights:
  "\<exists>s1 s2. rm_update 100 1 rm_new = Some s1 \<and> rm_update 600 3 s1 = Some s2
     \<and> rm_value s2 = 125 \<and> (100 + 600) div samples s2 = 175"
  by (simp add: rm_update_def rm_new_def rm_value_def i64_div_def signed_divide_int_def Let_def)

end
