(* ===== verification/Pool.thy ===== *)
theory Pool
  imports Messages Statistics
begin

text \<open>
  The scheduler's worker pools (\<^verbatim>\<open>crates/scheduler/src/pool.rs\<close>): the reconciliation loop \<^verbatim>\<open>run_pool\<close> with
  its two branches as steps, the stream of joining workers, and the two decorated views that keep
  per-worker training state and per-server aggregation state. Peers are ordered by their bytes,
  which the order of their numbers stands for. What the allocator answers, and the times at which
  its workers are inserted, are arguments.
\<close>

section \<open>Membership\<close>

record worker_descriptor =
  wd_peer :: peer_id
  wd_resources :: resources
  joined_at :: system_time

record price_range =
  pr_bid :: float
  pr_max :: float

record pool_config =
  pool_name :: string
  pool_spec :: worker_spec
  pool_price :: price_range
  pool_min :: nat
  pool_target :: nat
  pool_grace :: duration

datatype pool_error = GraceExpired string nat | PoolJoin

datatype allocator_error =
    BroadcastFailed string | NoWorkersAvailable | NoOffersReceived | AllocatorTimeout | LeaseFailed

text \<open>
  The state of \<^verbatim>\<open>run_pool\<close>: the members, the workers whose end is awaited, the start of the grace
  period, and the descriptors sent to the consumer of the stream so far.
\<close>

record pool =
  members :: "worker_descriptor list"
  watchers :: "peer_id list"
  below_min_since :: "instant option"
  joins :: "worker_descriptor list"

definition pool_new :: pool where
  "pool_new = \<lparr>members = [], watchers = [], below_min_since = None, joins = []\<rparr>"

definition member_key :: "worker_descriptor \<Rightarrow> system_time \<times> peer_id" where
  "member_key d = (joined_at d, wd_peer d)"

definition pool_join :: "worker_descriptor list \<Rightarrow> pool \<Rightarrow> pool" where
  "pool_join ws p =
     (if ws = [] then p
      else p\<lparr>members := sort_key member_key (members p @ ws),
             watchers := watchers p @ map wd_peer ws, joins := joins p @ ws\<rparr>)"

definition grace_check :: "pool_config \<Rightarrow> instant \<Rightarrow> nat \<Rightarrow> pool \<Rightarrow> pool_error + pool" where
  "grace_check cfg now count p =
     (if count < pool_min cfg
      then case below_min_since p of
             Some start \<Rightarrow>
               if start + pool_grace cfg \<le> now then Inl (GraceExpired (pool_name cfg) (pool_min cfg)) else Inr p
           | None \<Rightarrow> Inr (p\<lparr>below_min_since := Some now\<rparr>)
      else Inr (p\<lparr>below_min_since := None\<rparr>))"

text \<open>The branch of the ticker. \<open>alloc needed\<close> is what the allocator answers to a request for \<open>needed\<close> workers.\<close>

definition pool_tick ::
    "pool_config \<Rightarrow> instant \<Rightarrow> (nat \<Rightarrow> allocator_error + worker_descriptor list) \<Rightarrow> pool \<Rightarrow> pool_error + pool" where
  "pool_tick cfg now alloc p =
     (let count = length (members p)
      in case grace_check cfg now count p of
           Inl e \<Rightarrow> Inl e
         | Inr p' \<Rightarrow>
             if count < pool_target cfg
             then case alloc (pool_target cfg - count) of
                    Inr ws \<Rightarrow> Inr (pool_join ws p')
                  | Inl _ \<Rightarrow> Inr p'
             else Inr p')"

text \<open>The branch of a worker whose future completed.\<close>

definition pool_exit :: "peer_id \<Rightarrow> pool \<Rightarrow> pool" where
  "pool_exit q p = p\<lparr>members := filter (\<lambda>w. wd_peer w \<noteq> q) (members p), watchers := remove1 q (watchers p)\<rparr>"

text \<open>
  \<^verbatim>\<open>poll_next\<close> of the stream: the background task is \<open>None\<close> once its end was seen, its poll gives
  its result when it has ended; \<open>chan\<close> is the poll of the channel.
\<close>

datatype 'a poll = Ready 'a | Pending

definition pool_poll_next ::
    "(pool_error + unit) poll option \<Rightarrow> worker_descriptor option poll
      \<Rightarrow> (pool_error + worker_descriptor) option poll \<times> (pool_error + unit) poll option" where
  "pool_poll_next task chan =
     (let recv = (case chan of Ready (Some w) \<Rightarrow> Ready (Some (Inr w)) | Ready None \<Rightarrow> Ready None | Pending \<Rightarrow> Pending)
      in case task of
           Some (Ready (Inr _)) \<Rightarrow> (recv, None)
         | Some (Ready (Inl e)) \<Rightarrow> (Ready (Some (Inl e)), None)
         | Some Pending \<Rightarrow> (recv, task)
         | None \<Rightarrow> (recv, None))"

section \<open>Training state per worker\<close>

record worker_state =
  sent_update :: bool
  applied_update :: bool
  applied_final_update :: bool
  samples_processed :: u32
  waiting_for_model :: bool
  receiving_from :: "peer_id option"
  is_pusher :: bool
  ws_push_done :: bool

definition worker_state_default :: worker_state where
  "worker_state_default = \<lparr>sent_update = False, applied_update = False, applied_final_update = False,
     samples_processed = 0, waiting_for_model = False, receiving_from = None, is_pusher = False,
     ws_push_done = False\<rparr>"

type_synonym train_entry = "u64 \<times> running_mean \<times> worker_state"

definition train_entry_default :: train_entry where
  "train_entry_default = (0, rm_new, worker_state_default)"

record worker_info =
  wi_peer :: peer_id
  wi_resources :: resources
  wi_last_updated :: "u64 option"
  wi_statistic :: "u64 option"
  wi_state :: worker_state

definition worker_info_new ::
    "worker_descriptor \<Rightarrow> u64 option \<Rightarrow> u64 option \<Rightarrow> worker_state \<Rightarrow> worker_info" where
  "worker_info_new d lu st ws = \<lparr>wi_peer = wd_peer d, wi_resources = wd_resources d, wi_last_updated = lu,
     wi_statistic = st, wi_state = ws\<rparr>"

record train_pool =
  tp_members :: "worker_descriptor list"
  tp_info :: "peer_id \<rightharpoonup> train_entry"

definition active_peers :: "worker_descriptor list \<Rightarrow> peer_id set" where
  "active_peers ds = wd_peer ` set ds"

text \<open>\<^verbatim>\<open>info\<close> drops the entries of workers that left and returns the members with their entries.\<close>

definition train_info :: "train_pool \<Rightarrow> worker_info list \<times> train_pool" where
  "train_info t =
     (let info = hash_retain (\<lambda>q. q \<in> active_peers (tp_members t)) (tp_info t)
      in (map (\<lambda>d. case info (wd_peer d) of
                     None \<Rightarrow> worker_info_new d None None worker_state_default
                   | Some (lu, st, ws) \<Rightarrow> worker_info_new d (Some lu) (Some (rm_value st)) ws) (tp_members t),
          t\<lparr>tp_info := info\<rparr>))"

definition entry_or_default :: "peer_id \<Rightarrow> train_pool \<Rightarrow> train_entry" where
  "entry_or_default q t = (case tp_info t q of None \<Rightarrow> train_entry_default | Some e \<Rightarrow> e)"

definition train_update_state :: "peer_id \<Rightarrow> (worker_state \<Rightarrow> worker_state) \<Rightarrow> train_pool \<Rightarrow> train_pool" where
  "train_update_state q f t =
     (case entry_or_default q t of (lu, st, ws) \<Rightarrow> t\<lparr>tp_info := (tp_info t)(q \<mapsto> (lu, st, f ws))\<rparr>)"

text \<open>A closure that panics in \<^verbatim>\<open>update_statistics\<close> is \<open>None\<close>.\<close>

definition train_update_statistics ::
    "peer_id \<Rightarrow> (running_mean \<Rightarrow> u64 \<Rightarrow> (running_mean \<times> u64) option) \<Rightarrow> train_pool \<Rightarrow> train_pool option" where
  "train_update_statistics q f t =
     (case entry_or_default q t of (lu, st, ws) \<Rightarrow>
        map_option (\<lambda>(st', lu'). t\<lparr>tp_info := (tp_info t)(q \<mapsto> (lu', st', ws))\<rparr>) (f st lu))"

section \<open>Aggregation state per parameter server\<close>

record aggregate_info_entry =
  ai_peer :: peer_id
  ai_resources :: resources
  worker_updates :: "peer_id set"

record aggregate_pool =
  ap_members :: "worker_descriptor list"
  ap_info :: "peer_id \<rightharpoonup> peer_id set"

definition updates_of :: "peer_id \<Rightarrow> aggregate_pool \<Rightarrow> peer_id set" where
  "updates_of q t = (case ap_info t q of None \<Rightarrow> {} | Some u \<Rightarrow> u)"

definition aggregate_info :: "aggregate_pool \<Rightarrow> aggregate_info_entry list \<times> aggregate_pool" where
  "aggregate_info t =
     (let t' = t\<lparr>ap_info := hash_retain (\<lambda>q. q \<in> active_peers (ap_members t)) (ap_info t)\<rparr>
      in (map (\<lambda>d. \<lparr>ai_peer = wd_peer d, ai_resources = wd_resources d, worker_updates = updates_of (wd_peer d) t'\<rparr>)
            (ap_members t), t'))"

definition aggregate_update_state :: "peer_id \<Rightarrow> (peer_id set \<Rightarrow> peer_id set) \<Rightarrow> aggregate_pool \<Rightarrow> aggregate_pool" where
  "aggregate_update_state q f t = t\<lparr>ap_info := (ap_info t)(q \<mapsto> f (updates_of q t))\<rparr>"

section \<open>Lemmas on the views\<close>

lemma train_info_members [simp]: "tp_members (snd (train_info t)) = tp_members t"
  by (simp add: train_info_def Let_def)

lemma train_update_members [simp]: "tp_members (train_update_state q f t) = tp_members t"
  by (simp add: train_update_state_def split: prod.splits)

lemma aggregate_members [simp]:
  "ap_members (snd (aggregate_info t)) = ap_members t" "ap_members (aggregate_update_state q g t) = ap_members t"
  by (simp_all add: aggregate_info_def aggregate_update_state_def Let_def)

lemma map_ai_peer [simp]: "map ai_peer (fst (aggregate_info t)) = map wd_peer (ap_members t)"
  by (simp add: aggregate_info_def Let_def comp_def)

lemma map_wi_peer [simp]: "map wi_peer (fst (train_info t)) = map wd_peer (tp_members t)"
  by (simp add: train_info_def Let_def worker_info_new_def comp_def split: option.split prod.split)

text \<open>The state that a view shows for a member, whether or not it has an entry.\<close>

definition state_of :: "peer_id \<Rightarrow> train_pool \<Rightarrow> worker_state" where
  "state_of q t = snd (snd (entry_or_default q t))"

lemma train_info_state:
  "w \<in> set (fst (train_info t)) \<Longrightarrow> wi_state w = state_of (wi_peer w) t \<and> wi_peer w \<in> active_peers (tp_members t)"
  by (auto simp: train_info_def Let_def worker_info_new_def state_of_def entry_or_default_def hash_retain_def
      active_peers_def train_entry_default_def split: option.splits)

lemma state_of_update:
  "state_of q (train_update_state r f t) = (if q = r then f (state_of q t) else state_of q t)"
  by (auto simp: state_of_def train_update_state_def entry_or_default_def split: prod.splits)

lemma state_of_info [simp]: "q \<in> active_peers (tp_members t) \<Longrightarrow> state_of q (snd (train_info t)) = state_of q t"
  by (simp add: state_of_def train_info_def Let_def entry_or_default_def hash_retain_def)

lemma updates_of_info [simp]: "q \<in> active_peers (ap_members t) \<Longrightarrow> updates_of q (snd (aggregate_info t)) = updates_of q t"
  by (simp add: updates_of_def aggregate_info_def Let_def hash_retain_def)

lemma updates_of_update:
  "updates_of q (aggregate_update_state r f t) = (if q = r then f (updates_of q t) else updates_of q t)"
  by (simp add: updates_of_def aggregate_update_state_def)

section \<open>The life of a pool\<close>

text \<open>
  Runs of the reconciliation loop, with the time and the member count that each tick saw. The
  allocator returns no more workers than it is asked for.
\<close>

inductive pool_run :: "pool_config \<Rightarrow> (instant \<times> nat) list \<Rightarrow> pool \<Rightarrow> bool" for cfg where
  run_new: "pool_run cfg [] pool_new"
| run_tick: "pool_run cfg tr p \<Longrightarrow> \<forall>n ws. 0 < n \<and> alloc n = Inr ws \<longrightarrow> length ws \<le> n \<Longrightarrow>
     pool_tick cfg now alloc p = Inr p' \<Longrightarrow> pool_run cfg (tr @ [(now, length (members p))]) p'"
| run_exit: "pool_run cfg tr p \<Longrightarrow> q \<in> set (watchers p) \<Longrightarrow> pool_run cfg tr (pool_exit q p)"

inductive_simps pool_run_nil: "pool_run cfg [] p"

definition pool_ok :: "pool_config \<Rightarrow> pool \<Rightarrow> bool" where
  "pool_ok cfg p \<longleftrightarrow> sorted (map member_key (members p)) \<and> length (members p) \<le> pool_target cfg
     \<and> active_peers (members p) \<subseteq> set (watchers p)"

lemma grace_check_fields:
  "grace_check cfg now n p = Inr p' \<Longrightarrow> members p' = members p \<and> watchers p' = watchers p"
  by (auto simp: grace_check_def split: if_splits option.splits)

lemma pool_tick_cases:
  assumes "pool_tick cfg now alloc p = Inr p'"
  obtains p1 ws where "grace_check cfg now (length (members p)) p = Inr p1" and "p' = pool_join ws p1"
    and "ws = [] \<or> length (members p) < pool_target cfg \<and> alloc (pool_target cfg - length (members p)) = Inr ws"
proof -
  have nil: "pool_join [] q = q" for q by (simp add: pool_join_def)
  show thesis using assms that [of _ "[]"] that
    by (auto simp: pool_tick_def Let_def nil split: sum.splits if_splits)
qed

lemma pool_ok_join:
  assumes "pool_ok cfg p" and "length (members p) + length ws \<le> pool_target cfg"
  shows "pool_ok cfg (pool_join ws p)"
  using assms by (auto simp: pool_ok_def pool_join_def active_peers_def)

lemma pool_run_ok: "pool_run cfg tr p \<Longrightarrow> pool_ok cfg p"
proof (induction rule: pool_run.induct)
  case (run_tick tr p alloc now p')
  from run_tick(3) show ?case
  proof (rule pool_tick_cases)
    fix p1 ws
    assume g: "grace_check cfg now (length (members p)) p = Inr p1" and p': "p' = pool_join ws p1"
      and ws: "ws = [] \<or> length (members p) < pool_target cfg \<and> alloc (pool_target cfg - length (members p)) = Inr ws"
    have ok: "pool_ok cfg p1" using grace_check_fields [OF g] run_tick(4) by (simp add: pool_ok_def)
    have "length (members p1) + length ws \<le> pool_target cfg"
      using ws grace_check_fields [OF g] run_tick(2) [rule_format, of "pool_target cfg - length (members p)" ws] ok
      by (auto simp: pool_ok_def)
    then show ?thesis unfolding p' by (rule pool_ok_join [OF ok])
  qed
next
  case (run_exit tr p q)
  then show ?case
    by (auto simp: pool_ok_def pool_exit_def active_peers_def sorted_filter
        intro: order_trans [OF length_filter_le])
qed (simp add: pool_ok_def pool_new_def active_peers_def)

lemma sort_key_append_sorted:
  "sorted (map f (xs @ sort_key f ys)) \<Longrightarrow> sort_key f (xs @ ys) = xs @ sort_key f ys"
proof (induction xs)
  case (Cons x xs)
  then have "sort_key f (xs @ ys) = xs @ sort_key f ys" by simp
  moreover have "\<forall>y\<in>set (xs @ sort_key f ys). f x \<le> f y" using Cons.prems by auto
  ultimately show ?case by (simp add: insort_is_Cons)
qed simp

text \<open>
  The membership a pool publishes is always in order of joining (with the peer as tie-breaker),
  never exceeds the target, and holds only workers whose end is still awaited, so that a worker
  that ends leaves it; and workers that join later than every member are appended, so
  that the oldest member stays the first.
\<close>

lemma pool_members_ordered:
  assumes "pool_run cfg tr p"
  shows "sorted (map member_key (members p)) \<and> length (members p) \<le> pool_target cfg
    \<and> active_peers (members p) \<subseteq> set (watchers p) \<and> q \<notin> active_peers (members (pool_exit q p))
    \<and> ((\<forall>d\<in>set (members p). \<forall>w\<in>set ws. joined_at d < joined_at w) \<longrightarrow>
        members (pool_join ws p) = members p @ sort_key member_key ws)"
proof -
  have ok: "pool_ok cfg p" by (rule pool_run_ok [OF assms])
  have "members (pool_join ws p) = members p @ sort_key member_key ws"
    if "\<forall>d\<in>set (members p). \<forall>w\<in>set ws. joined_at d < joined_at w"
  proof -
    have "sorted (map member_key (members p @ sort_key member_key ws))"
      using that ok by (auto simp: sorted_append pool_ok_def member_key_def less_eq_prod_def)
    then have "sort_key member_key (members p @ ws) = members p @ sort_key member_key ws"
      by (rule sort_key_append_sorted)
    then show ?thesis by (auto simp: pool_join_def)
  qed
  then show ?thesis using ok by (auto simp: pool_ok_def pool_exit_def active_peers_def)
qed

definition demo_pool_config :: pool_config where
  "demo_pool_config = \<lparr>pool_name = ''train'', pool_spec = \<lparr>spec_resources = resources_default, spec_executors = []\<rparr>,
     pool_price = \<lparr>pr_bid = Fin 100, pr_max = Fin 100\<rparr>, pool_min = 1, pool_target = 2, pool_grace = 10\<rparr>"

definition demo_member :: "peer_id \<Rightarrow> system_time \<Rightarrow> worker_descriptor" where
  "demo_member q t = \<lparr>wd_peer = q, wd_resources = resources_default, joined_at = t\<rparr>"

lemma demo_pool_ticks:
  "pool_tick demo_pool_config 0 (\<lambda>_. Inl NoOffersReceived) pool_new = Inr (pool_new\<lparr>below_min_since := Some 0\<rparr>)"
  "pool_tick demo_pool_config 5 (\<lambda>_. Inr [demo_member 3 7]) pool_new
     = Inr \<lparr>members = [demo_member 3 7], watchers = [3], below_min_since = Some 5, joins = [demo_member 3 7]\<rparr>"
  by (simp_all add: pool_tick_def grace_check_def pool_new_def demo_pool_config_def pool_join_def demo_member_def)

lemma pool_members_ordered_witness:
  "\<exists>p. pool_run demo_pool_config [(5, 0)] p \<and> members p = [demo_member 3 7]
     \<and> members (pool_join [demo_member 9 8, demo_member 4 8] p) = [demo_member 3 7, demo_member 4 8, demo_member 9 8]"
proof -
  let ?p = "\<lparr>members = [demo_member 3 7], watchers = [3], below_min_since = Some 5, joins = [demo_member 3 7]\<rparr>"
  have "pool_tick demo_pool_config 5 (\<lambda>n. if n = 2 then Inr [demo_member 3 7] else Inl NoOffersReceived) pool_new = Inr ?p"
    using demo_pool_ticks(2) by (simp add: pool_tick_def pool_new_def demo_pool_config_def)
  from run_tick [OF run_new _ this] have r: "pool_run demo_pool_config [(5, 0)] ?p"
    by (auto simp: pool_new_def split: if_splits)
  from pool_members_ordered [OF r, of 0 "[demo_member 9 8, demo_member 4 8]"] r show ?thesis
    by (intro exI [of _ ?p]) (simp add: demo_member_def member_key_def)
qed

section \<open>The grace period\<close>

text \<open>The start of the latest uninterrupted series of ticks that saw too few members.\<close>

definition below_since :: "pool_config \<Rightarrow> (instant \<times> nat) list \<Rightarrow> instant option" where
  "below_since cfg tr =
     (case rev (takeWhile (\<lambda>(t, n). n < pool_min cfg) (rev tr)) of [] \<Rightarrow> None | (t, _) # _ \<Rightarrow> Some t)"

lemma below_since_snoc:
  "below_since cfg (tr @ [(now, n)]) =
     (if n < pool_min cfg then Some (case below_since cfg tr of None \<Rightarrow> now | Some st \<Rightarrow> st) else None)"
  by (auto simp: below_since_def split: list.splits)

lemma below_min_since_history: "pool_run cfg tr p \<Longrightarrow> below_min_since p = below_since cfg tr"
proof (induction rule: pool_run.induct)
  case (run_tick tr p alloc now p')
  from run_tick(3) show ?case
  proof (rule pool_tick_cases)
    fix p1 ws
    assume g: "grace_check cfg now (length (members p)) p = Inr p1" and p': "p' = pool_join ws p1"
    have "below_min_since p' = below_min_since p1" by (simp add: p' pool_join_def)
    with g run_tick(4) show ?thesis
      by (auto simp: below_since_snoc grace_check_def split: if_splits option.splits)
  qed
qed (auto simp: pool_new_def below_since_def pool_exit_def)

text \<open>
  The pool gives up exactly when it should: a tick fails if and only if it sees fewer members
  than the minimum and the uninterrupted series of ticks that saw too few began at least the grace
  period ago. A single tick that sees enough members restarts the period. The failure names the pool and
  its minimum.
\<close>

lemma pool_grace_exact:
  assumes "pool_run cfg tr p"
  shows "pool_tick cfg now alloc p = Inl e \<longleftrightarrow>
    e = GraceExpired (pool_name cfg) (pool_min cfg) \<and> length (members p) < pool_min cfg
    \<and> (\<exists>start. below_since cfg tr = Some start \<and> start + pool_grace cfg \<le> now)"
  using below_min_since_history [OF assms]
  by (auto simp: pool_tick_def grace_check_def Let_def split: sum.splits if_splits option.splits)

lemma pool_grace_exact_witness:
  "\<exists>p. pool_run demo_pool_config [(0, 0)] p
     \<and> pool_tick demo_pool_config 10 (\<lambda>_. Inl NoOffersReceived) p = Inl (GraceExpired ''train'' 1)"
proof -
  have "pool_run demo_pool_config ([] @ [(0, length (members pool_new))]) (pool_new\<lparr>below_min_since := Some 0\<rparr>)"
    by (rule run_tick [OF run_new _ demo_pool_ticks(1)]) simp
  then have r: "pool_run demo_pool_config [(0, 0)] (pool_new\<lparr>below_min_since := Some 0\<rparr>)"
    by (simp add: pool_new_def)
  with pool_grace_exact [OF r, of 10 _ "GraceExpired ''train'' 1"] show ?thesis
    by (auto simp: demo_pool_config_def pool_new_def below_since_def)
qed

end
