(* ===== verification/Worker_Handle.thy ===== *)
theory Worker_Handle
  imports Messages Pool
begin

text \<open>
  The scheduler's side of a lease and of a task (\<^verbatim>\<open>crates/scheduler/src/worker.rs\<close>, \<^verbatim>\<open>task.rs\<close>): the loop
  that renews a lease, and the dispatch of a job to several workers. The answers of the network
  and the readings of the clock are arguments; so is what \<^verbatim>\<open>Retry::spawn\<close> of the library \<^verbatim>\<open>tokio_retry\<close> returns for
  the number of retries that it is given.
\<close>

section \<open>Worker handles\<close>

datatype worker_error = WorkerDisconnected | WorkerDispatchFailed string | WorkerLeaseExpired | WorkerNetworkError string

record worker =
  w_lease_id :: uuid
  w_peer_id :: peer_id
  w_spec :: worker_spec
  w_price :: float
  w_resources :: resources

definition worker_create :: "uuid \<Rightarrow> peer_id \<Rightarrow> worker_spec \<Rightarrow> resources \<Rightarrow> float \<Rightarrow> worker" where
  "worker_create lid p spec res price =
     \<lparr>w_lease_id = lid, w_peer_id = p, w_spec = spec, w_price = price, w_resources = res\<rparr>"

definition descriptor_of_worker :: "system_time \<Rightarrow> worker \<Rightarrow> worker_descriptor" where
  "descriptor_of_worker now w = \<lparr>wd_peer = w_peer_id w, wd_resources = w_resources w, joined_at = now\<rparr>"

text \<open>\<^verbatim>\<open>SystemTime::duration_since\<close>, which is an error for a later time.\<close>

definition duration_since :: "system_time \<Rightarrow> system_time \<Rightarrow> duration option" where
  "duration_since t now = (if now \<le> t then Some (t - now) else None)"

text \<open>The number of retries that the remaining time allows, one every 200 milliseconds.\<close>

definition renew_retries :: "system_time \<Rightarrow> system_time option \<Rightarrow> nat" where
  "renew_retries now last_timeout =
     (let remaining = (case last_timeout of
            Some t \<Rightarrow> (case duration_since t now of Some d \<Rightarrow> d | None \<Rightarrow> from_secs 1)
          | None \<Rightarrow> from_secs 1)
      in remaining div from_millis 1 div 200)"

definition safe_duration :: "system_time \<Rightarrow> system_time \<Rightarrow> duration" where
  "safe_duration now t =
     (let d = (case duration_since t now of Some d \<Rightarrow> d | None \<Rightarrow> from_secs 6) in d div 3 * 2)"

text \<open>
  One turn of the loop: \<open>retry n\<close> is the outcome of the request with at most \<open>n\<close> retries, \<open>now\<close> the
  time before it, \<open>now'\<close> the time after it. The loop sleeps and goes on, or ends with an error.
\<close>

datatype renew_turn = SleepFor duration "system_time option" | EndWith worker_error

definition renew_lease_turn ::
    "(nat \<Rightarrow> string + api_response) \<Rightarrow> system_time \<Rightarrow> system_time \<Rightarrow> system_time option \<Rightarrow> renew_turn" where
  "renew_lease_turn retry now now' last_timeout =
     (case retry (renew_retries now last_timeout) of
        Inr (RenewLeaseResp (Renewed _ t)) \<Rightarrow> SleepFor (safe_duration now' t) (Some t)
      | Inr (RenewLeaseResp RenewNotFound) \<Rightarrow> EndWith WorkerLeaseExpired
      | Inr (RenewLeaseResp RenewFailed) \<Rightarrow> EndWith WorkerLeaseExpired
      | Inr (RenewLeaseResp RenewForbidden) \<Rightarrow> EndWith WorkerLeaseExpired
      | Inr _ \<Rightarrow> EndWith WorkerLeaseExpired
      | Inl e \<Rightarrow> EndWith (WorkerNetworkError e))"

text \<open>The future of a handle: the result of the loop, or a disconnect when its task was lost.\<close>

definition worker_poll :: "(unit + (worker_error + unit)) poll \<Rightarrow> (worker_error + unit) poll" where
  "worker_poll task =
     (case task of Pending \<Rightarrow> Pending | Ready (Inl _) \<Rightarrow> Ready (Inl WorkerDisconnected) | Ready (Inr r) \<Rightarrow> Ready r)"

section \<open>Tasks\<close>

definition dispatch_result :: "string + api_response \<Rightarrow> worker_error + unit" where
  "dispatch_result answer =
     (case answer of
        Inr (DispatchJobResp (Dispatched _ _)) \<Rightarrow> Inr ()
      | Inr (DispatchJobResp DispatchFailed) \<Rightarrow> Inl (WorkerDispatchFailed ''Worker rejected job'')
      | Inr _ \<Rightarrow> Inl (WorkerDispatchFailed ''Unexpected response type'')
      | Inl e \<Rightarrow> Inl (WorkerDispatchFailed (''Network error: '' @ e)))"

text \<open>\<^verbatim>\<open>collect::<Result<(), _>>\<close>: the first error in the order of the workers.\<close>

fun collect_results :: "(worker_error + unit) list \<Rightarrow> worker_error + unit" where
  "collect_results [] = Inr ()"
| "collect_results (Inl e # rs) = Inl e"
| "collect_results (Inr _ # rs) = collect_results rs"

record task =
  task_id :: uuid
  task_status :: "(peer_id \<times> job_status) list"

definition task_accepts :: "uuid \<Rightarrow> api_request \<Rightarrow> bool" where
  "task_accepts tid req = (case req of JobStatusReq t _ \<Rightarrow> t = tid | _ \<Rightarrow> False)"

definition task_try_new ::
    "string + unit \<Rightarrow> uuid \<Rightarrow> job_spec \<Rightarrow> (peer_id \<Rightarrow> api_request \<Rightarrow> string + api_response) \<Rightarrow> peer_id list \<Rightarrow> worker_error + task" where
  "task_try_new subscribed tid spec ask workers =
     (case subscribed of
        Inl e \<Rightarrow> Inl (WorkerNetworkError e)
      | Inr _ \<Rightarrow>
          (case collect_results (map (\<lambda>p. dispatch_result (ask p (DispatchJobReq tid spec))) workers) of
             Inl e \<Rightarrow> Inl e
           | Inr _ \<Rightarrow> Inr \<lparr>task_id = tid, task_status = []\<rparr>))"

definition task_on_status :: "peer_id \<Rightarrow> api_request \<Rightarrow> task \<Rightarrow> api_response \<times> task" where
  "task_on_status p req t =
     (JobStatusResp,
      case req of JobStatusReq _ st \<Rightarrow> t\<lparr>task_status := task_status t @ [(p, st)]\<rparr> | _ \<Rightarrow> t)"

end
