(* ===== verification/Lease_Renewal.thy ===== *)
theory Lease_Renewal
  imports Arbiter Worker_Handle
begin

text \<open>
  The two sides of a lease together: the scheduler's renewal loop of \<^verbatim>\<open>worker.rs\<close> against the worker's
  renewal handler and pruning task of \<^verbatim>\<open>arbiter.rs\<close>. Times are readings of one clock, as the
  timeouts that the two exchange are absolute.
\<close>

section \<open>The time between renewals\<close>

lemma safe_duration_eq: "now \<le> t \<Longrightarrow> safe_duration now t = (t - now) div 3 * 2"
  by (simp add: safe_duration_def duration_since_def)

lemma next_renewal_in_time:
  assumes "R \<le> t" and "delay < (t - R) div 3"
  shows "R + safe_duration R t + delay < t"
proof -
  have "(t - R) div 3 * 3 \<le> t - R" by simp
  then show ?thesis using assms by (simp add: safe_duration_eq)
qed

section \<open>What happens to a lease between two renewals\<close>

text \<open>
  A step of the worker at time \<open>now\<close>: a pruning round, a request for any quantities, the renewal of
  another lease, the removal of any lease (after an offer that could not be sent), and whatever
  happens to the jobs. The flag tells whether the step revokes the lease \<open>lid\<close>: a pruning round does when
  it meets a failed job of that lease, a removal when it is the removal of that lease. Identifiers
  are not drawn twice.
\<close>

inductive other_step ::
    "uuid \<Rightarrow> system_time \<Rightarrow> bool \<Rightarrow> lease_manager \<times> job_manager \<Rightarrow> lease_manager \<times> job_manager \<Rightarrow> bool"
  for lid now where
  other_prune: "orders_maps ordl \<Longrightarrow> orders_maps ordj \<Longrightarrow>
     prune_tick outs ordl ordj now s jm = (s', jm') \<Longrightarrow>
     other_step lid now (\<exists>j\<in>ran (jobs jm). job_lease j = lid \<and> is_failed (job_state j)) (s, jm) (s', jm')"
| other_request: "rid \<notin> dom (reservations (resource_manager s)) \<Longrightarrow> k \<notin> dom (ledger s) \<Longrightarrow> k \<noteq> lid \<Longrightarrow>
     lm_request ks rid k now peer spec d s = (res, s') \<Longrightarrow> other_step lid now False (s, jm) (s', jm)"
| other_renew: "k \<noteq> lid \<Longrightarrow> lm_renew k now d s = (res, s') \<Longrightarrow> other_step lid now False (s, jm) (s', jm)"
| other_remove: "lm_remove k s = (res, s') \<Longrightarrow> other_step lid now (k = lid) (s, jm) (s', jm)"
| other_jobs: "jm_ok jm' \<Longrightarrow> other_step lid now False (s, jm) (s, jm')"

lemma lm_request_ledger:
  "lm_request ks rid k now peer spec d s = (res, s') \<Longrightarrow> k \<noteq> lid \<Longrightarrow> ledger s' lid = ledger s lid"
  by (auto simp: lm_request_cases Let_def split: prod.splits sum.splits)

lemma lm_request_coupled:
  assumes "lm_coupled s" and "rid \<notin> dom (reservations (resource_manager s))" and "k \<notin> dom (ledger s)"
    and "lm_request ks rid k now peer spec d s = (res, s')"
  shows "lm_coupled s'"
  using assms(1,4) coupled_request [OF assms(1-3)]
  by (auto simp: lm_request_cases reserve_def Let_def split: if_splits)

lemma lm_renew_ledger: "lm_renew k now d s = (res, s') \<Longrightarrow> k \<noteq> lid \<Longrightarrow> ledger s' lid = ledger s lid"
  by (auto simp: lm_renew_def ledger_renew_def Let_def split: option.splits)

lemma coupled_holds: "any.holds s \<longleftrightarrow> lm_coupled s"
  by (simp add: any.holds_def)

lemmas coupled_ops = any.prune_result [unfolded coupled_holds] any.holds_renew [unfolded coupled_holds]
  any.holds_lm_remove [unfolded coupled_holds] any.ledger_remove_holds [unfolded coupled_holds]

text \<open>The lease goes exactly when it is revoked, or had gone before.\<close>

lemma other_step_lease:
  assumes "other_step lid now gone (s, jm) (s', jm')" and "lm_coupled s" and "jm_ok jm"
    and "\<And>l. ledger s lid = Some l \<Longrightarrow> \<not> is_expired now l"
  shows "lm_coupled s' \<and> jm_ok jm' \<and> ledger s' lid = (if gone then None else ledger s lid)"
  using assms(1)
proof (cases rule: other_step.cases)
  case (other_prune ordl ordj outs)
  note r = coupled_ops(1-3) [OF assms(2,3) other_prune(2,3,4)]
  have "ledger s' lid = Some l \<longleftrightarrow> ledger s lid = Some l \<and> \<not> gone" for l
    using r(3) [of lid l] assms(4) [of l] other_prune(1) by auto
  then have "ledger s' lid = (if gone then None else ledger s lid)"
    by (metis not_None_eq)
  then show ?thesis using r(1,2) by simp
next
  case (other_request rid k ks peer spec d res)
  with lm_request_coupled [OF assms(2)] lm_request_ledger assms(3) show ?thesis by simp
next
  case (other_renew k d res)
  with coupled_ops(5) [OF assms(2)] lm_renew_ledger assms(3) show ?thesis by simp
next
  case (other_remove k res)
  then have s': "s' = snd (lm_remove k s)" by simp
  have "lm_coupled s'" unfolding s' by (rule coupled_ops(6) [OF assms(2)])
  moreover have "ledger s' = (ledger s)(k := None)" unfolding s' by (rule coupled_ops(7) [OF assms(2)])
  ultimately show ?thesis using other_remove(1,2) assms(3) by auto
next
  case other_jobs
  then show ?thesis using assms by simp
qed

section \<open>The loop and the handler\<close>

lemma renew_handler_renews:
  assumes "ledger s lid = Some l" and "lease_peer (leasable l) = peer"
  shows "renew_handler now peer (RenewLeaseReq lid) s s =
    (Renewed lid (now + LEASE_TIMEOUT), s\<lparr>ledger := (ledger s)(lid \<mapsto> l\<lparr>timeout := now + LEASE_TIMEOUT\<rparr>)\<rparr>)"
  using assms by (simp add: renew_handler_def lm_get_def ledger_get_def lm_renew_def ledger_renew_def Let_def)

lemma renew_handler_gone:
  "ledger s lid = None \<Longrightarrow> renew_handler now peer (RenewLeaseReq lid) s s = (RenewNotFound, s)"
  by (simp add: renew_handler_def lm_get_def ledger_get_def)

text \<open>
  A run of the loop against the worker: \<open>due\<close> is the latest time at which the next renewal reaches
  the worker, and \<open>gone\<close> tells whether some step of the run revoked the lease. A renewal is handled
  at \<open>T\<close>, its answer arrives at \<open>R\<close>, and the loop sleeps as its turn says; the next request then takes
  \<open>delay\<close>, less than a third of what is left of the lease.
\<close>

inductive renewal_run ::
    "uuid \<Rightarrow> peer_id \<Rightarrow> system_time \<Rightarrow> bool \<Rightarrow> lease_manager \<times> job_manager \<Rightarrow> bool"
  for lid peer where
  run_granted: "lm_coupled s \<Longrightarrow> jm_ok jm \<Longrightarrow> ledger s lid = Some l \<Longrightarrow> lease_peer (leasable l) = peer \<Longrightarrow>
     due < timeout l \<Longrightarrow> renewal_run lid peer due False (s, jm)"
| run_other: "renewal_run lid peer due gone w \<Longrightarrow> now \<le> due \<Longrightarrow> other_step lid now revoked w w' \<Longrightarrow>
     renewal_run lid peer due (gone \<or> revoked) w'"
| run_renewal: "renewal_run lid peer due gone (s, jm) \<Longrightarrow> T \<le> due \<Longrightarrow>
     renew_handler T peer (RenewLeaseReq lid) s s = (answer, s') \<Longrightarrow> T \<le> R \<Longrightarrow>
     renew_lease_turn (\<lambda>_. Inr (RenewLeaseResp answer)) sent R prev = SleepFor d prev' \<Longrightarrow>
     delay < (T + LEASE_TIMEOUT - R) div 3 \<Longrightarrow> renewal_run lid peer (R + d + delay) gone (s', jm)"

lemma renewal_run_lease:
  "renewal_run lid peer due gone w \<Longrightarrow> lm_coupled (fst w) \<and> jm_ok (snd w)
    \<and> (if gone then ledger (fst w) lid = None
       else \<exists>l. ledger (fst w) lid = Some l \<and> lease_peer (leasable l) = peer \<and> due < timeout l)"
proof (induction rule: renewal_run.induct)
  case (run_other due gone w now revoked w')
  have ne: "\<not> is_expired now l" if "ledger (fst w) lid = Some l" for l
    using that run_other.IH run_other(2) by (auto simp: is_expired_def split: if_splits)
  show ?case using other_step_lease [of lid now revoked "fst w" "snd w" "fst w'" "snd w'"] run_other ne
    by (auto split: if_splits)
next
  case (run_renewal due gone s jm T answer s' R sent prev d prev' delay)
  show ?case
  proof (cases gone)
    case True
    then have "answer = RenewNotFound" using run_renewal.IH run_renewal(3) renew_handler_gone [of s lid T peer] by simp
    then show ?thesis using run_renewal(5) by (simp add: renew_lease_turn_def)
  next
    case False
    then obtain l where l: "ledger s lid = Some l" "lease_peer (leasable l) = peer" using run_renewal.IH by auto
    have h: "answer = Renewed lid (T + LEASE_TIMEOUT)" "s' = s\<lparr>ledger := (ledger s)(lid \<mapsto> l\<lparr>timeout := T + LEASE_TIMEOUT\<rparr>)\<rparr>"
      using renew_handler_renews [OF l, of T] run_renewal(3) by auto
    have d: "d = safe_duration R (T + LEASE_TIMEOUT)" using run_renewal(5) h(1) by (simp add: renew_lease_turn_def)
    have "R \<le> T + LEASE_TIMEOUT" using run_renewal(6) by (cases "R \<le> T + LEASE_TIMEOUT") auto
    from next_renewal_in_time [OF this run_renewal(6)] d have "R + d + delay < T + LEASE_TIMEOUT" by simp
    moreover have "lm_coupled s'"
      using run_renewal.IH coupled_renew [of "{}" "ledger s" _ lid l] l(1) by (simp add: h(2))
    moreover have "ledger s' lid = Some (l\<lparr>timeout := T + LEASE_TIMEOUT\<rparr>)" by (simp add: h(2))
    ultimately show ?thesis using l(2) run_renewal.IH False by simp
  qed
qed simp

text \<open>
  C9. A lease that is renewed in time is lost only when it is revoked: as long as each request reaches the worker
  within a third of the time that was left when the previous answer arrived, the lease stays in the worker's ledger
  with its owner through any number of pruning rounds, requests for any quantities, job changes, renewals of
  other leases and removals, and the next renewal, whenever it is due, is granted for the full lease time and makes the loop
  go on; unless a pruning round met a failed job of that lease or the worker removed the lease itself. Then the
  lease is gone, the next renewal is answered with not found and changes nothing, and the loop ends with an
  expired lease.
\<close>

theorem renewed_lease_survives:
  assumes "renewal_run lid peer due gone (s, jm)" and "T \<le> due" and "R \<le> T + LEASE_TIMEOUT"
  shows "let (answer, s') = renew_handler T peer (RenewLeaseReq lid) s s;
           turn = renew_lease_turn (\<lambda>_. Inr (RenewLeaseResp answer)) sent R prev
    in if gone
       then ledger s lid = None \<and> answer = RenewNotFound \<and> s' = s \<and> turn = EndWith WorkerLeaseExpired
       else (\<exists>l. ledger s lid = Some l \<and> lease_peer (leasable l) = peer \<and> \<not> is_expired T l
           \<and> s' = s\<lparr>ledger := (ledger s)(lid \<mapsto> l\<lparr>timeout := T + LEASE_TIMEOUT\<rparr>)\<rparr>)
         \<and> answer = Renewed lid (T + LEASE_TIMEOUT)
         \<and> turn = SleepFor ((T + LEASE_TIMEOUT - R) div 3 * 2) (Some (T + LEASE_TIMEOUT))"
proof (cases gone)
  case True
  then show ?thesis using renewal_run_lease [OF assms(1)] renew_handler_gone [of s lid]
    by (simp add: renew_lease_turn_def)
next
  case False
  then obtain l where l: "ledger s lid = Some l" "lease_peer (leasable l) = peer" "due < timeout l"
    using renewal_run_lease [OF assms(1)] by auto
  have "\<not> is_expired T l" using l(3) assms(2) by (simp add: is_expired_def)
  then show ?thesis using False renew_handler_renews [OF l(1,2), of T] l(1,2) assms(3)
    by (simp add: renew_lease_turn_def safe_duration_eq)
qed

theorem renewed_lease_survives_witness:
  "fst (renew_handler 40 5 (RenewLeaseReq 3) leased_lm leased_lm) = Renewed 3 (40 + LEASE_TIMEOUT)
   \<and> fst (renew_handler 40 5 (RenewLeaseReq 3) (snd (lm_remove 3 leased_lm)) (snd (lm_remove 3 leased_lm)))
       = RenewNotFound"
proof -
  let ?s = "snd (lm_remove 3 leased_lm)"
  have r: "renewal_run 3 5 90 False (leased_lm, one_job)"
    using run_granted [of leased_lm one_job 3 _ 5 90] lm_ok_leased jm_ok_demo(1)
    by (simp add: leased_lm_def lm_ok_def)
  have r': "renewal_run 3 5 90 (False \<or> 3 = (3 :: uuid)) (?s, one_job)"
    by (rule run_other [OF r _ other_remove [OF prod.collapse [symmetric]], of 0]) simp
  have le: "41 \<le> 40 + LEASE_TIMEOUT" by (simp add: LEASE_TIMEOUT_def)
  show ?thesis
    using renewed_lease_survives [OF r _ le, of 39 None] renewed_lease_survives [OF r' _ le, of 39 None]
    by (simp add: case_prod_beta Let_def)
qed

end
