(* ===== verification/Allocator.thy ===== *)
theory Allocator
  imports Worker_Handle "HOL-Library.Multiset"
begin

text \<open>
  The allocation of workers (\<^verbatim>\<open>crates/scheduler/src/allocator.rs\<close>): the bounded, sorted store of
  candidates, the stream that aggregates offers until it has enough of them or time is up, and the
  request that broadcasts, collects and turns the offers into worker handles. The offers that arrive
  and the readings of the clocks are arguments.
\<close>

section \<open>Candidates\<close>

datatype candidates_error = Rejected | Full

record candidate =
  cand_peer :: peer_id
  cand_offer :: worker_offer
  cand_score :: float

record candidates =
  cand_offers :: "candidate list"
  cand_capacity :: nat
  diversity :: bool

definition candidates_new :: "nat \<Rightarrow> bool \<Rightarrow> candidates" where
  "candidates_new n d = \<lparr>cand_offers = [], cand_capacity = n, diversity = d\<rparr>"

text \<open>The sort is stable, by \<^verbatim>\<open>total_cmp\<close>; the comparisons of scores are the partial ones.\<close>

definition sort_candidates :: "candidate list \<Rightarrow> candidate list" where
  "sort_candidates = sort_key cand_score"

definition insert_new :: "candidate \<Rightarrow> candidates \<Rightarrow> (candidates_error + unit) \<times> candidates" where
  "insert_new c cs =
     (if length (cand_offers cs) < cand_capacity cs
      then (Inr (), cs\<lparr>cand_offers := sort_candidates (cand_offers cs @ [c])\<rparr>)
      else if cand_offers cs \<noteq> [] \<and> flt (cand_score c) (cand_score (last (cand_offers cs)))
      then (Inr (), cs\<lparr>cand_offers := sort_candidates (butlast (cand_offers cs) @ [c])\<rparr>)
      else (Inl Full, cs))"

definition try_insert :: "candidate \<Rightarrow> candidates \<Rightarrow> (candidates_error + unit) \<times> candidates" where
  "try_insert c cs =
     (if diversity cs
      then case position (\<lambda>x. cand_peer x = cand_peer c) (cand_offers cs) of
             Some i \<Rightarrow>
               if flt (cand_score c) (cand_score (cand_offers cs ! i))
               then (Inr (), cs\<lparr>cand_offers := sort_candidates ((cand_offers cs)[i := c])\<rparr>)
               else (Inl Rejected, cs)
           | None \<Rightarrow> insert_new c cs
      else insert_new c cs)"

definition offers_of :: "candidates \<Rightarrow> (peer_id \<times> worker_offer) list" where
  "offers_of cs = map (\<lambda>c. (cand_peer c, cand_offer c)) (cand_offers cs)"

section \<open>Aggregation of offers\<close>

record aggregator =
  ag_candidates :: candidates
  max_offers :: "nat option"
  offers_received :: nat
  returned :: bool
  ag_deadline :: instant
  hard_deadline :: instant
  upper_price :: float
  ag_evaluator :: evaluator

definition aggregator_new ::
    "instant \<Rightarrow> duration \<Rightarrow> nat option \<Rightarrow> nat \<Rightarrow> bool \<Rightarrow> float \<Rightarrow> evaluator \<Rightarrow> aggregator" where
  "aggregator_new now d max_n desired diverse upper ev =
     \<lparr>ag_candidates = candidates_new (max desired 1) diverse, max_offers = max_n, offers_received = 0, returned = False,
      ag_deadline = now + d, hard_deadline = now + d, upper_price = upper, ag_evaluator = ev\<rparr>"

text \<open>The deadline moves forward to 100 ms before the first candidate's offer expires.\<close>

definition expiry_wait :: "system_time \<Rightarrow> candidate \<Rightarrow> duration option" where
  "expiry_wait now c =
     map_option (\<lambda>d. if from_millis 100 < d then d - from_millis 100 else 0)
       (duration_since (wo_timeout (cand_offer c)) now)"

definition new_deadline :: "system_time \<Rightarrow> instant \<Rightarrow> instant \<Rightarrow> candidate list \<Rightarrow> instant" where
  "new_deadline now i hard cs =
     foldl (\<lambda>d c. case expiry_wait now c of
        Some w \<Rightarrow> if i + w < d then i + w else d
      | None \<Rightarrow> d) hard cs"

text \<open>Handing out what was collected leaves an empty store behind.\<close>

definition hand_out :: "aggregator \<Rightarrow> (peer_id \<times> worker_offer) list option poll \<times> aggregator" where
  "hand_out g = (Ready (Some (offers_of (ag_candidates g))), g\<lparr>ag_candidates := candidates_new 0 False, returned := True\<rparr>)"

record arrival =
  arr_peer :: peer_id
  arr_offer :: worker_offer
  arr_system :: system_time
  arr_instant :: instant

definition candidate_of :: "evaluator \<Rightarrow> arrival \<Rightarrow> candidate" where
  "candidate_of ev a = \<lparr>cand_peer = arr_peer a, cand_offer = arr_offer a,
     cand_score = score ev (wo_price (arr_offer a)) (wo_resources (arr_offer a))\<rparr>"

text \<open>The loop over the offers at hand: after them the stream has ended or is pending.\<close>

fun poll_offers ::
    "arrival list \<Rightarrow> bool \<Rightarrow> aggregator \<Rightarrow> (peer_id \<times> worker_offer) list option poll \<times> aggregator" where
  "poll_offers [] ended g = (if ended then hand_out g else (Pending, g))"
| "poll_offers (a # as) ended g =
     (let g = g\<lparr>offers_received := offers_received g + 1\<rparr>
      in if flt (upper_price g) (wo_price (arr_offer a)) then poll_offers as ended g
         else case try_insert (candidate_of (ag_evaluator g) a) (ag_candidates g) of
                (Inl _, cs) \<Rightarrow> poll_offers as ended (g\<lparr>ag_candidates := cs\<rparr>)
              | (Inr _, cs) \<Rightarrow>
                  (let g = g\<lparr>ag_candidates := cs,
                         ag_deadline := new_deadline (arr_system a) (arr_instant a) (hard_deadline g) (cand_offers cs)\<rparr>
                   in if cand_capacity cs \<le> length (cand_offers cs) then hand_out g
                      else poll_offers as ended g))"

definition aggregator_poll ::
    "instant \<Rightarrow> arrival list \<Rightarrow> bool \<Rightarrow> aggregator \<Rightarrow> (peer_id \<times> worker_offer) list option poll \<times> aggregator" where
  "aggregator_poll now as ended g =
     (if returned g then (Ready None, g)
      else if (case max_offers g of Some m \<Rightarrow> m \<le> offers_received g | None \<Rightarrow> False) then hand_out g
      else if ag_deadline g \<le> now then hand_out g
      else poll_offers as ended g)"

section \<open>The request\<close>

definition DEFAULT_TIMEOUT :: duration where
  "DEFAULT_TIMEOUT = from_secs 5"

definition offer_accepted :: "uuid \<Rightarrow> api_request \<Rightarrow> bool" where
  "offer_accepted rid req = (case req of WorkerOfferReq w \<Rightarrow> wo_request_id w = rid | _ \<Rightarrow> False)"

text \<open>Polling the aggregation until it is ready, as \<^verbatim>\<open>next().await\<close> does.\<close>

fun await_offers ::
    "(instant \<times> arrival list \<times> bool) list \<Rightarrow> aggregator \<Rightarrow> (peer_id \<times> worker_offer) list option poll \<times> aggregator" where
  "await_offers [] g = (Pending, g)"
| "await_offers ((now, as, ended) # ps) g =
     (case aggregator_poll now as ended g of
        (Pending, g') \<Rightarrow> await_offers ps g'
      | (Ready r, g') \<Rightarrow> (Ready r, g'))"

definition broadcast_request :: "uuid \<Rightarrow> worker_spec \<Rightarrow> system_time \<Rightarrow> duration option \<Rightarrow> price_range \<Rightarrow> worker_request" where
  "broadcast_request rid spec now deadline price =
     \<lparr>wr_id = rid, wr_spec = spec,
      wr_timeout = now + (case deadline of Some d \<Rightarrow> d | None \<Rightarrow> DEFAULT_TIMEOUT), wr_bid = pr_bid price\<rparr>"

definition allocator_request ::
    "evaluator \<Rightarrow> string + unit \<Rightarrow> string + unit \<Rightarrow> worker_spec \<Rightarrow> price_range \<Rightarrow> duration option \<Rightarrow> nat \<Rightarrow> instant
      \<Rightarrow> (instant \<times> arrival list \<times> bool) list \<Rightarrow> (allocator_error + worker list) poll" where
  "allocator_request ev subscribed published spec price deadline num start polls =
     (case subscribed of
        Inl e \<Rightarrow> Ready (Inl (BroadcastFailed e))
      | Inr _ \<Rightarrow>
          (case published of
             Inl e \<Rightarrow> Ready (Inl (BroadcastFailed e))
           | Inr _ \<Rightarrow>
               (case fst (await_offers polls (aggregator_new start
                        (case deadline of Some d \<Rightarrow> d | None \<Rightarrow> DEFAULT_TIMEOUT) None num True (pr_max price) ev)) of
                  Pending \<Rightarrow> Pending
                | Ready (Some (x # xs)) \<Rightarrow>
                    Ready (Inr (map (\<lambda>(p, w). worker_create (wo_id w) p spec (wo_resources w) (wo_price w)) (x # xs)))
                | Ready _ \<Rightarrow> Ready (Inl NoOffersReceived))))"

end
