(* ===== verification/Allocator_Properties.thy ===== *)
theory Allocator_Properties
  imports Allocator
begin

text \<open>
  What the allocation promises: the store of candidates keeps the best offers of the best peers, a
  request returns workers of distinct peers that were offered within the price, it ends by its
  deadline, and it keeps the contract that the pool relies on.
\<close>

section \<open>The best candidates\<close>

text \<open>Scores on which the partial comparison and the total order agree: neither a NaN nor the negative zero.\<close>

definition plain :: "float \<Rightarrow> bool" where
  "plain x \<longleftrightarrow> x \<noteq> NaN \<and> x \<noteq> NegZero"

lemma flt_plain: "plain x \<Longrightarrow> plain y \<Longrightarrow> flt x y \<longleftrightarrow> x < y"
  by (cases x; cases y) (auto simp: plain_def flt_iff less_float_def)

text \<open>
  The \<open>k\<close> best peers of a sequence of offers, each with its best offer: nobody outside has a better
  offer than anybody inside.
\<close>

definition best_of :: "nat \<Rightarrow> candidate list \<Rightarrow> candidate list \<Rightarrow> bool" where
  "best_of k xs L \<longleftrightarrow> sorted (map cand_score L) \<and> distinct (map cand_peer L) \<and> length L \<le> k \<and> set L \<subseteq> set xs
     \<and> (\<forall>c\<in>set L. \<forall>x\<in>set xs. cand_peer x = cand_peer c \<longrightarrow> cand_score c \<le> cand_score x)
     \<and> (\<forall>x\<in>set xs. cand_peer x \<notin> cand_peer ` set L \<longrightarrow> length L = k \<and> (\<forall>c\<in>set L. cand_score c \<le> cand_score x))"

lemma set_sort_candidates [simp]: "set (sort_candidates L) = set L"
  "length (sort_candidates L) = length L" "sorted (map cand_score (sort_candidates L))"
  by (simp_all add: sort_candidates_def)

lemma distinct_sort_candidates [simp]: "distinct (map cand_peer (sort_candidates L)) = distinct (map cand_peer L)"
proof -
  have "mset (map cand_peer (sort_candidates L)) = mset (map cand_peer L)"
    unfolding sort_candidates_def by (simp only: mset_map mset_sort)
  then show ?thesis by (metis mset_eq_imp_distinct_iff)
qed

lemma set_butlast_last: "L \<noteq> [] \<Longrightarrow> set L = insert (last L) (set (butlast L))"
  by (metis append_butlast_last_id list.simps(15) rotate1.simps(2) set_rotate1)

lemma sorted_last_max: "sorted (map f L) \<Longrightarrow> x \<in> set L \<Longrightarrow> f x \<le> f (last L)"
  by (induction L) (auto split: if_splits)

lemma best_of_replace:
  assumes b: "best_of k xs L" and i: "i < length L" "cand_peer (L ! i) = cand_peer c"
    and less: "cand_score c < cand_score (L ! i)"
  shows "best_of k (xs @ [c]) (sort_candidates (L[i := c]))"
proof -
  have p: "map cand_peer (L[i := c]) = map cand_peer L"
    using i by (metis list_update_id map_update)
  have ps: "cand_peer ` set (L[i := c]) = cand_peer ` set L" using p by (metis list.set_map)
  have s: "set (L[i := c]) \<subseteq> insert c (set L)" by (rule set_update_subset_insert)
  have Li: "L ! i \<in> set L" using i by simp
  have le: "cand_score c \<le> cand_score x" if "x \<in> set xs" "cand_peer x = cand_peer c" for x
    using b that less i Li unfolding best_of_def by (metis less_imp_le order_trans)
  have "cand_score d \<le> cand_score x" if "d \<in> set (L[i := c])" "x \<in> set (xs @ [c])" "cand_peer x = cand_peer d" for d x
  proof (cases "d = c")
    case False
    from that(1) obtain j where j: "j < length L" "d = L[i := c] ! j" by (auto simp: in_set_conv_nth)
    with False i have "j \<noteq> i" by auto
    moreover from this j have "d = L ! j" by simp
    moreover have "distinct (map cand_peer L)" using b by (simp add: best_of_def)
    ultimately have "d \<in> set L" "cand_peer d \<noteq> cand_peer c"
      using j(1) i nth_eq_iff_index_eq [of "map cand_peer L" i j] by auto
    then show ?thesis using b that by (auto simp: best_of_def)
  qed (use that le in auto)
  moreover have "length L = k \<and> (\<forall>d\<in>set (L[i := c]). cand_score d \<le> cand_score x)"
    if "x \<in> set (xs @ [c])" "cand_peer x \<notin> cand_peer ` set L" for x
  proof -
    have "cand_peer c \<in> cand_peer ` set L" using i Li by (metis image_eqI)
    with that have "x \<in> set xs" by auto
    then have "length L = k" "\<forall>d\<in>set L. cand_score d \<le> cand_score x" using b that(2) by (auto simp: best_of_def)
    then show ?thesis using s less Li by (metis insertE less_imp_le order_trans subsetD)
  qed
  ultimately show ?thesis using b s p ps i unfolding best_of_def by auto
qed

lemma best_of_reject:
  assumes "best_of k xs L" and "i < length L" "cand_peer (L ! i) = cand_peer c" and "cand_score (L ! i) \<le> cand_score c"
  shows "best_of k (xs @ [c]) L"
proof -
  have "L ! i \<in> set L" using assms(2) by simp
  moreover from this have "cand_score d \<le> cand_score c" if "d \<in> set L" "cand_peer d = cand_peer c" for d
    using assms(1,3,4) that by (metis best_of_def distinct_map inj_on_eq_iff)
  moreover have "cand_peer c \<in> cand_peer ` set L" using assms(3) calculation(1) by (metis image_eqI)
  ultimately show ?thesis using assms(1) unfolding best_of_def by auto
qed

lemma best_of_push:
  assumes b: "best_of k xs L" and new: "cand_peer c \<notin> cand_peer ` set L" and "length L < k"
  shows "best_of k (xs @ [c]) (sort_candidates (L @ [c]))"
proof -
  have all: "cand_peer x \<in> cand_peer ` set L" if "x \<in> set xs" for x using b that assms(3) by (auto simp: best_of_def)
  then have "cand_peer x \<noteq> cand_peer c" if "x \<in> set xs" for x using that new by metis
  then show ?thesis using b new all assms(3) unfolding best_of_def by auto
qed

lemma best_of_evict:
  assumes b: "best_of k xs L" and new: "cand_peer c \<notin> cand_peer ` set L" and k: "length L = k" "L \<noteq> []"
    and less: "cand_score c < cand_score (last L)"
  shows "best_of k (xs @ [c]) (sort_candidates (butlast L @ [c]))"
proof -
  let ?B = "butlast L"
  have L: "L = ?B @ [last L]" using k by simp
  have ls: "last L \<in> set L" using k by simp
  have sub: "set ?B \<subseteq> set L" by (auto dest: in_set_butlastD)
  have srt: "sorted (map cand_score (?B @ [last L]))" and dst: "distinct (map cand_peer (?B @ [last L]))"
    using b L by (simp_all add: best_of_def)
  have top: "\<forall>d\<in>set ?B. cand_score d \<le> cand_score (last L)" using srt by (auto simp: sorted_append)
  have own: "cand_score d \<le> cand_score x" if "d \<in> set L" "x \<in> set xs" "cand_peer x = cand_peer d" for d x
    using b that by (auto simp: best_of_def)
  have out: "\<forall>d\<in>set L. cand_score d \<le> cand_score x" if "x \<in> set xs" "cand_peer x \<notin> cand_peer ` set L" for x
    using b that by (auto simp: best_of_def)
  have c_own: "cand_score c \<le> cand_score x" if "x \<in> set xs" "cand_peer x = cand_peer c" for x
    using out [OF that(1)] that(2) new ls less by (metis less_imp_le order_trans)
  have dropped: "cand_score d \<le> cand_score x"
    if x: "x \<in> set xs" "cand_peer x \<notin> cand_peer ` set (?B @ [c])" and d: "d \<in> set (?B @ [c])" for x d
  proof -
    have "cand_score (last L) \<le> cand_score x"
    proof (cases "cand_peer x \<in> cand_peer ` set L")
      case True
      then have "cand_peer x = cand_peer (last L)" using x(2) unfolding set_butlast_last [OF k(2)] by auto
      then show ?thesis by (rule own [OF ls x(1)])
    qed (use out x(1) ls in blast)
    then show ?thesis using d top less by (auto intro: order_trans less_imp_le)
  qed
  have "length (sort_candidates (?B @ [c])) = k" using k by (metis L length_append_singleton set_sort_candidates(2))
  moreover have "distinct (map cand_peer (?B @ [c]))" using dst new sub by auto
  moreover have "cand_score d \<le> cand_score x" if "d \<in> set (?B @ [c])" "x \<in> set (xs @ [c])" "cand_peer x = cand_peer d" for d x
    using that own c_own new sub by (auto dest!: subsetD [OF sub])
  ultimately show ?thesis using b dropped sub k unfolding best_of_def by auto
qed

lemma best_of_full:
  assumes b: "best_of k xs L" and new: "cand_peer c \<notin> cand_peer ` set L" and k: "length L = k" "L \<noteq> []"
    and "cand_score (last L) \<le> cand_score c"
  shows "best_of k (xs @ [c]) L"
proof -
  have "\<forall>d\<in>set L. cand_score d \<le> cand_score (last L)"
    using b sorted_last_max [of cand_score L] by (auto simp: best_of_def)
  then have "\<forall>d\<in>set L. cand_score d \<le> cand_score c" using assms(5) order_trans by blast
  then show ?thesis using b new k unfolding best_of_def by auto
qed

lemma try_insert_fields [simp]:
  "cand_capacity (snd (try_insert c cs)) = cand_capacity cs" "diversity (snd (try_insert c cs)) = diversity cs"
  by (auto simp: try_insert_def insert_new_def split: option.split)

lemma try_insert_error: "fst (try_insert c cs) = Inl e \<Longrightarrow> snd (try_insert c cs) = cs"
  by (auto simp: try_insert_def insert_new_def simp del: position_None split: option.splits if_splits)

lemma try_insert_best:
  assumes "best_of (cand_capacity cs) xs (cand_offers cs)" and "diversity cs" and "0 < cand_capacity cs"
    and "\<forall>x\<in>set (xs @ [c]). plain (cand_score x)"
  shows "best_of (cand_capacity cs) (xs @ [c]) (cand_offers (snd (try_insert c cs)))"
proof -
  let ?L = "cand_offers cs"
  have pl: "flt (cand_score c) (cand_score d) \<longleftrightarrow> cand_score c < cand_score d" if "d \<in> set ?L" for d
    using assms(1,4) that by (intro flt_plain) (auto simp: best_of_def)
  show ?thesis
  proof (cases "position (\<lambda>x. cand_peer x = cand_peer c) ?L")
    case (Some i)
    then have i: "i < length ?L" "cand_peer (?L ! i) = cand_peer c" using position_SomeD by blast+
    with best_of_replace [OF assms(1) i] best_of_reject [OF assms(1) i] pl [of "?L ! i"] assms(2) Some
    show ?thesis by (auto simp: try_insert_def not_less)
  next
    case None
    then have new: "cand_peer c \<notin> cand_peer ` set ?L" by auto
    have tr: "try_insert c cs = insert_new c cs"
      unfolding try_insert_def None option.case using assms(2) by simp
    have "length ?L \<le> cand_capacity cs" using assms(1) by (simp add: best_of_def)
    then show ?thesis
      using assms(3) best_of_push [OF assms(1) new] best_of_evict [OF assms(1) new] best_of_full [OF assms(1) new]
        pl [of "last ?L"] by (cases "?L = []") (auto simp: tr insert_new_def not_less)
  qed
qed

lemma best_of_nil: "best_of k [] []"
  by (simp add: best_of_def)

lemma insert_all_best:
  assumes "best_of (cand_capacity cs) ys (cand_offers cs)" and "diversity cs" and "0 < cand_capacity cs"
    and "\<forall>x\<in>set (ys @ xs). plain (cand_score x)"
  shows "best_of (cand_capacity cs) (ys @ xs) (cand_offers (foldl (\<lambda>cs c. snd (try_insert c cs)) cs xs))"
  using assms
proof (induction xs arbitrary: cs ys)
  case (Cons x xs)
  have "best_of (cand_capacity cs) (ys @ [x]) (cand_offers (snd (try_insert x cs)))"
    using Cons.prems by (intro try_insert_best) auto
  then show ?case using Cons.IH [of "snd (try_insert x cs)" "ys @ [x]"] Cons.prems(2-4) by simp
qed simp

lemma best_of_length:
  assumes "best_of k xs L"
  shows "length L = min k (card (cand_peer ` set xs))"
proof -
  have l: "length L = card (cand_peer ` set L)" using assms distinct_card [of "map cand_peer L"] by (simp add: best_of_def)
  have sub: "cand_peer ` set L \<subseteq> cand_peer ` set xs" and k: "length L \<le> k" using assms by (auto simp: best_of_def)
  show ?thesis
  proof (cases "cand_peer ` set xs \<subseteq> cand_peer ` set L")
    case True
    then show ?thesis using l k sub by (simp add: subset_antisym)
  next
    case False
    then have "length L = k" using assms by (auto simp: best_of_def)
    moreover have "card (cand_peer ` set L) \<le> card (cand_peer ` set xs)" using sub by (intro card_mono) auto
    ultimately show ?thesis using l by simp
  qed
qed

text \<open>
  The bounded store of candidates keeps the best: after any sequence of insertions it holds, in order of
  score, one offer of each of the \<open>k\<close> best peers (or of all peers when they are fewer), for each the best
  offer that the peer made, and no peer left out made a better offer than any peer kept.
\<close>

lemma candidates_best:
  assumes "\<forall>x\<in>set xs. plain (cand_score x)" and "0 < k"
  defines "L \<equiv> cand_offers (foldl (\<lambda>cs c. snd (try_insert c cs)) (candidates_new k True) xs)"
  shows "sorted (map cand_score L) \<and> distinct (map cand_peer L) \<and> set L \<subseteq> set xs
    \<and> length L = min k (card (cand_peer ` set xs))
    \<and> (\<forall>c\<in>set L. \<forall>x\<in>set xs. cand_peer x = cand_peer c \<longrightarrow> cand_score c \<le> cand_score x)
    \<and> (\<forall>x\<in>set xs. cand_peer x \<notin> cand_peer ` set L \<longrightarrow> (\<forall>c\<in>set L. cand_score c \<le> cand_score x))"
proof -
  have "best_of k xs L"
    using insert_all_best [of "candidates_new k True" "[]" xs] assms best_of_nil by (simp add: candidates_new_def)
  then show ?thesis using best_of_length [of k xs L] unfolding best_of_def by blast
qed

section \<open>Aggregation\<close>

definition within_price :: "float \<Rightarrow> arrival \<Rightarrow> bool" where
  "within_price upper a \<longleftrightarrow> \<not> flt upper (wo_price (arr_offer a))"

text \<open>The state while offers are collected, and what is handed out in the end, relative to the offers read.\<close>

definition collecting :: "nat \<Rightarrow> float \<Rightarrow> evaluator \<Rightarrow> arrival list \<Rightarrow> aggregator \<Rightarrow> bool" where
  "collecting k upper ev xs g \<longleftrightarrow> \<not> returned g \<and> upper_price g = upper \<and> ag_evaluator g = ev
     \<and> cand_capacity (ag_candidates g) = k \<and> diversity (ag_candidates g) \<and> 0 < k
     \<and> best_of k (map (candidate_of ev) (filter (within_price upper) xs)) (cand_offers (ag_candidates g))
     \<and> length (cand_offers (ag_candidates g)) < k \<and> ag_deadline g \<le> hard_deadline g"

definition collected :: "nat \<Rightarrow> float \<Rightarrow> evaluator \<Rightarrow> arrival list \<Rightarrow> (peer_id \<times> worker_offer) list \<Rightarrow> bool" where
  "collected k upper ev xs os \<longleftrightarrow> (\<exists>L. os = map (\<lambda>c. (cand_peer c, cand_offer c)) L
     \<and> best_of k (map (candidate_of ev) (filter (within_price upper) xs)) L)"

lemma new_deadline_le: "new_deadline now i hard cs \<le> hard"
proof -
  have "foldl (\<lambda>d c. case expiry_wait now c of Some w \<Rightarrow> if i + w < d then i + w else d | None \<Rightarrow> d) d cs \<le> d" for d
  proof (induction cs arbitrary: d)
    case (Cons c cs)
    let ?d = "case expiry_wait now c of Some w \<Rightarrow> if i + w < d then i + w else d | None \<Rightarrow> d"
    have "?d \<le> d" by (auto split: option.split)
    with Cons [of ?d] show ?case by simp
  qed simp
  then show ?thesis by (simp add: new_deadline_def)
qed

lemma hand_out_collected:
  "collecting k upper ev xs g \<Longrightarrow> hand_out g = (r, g') \<Longrightarrow> \<exists>os. r = Ready (Some os) \<and> collected k upper ev xs os"
  by (auto simp: hand_out_def collecting_def collected_def offers_of_def)

definition poll_outcome :: "nat \<Rightarrow> float \<Rightarrow> evaluator \<Rightarrow> arrival list \<Rightarrow> arrival list \<Rightarrow> bool \<Rightarrow> aggregator
    \<Rightarrow> (peer_id \<times> worker_offer) list option poll \<Rightarrow> aggregator \<Rightarrow> bool" where
  "poll_outcome k upper ev xs as ended g r g' \<longleftrightarrow>
     (r = Pending \<and> \<not> ended \<and> collecting k upper ev (xs @ as) g' \<and> hard_deadline g' = hard_deadline g)
     \<or> (\<exists>os ys zs. as = ys @ zs \<and> r = Ready (Some os) \<and> collected k upper ev (xs @ ys) os \<and> (length os = k \<or> zs = [] \<and> ended))"

lemma poll_outcome_step:
  assumes "poll_outcome k upper ev (xs @ [a]) as ended h r g'" and "hard_deadline h = hard_deadline g"
  shows "poll_outcome k upper ev xs (a # as) ended g r g'"
  using assms(1) unfolding poll_outcome_def
proof
  assume "\<exists>os ys zs. as = ys @ zs \<and> r = Ready (Some os) \<and> collected k upper ev ((xs @ [a]) @ ys) os \<and> (length os = k \<or> zs = [] \<and> ended)"
  then obtain os ys zs where "a # as = (a # ys) @ zs" "r = Ready (Some os)" "collected k upper ev (xs @ a # ys) os"
    "length os = k \<or> zs = [] \<and> ended" by auto
  then show "(r = Pending \<and> \<not> ended \<and> collecting k upper ev (xs @ a # as) g' \<and> hard_deadline g' = hard_deadline g)
     \<or> (\<exists>os ys zs. a # as = ys @ zs \<and> r = Ready (Some os) \<and> collected k upper ev (xs @ ys) os \<and> (length os = k \<or> zs = [] \<and> ended))"
    by blast
qed (use assms(2) in simp)

lemma poll_offers_collects:
  assumes "collecting k upper ev xs g" and "poll_offers as ended g = (r, g')"
    and "\<forall>a\<in>set (xs @ as). within_price upper a \<longrightarrow> plain (cand_score (candidate_of ev a))"
  shows "poll_outcome k upper ev xs as ended g r g'"
  using assms
proof (induction as arbitrary: xs g)
  case Nil
  then show ?case using hand_out_collected [OF Nil(1)] by (cases ended) (auto simp: poll_outcome_def prod_eq_iff)
next
  case (Cons a as)
  let ?g = "g\<lparr>offers_received := offers_received g + 1\<rparr>"
  let ?c = "candidate_of ev a"
  let ?cs = "snd (try_insert ?c (ag_candidates g))"
  have step: ?case if "collecting k upper ev (xs @ [a]) h" "poll_offers as ended h = (r, g')" "hard_deadline h = hard_deadline g" for h
    using Cons.IH [OF that(1,2)] Cons.prems(3) that(3) by (intro poll_outcome_step [of k upper ev xs a as ended h]) auto
  show ?case
  proof (cases "within_price upper a")
    case False
    then have "collecting k upper ev (xs @ [a]) ?g" using Cons.prems(1) by (simp add: collecting_def)
    moreover have "poll_offers as ended ?g = (r, g')" using Cons.prems(1,2) False
      by (simp add: collecting_def within_price_def Let_def)
    ultimately show ?thesis by (rule step) simp
  next
    case True
    have b: "best_of k (map (candidate_of ev) (filter (within_price upper) (xs @ [a]))) (cand_offers ?cs)"
      using try_insert_best [of "ag_candidates g" "map (candidate_of ev) (filter (within_price upper) xs)" ?c] Cons.prems(1,3) True
      by (auto simp: collecting_def)
    show ?thesis
    proof (cases "fst (try_insert ?c (ag_candidates g))")
      case (Inl e)
      then have "?cs = ag_candidates g" by (rule try_insert_error)
      then have "collecting k upper ev (xs @ [a]) (?g\<lparr>ag_candidates := ?cs\<rparr>)" using Cons.prems(1) b by (simp add: collecting_def)
      moreover have "poll_offers as ended (?g\<lparr>ag_candidates := ?cs\<rparr>) = (r, g')" using Cons.prems(1,2) True Inl
        by (simp add: collecting_def within_price_def Let_def split_beta)
      ultimately show ?thesis by (rule step) simp
    next
      case (Inr u)
      define h where "h = ?g\<lparr>ag_candidates := ?cs,
        ag_deadline := new_deadline (arr_system a) (arr_instant a) (hard_deadline ?g) (cand_offers ?cs)\<rparr>"
      have r: "(if k \<le> length (cand_offers ?cs) then hand_out h else poll_offers as ended h) = (r, g')"
        using Cons.prems(1,2) True Inr by (auto simp: collecting_def within_price_def Let_def split_beta h_def split: if_splits)
      have hd: "hard_deadline h = hard_deadline g" by (simp add: h_def)
      show ?thesis
      proof (cases "k \<le> length (cand_offers ?cs)")
        case True
        then have "r = Ready (Some (offers_of ?cs))" using r by (auto simp: hand_out_def h_def)
        moreover have "collected k upper ev (xs @ [a]) (offers_of ?cs)" using b by (auto simp: collected_def offers_of_def)
        moreover have "length (offers_of ?cs) = k" using b True by (simp add: offers_of_def best_of_def)
        ultimately show ?thesis unfolding poll_outcome_def by (metis append_Cons append_Nil)
      next
        case False
        then have "collecting k upper ev (xs @ [a]) h"
          using Cons.prems(1) b by (simp add: collecting_def h_def new_deadline_le)
        then show ?thesis using r False hd by (intro step [of h]) auto
      qed
    qed
  qed
qed

lemma aggregator_poll_collects:
  assumes "collecting k upper ev xs g" and "aggregator_poll now as ended g = (r, g')" and "max_offers g = None"
    and "\<forall>a\<in>set (xs @ as). within_price upper a \<longrightarrow> plain (cand_score (candidate_of ev a))"
  shows "poll_outcome k upper ev xs as ended g r g' \<and> (hard_deadline g \<le> now \<longrightarrow> r \<noteq> Pending) \<or>
    (ag_deadline g \<le> now \<and> (\<exists>os. r = Ready (Some os) \<and> collected k upper ev xs os))"
proof -
  have nr: "\<not> returned g" "ag_deadline g \<le> hard_deadline g" using assms(1) by (simp_all add: collecting_def)
  show ?thesis
  proof (cases "ag_deadline g \<le> now")
    case True
    then have "hand_out g = (r, g')" using assms(2,3) nr by (simp add: aggregator_poll_def)
    from hand_out_collected [OF assms(1) this] True show ?thesis by blast
  next
    case False
    then have "poll_offers as ended g = (r, g')" using assms(2,3) nr by (simp add: aggregator_poll_def)
    from poll_offers_collects [OF assms(1) this assms(4)] False nr show ?thesis by auto
  qed
qed

lemma poll_offers_max: "poll_offers as ended g = (r, g') \<Longrightarrow> max_offers g' = max_offers g"
proof (induction as arbitrary: g)
  case (Cons a as)
  then show ?case by (auto simp: Let_def hand_out_def split: if_splits prod.splits sum.splits)
qed (auto simp: hand_out_def split: if_splits)

lemma await_offers_collects:
  assumes "collecting k upper ev xs g" and "await_offers ps g = (r, g')" and "max_offers g = None"
    and "\<forall>a\<in>set (xs @ concat (map (fst \<circ> snd) ps)). within_price upper a \<longrightarrow> plain (cand_score (candidate_of ev a))"
  shows "(r = Pending \<and> (\<forall>(now, _, _)\<in>set ps. now < hard_deadline g))
    \<or> (\<exists>os ys zs. concat (map (fst \<circ> snd) ps) = ys @ zs \<and> r = Ready (Some os) \<and> collected k upper ev (xs @ ys) os)"
  using assms
proof (induction ps arbitrary: xs g)
  case (Cons p ps)
  obtain now as ended where p: "p = (now, as, ended)" by (cases p)
  obtain r1 g1 where r1: "aggregator_poll now as ended g = (r1, g1)" by (metis prod.exhaust)
  from aggregator_poll_collects [OF Cons.prems(1) r1 Cons.prems(3)] Cons.prems(4) p
  consider (deadline) os where "r1 = Ready (Some os)" "collected k upper ev xs os"
    | (poll) "poll_outcome k upper ev xs as ended g r1 g1" "hard_deadline g \<le> now \<longrightarrow> r1 \<noteq> Pending" by auto
  then show ?case
  proof cases
    case deadline
    then have "r = Ready (Some os)" using Cons.prems(2) r1 p by simp
    then show ?thesis using deadline(2) by (metis append_Nil append_Nil2)
  next
    case poll
    show ?thesis
    proof (cases r1)
      case Pending
      have c: "collecting k upper ev (xs @ as) g1" "hard_deadline g1 = hard_deadline g" "now < hard_deadline g"
        using poll Pending by (auto simp: poll_outcome_def not_le)
      have m: "max_offers g1 = None"
        using r1 Cons.prems(1,3) Pending poll_offers_max [of as ended g]
        by (auto simp: aggregator_poll_def collecting_def hand_out_def split: if_splits)
      have "await_offers ps g1 = (r, g')" using Cons.prems(2) r1 p Pending by simp
      from Cons.IH [OF c(1) this m] Cons.prems(4) p c(2,3) show ?thesis
        by (auto; metis append_assoc)
    next
      case (Ready x)
      then obtain os ys zs where "as = ys @ zs" "r1 = Ready (Some os)" "collected k upper ev (xs @ ys) os"
        using poll(1) by (auto simp: poll_outcome_def)
      moreover from this have "r = Ready (Some os)" using Cons.prems(2) r1 p by simp
      moreover from calculation(1) p have "concat (map (fst \<circ> snd) (p # ps)) = ys @ (zs @ concat (map (fst \<circ> snd) ps))" by simp
      ultimately show ?thesis by blast
    qed
  qed
qed simp

lemma collecting_new: "collecting (max num 1) upper ev [] (aggregator_new now d None num True upper ev)"
  by (simp add: collecting_def aggregator_new_def candidates_new_def best_of_nil)

lemma allocator_request_Ready:
  assumes "allocator_request ev subscribed published spec price deadline num start polls = Ready (Inr ws)"
  obtains os where "fst (await_offers polls (aggregator_new start (case deadline of Some d \<Rightarrow> d | None \<Rightarrow> DEFAULT_TIMEOUT)
      None num True (pr_max price) ev)) = Ready (Some os)" and "os \<noteq> []"
    and "ws = map (\<lambda>(p, w). worker_create (wo_id w) p spec (wo_resources w) (wo_price w)) os"
  using assms that
  by (auto simp: allocator_request_def simp del: list.map split: sum.splits poll.splits option.splits list.splits)


text \<open>
  A request for workers ends by its deadline: when it is polled at or after that time it has
  returned, whatever arrives; early expiries of offers only move the time forward.
\<close>

lemma allocation_ends_by_deadline:
  assumes "(now, as, ended) \<in> set polls" and "start + (case deadline of Some d \<Rightarrow> d | None \<Rightarrow> DEFAULT_TIMEOUT) \<le> now"
    and "\<forall>a\<in>set (concat (map (fst \<circ> snd) polls)). within_price (pr_max price) a \<longrightarrow> plain (cand_score (candidate_of ev a))"
  shows "\<exists>r. allocator_request ev subscribed published spec price deadline num start polls = Ready r"
proof -
  let ?d = "case deadline of Some d \<Rightarrow> d | None \<Rightarrow> DEFAULT_TIMEOUT"
  let ?g = "aggregator_new start ?d None num True (pr_max price) ev"
  obtain r g' where r: "await_offers polls ?g = (r, g')" by (metis prod.exhaust)
  have "max_offers ?g = None" "hard_deadline ?g = start + ?d" by (simp_all add: aggregator_new_def)
  with await_offers_collects [OF collecting_new r] assms have "r \<noteq> Pending" by (auto simp: not_le [symmetric])
  then show ?thesis using r
    by (cases r) (auto simp: allocator_request_def split: sum.split option.split list.split)
qed

section \<open>The allocator as the pool sees it\<close>

text \<open>What holds of the store for scores of any kind.\<close>

definition loose :: "candidates \<Rightarrow> bool" where
  "loose cs \<longleftrightarrow> diversity cs \<and> distinct (map cand_peer (cand_offers cs)) \<and> length (cand_offers cs) \<le> cand_capacity cs"

lemma loose_try_insert:
  assumes "loose cs"
  shows "loose (snd (try_insert c cs))"
proof (cases "position (\<lambda>x. cand_peer x = cand_peer c) (cand_offers cs)")
  case (Some i)
  then have "i < length (cand_offers cs)" "cand_peer (cand_offers cs ! i) = cand_peer c" using position_SomeD by blast+
  then have "map cand_peer ((cand_offers cs)[i := c]) = map cand_peer (cand_offers cs)" by (metis list_update_id map_update)
  then show ?thesis using assms Some by (auto simp: loose_def try_insert_def)
next
  case None
  have tr: "try_insert c cs = insert_new c cs"
    unfolding try_insert_def None option.case using assms by simp
  have new: "cand_peer c \<notin> cand_peer ` set (cand_offers cs)" using None by auto
  have "distinct (map cand_peer (butlast (cand_offers cs)))" "cand_peer c \<notin> cand_peer ` set (butlast (cand_offers cs))"
    using assms new by (auto simp: loose_def map_butlast distinct_butlast dest: in_set_butlastD)
  then show ?thesis using assms new by (auto simp: tr insert_new_def loose_def)
qed

definition loose_outcome :: "nat \<Rightarrow> (peer_id \<times> worker_offer) list option poll \<Rightarrow> aggregator \<Rightarrow> bool" where
  "loose_outcome n r g \<longleftrightarrow>
     (case r of
        Pending \<Rightarrow> loose (ag_candidates g) \<and> cand_capacity (ag_candidates g) = n \<and> \<not> returned g
      | Ready None \<Rightarrow> False
      | Ready (Some os) \<Rightarrow> distinct (map fst os) \<and> length os \<le> n)"

lemma loose_hand_out:
  "loose (ag_candidates g) \<Longrightarrow> hand_out g = (r, g') \<Longrightarrow> loose_outcome (cand_capacity (ag_candidates g)) r g'"
  by (auto simp: hand_out_def loose_outcome_def loose_def offers_of_def comp_def)

lemma poll_offers_loose:
  assumes "loose (ag_candidates g)" and "poll_offers as ended g = (r, g')" and "\<not> returned g"
  shows "loose_outcome (cand_capacity (ag_candidates g)) r g'"
  using assms
proof (induction as arbitrary: g)
  case Nil
  then show ?case using loose_hand_out [OF Nil(1)] by (auto simp: loose_outcome_def split: if_splits)
next
  case (Cons a as)
  let ?cs = "snd (try_insert (candidate_of (ag_evaluator g) a) (ag_candidates g))"
  have l: "loose ?cs" "cand_capacity ?cs = cand_capacity (ag_candidates g)" using loose_try_insert [OF Cons.prems(1)] by simp_all
  have step: ?case if "poll_offers as ended h = (r, g')" "ag_candidates h = ag_candidates g \<or> ag_candidates h = ?cs" "\<not> returned h" for h
    using Cons.IH [OF _ that(1,3)] that(2) Cons.prems(1) l by auto
  have out: ?case if "hand_out h = (r, g')" "ag_candidates h = ?cs" for h
    using loose_hand_out [OF _ that(1)] that(2) l by simp
  let ?g = "g\<lparr>offers_received := offers_received g + 1\<rparr>"
  let ?h = "?g\<lparr>ag_candidates := ?cs,
        ag_deadline := new_deadline (arr_system a) (arr_instant a) (hard_deadline ?g) (cand_offers ?cs)\<rparr>"
  from Cons.prems(2) consider "poll_offers as ended ?g = (r, g')" | "poll_offers as ended (?g\<lparr>ag_candidates := ?cs\<rparr>) = (r, g')"
    | "hand_out ?h = (r, g')" | "poll_offers as ended ?h = (r, g')"
    by (auto simp: Let_def split_beta split: if_splits sum.splits)
  then show ?case using Cons.prems(3) by cases (auto intro: step out)
qed

lemma await_offers_loose:
  assumes "loose (ag_candidates g)" and "await_offers ps g = (r, g')" and "\<not> returned g"
  shows "loose_outcome (cand_capacity (ag_candidates g)) r g'"
  using assms
proof (induction ps arbitrary: g)
  case Nil
  then show ?case by (simp add: loose_outcome_def)
next
  case (Cons p ps)
  obtain now as ended where p: "p = (now, as, ended)" by (cases p)
  obtain r1 g1 where r1: "aggregator_poll now as ended g = (r1, g1)" by (metis prod.exhaust)
  then have o: "loose_outcome (cand_capacity (ag_candidates g)) r1 g1"
    using Cons.prems(1,3) by (auto simp: aggregator_poll_def split: if_splits intro: loose_hand_out poll_offers_loose)
  show ?case
  proof (cases r1)
    case Pending
    then show ?thesis using o Cons.prems(2) Cons.IH [of g1] r1 p by (simp add: loose_outcome_def)
  next
    case (Ready x)
    then show ?thesis using o Cons.prems(2) r1 p by simp
  qed
qed

text \<open>
  The contract of the trait \<^verbatim>\<open>Allocator\<close> that the pool relies on, and what a tick of the pool does with
  any allocator that keeps it.
\<close>

definition pool_answer :: "(worker \<Rightarrow> system_time) \<Rightarrow> allocator_error + worker list \<Rightarrow> allocator_error + worker_descriptor list" where
  "pool_answer t r = (case r of Inl e \<Rightarrow> Inl e | Inr ws \<Rightarrow> Inr (map (\<lambda>w. descriptor_of_worker (t w) w) ws))"

locale worker_allocator =
  fixes request :: "nat \<Rightarrow> allocator_error + worker list"
  assumes request_some: "0 < n \<Longrightarrow> request n = Inr ws \<Longrightarrow> ws \<noteq> []"
    and request_bound: "0 < n \<Longrightarrow> request n = Inr ws \<Longrightarrow> length ws \<le> n"
    and request_distinct: "0 < n \<Longrightarrow> request n = Inr ws \<Longrightarrow> distinct (map w_peer_id ws)"
begin

lemma answer_bound: "0 < n \<Longrightarrow> pool_answer t (request n) = Inr ds \<Longrightarrow> length ds \<le> n \<and> distinct (map wd_peer ds)"
  using request_bound [of n] request_distinct [of n]
  by (auto simp: pool_answer_def descriptor_of_worker_def comp_def split: sum.splits)

lemma tick_is_run:
  "pool_run cfg tr p \<Longrightarrow> pool_tick cfg now (\<lambda>n. pool_answer t (request n)) p = Inr p' \<Longrightarrow>
   pool_run cfg (tr @ [(now, length (members p))]) p'"
  using answer_bound by (intro run_tick [of cfg tr p "\<lambda>n. pool_answer t (request n)"]) auto

lemma tick_joins:
  assumes "pool_tick cfg now (\<lambda>n. pool_answer t (request n)) p = Inr p'"
  shows "\<exists>ds. joins p' = joins p @ ds \<and> distinct (map wd_peer ds) \<and> length ds \<le> pool_target cfg - length (members p)"
  using assms
proof (rule pool_tick_cases)
  fix p1 ds
  assume g: "grace_check cfg now (length (members p)) p = Inr p1" and p': "p' = pool_join ds p1"
    and ds: "ds = [] \<or> length (members p) < pool_target cfg
      \<and> pool_answer t (request (pool_target cfg - length (members p))) = Inr ds"
  have "joins p1 = joins p" using g by (auto simp: grace_check_def split: if_splits option.splits)
  then have "joins p' = joins p @ ds" by (auto simp: p' pool_join_def)
  then show ?thesis using ds answer_bound [of "pool_target cfg - length (members p)" t ds] by auto
qed

end

definition allocated :: "(allocator_error + worker list) poll \<Rightarrow> allocator_error + worker list" where
  "allocated r = (case r of Ready x \<Rightarrow> x | Pending \<Rightarrow> Inl AllocatorTimeout)"

lemma allocated_Inr: "allocated r = Inr ws \<Longrightarrow> r = Ready (Inr ws)"
  by (auto simp: allocated_def split: poll.splits)

lemma allocator_request_loose:
  assumes "allocator_request ev subscribed published spec price deadline num start polls = Ready (Inr ws)"
  shows "ws \<noteq> [] \<and> length ws \<le> max num 1 \<and> distinct (map w_peer_id ws)"
proof -
  let ?g = "aggregator_new start (case deadline of Some d \<Rightarrow> d | None \<Rightarrow> DEFAULT_TIMEOUT) None num True (pr_max price) ev"
  obtain os where os: "fst (await_offers polls ?g) = Ready (Some os)" "os \<noteq> []"
    "ws = map (\<lambda>(p, w). worker_create (wo_id w) p spec (wo_resources w) (wo_price w)) os"
    using allocator_request_Ready [OF assms(1)] by blast
  obtain g' where g': "await_offers polls ?g = (Ready (Some os), g')" using os(1) by (metis prod.collapse)
  have "loose (ag_candidates ?g)" "\<not> returned ?g" "cand_capacity (ag_candidates ?g) = max num 1"
    by (simp_all add: loose_def aggregator_new_def candidates_new_def)
  with await_offers_loose [OF _ g'] have "distinct (map fst os)" "length os \<le> max num 1" by (auto simp: loose_outcome_def)
  moreover have "map w_peer_id ws = map fst os" by (auto simp: os(3) worker_create_def)
  moreover have "length ws = length os" "ws \<noteq> []" using os by simp_all
  ultimately show ?thesis by metis
qed

interpretation greedy: worker_allocator
    "\<lambda>n. allocated (allocator_request ev subscribed published spec price deadline n start (polls n))"
  for ev subscribed published spec price deadline start polls
  by unfold_locales (drule allocated_Inr, drule allocator_request_loose, simp)+

text \<open>
  C10. The greedy allocator keeps the contract that the pool relies on: a tick of a pool that asks it is a
  step of the pool's life, so that the membership stays in order and within its target; the workers that join
  in a tick are of distinct peers and at most as many as are missing.
\<close>

theorem pool_over_greedy_allocator:
  assumes "pool_run cfg tr p"
    and "pool_tick cfg now (\<lambda>n. pool_answer t (allocated (allocator_request ev subscribed published (pool_spec cfg) (pool_price cfg)
        (Some DEFAULT_TIMEOUT) n start (polls n)))) p = Inr p'"
  shows "pool_run cfg (tr @ [(now, length (members p))]) p' \<and> length (members p') \<le> pool_target cfg
    \<and> (\<exists>ds. joins p' = joins p @ ds \<and> distinct (map wd_peer ds) \<and> length ds \<le> pool_target cfg - length (members p))"
  using greedy.tick_is_run [OF assms] greedy.tick_joins [OF assms(2)] pool_run_ok [OF greedy.tick_is_run [OF assms]]
  by (simp add: pool_ok_def)

section \<open>An allocation\<close>

definition demo_arrival :: "peer_id \<Rightarrow> rat \<Rightarrow> arrival" where
  "demo_arrival p price = \<lparr>arr_peer = p,
     arr_offer = \<lparr>wo_id = p, wo_request_id = 1, wo_price = Fin price, wo_resources = resources_default\<lparr>cpu := Fin 1\<rparr>,
       wo_timeout = from_secs 10\<rparr>, arr_system = 1, arr_instant = 1\<rparr>"

definition demo_polls :: "(instant \<times> arrival list \<times> bool) list" where
  "demo_polls = [(1, [demo_arrival 3 90], False), (2, [demo_arrival 3 50, demo_arrival 4 60, demo_arrival 5 10], False)]"

definition demo_request_spec :: worker_spec where
  "demo_request_spec = \<lparr>spec_resources = resources_default, spec_executors = []\<rparr>"

lemma demo_weight: "weight_units evaluator_default (resources_default\<lparr>cpu := Fin 1\<rparr>) = Fin 1"
  by (simp add: weight_units_def evaluator_default_def resources_default_def float_simps)

lemma demo_arrival_simps [simp]:
  "arr_peer (demo_arrival p x) = p" "wo_price (arr_offer (demo_arrival p x)) = Fin x" "wo_id (arr_offer (demo_arrival p x)) = p"
  "wo_resources (arr_offer (demo_arrival p x)) = resources_default\<lparr>cpu := Fin 1\<rparr>"
  "wo_timeout (arr_offer (demo_arrival p x)) = from_secs 10" "arr_system (demo_arrival p x) = 1" "arr_instant (demo_arrival p x) = 1"
  by (simp_all add: demo_arrival_def)

lemma demo_score [simp]:
  "candidate_of evaluator_default (demo_arrival p (numeral n)) =
     \<lparr>cand_peer = p, cand_offer = arr_offer (demo_arrival p (numeral n)), cand_score = finish F64 False (numeral n)\<rparr>"
  by (simp add: candidate_of_def score_def demo_weight float_simps)

lemma demo_flt [simp]: "flt (Fin a) (Fin b) \<longleftrightarrow> a < b" and demo_less [simp]: "Fin a \<le> Fin b \<longleftrightarrow> a \<le> b"
  by (auto simp: float_simps less_eq_float_def)

definition demo_worker_of :: "peer_id \<Rightarrow> rat \<Rightarrow> worker" where
  "demo_worker_of p price = worker_create p p demo_request_spec (resources_default\<lparr>cpu := Fin 1\<rparr>) (Fin price)"

lemma demo_allocation:
  "allocator_request evaluator_default (Inr ()) (Inr ()) demo_request_spec \<lparr>pr_bid = Fin 40, pr_max = Fin 100\<rparr> None 2 0 demo_polls
    = Ready (Inr [demo_worker_of 3 50, demo_worker_of 4 60])"
  by (simp add: allocator_request_def demo_polls_def aggregator_new_def aggregator_poll_def candidates_new_def DEFAULT_TIMEOUT_def
      try_insert_def insert_new_def sort_candidates_def demo_worker_of_def new_deadline_def finish_F64_numeral
      hand_out_def offers_of_def Let_def expiry_wait_def duration_since_def)

text \<open>
  The allocation takes the first offers that suffice, not the best: it returns as soon as it has the
  number of peers it asked for, so that the cheaper offer of the third peer, which had arrived, is not
  looked at. Within a peer it does take the better offer.
\<close>

lemma greedy_takes_first:
  "allocator_request evaluator_default (Inr ()) (Inr ()) demo_request_spec \<lparr>pr_bid = Fin 40, pr_max = Fin 100\<rparr> None 2 0 demo_polls
    = Ready (Inr [demo_worker_of 3 50, demo_worker_of 4 60])
   \<and> demo_arrival 5 10 \<in> set (concat (map (fst \<circ> snd) demo_polls))"
  by (simp add: demo_allocation) (simp add: demo_polls_def)



lemma allocation_ends_by_deadline_witness:
  "\<exists>r. allocator_request evaluator_default (Inr ()) (Inr ()) demo_request_spec \<lparr>pr_bid = Fin 40, pr_max = Fin 100\<rparr> (Some 7) 2 0
     [(3, [demo_arrival 3 90], False), (7, [], False)] = Ready r"
  by (rule allocation_ends_by_deadline [of 7 "[]" False]) (simp_all add: plain_def finish_F64_numeral)

definition demo_cand :: "peer_id \<Rightarrow> rat \<Rightarrow> candidate" where
  "demo_cand p x = \<lparr>cand_peer = p, cand_offer = arr_offer (demo_arrival p x), cand_score = Fin x\<rparr>"

lemma candidates_best_witness:
  "cand_offers (foldl (\<lambda>cs c. snd (try_insert c cs)) (candidates_new 2 True) [demo_cand 3 90, demo_cand 4 60, demo_cand 3 50, demo_cand 5 10])
     = [demo_cand 5 10, demo_cand 3 50]
   \<and> cand_score (demo_cand 3 50) \<le> cand_score (demo_cand 4 60)"
proof -
  let ?xs = "[demo_cand 3 90, demo_cand 4 60, demo_cand 3 50, demo_cand 5 10]"
  have L: "cand_offers (foldl (\<lambda>cs c. snd (try_insert c cs)) (candidates_new 2 True) ?xs) = [demo_cand 5 10, demo_cand 3 50]"
    by (simp add: candidates_new_def try_insert_def insert_new_def sort_candidates_def demo_cand_def)
  have "\<forall>x\<in>set ?xs. plain (cand_score x)" by (simp add: plain_def demo_cand_def)
  from candidates_best [OF this, of 2, unfolded L] L show ?thesis by (auto simp: demo_cand_def)
qed

theorem pool_over_greedy_allocator_witness:
  "\<exists>p'. pool_tick demo_pool_config 5 (\<lambda>n. pool_answer (\<lambda>_. 7) (allocated (allocator_request evaluator_default (Inr ()) (Inr ())
      (pool_spec demo_pool_config) (pool_price demo_pool_config) (Some DEFAULT_TIMEOUT) n 0 demo_polls))) pool_new = Inr p'
    \<and> length (members p') \<le> 2"
proof -
  let ?alloc = "\<lambda>n. pool_answer (\<lambda>_. 7) (allocated (allocator_request evaluator_default (Inr ()) (Inr ())
      (pool_spec demo_pool_config) (pool_price demo_pool_config) (Some DEFAULT_TIMEOUT) n 0 demo_polls))"
  obtain p' where p': "pool_tick demo_pool_config 5 ?alloc pool_new = Inr p'"
    by (cases "?alloc 2") (auto simp: pool_tick_def grace_check_def pool_new_def demo_pool_config_def)
  from pool_over_greedy_allocator [OF run_new p'] p' show ?thesis by (auto simp: demo_pool_config_def)
qed

end
