(* ===== verification/Slice_Tracker.thy ===== *)
theory Slice_Tracker
  imports Messages "HOL-Library.Multiset"
begin

text \<open>
  The assignment of data slices (\<^verbatim>\<open>crates/scheduler/src/tracker/slice.rs\<close>) and the handler of the
  \<^verbatim>\<open>DataScheduler\<close> (\<^verbatim>\<open>scheduling/data_scheduler.rs\<close>) that serves requests from it. \<^verbatim>\<open>next\<close> calls itself
  after starting a new round; as that recursion may not end, it is a partial function, and \<open>None\<close> means that
  it does not return. An \<^verbatim>\<open>expect\<close> that fails is the value \<open>None\<close> in place of the hash.
\<close>

section \<open>The tracker\<close>

record slice =
  sl_hash :: u64
  sl_peer :: "peer_id option"
  sl_processed :: bool

definition slice_new :: "u64 \<Rightarrow> slice" where
  "slice_new h = \<lparr>sl_hash = h, sl_peer = None, sl_processed = False\<rparr>"

record tracker =
  slices :: "slice list"
  processing :: "peer_id \<rightharpoonup> u64"
  rounds :: u32

definition tracker_new :: "u64 list \<Rightarrow> tracker" where
  "tracker_new hs = \<lparr>slices = map slice_new hs, processing = Map.empty, rounds = 0\<rparr>"

definition available :: "peer_id \<Rightarrow> slice \<Rightarrow> bool" where
  "available p s \<longleftrightarrow> \<not> sl_processed s \<and> (sl_peer s = None \<or> sl_peer s = Some p)"

definition assign_slice :: "peer_id \<Rightarrow> slice \<Rightarrow> slice" where
  "assign_slice p s = s\<lparr>sl_processed := True, sl_peer := Some p\<rparr>"

definition claim_slice :: "(slice \<Rightarrow> bool) \<Rightarrow> peer_id \<Rightarrow> tracker \<Rightarrow> (u64 \<times> tracker) option" where
  "claim_slice P p t =
     (case List.find P (slices t) of
        None \<Rightarrow> None
      | Some s \<Rightarrow> Some (sl_hash s, t\<lparr>slices := update_first P (assign_slice p) (slices t),
                                  processing := (processing t)(p \<mapsto> sl_hash s)\<rparr>))"

text \<open>Counting the open slices per peer; a slice with no peer fails the \<^verbatim>\<open>expect\<close>.\<close>

fun count_open :: "slice list \<Rightarrow> (peer_id \<rightharpoonup> u32) \<Rightarrow> (peer_id \<rightharpoonup> u32) option" where
  "count_open [] m = Some m"
| "count_open (s # ss) m =
     (if sl_processed s then count_open ss m
      else case sl_peer s of
             None \<Rightarrow> None
           | Some q \<Rightarrow> count_open ss (m(q \<mapsto> (case m q of None \<Rightarrow> 0 | Some n \<Rightarrow> n + 1))))"

definition slow_peer :: "((peer_id \<rightharpoonup> u32) \<Rightarrow> peer_id list) \<Rightarrow> (peer_id \<rightharpoonup> u32) \<Rightarrow> peer_id option" where
  "slow_peer ord m = (case sort_key (\<lambda>q. the (m q)) (ord m) of [] \<Rightarrow> None | q # _ \<Rightarrow> Some q)"

definition new_round :: "tracker \<Rightarrow> tracker" where
  "new_round t = t\<lparr>rounds := rounds t + 1, slices := map (sl_processed_update (\<lambda>_. False)) (slices t)\<rparr>"

partial_function (option) tracker_next ::
    "((peer_id \<rightharpoonup> u32) \<Rightarrow> peer_id list) \<Rightarrow> peer_id \<Rightarrow> tracker \<Rightarrow> (u64 option \<times> tracker) option" where
  "tracker_next ord p t =
     (case claim_slice (available p) p t of
        Some r \<Rightarrow> Some (Some (fst r), snd r)
      | None \<Rightarrow>
          (case count_open (slices t) Map.empty of
             None \<Rightarrow> Some (None, t)
           | Some m \<Rightarrow>
               (case slow_peer ord m of
                  Some q \<Rightarrow>
                    (case claim_slice (available q) p t of
                       Some r \<Rightarrow> Some (Some (fst r), snd r)
                     | None \<Rightarrow> Some (None, t))
                | None \<Rightarrow> tracker_next ord p (new_round t))))"

text \<open>\<^verbatim>\<open>remove_worker\<close>: its loop takes one slice after the other from the peer.\<close>

function disown :: "peer_id \<Rightarrow> slice list \<Rightarrow> slice list" where
  "disown p ss =
     (case List.find (\<lambda>s. sl_peer s = Some p) ss of
        None \<Rightarrow> ss
      | Some _ \<Rightarrow> disown p (update_first (\<lambda>s. sl_peer s = Some p) (sl_peer_update (\<lambda>_. None)) ss))"
  by pat_completeness auto

termination
proof (relation "measure (\<lambda>(p, ss). length (filter (\<lambda>s. sl_peer s = Some p) ss))")
  fix p ss x
  assume "List.find (\<lambda>s. sl_peer s = Some p) ss = Some x"
  then obtain ys zs where "ss = ys @ x # zs" "sl_peer x = Some p"
    "update_first (\<lambda>s. sl_peer s = Some p) (sl_peer_update (\<lambda>_. None)) ss = ys @ x\<lparr>sl_peer := None\<rparr> # zs"
    by (rule update_first_split)
  then show "((p, update_first (\<lambda>s. sl_peer s = Some p) (sl_peer_update (\<lambda>_. None)) ss), p, ss)
      \<in> measure (\<lambda>(p, ss). length (filter (\<lambda>s. sl_peer s = Some p) ss))"
    by simp
qed simp

declare disown.simps [simp del]

definition remove_worker :: "peer_id \<Rightarrow> tracker \<Rightarrow> tracker" where
  "remove_worker p t =
     (let t = t\<lparr>slices := disown p (slices t)\<rparr>
      in case processing t p of
           None \<Rightarrow> t
         | Some h \<Rightarrow> t\<lparr>processing := (processing t)(p := None),
             slices := update_first (\<lambda>s. sl_hash s = h) (sl_processed_update (\<lambda>_. False)) (slices t)\<rparr>)"

section \<open>The data scheduler\<close>

record data_scheduler =
  data_providers :: "peer_id list"
  dataset :: string
  slice_tracker :: tracker

definition data_accepts :: "data_scheduler \<Rightarrow> api_request \<Rightarrow> bool" where
  "data_accepts d req \<longleftrightarrow> (case req of DataReq ds \<Rightarrow> ds = dataset d | _ \<Rightarrow> False)"

definition data_handler ::
    "((peer_id \<rightharpoonup> u32) \<Rightarrow> peer_id list) \<Rightarrow> peer_id \<Rightarrow> data_scheduler \<Rightarrow> (data_response option \<times> data_scheduler) option" where
  "data_handler ord p d =
     map_option (\<lambda>r. (map_option (DataSuccess (data_providers d)) (fst r), d\<lparr>slice_tracker := snd r\<rparr>))
       (tracker_next ord p (slice_tracker d))"

section \<open>Lemmas\<close>

definition orders_counts :: "((peer_id \<rightharpoonup> u32) \<Rightarrow> peer_id list) \<Rightarrow> bool" where
  "orders_counts ord \<longleftrightarrow> (\<forall>m. finite (dom m) \<longrightarrow> hash_order (ord m) m)"

text \<open>A call that hands out the open slice \<open>s\<close>.\<close>

definition hands_out :: "peer_id \<Rightarrow> tracker \<Rightarrow> u64 \<Rightarrow> tracker \<Rightarrow> bool" where
  "hands_out p t h t' \<longleftrightarrow> (\<exists>xs s ys. slices t = xs @ s # ys \<and> \<not> sl_processed s \<and> h = sl_hash s
     \<and> t' = t\<lparr>slices := xs @ assign_slice p s # ys, processing := (processing t)(p \<mapsto> h)\<rparr>)"

lemma claim_slice_None: "claim_slice P p t = None \<longleftrightarrow> (\<forall>s\<in>set (slices t). \<not> P s)"
  by (auto simp: claim_slice_def find_None_iff split: option.splits dest: find_SomeD)

lemma claim_slice_hands_out:
  assumes "claim_slice (available q) p t = Some r"
  shows "hands_out p t (fst r) (snd r)"
proof -
  obtain s where s: "List.find (available q) (slices t) = Some s"
    using assms by (auto simp: claim_slice_def split: option.splits)
  then obtain xs ys where "slices t = xs @ s # ys" "available q s"
    "update_first (available q) (assign_slice p) (slices t) = xs @ assign_slice p s # ys"
    by (rule update_first_split)
  then show ?thesis using assms s unfolding hands_out_def
    by (intro exI [of _ xs] exI [of _ s] exI [of _ ys]) (auto simp: claim_slice_def available_def)
qed

lemma count_open_result:
  assumes "\<forall>s\<in>set ss. \<not> sl_processed s \<longrightarrow> sl_peer s \<noteq> None"
  shows "\<exists>m'. count_open ss m = Some m' \<and> dom m' = dom m \<union> {q. \<exists>s\<in>set ss. \<not> sl_processed s \<and> sl_peer s = Some q}"
  using assms
proof (induction ss arbitrary: m)
  case (Cons s ss)
  show ?case
  proof (cases "sl_processed s")
    case False
    then obtain q where q: "sl_peer s = Some q" using Cons.prems by auto
    define m1 where "m1 = m(q \<mapsto> (case m q of None \<Rightarrow> 0 | Some n \<Rightarrow> n + 1))"
    have "\<forall>s\<in>set ss. \<not> sl_processed s \<longrightarrow> sl_peer s \<noteq> None" using Cons.prems by simp
    from Cons.IH [OF this, of m1] obtain m' where "count_open ss m1 = Some m'"
      "dom m' = dom m1 \<union> {q. \<exists>s\<in>set ss. \<not> sl_processed s \<and> sl_peer s = Some q}" by blast
    moreover have "dom m1 = insert q (dom m)" by (auto simp: m1_def)
    moreover have "count_open (s # ss) m = count_open ss m1" using False q by (simp add: m1_def)
    ultimately show ?thesis using False q by auto
  qed (use Cons in auto)
qed auto

lemma finite_owners: "finite {q. \<exists>s\<in>set ss. \<not> sl_processed s \<and> sl_peer s = Some q}"
proof -
  have "{q. \<exists>s\<in>set ss. \<not> sl_processed s \<and> sl_peer s = Some q} \<subseteq> (\<lambda>s. the (sl_peer s)) ` set ss" by force
  then show ?thesis by (rule finite_subset) simp
qed

lemma slow_peer_props:
  assumes "orders_counts ord" and "finite (dom m)"
  shows "slow_peer ord m = None \<longleftrightarrow> dom m = {}"
    and "slow_peer ord m = Some q \<Longrightarrow> q \<in> dom m \<and> (\<forall>q'\<in>dom m. the (m q) \<le> the (m q'))"
proof -
  let ?xs = "sort_key (\<lambda>q. the (m q)) (ord m)"
  have set: "set ?xs = dom m" using assms by (simp add: orders_counts_def hash_order_def)
  show "slow_peer ord m = None \<longleftrightarrow> dom m = {}"
    using set by (cases ?xs) (auto simp: slow_peer_def)
  assume "slow_peer ord m = Some q"
  then obtain ys where xs: "?xs = q # ys" by (cases ?xs) (auto simp: slow_peer_def)
  have "sorted (map (\<lambda>q. the (m q)) ?xs)" by simp
  then have "\<forall>q'\<in>set ys. the (m q) \<le> the (m q')" unfolding xs by simp
  moreover have "dom m = insert q (set ys)" using set unfolding xs by simp
  ultimately show "q \<in> dom m \<and> (\<forall>q'\<in>dom m. the (m q) \<le> the (m q'))" by simp
qed

lemma tracker_next_open:
  assumes "orders_counts ord" and "\<exists>s\<in>set (slices t). \<not> sl_processed s"
  shows "\<exists>h t'. tracker_next ord p t = Some (Some h, t') \<and> hands_out p t h t'"
proof (cases "claim_slice (available p) p t")
  case (Some r)
  then show ?thesis using claim_slice_hands_out [OF Some] by (simp add: tracker_next.simps)
next
  case None
  then have own: "\<forall>s\<in>set (slices t). \<not> sl_processed s \<longrightarrow> sl_peer s \<noteq> None"
    unfolding claim_slice_None by (auto simp: available_def)
  obtain m where m: "count_open (slices t) Map.empty = Some m"
    "dom m = {q. \<exists>s\<in>set (slices t). \<not> sl_processed s \<and> sl_peer s = Some q}"
    using count_open_result [OF own, of Map.empty] by auto
  have fin: "finite (dom m)" using m(2) finite_owners by simp
  have "dom m \<noteq> {}" using assms(2) own m(2) by fastforce
  then obtain q where q: "slow_peer ord m = Some q" "q \<in> dom m"
    using slow_peer_props [OF assms(1) fin] by (metis not_None_eq)
  then have "claim_slice (available q) p t \<noteq> None"
    unfolding claim_slice_None using m(2) by (auto simp: available_def)
  then obtain r where r: "claim_slice (available q) p t = Some r" by auto
  then show ?thesis using claim_slice_hands_out [OF r] None m q by (simp add: tracker_next.simps)
qed

lemma tracker_next_new_round:
  assumes "orders_counts ord" and "\<forall>s\<in>set (slices t). sl_processed s"
  shows "tracker_next ord p t = tracker_next ord p (new_round t)"
proof -
  have "claim_slice (available p) p t = None" using assms(2) by (simp add: claim_slice_None available_def)
  moreover have "\<forall>s\<in>set (slices t). \<not> sl_processed s \<longrightarrow> sl_peer s \<noteq> None" using assms(2) by simp
  then obtain m where "count_open (slices t) Map.empty = Some m" "dom m = {}"
    using count_open_result [of "slices t" Map.empty] assms(2) by auto
  moreover from this have "slow_peer ord m = None" using slow_peer_props(1) [OF assms(1), of m] by simp
  ultimately show ?thesis by (subst tracker_next.simps) simp
qed

lemma hash_slices_new_round [simp]:
  "map sl_hash (slices (new_round t)) = map sl_hash (slices t)"
  "length (slices (new_round t)) = length (slices t)"
  by (simp_all add: new_round_def comp_def)

lemma new_round_open: "s \<in> set (slices (new_round t)) \<Longrightarrow> \<not> sl_processed s"
  by (auto simp: new_round_def)

section \<open>Rounds\<close>

text \<open>A sequence of requests, one peer after the other.\<close>

fun serve :: "((peer_id \<rightharpoonup> u32) \<Rightarrow> peer_id list) \<Rightarrow> peer_id list \<Rightarrow> tracker \<Rightarrow> (u64 option list \<times> tracker) option" where
  "serve ord [] t = Some ([], t)"
| "serve ord (p # ps) t =
     (case tracker_next ord p t of
        None \<Rightarrow> None
      | Some (h, t1) \<Rightarrow> map_option (\<lambda>(hs, t2). (h # hs, t2)) (serve ord ps t1))"

definition open_hashes :: "tracker \<Rightarrow> u64 list" where
  "open_hashes t = map sl_hash (filter (\<lambda>s. \<not> sl_processed s) (slices t))"

lemma hands_out_open:
  assumes "hands_out p t h t'"
  shows "mset (open_hashes t) = add_mset h (mset (open_hashes t'))"
    and "map sl_hash (slices t') = map sl_hash (slices t)" and "rounds t' = rounds t"
  using assms by (auto simp: hands_out_def open_hashes_def assign_slice_def)

lemma serve_open:
  assumes "orders_counts ord" and "length ps \<le> length (open_hashes t)"
  shows "\<exists>hs t'. serve ord ps t = Some (map Some hs, t') \<and> length hs = length ps
    \<and> mset hs + mset (open_hashes t') = mset (open_hashes t) \<and> rounds t' = rounds t
    \<and> map sl_hash (slices t') = map sl_hash (slices t)"
  using assms(2)
proof (induction ps arbitrary: t)
  case (Cons p ps)
  have "open_hashes t \<noteq> []" using Cons.prems by auto
  then have "\<exists>s\<in>set (slices t). \<not> sl_processed s" by (auto simp: open_hashes_def filter_empty_conv)
  from tracker_next_open [OF assms(1) this, of p] obtain h t1 where
    n: "tracker_next ord p t = Some (Some h, t1)" and o: "hands_out p t h t1" by blast
  note ho = hands_out_open [OF o]
  have "length (open_hashes t) = Suc (length (open_hashes t1))"
    using arg_cong [OF ho(1), of size] by simp
  then have "length ps \<le> length (open_hashes t1)" using Cons.prems by simp
  from Cons.IH [OF this] obtain hs t2 where "serve ord ps t1 = Some (map Some hs, t2)"
    "length hs = length ps" "mset hs + mset (open_hashes t2) = mset (open_hashes t1)"
    "rounds t2 = rounds t1" "map sl_hash (slices t2) = map sl_hash (slices t1)" by blast
  then show ?case using n ho by (intro exI [of _ "h # hs"] exI [of _ t2]) simp
qed simp

lemma serve_append:
  "serve ord (ps @ qs) t =
     (case serve ord ps t of
        None \<Rightarrow> None
      | Some (hs, t1) \<Rightarrow> map_option (\<lambda>(hs', t2). (hs @ hs', t2)) (serve ord qs t1))"
  by (induction ps arbitrary: t)
    (auto simp: option.map_comp option.map_ident comp_def split_def split: option.splits)

lemma serve_new_round:
  assumes "orders_counts ord" and "\<forall>s\<in>set (slices t). sl_processed s" and "ps \<noteq> []"
  shows "serve ord ps t = serve ord ps (new_round t)"
proof (cases ps)
  case (Cons p qs)
  then show ?thesis using tracker_next_new_round [OF assms(1,2), of p] by simp
qed (use assms(3) in simp)

lemma open_hashes_all: "\<forall>s\<in>set (slices t). \<not> sl_processed s \<Longrightarrow> open_hashes t = map sl_hash (slices t)"
  by (simp add: open_hashes_def filter_id_conv)

lemma serve_round:
  assumes "orders_counts ord" and "\<forall>s\<in>set (slices t). \<not> sl_processed s" and "length ps = length (slices t)"
  shows "\<exists>hs t'. serve ord ps t = Some (map Some hs, t') \<and> mset hs = mset (map sl_hash (slices t))
    \<and> (\<forall>s\<in>set (slices t'). sl_processed s) \<and> rounds t' = rounds t
    \<and> map sl_hash (slices t') = map sl_hash (slices t)"
proof -
  note oh = open_hashes_all [OF assms(2)]
  have "length ps \<le> length (open_hashes t)" using oh assms(3) by simp
  from serve_open [OF assms(1) this] obtain hs t' where
    r: "serve ord ps t = Some (map Some hs, t')" "length hs = length ps"
    "mset hs + mset (open_hashes t') = mset (open_hashes t)" "rounds t' = rounds t"
    "map sl_hash (slices t') = map sl_hash (slices t)" by blast
  have "length hs + length (open_hashes t') = length (open_hashes t)"
    using arg_cong [OF r(3), of size] by simp
  then have "open_hashes t' = []" using r(2) oh assms(3) by simp
  moreover from this have "\<forall>s\<in>set (slices t'). sl_processed s"
    by (auto simp: open_hashes_def filter_empty_conv)
  ultimately show ?thesis using r oh by auto
qed

text \<open>Rounds after the first: they start from a tracker whose slices are all processed.\<close>

lemma serve_more_rounds:
  assumes "orders_counts ord" and "slices t \<noteq> []" and "\<forall>s\<in>set (slices t). sl_processed s"
    and "length ps = k * length (slices t)"
  shows "\<exists>hs t'. serve ord ps t = Some (map Some hs, t') \<and> mset hs = repeat_mset k (mset (map sl_hash (slices t)))
    \<and> (\<forall>s\<in>set (slices t'). sl_processed s) \<and> rounds t' = rounds t + of_nat k
    \<and> map sl_hash (slices t') = map sl_hash (slices t)"
  using assms(2-)
proof (induction k arbitrary: ps t)
  case (Suc k)
  let ?n = "length (slices t)"
  let ?ps = "take ?n ps" and ?qs = "drop ?n ps"
  have len: "length ?ps = ?n" "length ?qs = k * ?n" using Suc.prems(3) by auto
  then have ne: "?ps \<noteq> []" using Suc.prems(1) by auto
  have o: "\<forall>s\<in>set (slices (new_round t)). \<not> sl_processed s" using new_round_open by blast
  obtain hs t1 where a: "serve ord ?ps t = Some (map Some hs, t1)"
    "mset hs = mset (map sl_hash (slices t))" "\<forall>s\<in>set (slices t1). sl_processed s"
    "rounds t1 = rounds t + 1" "map sl_hash (slices t1) = map sl_hash (slices t)"
    using serve_round [OF assms(1) o, of ?ps] serve_new_round [OF assms(1) Suc.prems(2) ne] len
    by (auto simp: new_round_def [of t] comp_def)
  have len1: "length (slices t1) = ?n" using arg_cong [OF a(5), of length] by simp
  then have "slices t1 \<noteq> []" using Suc.prems(1) by auto
  from Suc.IH [OF this a(3), of ?qs] len len1 obtain hs' t2 where
    "serve ord ?qs t1 = Some (map Some hs', t2)" "mset hs' = repeat_mset k (mset (map sl_hash (slices t1)))"
    "\<forall>s\<in>set (slices t2). sl_processed s" "rounds t2 = rounds t1 + of_nat k"
    "map sl_hash (slices t2) = map sl_hash (slices t1)" by auto
  with a serve_append [of ord ?ps ?qs t] show ?case
    by (intro exI [of _ "hs @ hs'"] exI [of _ t2]) (simp add: algebra_simps)
qed simp

text \<open>
  C20. Every round hands out every slice exactly once: from a new tracker over a non-empty list of slices,
  whatever peers ask in whatever order, each request returns without a panic, the first
  \<open>k + 1\<close> times \<open>n\<close> answers contain every one of the \<open>n\<close> slices \<open>k + 1\<close> times, and \<open>k\<close> new rounds
  were started.
\<close>

theorem rounds_serve_every_slice:
  assumes "orders_counts ord" and "hashes \<noteq> []" and "length ps = Suc k * length hashes"
  shows "\<exists>hs t. serve ord ps (tracker_new hashes) = Some (map Some hs, t)
    \<and> mset hs = repeat_mset (Suc k) (mset hashes) \<and> rounds t = of_nat k"
proof -
  let ?n = "length hashes" and ?t = "tracker_new hashes"
  let ?ps = "take ?n ps" and ?qs = "drop ?n ps"
  have s: "map sl_hash (slices ?t) = hashes" "\<forall>s\<in>set (slices ?t). \<not> sl_processed s"
    "length (slices ?t) = ?n" "rounds ?t = 0"
    by (auto simp: tracker_new_def slice_new_def comp_def)
  have len: "length ?ps = ?n" "length ?qs = k * ?n" using assms(3) by auto
  obtain hs t1 where a: "serve ord ?ps ?t = Some (map Some hs, t1)" "mset hs = mset hashes"
    "\<forall>s\<in>set (slices t1). sl_processed s" "rounds t1 = 0" "map sl_hash (slices t1) = hashes"
    using serve_round [OF assms(1) s(2), of ?ps] len s by auto
  have "length (slices t1) = ?n" using arg_cong [OF a(5), of length] by simp
  moreover from this have "slices t1 \<noteq> []" using assms(2) by auto
  ultimately obtain hs' t2 where "serve ord ?qs t1 = Some (map Some hs', t2)"
    "mset hs' = repeat_mset k (mset hashes)" "rounds t2 = rounds t1 + of_nat k"
    using serve_more_rounds [OF assms(1) _ a(3), of ?qs k] len a(5) by auto
  with a serve_append [of ord ?ps ?qs ?t] show ?thesis
    by (intro exI [of _ "hs @ hs'"] exI [of _ t2]) simp
qed

definition count_order :: "(peer_id \<rightharpoonup> u32) \<Rightarrow> peer_id list" where
  "count_order m = sorted_list_of_set (dom m)"

lemma orders_count_order: "orders_counts count_order"
  by (simp add: orders_counts_def hash_order_def count_order_def)

theorem rounds_serve_every_slice_witness:
  "\<exists>hs t. serve count_order [1, 2, 1, 1, 2, 2] (tracker_new [10, 20, 30]) = Some (map Some hs, t)
     \<and> mset hs = {#10, 10, 20, 20, 30, 30#} \<and> rounds t = 1"
  using rounds_serve_every_slice [OF orders_count_order, of "[10, 20, 30]" "[1, 2, 1, 1, 2, 2]" 1]
  by (simp add: add_mset_commute numeral_2_eq_2)

lemma tracker_next_returns:
  "tracker_next ord p t = Some y \<Longrightarrow> orders_counts ord \<longrightarrow> slices t \<noteq> []"
proof (rule tracker_next.raw_induct [of "\<lambda>ord p t y. orders_counts ord \<longrightarrow> slices t \<noteq> []"])
  fix f ord p t y
  assume ih: "\<And>ord p t y. f ord p t = Some y \<Longrightarrow> orders_counts ord \<longrightarrow> slices t \<noteq> []"
    and eq: "(case claim_slice (available p) p t of
        None \<Rightarrow>
          (case count_open (slices t) Map.empty of
             None \<Rightarrow> Some (None, t)
           | Some m \<Rightarrow>
               (case slow_peer ord m of
                  None \<Rightarrow> f ord p (new_round t)
                | Some q \<Rightarrow>
                    (case claim_slice (available q) p t of
                       None \<Rightarrow> Some (None, t)
                     | Some r \<Rightarrow> Some (Some (fst r), snd r))))
      | Some r \<Rightarrow> Some (Some (fst r), snd r)) = Some y"
  show "orders_counts ord \<longrightarrow> slices t \<noteq> []"
  proof
    assume o: "orders_counts ord"
    show "slices t \<noteq> []"
    proof
      assume "slices t = []"
      then have "f ord p (new_round t) = Some y"
        using eq slow_peer_props(1) [OF o, of Map.empty] by (simp add: claim_slice_def)
      from ih [OF this] o \<open>slices t = []\<close> show False by (simp add: new_round_def)
    qed
  qed
qed

text \<open>
  The requirement of a slice is needed: on a tracker without slices \<^verbatim>\<open>next\<close> never returns, it
  starts one new round after the other.
\<close>

lemma no_slices_never_returns:
  assumes "orders_counts ord"
  shows "tracker_next ord p (tracker_new []) = None"
proof (cases "tracker_next ord p (tracker_new [])")
  case (Some y)
  then show ?thesis using tracker_next_returns assms by (fastforce simp: tracker_new_def)
qed

lemma no_slices_never_returns_witness: "tracker_next count_order 1 (tracker_new []) = None"
  by (rule no_slices_never_returns [OF orders_count_order])

section \<open>Removing a worker\<close>

lemma disown_map: "disown p ss = map (\<lambda>s. if sl_peer s = Some p then s\<lparr>sl_peer := None\<rparr> else s) ss"
proof (induction p ss rule: disown.induct)
  case (1 p ss)
  show ?case
  proof (cases "List.find (\<lambda>s. sl_peer s = Some p) ss")
    case None
    then have "\<forall>s\<in>set ss. sl_peer s \<noteq> Some p" by (simp add: find_None_iff)
    then have "map (\<lambda>s. if sl_peer s = Some p then s\<lparr>sl_peer := None\<rparr> else s) ss = map (\<lambda>s. s) ss"
      by (intro map_cong) auto
    with None show ?thesis by (subst disown.simps) simp
  next
    case (Some x)
    from Some obtain ys zs where "ss = ys @ x # zs" "sl_peer x = Some p" "\<forall>y\<in>set ys. sl_peer y \<noteq> Some p"
      "update_first (\<lambda>s. sl_peer s = Some p) (sl_peer_update (\<lambda>_. None)) ss = ys @ x\<lparr>sl_peer := None\<rparr> # zs"
      by (rule update_first_split)
    with 1 [OF Some] Some show ?thesis by (subst disown.simps) simp
  qed
qed

lemma update_first_map:
  "distinct (map g xs) \<Longrightarrow> update_first (\<lambda>x. g x = k) f xs = map (\<lambda>x. if g x = k then f x else x) xs"
proof (induction xs)
  case (Cons x xs)
  have "map (\<lambda>x. if g x = k then f x else x) xs = map (\<lambda>x. x) xs" if "g x = k"
  proof (rule map_cong)
    fix y assume "y \<in> set xs"
    then have "g y \<in> g ` set xs" by (rule imageI)
    then have "g y \<noteq> k" using Cons.prems that by auto
    then show "(if g y = k then f y else y) = y" by simp
  qed simp
  with Cons show ?case by auto
qed simp

lemma slices_remove_worker:
  assumes "distinct (map sl_hash (slices t))"
  shows "slices (remove_worker p t) = map (\<lambda>s. s\<lparr>sl_peer := (if sl_peer s = Some p then None else sl_peer s),
    sl_processed := (sl_processed s \<and> processing t p \<noteq> Some (sl_hash s))\<rparr>) (slices t)"
proof -
  have d: "distinct (map sl_hash (disown p (slices t)))"
    using assms by (simp add: disown_map comp_def if_distrib [of sl_hash] cong: if_cong)
  show ?thesis
  proof (cases "processing t p")
    case None
    then show ?thesis by (simp add: remove_worker_def disown_map)
  next
    case (Some h)
    then show ?thesis using update_first_map [OF d, of h "sl_processed_update (\<lambda>_. False)"]
      by (simp add: remove_worker_def disown_map Let_def)
  qed
qed

text \<open>
  A worker that is removed loses everything: it owns no slice any more, and the slice it was
  processing, the first one filed under that hash, is open and unowned again, so that another
  worker gets it in the same round. The other slices keep their state, and those of other workers
  their owner.
\<close>

lemma remove_worker_reopens:
  assumes "distinct (map sl_hash (slices t))"
  shows "length (slices (remove_worker p t)) = length (slices t)
    \<and> (\<forall>i<length (slices t). let s = slices t ! i; s' = slices (remove_worker p t) ! i
        in sl_hash s' = sl_hash s \<and> sl_peer s' = (if sl_peer s = Some p then None else sl_peer s)
           \<and> sl_processed s' = (sl_processed s \<and> processing t p \<noteq> Some (sl_hash s)))
    \<and> processing (remove_worker p t) = (processing t)(p := None) \<and> rounds (remove_worker p t) = rounds t"
proof -
  have "processing (remove_worker p t) = (processing t)(p := None)" "rounds (remove_worker p t) = rounds t"
    by (auto simp: remove_worker_def Let_def split: option.splits)
  then show ?thesis unfolding slices_remove_worker [OF assms] by (simp add: Let_def)
qed

definition demo_tracker :: tracker where
  "demo_tracker = \<lparr>slices = [\<lparr>sl_hash = 10, sl_peer = Some 5, sl_processed = True\<rparr>,
     \<lparr>sl_hash = 20, sl_peer = Some 5, sl_processed = True\<rparr>], processing = [5 \<mapsto> 20], rounds = 0\<rparr>"

lemma remove_worker_reopens_witness:
  "\<exists>a b. slices (remove_worker 5 demo_tracker) = [a, b] \<and> sl_processed a \<and> \<not> sl_processed b
     \<and> sl_peer a = None \<and> sl_peer b = None"
proof -
  have "distinct (map sl_hash (slices demo_tracker))" by (simp add: demo_tracker_def)
  note r = remove_worker_reopens [OF this, of 5]
  then have "length (slices (remove_worker 5 demo_tracker)) = 2" by (simp add: demo_tracker_def)
  then obtain a b where ab: "slices (remove_worker 5 demo_tracker) = [a, b]"
    by (auto simp: numeral_2_eq_2 length_Suc_conv)
  with r show ?thesis by (simp add: ab Let_def demo_tracker_def All_less_Suc)
qed

text \<open>
  Stealing takes from the wrong worker: the comment and the log message speak of the slowest
  peer, but the peers are sorted by their open slices in ascending order and the first is taken. With
  one open slice of peer 1 and three of peer 2, it is the slice of peer 1, the one nearest to its
  end, that peer 3 is given.
\<close>

lemma steals_from_fewest_open:
  "let own = (\<lambda>h q. \<lparr>sl_hash = h, sl_peer = Some q, sl_processed = False\<rparr>);
       t = \<lparr>slices = [own 10 2, own 20 1, own 30 2, own 40 2], processing = Map.empty, rounds = 1\<rparr>
   in map_option fst (tracker_next count_order 3 t) = Some (Some 20)"
proof -
  let ?own = "\<lambda>h q. \<lparr>sl_hash = h, sl_peer = Some q, sl_processed = False\<rparr>"
  let ?t = "\<lparr>slices = [?own 10 2, ?own 20 1, ?own 30 2, ?own 40 2], processing = Map.empty, rounds = 1\<rparr>"
  have c: "count_open (slices ?t) Map.empty = Some [2 \<mapsto> 2, 1 \<mapsto> 0]"
    by (simp add: fun_upd_twist)
  have "count_order [2 \<mapsto> 2, 1 \<mapsto> 0] = [1, 2]" by (simp add: count_order_def insert_commute)
  then have "slow_peer count_order [2 \<mapsto> 2, 1 \<mapsto> 0] = Some 1" by (simp add: slow_peer_def)
  then show ?thesis using c
    by (simp add: tracker_next.simps claim_slice_def available_def Let_def)
qed

end
