(* ===== verification/Simulation.thy ===== *)
theory Simulation
  imports Prelude
begin

text \<open>
  The scheduler's projection of the workers' progress (\<^verbatim>\<open>crates/scheduler/src/simulation.rs\<close>): an
  event loop that lets the workers finish batches in the order of their times until the missing
  data points are processed or a worker reaches the cap on its steps. Counters keep their widths;
  the sums of progress and statistic wrap, the additions in the loop saturate, as in the source.
  An index out of range is a panic, \<open>None\<close>.
\<close>

section \<open>The loop\<close>

record sim =
  sim_time :: u64
  to_go :: u32
  updates :: "u32 list"
  next_update :: "u64 list"
  capped :: bool

definition sim_indices :: "u32 list \<Rightarrow> sim \<Rightarrow> nat list" where
  "sim_indices bs s = [0..<min (length (next_update s)) (length bs)]"

definition next_event_time :: "u32 list \<Rightarrow> sim \<Rightarrow> u64" where
  "next_event_time bs s = min_list (map (\<lambda>i. next_update s ! i) (sim_indices bs s))"

definition min_indices :: "u32 list \<Rightarrow> sim \<Rightarrow> nat list" where
  "min_indices bs s = filter (\<lambda>i. next_update s ! i = next_event_time bs s) (sim_indices bs s)"

definition sim_event :: "u32 \<Rightarrow> u32 list \<Rightarrow> u64 list \<Rightarrow> sim \<Rightarrow> nat \<Rightarrow> sim" where
  "sim_event cap bs stats s i =
     (let u = saturating_add (updates s ! i) 1
      in s\<lparr>to_go := to_go s - bs ! i, updates := (updates s)[i := u], capped := capped s \<or> cap \<le> u,
           next_update := (next_update s)[i := saturating_add (next_update s ! i) (stats ! i)]\<rparr>)"

definition sim_round :: "u32 \<Rightarrow> u32 list \<Rightarrow> u64 list \<Rightarrow> sim \<Rightarrow> sim" where
  "sim_round cap bs stats s =
     foldl (sim_event cap bs stats) (s\<lparr>sim_time := next_event_time bs s\<rparr>) (min_indices bs s)"

lemma fold_sim_event:
  fixes cap :: u32 and bs :: "u32 list" and stats :: "u64 list"
  assumes "distinct js" and "\<forall>i\<in>set js. i < length (updates s) \<and> i < length (next_update s)"
  defines "s' \<equiv> foldl (sim_event cap bs stats) s js"
  shows "length (updates s') = length (updates s) \<and> length (next_update s') = length (next_update s)
    \<and> sim_time s' = sim_time s
    \<and> (\<forall>j. updates s' ! j = (if j \<in> set js then saturating_add (updates s ! j) 1 else updates s ! j))
    \<and> (\<forall>j. next_update s' ! j =
        (if j \<in> set js then saturating_add (next_update s ! j) (stats ! j) else next_update s ! j))
    \<and> to_go s' = to_go s - (\<Sum>i\<leftarrow>js. bs ! i)
    \<and> (capped s' \<longleftrightarrow> capped s \<or> (\<exists>i\<in>set js. cap \<le> saturating_add (updates s ! i) 1))"
  unfolding s'_def using assms(1,2)
proof (induction js arbitrary: s)
  case (Cons i js)
  let ?s = "sim_event cap bs stats s i"
  have l: "length (updates ?s) = length (updates s)" "length (next_update ?s) = length (next_update s)"
    "sim_time ?s = sim_time s" "to_go ?s = to_go s - bs ! i"
    by (simp_all add: sim_event_def Let_def)
  have i: "i < length (updates s)" "i < length (next_update s)" "i \<notin> set js" "distinct js"
    using Cons.prems by auto
  have u: "updates ?s ! j = (if j = i then saturating_add (updates s ! i) 1 else updates s ! j)"
    "next_update ?s ! j = (if j = i then saturating_add (next_update s ! i) (stats ! i) else next_update s ! j)" for j
    using i by (simp_all add: sim_event_def Let_def nth_list_update)
  have c: "capped ?s \<longleftrightarrow> capped s \<or> cap \<le> saturating_add (updates s ! i) 1" by (simp add: sim_event_def Let_def)
  have "\<forall>i\<in>set js. i < length (updates ?s) \<and> i < length (next_update ?s)" using Cons.prems l by simp
  note ih = Cons.IH [OF i(4) this]
  show ?case using ih i(3) by (auto simp: l u c algebra_simps)
qed simp

lemma min_indices_props:
  "distinct (min_indices bs s)"
  "j \<in> set (min_indices bs s) \<longleftrightarrow>
     j < length (next_update s) \<and> j < length bs \<and> next_update s ! j = next_event_time bs s"
  by (auto simp: min_indices_def sim_indices_def)

lemma next_event_min:
  assumes "length (next_update s) \<noteq> 0" and "length bs \<noteq> 0"
  shows "\<exists>j\<in>set (min_indices bs s). True"
    and "i < length (next_update s) \<Longrightarrow> i < length bs \<Longrightarrow> next_event_time bs s \<le> next_update s ! i"
proof -
  let ?xs = "map (\<lambda>i. next_update s ! i) (sim_indices bs s)"
  have ne: "?xs \<noteq> []" using assms by (simp add: sim_indices_def)
  then have m: "next_event_time bs s = Min (set ?xs)" by (simp add: next_event_time_def min_list_Min)
  then have "next_event_time bs s \<in> set ?xs" using Min_in ne by (metis List.finite_set set_empty)
  then show "\<exists>j\<in>set (min_indices bs s). True" by (auto simp: min_indices_props sim_indices_def)
  show "i < length (next_update s) \<Longrightarrow> i < length bs \<Longrightarrow> next_event_time bs s \<le> next_update s ! i"
    unfolding m by (intro Min_le) (auto simp: sim_indices_def)
qed

lemma sim_round_fields:
  fixes cap :: u32 and bs :: "u32 list" and stats :: "u64 list"
  assumes "min (length (next_update s)) (length bs) \<le> length (updates s)"
  defines "s' \<equiv> sim_round cap bs stats s" and "js \<equiv> min_indices bs s"
  shows "length (updates s') = length (updates s)" and "length (next_update s') = length (next_update s)"
    and "sim_time s' = next_event_time bs s"
    and "updates s' ! j = (if j \<in> set js then saturating_add (updates s ! j) 1 else updates s ! j)"
    and "next_update s' ! j =
      (if j \<in> set js then saturating_add (next_update s ! j) (stats ! j) else next_update s ! j)"
    and "to_go s' = to_go s - (\<Sum>i\<leftarrow>js. bs ! i)"
    and "capped s' \<longleftrightarrow> capped s \<or> (\<exists>i\<in>set js. cap \<le> saturating_add (updates s ! i) 1)"
proof -
  have "\<forall>i\<in>set js. i < length (updates (s\<lparr>sim_time := next_event_time bs s\<rparr>))
      \<and> i < length (next_update (s\<lparr>sim_time := next_event_time bs s\<rparr>))"
    using assms(1) by (auto simp: js_def min_indices_props)
  note f = fold_sim_event [OF min_indices_props(1) [of bs s, folded js_def] this, of cap bs stats]
  show "length (updates s') = length (updates s)" "length (next_update s') = length (next_update s)"
    "sim_time s' = next_event_time bs s" 
    "updates s' ! j = (if j \<in> set js then saturating_add (updates s ! j) 1 else updates s ! j)"
    "next_update s' ! j =
      (if j \<in> set js then saturating_add (next_update s ! j) (stats ! j) else next_update s ! j)"
    "to_go s' = to_go s - (\<Sum>i\<leftarrow>js. bs ! i)"
    "capped s' \<longleftrightarrow> capped s \<or> (\<exists>i\<in>set js. cap \<le> saturating_add (updates s ! i) 1)"
    unfolding s'_def sim_round_def js_def [symmetric] using f by simp_all
qed

text \<open>A round that does not cap anything brings some worker nearer to the cap.\<close>

definition steps_left :: "u32 \<Rightarrow> sim \<Rightarrow> nat" where
  "steps_left cap s = (\<Sum>i<length (updates s). unat cap - unat (updates s ! i))"

lemma unat_sat1:
  fixes u cap :: u32
  assumes "\<not> cap \<le> saturating_add u 1"
  shows "unat (saturating_add u 1) = Suc (unat u)" and "Suc (unat u) < unat cap"
proof -
  have "unat (saturating_add u 1) < unat cap" using assms by (simp add: word_le_nat_alt)
  moreover have "unat cap < 2 ^ 32" using unsigned_less [of cap] by simp
  ultimately show "unat (saturating_add u 1) = Suc (unat u)" "Suc (unat u) < unat cap"
    by (simp_all add: unat_saturating_add min_def split: if_splits)
qed

lemma sim_round_decreases:
  assumes "length (next_update s) \<noteq> 0" and "length bs \<noteq> 0"
    and "min (length (next_update s)) (length bs) \<le> length (updates s)" and "\<not> capped (sim_round cap bs stats s)"
  shows "steps_left cap (sim_round cap bs stats s) < steps_left cap s"
proof -
  note f = sim_round_fields [OF assms(3), of cap stats]
  obtain j where j: "j \<in> set (min_indices bs s)" using next_event_min(1) [OF assms(1,2)] by blast
  have n: "\<not> cap \<le> saturating_add (updates s ! i) 1" if "i \<in> set (min_indices bs s)" for i
    using assms(4) f(7) that by blast
  show ?thesis unfolding steps_left_def f(1)
  proof (rule sum_strict_mono_ex1)
    show "\<forall>i\<in>{..<length (updates s)}. unat cap - unat (updates (sim_round cap bs stats s) ! i)
        \<le> unat cap - unat (updates s ! i)"
      using unat_sat1(1) [OF n] by (auto simp: f(4))
    show "\<exists>i\<in>{..<length (updates s)}. unat cap - unat (updates (sim_round cap bs stats s) ! i)
        < unat cap - unat (updates s ! i)"
      using j assms(3) unat_sat1 [OF n [OF j]]
      by (intro bexI [of _ j]) (auto simp: f(4) min_indices_props)
  qed simp
qed

function sim_loop :: "u32 \<Rightarrow> u32 list \<Rightarrow> u64 list \<Rightarrow> sim \<Rightarrow> sim option" where
  "sim_loop cap bs stats s =
     (if 0 < sint (to_go s) then
        if length (next_update s) = 0 \<or> length bs = 0 \<or> length (updates s) < min (length (next_update s)) (length bs) then None
        else let s' = sim_round cap bs stats s
             in if capped s' then Some s' else sim_loop cap bs stats s'
      else Some s)"
  by pat_completeness auto

termination
  by (relation "measure (\<lambda>(cap, bs, stats, s). steps_left cap s)") (auto intro: sim_round_decreases)

declare sim_loop.simps [simp del]

definition project ::
    "u64 list \<Rightarrow> u32 list \<Rightarrow> u64 list \<Rightarrow> u32 \<Rightarrow> u32 \<Rightarrow> (u64 \<times> u32 \<times> u32 list \<times> bool) option" where
  "project progress bs stats data_points_left steps_cap =
     map_option (\<lambda>s. (sim_time s, to_go s, updates s, capped s))
       (sim_loop steps_cap bs stats
          \<lparr>sim_time = 0, to_go = data_points_left, updates = replicate (length bs) 0,
           next_update = map2 (+) progress stats, capped = False\<rparr>)"

text \<open>For lists of equal length the projection never panics, whatever they hold.\<close>

lemma sim_loop_Some:
  assumes "bs \<noteq> []" and "length (next_update s) = length bs" and "length (updates s) = length bs"
  shows "\<exists>s'. sim_loop cap bs stats s = Some s' \<and> length (updates s') = length bs"
  using assms
proof (induction cap bs stats s rule: sim_loop.induct)
  case (1 cap bs stats s)
  let ?s = "sim_round cap bs stats s"
  have f: "length (updates ?s) = length bs" "length (next_update ?s) = length bs"
    using sim_round_fields(1,2) [of s bs cap stats] 1(3,4) by simp_all
  show ?case
  proof (cases "0 < sint (to_go s) \<and> \<not> capped ?s")
    case True
    then have "\<exists>s'. sim_loop cap bs stats ?s = Some s' \<and> length (updates s') = length bs"
      using 1 f by (intro 1(1)) auto
    then show ?thesis using True 1(2-4) by (simp add: sim_loop.simps [of cap bs stats s] Let_def)
  next
    case False
    then show ?thesis using 1(2-4) f by (auto simp: sim_loop.simps [of cap bs stats s] Let_def)
  qed
qed

lemma project_total:
  assumes "bs \<noteq> []" and "length progress = length bs" and "length stats = length bs"
  shows "\<exists>t n ups b. project progress bs stats target cap = Some (t, n, ups, b) \<and> length ups = length bs"
proof -
  let ?s = "\<lparr>sim_time = 0, to_go = target, updates = replicate (length bs) 0, next_update = map2 (+) progress stats, capped = False\<rparr>"
  obtain s' where "sim_loop cap bs stats ?s = Some s'" "length (updates s') = length bs"
    using sim_loop_Some [OF assms(1), of ?s cap stats] assms(2,3) by auto
  then show ?thesis by (simp add: project_def)
qed

section \<open>What the projection computes\<close>

text \<open>
  The loop invariant, for lists of equal length: the data points are accounted for, the next event
  of a worker lies one statistic after its last, and the events up to the current time are the
  counted ones.
\<close>

definition sim_inv :: "u64 list \<Rightarrow> u32 list \<Rightarrow> u64 list \<Rightarrow> u32 \<Rightarrow> sim \<Rightarrow> bool" where
  "sim_inv progress bs stats target s \<longleftrightarrow>
     length (updates s) = length bs \<and> length (next_update s) = length bs
     \<and> to_go s = target - (\<Sum>i<length bs. bs ! i * updates s ! i)
     \<and> (\<forall>i<length bs. unat (next_update s ! i) = unat (progress ! i) + Suc (unat (updates s ! i)) * unat (stats ! i)
          \<and> (0 < unat (updates s ! i) \<longrightarrow>
               unat (progress ! i) + unat (updates s ! i) * unat (stats ! i) \<le> unat (sim_time s))
          \<and> unat (sim_time s) < unat (next_update s ! i))"

definition sim_args_ok :: "u64 list \<Rightarrow> u32 list \<Rightarrow> u64 list \<Rightarrow> u32 \<Rightarrow> bool" where
  "sim_args_ok progress bs stats cap \<longleftrightarrow> bs \<noteq> [] \<and> length progress = length bs \<and> length stats = length bs \<and> 0 < cap
     \<and> (\<forall>i<length bs. 0 < stats ! i \<and> unat (progress ! i) + Suc (unat cap) * unat (stats ! i) < 2 ^ 64)"

lemma unat_sat_below:
  fixes u cap :: u32
  assumes "unat u < unat cap"
  shows "saturating_add u 1 = u + 1" and "unat (u + 1) = Suc (unat u)"
proof -
  have "unat cap < 2 ^ 32" using unsigned_less [of cap] by simp
  with assms have "unat u + 1 < 2 ^ 32" by linarith
  then show "saturating_add u 1 = u + 1" by (simp add: saturating_add_def no_olen_add_nat)
  show "unat (u + 1) = Suc (unat u)" using \<open>unat u + 1 < 2 ^ 32\<close> by (simp add: unat_word_ariths)
qed

lemma sim_inv_round:
  assumes ok: "sim_args_ok progress bs stats cap" and inv: "sim_inv progress bs stats target s"
    and below: "\<forall>i<length bs. unat (updates s ! i) < unat cap" and nc: "\<not> capped s"
  defines "s' \<equiv> sim_round cap bs stats s"
  shows "sim_inv progress bs stats target s'" and "\<forall>i<length bs. unat (updates s' ! i) \<le> unat cap"
    and "capped s' \<longleftrightarrow> (\<exists>i<length bs. updates s' ! i = cap)"
proof -
  have len: "length (updates s) = length bs" "length (next_update s) = length bs"
    using inv by (auto simp: sim_inv_def)
  note f = sim_round_fields [of s bs cap stats, folded s'_def, unfolded len, simplified]
  let ?I = "set (min_indices bs s)"
  have I: "i \<in> ?I \<longleftrightarrow> i < length bs \<and> next_update s ! i = next_event_time bs s" for i
    by (auto simp: min_indices_props len)
  have u: "updates s' ! i = (if i \<in> ?I then updates s ! i + 1 else updates s ! i)" if "i < length bs" for i
    using f(4) [of i] unat_sat_below(1) below that by auto
  have uu: "unat (updates s' ! i) = (if i \<in> ?I then Suc (unat (updates s ! i)) else unat (updates s ! i))"
    if "i < length bs" for i using u [OF that] unat_sat_below(2) below that by auto
  show le: "\<forall>i<length bs. unat (updates s' ! i) \<le> unat cap" using uu below by (auto intro: less_imp_le)
  have "cap \<le> saturating_add (updates s ! i) 1 \<longleftrightarrow> updates s' ! i = cap" if "i \<in> ?I" for i
  proof -
    have i: "i < length bs" using that I by blast
    have "cap \<le> updates s' ! i \<longleftrightarrow> updates s' ! i = cap"
      using le i by (metis order_antisym order_refl word_le_nat_alt)
    then show ?thesis using f(4) [of i] that by simp
  qed
  moreover have "updates s' ! i \<noteq> cap" if "i < length bs" "i \<notin> ?I" for i
    using u [OF that(1)] that below by auto
  ultimately show "capped s' \<longleftrightarrow> (\<exists>i<length bs. updates s' ! i = cap)"
    using f(7) nc I by blast
  have min: "unat (sim_time s') \<le> unat (next_update s ! i)" if "i < length bs" for i
    using next_event_min(2) [of s bs i] ok that len f(3) by (auto simp: sim_args_ok_def word_le_nat_alt)
  have time: "unat (sim_time s) \<le> unat (sim_time s')"
  proof -
    obtain j where "j \<in> ?I" using next_event_min(1) [of s bs] ok len by (auto simp: sim_args_ok_def)
    then show ?thesis using inv I [of j] f(3) by (auto simp: sim_inv_def)
  qed
  have nx: "unat (next_update s' ! i) = unat (progress ! i) + Suc (unat (updates s' ! i)) * unat (stats ! i)"
    if i: "i < length bs" for i
  proof (cases "i \<in> ?I")
    case True
    have "Suc (Suc (unat (updates s ! i))) * unat (stats ! i) \<le> Suc (unat cap) * unat (stats ! i)"
      using below i by (intro mult_le_mono1) auto
    then have "unat (progress ! i) + Suc (Suc (unat (updates s ! i))) * unat (stats ! i) < 2 ^ 64"
      using ok i unfolding sim_args_ok_def by (meson add_le_cancel_left le_less_trans)
    then show ?thesis using inv i f(5) [of i] uu [OF i] True
      by (simp add: sim_inv_def unat_saturating_add)
  next
    case False
    then show ?thesis using inv i f(5) [of i] uu [OF i] by (simp add: sim_inv_def)
  qed
  have "unat (sim_time s') < unat (next_update s' ! i)" if i: "i < length bs" for i
  proof (cases "i \<in> ?I")
    case True
    have "0 < unat (stats ! i)" using ok i by (auto simp: sim_args_ok_def word_less_nat_alt)
    moreover have "unat (sim_time s') = unat (progress ! i) + Suc (unat (updates s ! i)) * unat (stats ! i)"
      using True I [of i] f(3) inv by (auto simp: sim_inv_def)
    ultimately show ?thesis using nx [OF i] uu [OF i] True by simp
  next
    case False
    then have "next_update s ! i \<noteq> sim_time s'" using I [of i] i f(3) by auto
    then show ?thesis using min [OF i] f(5) [of i] False by (metis le_neq_implies_less word_unat_eq_iff)
  qed
  moreover have "unat (progress ! i) + unat (updates s' ! i) * unat (stats ! i) \<le> unat (sim_time s')"
    if i: "i < length bs" "0 < unat (updates s' ! i)" for i
  proof (cases "i \<in> ?I")
    case True
    then show ?thesis using uu [OF i(1)] I [of i] f(3) inv by (auto simp: sim_inv_def)
  next
    case False
    then show ?thesis using uu [OF i(1)] i inv time by (auto simp: sim_inv_def)
  qed
  moreover have "to_go s' = target - (\<Sum>i<length bs. bs ! i * updates s' ! i)"
  proof -
    have "(\<Sum>i<length bs. bs ! i * updates s' ! i)
        = (\<Sum>i<length bs. bs ! i * updates s ! i + (if i \<in> ?I then bs ! i else 0))"
      using u by (intro sum.cong) (auto simp: algebra_simps)
    also have "\<dots> = (\<Sum>i<length bs. bs ! i * updates s ! i) + (\<Sum>i\<in>?I. bs ! i)"
      using I by (simp add: sum.distrib sum.If_cases) (auto intro!: sum.cong)
    finally have "(\<Sum>i<length bs. bs ! i * updates s' ! i)
        = (\<Sum>i<length bs. bs ! i * updates s ! i) + (\<Sum>i\<in>?I. bs ! i)" .
    moreover have "to_go s' = to_go s - (\<Sum>i\<in>?I. bs ! i)"
      using f(6) by (simp add: sum_list_distinct_conv_sum_set min_indices_props(1))
    moreover have "to_go s = target - (\<Sum>i<length bs. bs ! i * updates s ! i)"
      using inv by (simp add: sim_inv_def)
    ultimately show ?thesis by simp
  qed
  ultimately show "sim_inv progress bs stats target s'" using nx f(1,2) by (simp add: sim_inv_def)
qed

lemma sim_loop_result:
  assumes ok: "sim_args_ok progress bs stats cap" and inv: "sim_inv progress bs stats target s"
    and below: "\<forall>i<length bs. unat (updates s ! i) < unat cap" and nc: "\<not> capped s"
  shows "\<exists>s'. sim_loop cap bs stats s = Some s' \<and> sim_inv progress bs stats target s'
    \<and> (\<forall>i<length bs. unat (updates s' ! i) \<le> unat cap) \<and> (capped s' \<longleftrightarrow> (\<exists>i<length bs. updates s' ! i = cap))
    \<and> (capped s' \<or> sint (to_go s') \<le> 0)"
  using assms
proof (induction cap bs stats s rule: sim_loop.induct)
  case (1 cap bs stats s)
  show ?case
  proof (cases "0 < sint (to_go s)")
    case False
    with 1(3-5) show ?thesis
      by (intro exI [of _ s]) (auto simp: sim_loop.simps dest: less_imp_le)
  next
    case True
    let ?s = "sim_round cap bs stats s"
    have g: "\<not> (length (next_update s) = 0 \<or> length bs = 0
        \<or> length (updates s) < min (length (next_update s)) (length bs))"
      using 1(2,3) by (auto simp: sim_inv_def sim_args_ok_def)
    note r = sim_inv_round [OF 1(2-5)]
    show ?thesis
    proof (cases "capped ?s")
      case c: True
      with True g r show ?thesis by (intro exI [of _ ?s]) (auto simp: sim_loop.simps)
    next
      case c: False
      have "\<forall>i<length bs. unat (updates ?s ! i) < unat cap"
        using r(2,3) c by (metis le_neq_implies_less word_unat_eq_iff)
      from 1(1) [OF True g refl c 1(2) r(1) this c] True g c show ?thesis
        by (simp add: sim_loop.simps [of cap bs stats s] Let_def)
    qed
  qed
qed

text \<open>
  C19. The projection terminates, does not panic and is exact: for workers with known positive
  statistics and times that do not overflow, the count returned for a worker is the number of
  batches it finishes up to the returned time at its own pace; no count exceeds the cap on the steps;
  what is left is the target minus the data points of the counted batches; and it stops only when
  nothing is left or a worker has reached the cap, which it reports.
\<close>

theorem project_exact:
  assumes "sim_args_ok progress bs stats cap"
  shows "\<exists>time left ups c. project progress bs stats target cap = Some (time, left, ups, c)
    \<and> length ups = length bs
    \<and> (\<forall>i<length bs. unat (ups ! i) = card {k. 1 \<le> k \<and> unat (progress ! i) + k * unat (stats ! i) \<le> unat time})
    \<and> (\<forall>i<length bs. ups ! i \<le> cap)
    \<and> left = target - (\<Sum>i<length bs. bs ! i * ups ! i)
    \<and> (c \<longleftrightarrow> (\<exists>i<length bs. ups ! i = cap)) \<and> (c \<or> sint left \<le> 0)"
proof -
  let ?s = "\<lparr>sim_time = 0, to_go = target, updates = replicate (length bs) 0,
    next_update = map2 (+) progress stats, capped = False\<rparr>"
  have pos: "0 < unat (stats ! i)" "unat (progress ! i) + unat (stats ! i) < 2 ^ 64" if "i < length bs" for i
    using assms that by (auto simp: sim_args_ok_def word_less_nat_alt)
  have len: "length progress = length bs" "length stats = length bs" using assms by (auto simp: sim_args_ok_def)
  have i0: "sim_inv progress bs stats target ?s"
    using pos len by (auto simp: sim_inv_def unat_word_ariths)
  have u0: "\<forall>i<length bs. unat (updates ?s ! i) < unat cap"
    using assms by (auto simp: sim_args_ok_def word_less_nat_alt)
  from sim_loop_result [OF assms i0 u0] obtain s' where s': "sim_loop cap bs stats ?s = Some s'" "sim_inv progress bs stats target s'"
    "\<forall>i<length bs. unat (updates s' ! i) \<le> unat cap" "capped s' \<longleftrightarrow> (\<exists>i<length bs. updates s' ! i = cap)"
    "capped s' \<or> sint (to_go s') \<le> 0"
    by auto
  have "unat (updates s' ! i) = card {k. 1 \<le> k \<and> unat (progress ! i) + k * unat (stats ! i) \<le> unat (sim_time s')}"
    if i: "i < length bs" for i
  proof -
    let ?u = "unat (updates s' ! i)" and ?p = "unat (progress ! i)" and ?t = "unat (stats ! i)"
    have b: "0 < ?u \<longrightarrow> ?p + ?u * ?t \<le> unat (sim_time s')" "unat (sim_time s') < ?p + Suc ?u * ?t"
      using s'(2) i by (auto simp: sim_inv_def)
    have "1 \<le> k \<and> ?p + k * ?t \<le> unat (sim_time s') \<longleftrightarrow> k \<in> {1..?u}" for k
    proof
      assume k: "1 \<le> k \<and> ?p + k * ?t \<le> unat (sim_time s')"
      then have "k * ?t < Suc ?u * ?t" using b(2) by linarith
      then have "k < Suc ?u" by (simp only: mult_less_cancel2)
      then show "k \<in> {1..?u}" using k by simp
    next
      assume "k \<in> {1..?u}"
      then have "1 \<le> k" "k \<le> ?u" by auto
      moreover from this(2) have "k * ?t \<le> ?u * ?t" by (rule mult_le_mono1)
      ultimately show "1 \<le> k \<and> ?p + k * ?t \<le> unat (sim_time s')" using b(1) by linarith
    qed
    then have "{k. 1 \<le> k \<and> ?p + k * ?t \<le> unat (sim_time s')} = {1..?u}" by blast
    then show ?thesis by simp
  qed
  with s' show ?thesis by (auto simp: project_def sim_inv_def word_le_nat_alt)
qed

theorem project_exact_witness:
  "\<exists>time left ups c. project [0, 0] [10, 5] [20, 30] 40 3 = Some (time, left, ups, c)
     \<and> length ups = 2 \<and> ups ! 0 \<le> 3 \<and> left = 40 - (10 * ups ! 0 + 5 * ups ! 1) \<and> (c \<or> sint left \<le> 0)"
proof -
  have "sim_args_ok [0, 0] [10, 5] [20, 30] 3"
    by (simp add: sim_args_ok_def All_less_Suc)
  from project_exact [OF this, of 40] show ?thesis by (auto simp: All_less_Suc)
qed

end
