(* ===== verification/Batch_Scheduler.thy ===== *)
theory Batch_Scheduler
  imports Pool Simulation
begin

text \<open>
  The coordination of training rounds (\<^verbatim>\<open>crates/scheduler/src/scheduling/batch_scheduler.rs\<close>): workers
  and parameter servers report their status, and \<^verbatim>\<open>schedule\<close> answers with their next action. Each
  branch of its match is a definition; a request is handled as one step. The readings of the
  clocks are an argument, and so is whether the channel for the metrics is still open.
\<close>

section \<open>State\<close>

record round_state =
  aggregated_updates :: bool
  first_update_at :: "instant option"
  round_started_at :: instant
  aggregate_started_at :: "instant option"
  min_quorum :: nat
  grace :: duration
  round :: u32
  update_rounds :: u32
  training_complete :: bool
  push_done :: bool

record training_state =
  update_target :: u32
  counter :: u32

definition training_new :: "u32 \<Rightarrow> training_state" where
  "training_new target = \<lparr>update_target = target, counter = 0\<rparr>"

definition record_batch :: "u32 \<Rightarrow> training_state \<Rightarrow> training_state" where
  "record_batch n t = t\<lparr>counter := saturating_add (counter t) n\<rparr>"

definition reset_round :: "training_state \<Rightarrow> training_state" where
  "reset_round t = t\<lparr>counter := 0\<rparr>"

record sched_config =
  batch_sizer :: "resources \<Rightarrow> u32"
  multi_batch_size :: u32
  push_destination :: "(string \<times> string) option"

record clock =
  clk_now :: system_time
  clk_since_start :: u64
  clk_instant :: instant

text \<open>The shared state, the metrics sent so far, and whether the job was cancelled.\<close>

record sched =
  worker_pool :: train_pool
  parameter_pool :: aggregate_pool
  round_st :: round_state
  training_st :: training_state
  sent_metrics :: "(peer_id \<times> u32 \<times> metrics_map) list"
  job_cancelled :: bool

datatype reply = Reply executor_action | SendMetricsError | Panicked

definition sched_init ::
    "train_pool \<Rightarrow> aggregate_pool \<Rightarrow> instant \<Rightarrow> nat \<Rightarrow> duration \<Rightarrow> u32 \<Rightarrow> u32 \<Rightarrow> sched" where
  "sched_init wp pp start quorum gr samples_between_updates rounds =
     \<lparr>worker_pool = wp, parameter_pool = pp,
      round_st = \<lparr>aggregated_updates = False, first_update_at = None, round_started_at = start,
        aggregate_started_at = None, min_quorum = quorum, grace = gr, round = 0, update_rounds = rounds,
        training_complete = False, push_done = False\<rparr>,
      training_st = training_new samples_between_updates, sent_metrics = [], job_cancelled = False\<rparr>"

section \<open>Shared pieces of the handlers\<close>

definition short_idle :: "clock \<Rightarrow> system_time" where
  "short_idle c = clk_now c + from_millis 500"

definition wait_model :: "clock \<Rightarrow> system_time" where
  "wait_model c = clk_now c + from_secs 1"

definition long_io :: "clock \<Rightarrow> system_time" where
  "long_io c = clk_now c + from_secs 60"

definition ps_broadcast_idle :: "clock \<Rightarrow> system_time" where
  "ps_broadcast_idle c = clk_now c + from_secs 5"

definition peers_all :: "peer_id list \<Rightarrow> reference" where
  "peers_all ps = Peers ps StrategyAll None"

definition peers_one :: "peer_id \<Rightarrow> reference" where
  "peers_one p = Peers [p] StrategyOne None"

definition parameter_servers :: "sched \<Rightarrow> peer_id list" where
  "parameter_servers s = map ai_peer (fst (aggregate_info (parameter_pool s)))"

definition primary_ps :: "sched \<Rightarrow> peer_id option" where
  "primary_ps s = (case parameter_servers s of [] \<Rightarrow> None | p # _ \<Rightarrow> Some p)"

definition primary_updates :: "sched \<Rightarrow> peer_id set option" where
  "primary_updates s =
     (case primary_ps s of
        None \<Rightarrow> None
      | Some ps \<Rightarrow> map_option worker_updates
          (List.find (\<lambda>w. ai_peer w = ps) (fst (aggregate_info (parameter_pool s)))))"

definition has_sent_update :: "peer_id \<Rightarrow> sched \<Rightarrow> bool" where
  "has_sent_update p s = (case primary_updates s of None \<Rightarrow> False | Some u \<Rightarrow> p \<in> u)"

definition find_worker :: "peer_id \<Rightarrow> worker_info list \<Rightarrow> worker_info option" where
  "find_worker p ws = List.find (\<lambda>w. wi_peer w = p) ws"

text \<open>\<^verbatim>\<open>worker_pool.info()\<close>: the snapshot, with the pool pruned.\<close>

definition take_info :: "sched \<Rightarrow> worker_info list \<times> sched" where
  "take_info s = (case train_info (worker_pool s) of (ws, wp) \<Rightarrow> (ws, s\<lparr>worker_pool := wp\<rparr>))"

definition set_worker :: "peer_id \<Rightarrow> (worker_state \<Rightarrow> worker_state) \<Rightarrow> sched \<Rightarrow> sched" where
  "set_worker p f s = s\<lparr>worker_pool := train_update_state p f (worker_pool s)\<rparr>"

definition unsigned_abs :: "u32 \<Rightarrow> u32" where
  "unsigned_abs x = (if sint x < 0 then - x else x)"

text \<open>
  The decision that \<^verbatim>\<open>Idle\<close> and \<^verbatim>\<open>BatchCompleted\<close> share: whether to update, the projected target, and the
  batches to execute until then.
\<close>

definition plan_update ::
    "sched_config \<Rightarrow> worker_info list \<Rightarrow> peer_id \<Rightarrow> u32 \<Rightarrow> u32 \<Rightarrow> (bool \<times> u32 \<times> u32) option" where
  "plan_update cfg ws p count target =
     (let pos = (case position (\<lambda>w. wi_peer w = p) ws of None \<Rightarrow> 0 | Some i \<Rightarrow> i);
          stats = map (\<lambda>w. case wi_statistic w of None \<Rightarrow> 0 | Some v \<Rightarrow> v) ws;
          progress = map (\<lambda>w. case wi_last_updated w of None \<Rightarrow> 0 | Some v \<Rightarrow> v) ws;
          sizes = map (\<lambda>w. batch_sizer cfg (wi_resources w)) ws
      in if target \<le> count then Some (True, count, 0)
         else if ws \<noteq> [] \<and> (\<forall>v\<in>set stats. 0 < v \<and> v < - 1)
              then case project progress sizes stats (saturating_sub target count) (multi_batch_size cfg) of
                     None \<Rightarrow> None
                   | Some (_, cnt, projection, _) \<Rightarrow>
                       if pos < length projection
                       then Some (False, saturating_add count (unsigned_abs cnt), projection ! pos)
                       else None
              else Some (False, count, 1))"

definition update_weight :: "u32 \<Rightarrow> u32 \<Rightarrow> float" where
  "update_weight contribution target =
     fdiv F32 (of_nat_float F32 (unat contribution)) (of_nat_float F32 (unat target))"

definition train_idle :: "system_time \<Rightarrow> executor_action" where
  "train_idle t = TrainAction (Idle t)"

definition aggregate_idle :: "system_time \<Rightarrow> executor_action" where
  "aggregate_idle t = AggregateAction (IdleAggregate t)"

text \<open>\<^verbatim>\<open>Duration::as_secs_f32\<close>, and the entries that both metrics reports add.\<close>

definition as_secs_f32 :: "duration \<Rightarrow> float" where
  "as_secs_f32 d = fadd F32 (of_nat_float F32 (d div 1000000000))
     (fdiv F32 (of_nat_float F32 (d mod 1000000000)) (of_nat_float F32 1000000000))"

definition add_metrics :: "u32 \<Rightarrow> float \<Rightarrow> float \<Rightarrow> metrics_map \<Rightarrow> metrics_map" where
  "add_metrics rnd points elapsed m =
     m(''round'' \<mapsto> of_nat_float F32 (unat rnd), ''data_points'' \<mapsto> points,
       ''steps'' \<mapsto> (if flt (Fin 0) elapsed then fdiv F32 points elapsed else Fin 0),
       ''duration'' \<mapsto> elapsed)"

section \<open>Handlers of the workers' statuses\<close>

definition handle_joined :: "clock \<Rightarrow> peer_id \<Rightarrow> sched \<Rightarrow> reply \<times> sched" where
  "handle_joined c p s =
     (if round (round_st s) = 0 then (Reply (train_idle (short_idle c)), s)
      else (Reply (TrainAction (WaitForModel (wait_model c))), set_worker p (waiting_for_model_update (\<lambda>_. True)) s))"

definition handle_waited_for_model :: "clock \<Rightarrow> peer_id \<Rightarrow> sched \<Rightarrow> reply \<times> sched" where
  "handle_waited_for_model c p s =
     (let (ws, s) = take_info s
      in case Option.bind (find_worker p ws) (\<lambda>w. receiving_from (wi_state w)) of
           Some q \<Rightarrow> (Reply (TrainAction (ReceiveModel (peers_all [q]) (long_io c))),
                      set_worker p (receiving_from_update (\<lambda>_. None)) s)
         | None \<Rightarrow> (Reply (TrainAction (WaitForModel (wait_model c))), s))"

definition handle_idle_training :: "sched_config \<Rightarrow> clock \<Rightarrow> peer_id \<Rightarrow> sched \<Rightarrow> reply \<times> sched" where
  "handle_idle_training cfg c p s =
     (let (ws, s) = take_info s;
          contribution = (case find_worker p ws of None \<Rightarrow> 0 | Some w \<Rightarrow> samples_processed (wi_state w));
          applied = (case find_worker p ws of None \<Rightarrow> False | Some w \<Rightarrow> applied_update (wi_state w));
          servers = parameter_servers s
      in case plan_update cfg ws p (counter (training_st s)) (update_target (training_st s)) of
           None \<Rightarrow> (Panicked, s)
         | Some (should_update, projected, batches) \<Rightarrow>
             (Reply (if aggregated_updates (round_st s) \<and> \<not> applied
                     then TrainAction (ApplyUpdate (peers_all servers) (clk_now c + from_secs 10))
                     else if has_sent_update p s then train_idle (short_idle c)
                     else if \<not> should_update then TrainAction (ExecuteBatch batches)
                     else case servers of
                            [] \<Rightarrow> train_idle (short_idle c)
                          | ps # _ \<Rightarrow> TrainAction (SendUpdate (peers_one ps) (update_weight contribution projected))),
              s))"

definition handle_idle_complete :: "sched_config \<Rightarrow> clock \<Rightarrow> peer_id \<Rightarrow> sched \<Rightarrow> reply \<times> sched" where
  "handle_idle_complete cfg c p s =
     (let (ws, s) = take_info s;
          assigned = (\<exists>w\<in>set ws. is_pusher (wi_state w));
          final = (case find_worker p ws of None \<Rightarrow> False | Some w \<Rightarrow> applied_final_update (wi_state w));
          applied = (case find_worker p ws of None \<Rightarrow> False | Some w \<Rightarrow> applied_update (wi_state w));
          servers = parameter_servers s
      in if aggregated_updates (round_st s) \<and> \<not> applied
         then (Reply (TrainAction (ApplyUpdate (peers_all servers) (clk_now c + from_secs 10))), s)
         else if \<not> assigned \<and> final
         then let s = set_worker p (is_pusher_update (\<lambda>_. True)) s
              in case push_destination cfg of
                   Some (repository, token) \<Rightarrow> (Reply (TrainAction (PushToHub repository token)), s)
                 | None \<Rightarrow> (Reply (TrainAction Terminate), s\<lparr>round_st := (round_st s)\<lparr>push_done := True\<rparr>\<rparr>)
         else (Reply (train_idle (short_idle c)), s))"

definition handle_idle :: "sched_config \<Rightarrow> clock \<Rightarrow> peer_id \<Rightarrow> sched \<Rightarrow> reply \<times> sched" where
  "handle_idle cfg c p s =
     (if \<not> training_complete (round_st s) then handle_idle_training cfg c p s
      else if push_done (round_st s) then (Reply (TrainAction Terminate), s\<lparr>job_cancelled := True\<rparr>)
      else handle_idle_complete cfg c p s)"

text \<open>The closure of \<^verbatim>\<open>BatchCompleted\<close> on the statistic.\<close>

definition batch_statistics ::
    "u64 \<Rightarrow> u32 \<Rightarrow> running_mean \<Rightarrow> u64 \<Rightarrow> (running_mean \<times> u64) option" where
  "batch_statistics since_start batches st lu =
     (if 0 < lu then map_option (\<lambda>st'. (st', since_start)) (rm_update (saturating_sub since_start lu) (ucast batches) st)
      else Some (st, since_start))"

definition handle_batch_completed ::
    "sched_config \<Rightarrow> clock \<Rightarrow> u32 \<Rightarrow> u32 \<Rightarrow> peer_id \<Rightarrow> sched \<Rightarrow> reply \<times> sched" where
  "handle_batch_completed cfg c batch_size batches p s =
     (case train_update_statistics p (batch_statistics (clk_since_start c) batches) (worker_pool s) of
        None \<Rightarrow> (Panicked, s)
      | Some wp \<Rightarrow>
          (let (ws, s) = take_info (s\<lparr>worker_pool := wp\<rparr>);
               s = s\<lparr>training_st := record_batch (batch_size * batches) (training_st s)\<rparr>;
               s = set_worker p (samples_processed_update (\<lambda>n. saturating_add n (batch_size * batches))) s;
               contribution = (case find_worker p ws of
                 None \<Rightarrow> batch_size | Some w \<Rightarrow> saturating_add (samples_processed (wi_state w)) batch_size)
           in if training_complete (round_st s) \<or> has_sent_update p s
              then (Reply (train_idle (short_idle c)), s)
              else case plan_update cfg ws p (counter (training_st s)) (update_target (training_st s)) of
                     None \<Rightarrow> (Panicked, s)
                   | Some (should_update, projected, n) \<Rightarrow>
                       (Reply (if \<not> should_update then TrainAction (ExecuteBatch n)
                               else case parameter_servers s of
                                      [] \<Rightarrow> train_idle (short_idle c)
                                    | ps # _ \<Rightarrow> TrainAction (SendUpdate (peers_one ps) (update_weight contribution projected))),
                        s)))"

definition handle_sent_update ::
    "clock \<Rightarrow> bool \<Rightarrow> metrics_map \<Rightarrow> peer_id \<Rightarrow> sched \<Rightarrow> reply \<times> sched" where
  "handle_sent_update c tx_open metrics p s =
     (let (ws, s) = take_info s;
          samples = of_nat_float F32 (case find_worker p ws of None \<Rightarrow> 0 | Some w \<Rightarrow> unat (samples_processed (wi_state w)));
          elapsed = as_secs_f32 (clk_instant c - round_started_at (round_st s));
          metrics = add_metrics (round (round_st s)) samples elapsed metrics
      in if \<not> tx_open then (SendMetricsError, s)
         else let s = s\<lparr>sent_metrics := sent_metrics s @ [(p, round (round_st s), metrics)]\<rparr>;
                  s = (case primary_ps s of
                         None \<Rightarrow> s
                       | Some ps \<Rightarrow> s\<lparr>parameter_pool := aggregate_update_state ps (insert p) (parameter_pool s)\<rparr>);
                  s = snd (take_info s);
                  first = (case first_update_at (round_st s) of None \<Rightarrow> Some (clk_instant c) | Some t \<Rightarrow> Some t)
              in (Reply (train_idle (short_idle c)), s\<lparr>round_st := (round_st s)\<lparr>first_update_at := first\<rparr>\<rparr>))"

definition handle_applied_update :: "clock \<Rightarrow> peer_id \<Rightarrow> sched \<Rightarrow> reply \<times> sched" where
  "handle_applied_update c p s =
     (let s = set_worker p (applied_update_update (\<lambda>_. True)) s
      in case train_update_statistics p (\<lambda>st _. Some (st, clk_since_start c)) (worker_pool s) of
           None \<Rightarrow> (Panicked, s)
         | Some wp \<Rightarrow>
             (let s = s\<lparr>worker_pool := wp\<rparr>
              in if training_complete (round_st s)
                 then (Reply (train_idle (short_idle c)), set_worker p (applied_final_update_update (\<lambda>_. True)) s)
                 else let (ws, s) = take_info s
                      in case List.find (\<lambda>w. waiting_for_model (wi_state w)) ws of
                           Some w \<Rightarrow> (Reply (TrainAction (SendModel (peers_one (wi_peer w)))),
                             set_worker (wi_peer w) (\<lambda>st. st\<lparr>waiting_for_model := False, receiving_from := Some p\<rparr>) s)
                         | None \<Rightarrow> (Reply (TrainAction (ExecuteBatch 1)), s)))"

definition handle_pushed_to_hub :: "peer_id \<Rightarrow> sched \<Rightarrow> reply \<times> sched" where
  "handle_pushed_to_hub p s =
     (let (ws, s) = take_info s;
          pusher = (case find_worker p ws of None \<Rightarrow> False | Some w \<Rightarrow> is_pusher (wi_state w))
      in (Reply (TrainAction Terminate),
          if pusher then s\<lparr>round_st := (round_st s)\<lparr>push_done := True\<rparr>\<rparr> else s))"

definition handle_train_error :: "clock \<Rightarrow> train_error \<Rightarrow> peer_id \<Rightarrow> sched \<Rightarrow> reply \<times> sched" where
  "handle_train_error c e p s =
     (let s = set_worker p (is_pusher_update (\<lambda>_. False)) s
      in case e of
           TrainConnection _ \<Rightarrow> (Reply (train_idle (short_idle c)), s)
         | TrainOther _ \<Rightarrow> (Reply (TrainAction Terminate), s))"

definition handle_train ::
    "sched_config \<Rightarrow> clock \<Rightarrow> bool \<Rightarrow> train_status \<Rightarrow> peer_id \<Rightarrow> sched \<Rightarrow> reply \<times> sched" where
  "handle_train cfg c tx_open st p s =
     (case st of
        Joined \<Rightarrow> handle_joined c p s
      | WaitedForModel \<Rightarrow> handle_waited_for_model c p s
      | ReceivedModel \<Rightarrow> (Reply (train_idle (clk_now c)), s)
      | SentModel \<Rightarrow> (Reply (train_idle (clk_now c)), s)
      | TrainIdle \<Rightarrow> handle_idle cfg c p s
      | BatchCompleted batch_size batches \<Rightarrow> handle_batch_completed cfg c batch_size batches p s
      | SentUpdate _ metrics \<Rightarrow> handle_sent_update c tx_open metrics p s
      | AppliedUpdate \<Rightarrow> handle_applied_update c p s
      | PushedToHub \<Rightarrow> handle_pushed_to_hub p s
      | TrainErrorStatus e \<Rightarrow> handle_train_error c e p s
      | TrainTerminated \<Rightarrow> (Reply (TrainAction Terminate), s))"

section \<open>Handlers of the parameter servers' statuses\<close>

definition aggregate_ready :: "clock \<Rightarrow> peer_id \<Rightarrow> peer_id list \<Rightarrow> sched \<Rightarrow> bool" where
  "aggregate_ready c p workers s =
     (let entry = List.find (\<lambda>w. ai_peer w = p) (fst (aggregate_info (parameter_pool s)));
          all_sent = (case entry of None \<Rightarrow> False | Some e \<Rightarrow> \<forall>w\<in>set workers. w \<in> worker_updates e);
          sent_count = (case entry of None \<Rightarrow> 0 | Some e \<Rightarrow> card (worker_updates e));
          quorum_met = min (min_quorum (round_st s)) (length workers) \<le> sent_count;
          timebox_elapsed = (case first_update_at (round_st s) of
            None \<Rightarrow> False | Some t \<Rightarrow> grace (round_st s) \<le> clk_instant c - t)
      in all_sent \<or> (quorum_met \<and> timebox_elapsed))"

definition handle_aggregate_idle :: "clock \<Rightarrow> peer_id \<Rightarrow> sched \<Rightarrow> reply \<times> sched" where
  "handle_aggregate_idle c p s =
     (if training_complete (round_st s)
      then let (ws, s) = take_info s
           in (Reply (if \<forall>w\<in>set ws. applied_final_update (wi_state w) then AggregateAction TerminateAggregate
                      else aggregate_idle (short_idle c)), s)
      else if Some p \<noteq> primary_ps s then (Reply (aggregate_idle (short_idle c)), s)
      else let (ws, s) = take_info s;
               workers = map wi_peer (filter (\<lambda>w. \<not> waiting_for_model (wi_state w)) ws)
           in if workers = [] then (Reply (aggregate_idle (short_idle c)), s)
              else if aggregate_ready c p workers s
              then (Reply (AggregateAction (AggregateUpdates (peers_all workers))),
                    s\<lparr>round_st := (round_st s)\<lparr>aggregate_started_at :=
                       (case aggregate_started_at (round_st s) of None \<Rightarrow> Some (clk_instant c) | Some t \<Rightarrow> Some t)\<rparr>\<rparr>)
              else (Reply (aggregate_idle (short_idle c)), s))"

definition reset_applied :: "worker_info list \<Rightarrow> sched \<Rightarrow> sched" where
  "reset_applied ws s = foldl (\<lambda>s w. set_worker (wi_peer w) (applied_update_update (\<lambda>_. False)) s) s ws"

definition handle_aggregated_updates :: "clock \<Rightarrow> peer_id \<Rightarrow> sched \<Rightarrow> reply \<times> sched" where
  "handle_aggregated_updates c p s =
     (if Some p \<noteq> primary_ps s then (Reply (aggregate_idle (ps_broadcast_idle c)), s)
      else let (ws, s) = take_info s
           in if ws = [] then (Reply (aggregate_idle (short_idle c)), s)
              else let s = s\<lparr>round_st := (round_st s)\<lparr>aggregated_updates := True\<rparr>\<rparr>;
                       (ws', s) = take_info s
                   in (Reply (AggregateAction (BroadcastUpdate (peers_all (map wi_peer ws)))), reset_applied ws' s))"

definition reset_samples :: "worker_info list \<Rightarrow> sched \<Rightarrow> sched" where
  "reset_samples ws s =
     foldl (\<lambda>s w. set_worker (wi_peer w) (\<lambda>st. st\<lparr>sent_update := False, samples_processed := 0\<rparr>) s) s ws"

definition advance_round :: "clock \<Rightarrow> round_state \<Rightarrow> round_state" where
  "advance_round c r =
     (let n = saturating_add (round r) 1;
          r = r\<lparr>first_update_at := None, aggregate_started_at := None, round_started_at := clk_instant c, round := n\<rparr>
      in if update_rounds r \<le> n then r\<lparr>training_complete := True\<rparr> else r)"

definition handle_broadcasted_update ::
    "clock \<Rightarrow> bool \<Rightarrow> metrics_map option \<Rightarrow> peer_id \<Rightarrow> sched \<Rightarrow> reply \<times> sched" where
  "handle_broadcasted_update c tx_open metrics p s =
     (let total = of_nat_float F32 (unat (counter (training_st s)));
          elapsed = as_secs_f32 (clk_instant c - round_started_at (round_st s));
          metrics = add_metrics (round (round_st s)) total elapsed (case metrics of None \<Rightarrow> Map.empty | Some m \<Rightarrow> m)
      in if \<not> tx_open then (SendMetricsError, s)
         else let s = s\<lparr>sent_metrics := sent_metrics s @ [(p, round (round_st s), metrics)]\<rparr>;
                  (ws, s) = take_info s;
                  s = reset_samples ws s;
                  s = (case primary_ps s of
                         None \<Rightarrow> s
                       | Some ps \<Rightarrow> s\<lparr>parameter_pool := aggregate_update_state ps (\<lambda>_. {}) (parameter_pool s)\<rparr>);
                  s = s\<lparr>round_st := advance_round c (round_st s), training_st := reset_round (training_st s)\<rparr>;
                  s = (if training_complete (round_st s) then s
                       else s\<lparr>round_st := (round_st s)\<lparr>aggregated_updates := False\<rparr>\<rparr>)
              in (Reply (aggregate_idle (short_idle c)), s))"

definition handle_aggregate_error :: "clock \<Rightarrow> aggregate_error \<Rightarrow> sched \<Rightarrow> reply \<times> sched" where
  "handle_aggregate_error c e s =
     (let s = s\<lparr>round_st := (round_st s)\<lparr>aggregated_updates := False\<rparr>\<rparr>
      in case e of
           AggregateConnection _ \<Rightarrow> (Reply (aggregate_idle (short_idle c)), s)
         | AggregateOther _ \<Rightarrow> (Reply (AggregateAction TerminateAggregate), s))"

definition handle_aggregate ::
    "clock \<Rightarrow> bool \<Rightarrow> aggregate_status \<Rightarrow> peer_id \<Rightarrow> sched \<Rightarrow> reply \<times> sched" where
  "handle_aggregate c tx_open st p s =
     (case st of
        AggregateIdle \<Rightarrow> handle_aggregate_idle c p s
      | AggregatedUpdates _ \<Rightarrow> handle_aggregated_updates c p s
      | BroadcastedUpdate metrics \<Rightarrow> handle_broadcasted_update c tx_open metrics p s
      | AggregateErrorStatus e \<Rightarrow> handle_aggregate_error c e s
      | AggregateTerminated \<Rightarrow> (Reply (AggregateAction TerminateAggregate), s))"

section \<open>The whole handler\<close>

definition schedule ::
    "sched_config \<Rightarrow> clock \<Rightarrow> bool \<Rightarrow> peer_id \<Rightarrow> executor_status \<Rightarrow> sched \<Rightarrow> reply \<times> sched" where
  "schedule cfg c tx_open p status s =
     (let s = s\<lparr>parameter_pool := snd (aggregate_info (parameter_pool s))\<rparr>
      in case status of
           TrainStatus st \<Rightarrow> handle_train cfg c tx_open st p s
         | AggregateStatus st \<Rightarrow> handle_aggregate c tx_open st p s)"

text \<open>What the stream handler of \<^verbatim>\<open>BatchScheduler::run\<close> sends back: an error is answered with \<^verbatim>\<open>Terminate\<close>.\<close>

definition respond :: "uuid \<Rightarrow> reply \<Rightarrow> action_response option" where
  "respond jid r =
     (case r of
        Reply a \<Rightarrow> Some \<lparr>aresp_job_id = jid, aresp_next = a\<rparr>
      | SendMetricsError \<Rightarrow> Some \<lparr>aresp_job_id = jid, aresp_next = TrainAction Terminate\<rparr>
      | Panicked \<Rightarrow> None)"

end
