(* ===== verification/Batch_Invariants.thy ===== *)
theory Batch_Invariants
  imports Batch_Scheduler
begin

text \<open>
  Properties of the round protocol over all runs: any sequence of requests, with any peers,
  statuses and clock readings, interleaved with changes of the two memberships.
\<close>

section \<open>The invariant\<close>

definition worker_ok :: "round_state \<Rightarrow> training_state \<Rightarrow> worker_state \<Rightarrow> bool" where
  "worker_ok r t w \<longleftrightarrow> (is_pusher w \<longrightarrow> applied_final_update w)
     \<and> (applied_final_update w \<longrightarrow> training_complete r) \<and> samples_processed w \<le> counter t"

definition worker_state_at :: "sched \<Rightarrow> peer_id \<Rightarrow> worker_state" where
  "worker_state_at s q = state_of q (worker_pool s)"

definition sched_ok :: "sched \<Rightarrow> bool" where
  "sched_ok s \<longleftrightarrow> (\<forall>q. worker_ok (round_st s) (training_st s) (worker_state_at s q))
     \<and> (\<forall>q q'. is_pusher (worker_state_at s q) \<and> is_pusher (worker_state_at s q') \<longrightarrow> q = q')
     \<and> (training_complete (round_st s) \<longrightarrow> update_rounds (round_st s) \<le> round (round_st s))
     \<and> (\<not> training_complete (round_st s) \<longrightarrow> round (round_st s) = 0 \<or> round (round_st s) < update_rounds (round_st s))
     \<and> (push_done (round_st s) \<longrightarrow> training_complete (round_st s))"

lemma worker_ok_default: "worker_ok r t worker_state_default"
  by (simp add: worker_ok_def worker_state_default_def)

lemma state_of_info_if:
  "state_of q (snd (train_info t)) = (if q \<in> active_peers (tp_members t) then state_of q t else worker_state_default)"
  by (auto simp: state_of_def train_info_def Let_def entry_or_default_def hash_retain_def train_entry_default_def)

section \<open>How the pieces act on the state\<close>

lemma take_info_eq: "take_info s = (fst (train_info (worker_pool s)), s\<lparr>worker_pool := snd (train_info (worker_pool s))\<rparr>)"
  by (simp add: take_info_def split: prod.splits)

named_theorems sched_simps \<open>fields of the scheduler's state after the pieces of the handlers\<close>

lemma take_info_fields [sched_simps]:
  "parameter_pool (snd (take_info s)) = parameter_pool s" "round_st (snd (take_info s)) = round_st s"
  "training_st (snd (take_info s)) = training_st s" "sent_metrics (snd (take_info s)) = sent_metrics s"
  "job_cancelled (snd (take_info s)) = job_cancelled s"
  "tp_members (worker_pool (snd (take_info s))) = tp_members (worker_pool s)"
  by (simp_all add: take_info_eq)

lemma set_worker_fields [sched_simps]:
  "parameter_pool (set_worker p f s) = parameter_pool s" "round_st (set_worker p f s) = round_st s"
  "training_st (set_worker p f s) = training_st s" "sent_metrics (set_worker p f s) = sent_metrics s"
  "job_cancelled (set_worker p f s) = job_cancelled s"
  "tp_members (worker_pool (set_worker p f s)) = tp_members (worker_pool s)"
  by (simp_all add: set_worker_def)

lemma worker_state_at_simps [sched_simps]:
  "worker_state_at (snd (take_info s)) q =
     (if q \<in> active_peers (tp_members (worker_pool s)) then worker_state_at s q else worker_state_default)"
  "worker_state_at (set_worker p f s) q = (if q = p then f (worker_state_at s q) else worker_state_at s q)"
  "worker_state_at (s\<lparr>parameter_pool := pp\<rparr>) q = worker_state_at s q"
  "worker_state_at (s\<lparr>round_st := r\<rparr>) q = worker_state_at s q"
  "worker_state_at (s\<lparr>training_st := t\<rparr>) q = worker_state_at s q"
  "worker_state_at (s\<lparr>sent_metrics := m\<rparr>) q = worker_state_at s q"
  "worker_state_at (s\<lparr>job_cancelled := b\<rparr>) q = worker_state_at s q"
  by (simp_all add: worker_state_at_def take_info_eq state_of_info_if set_worker_def state_of_update)

lemma state_of_stats:
  assumes "train_update_statistics p f t = Some t'"
  shows "state_of q t' = state_of q t" and "tp_members t' = tp_members t"
proof -
  obtain lu st ws where e: "entry_or_default p t = (lu, st, ws)" by (metis prod.exhaust)
  then obtain st' lu' where t': "t' = t\<lparr>tp_info := (tp_info t)(p \<mapsto> (lu', st', ws))\<rparr>"
    using assms by (auto simp: train_update_statistics_def)
  show "state_of q t' = state_of q t"
    using e by (cases "q = p") (simp_all add: t' state_of_def entry_or_default_def)
  show "tp_members t' = tp_members t" by (simp add: t')
qed

lemma worker_state_at_stats [sched_simps]:
  "train_update_statistics p f (worker_pool s) = Some wp \<Longrightarrow> worker_state_at (s\<lparr>worker_pool := wp\<rparr>) q = worker_state_at s q"
  by (simp add: worker_state_at_def state_of_stats)

lemma find_worker_state:
  assumes "find_worker p (fst (take_info s)) = Some w"
  shows "wi_state w = worker_state_at s p" and "wi_peer w = p" and "p \<in> active_peers (tp_members (worker_pool s))"
proof -
  have "List.find (\<lambda>w. wi_peer w = p) (fst (train_info (worker_pool s))) = Some w"
    using assms by (simp add: find_worker_def take_info_eq)
  from find_SomeD [OF this] have "w \<in> set (fst (train_info (worker_pool s)))" "wi_peer w = p" by auto
  then show "wi_state w = worker_state_at s p" "wi_peer w = p" "p \<in> active_peers (tp_members (worker_pool s))"
    using train_info_state by (auto simp: worker_state_at_def)
qed

lemma take_info_states:
  assumes "w \<in> set (fst (take_info s))"
  shows "wi_state w = worker_state_at s (wi_peer w)" and "wi_peer w \<in> active_peers (tp_members (worker_pool s))"
  using assms train_info_state by (auto simp: take_info_eq worker_state_at_def)

lemma take_info_active:
  "q \<in> active_peers (tp_members (worker_pool s)) \<longleftrightarrow> (\<exists>w\<in>set (fst (take_info s)). wi_peer w = q)"
proof -
  have "set (map wi_peer (fst (take_info s))) = active_peers (tp_members (worker_pool s))"
    by (simp add: take_info_eq active_peers_def)
  then show ?thesis by (metis (mono_tags) image_iff list.set_map)
qed

section \<open>Preservation, piece by piece\<close>

lemma sched_ok_take_info: "sched_ok s \<Longrightarrow> sched_ok (snd (take_info s))"
  unfolding sched_ok_def sched_simps
  using worker_ok_default by (auto simp: worker_state_default_def)

lemma sched_ok_set_worker:
  assumes "sched_ok s" and "worker_ok (round_st s) (training_st s) (f (worker_state_at s p))"
    and "is_pusher (f (worker_state_at s p)) \<Longrightarrow> \<forall>q. q \<noteq> p \<longrightarrow> \<not> is_pusher (worker_state_at s q)"
  shows "sched_ok (set_worker p f s)"
  using assms unfolding sched_ok_def sched_simps by (auto split: if_splits)

lemma sched_ok_set_same:
  assumes "sched_ok s" and "\<And>w. is_pusher (f w) \<longrightarrow> is_pusher w"
    and "\<And>w. applied_final_update (f w) = applied_final_update w" and "\<And>w. samples_processed (f w) \<le> samples_processed w"
  shows "sched_ok (set_worker p f s)"
proof (rule sched_ok_set_worker [OF assms(1)])
  have ok: "worker_ok (round_st s) (training_st s) (worker_state_at s p)" using assms(1) by (simp add: sched_ok_def)
  then show "worker_ok (round_st s) (training_st s) (f (worker_state_at s p))"
    using assms(2,3) order_trans [OF assms(4)] by (auto simp: worker_ok_def)
  show "is_pusher (f (worker_state_at s p)) \<Longrightarrow> \<forall>q. q \<noteq> p \<longrightarrow> \<not> is_pusher (worker_state_at s q)"
    using assms(1,2) unfolding sched_ok_def by blast
qed

lemma sched_ok_irrelevant:
  "sched_ok (s\<lparr>parameter_pool := pp\<rparr>) = sched_ok s" "sched_ok (s\<lparr>sent_metrics := m\<rparr>) = sched_ok s"
  "sched_ok (s\<lparr>job_cancelled := b\<rparr>) = sched_ok s"
  by (simp_all add: sched_ok_def sched_simps)

lemma sched_ok_stats:
  "train_update_statistics p f (worker_pool s) = Some wp \<Longrightarrow> sched_ok (s\<lparr>worker_pool := wp\<rparr>) = sched_ok s"
  by (simp add: sched_ok_def sched_simps)

lemma sched_ok_round:
  assumes "sched_ok s" and "training_complete r = training_complete (round_st s)"
    and "round r = round (round_st s)" and "update_rounds r = update_rounds (round_st s)"
    and "push_done r \<longrightarrow> training_complete r"
  shows "sched_ok (s\<lparr>round_st := r\<rparr>)"
  using assms by (simp add: sched_ok_def sched_simps worker_ok_def)


lemma sched_ok_joined: "sched_ok s \<Longrightarrow> sched_ok (snd (handle_joined c p s))"
  by (auto simp: handle_joined_def intro!: sched_ok_set_same)

lemma sched_ok_waited: "sched_ok s \<Longrightarrow> sched_ok (snd (handle_waited_for_model c p s))"
  by (auto simp: handle_waited_for_model_def split_beta Let_def split: option.split
      intro!: sched_ok_set_same sched_ok_take_info)

lemma sched_ok_idle_training: "sched_ok s \<Longrightarrow> sched_ok (snd (handle_idle_training cfg c p s))"
  by (auto simp: handle_idle_training_def split_beta Let_def split: option.split intro!: sched_ok_take_info)

text \<open>A pusher is assigned only when the pruned pool has none.\<close>

lemma sched_ok_idle_complete:
  assumes "sched_ok s" and "training_complete (round_st s)"
  shows "sched_ok (snd (handle_idle_complete cfg c p s))"
proof -
  let ?s = "snd (take_info s)" and ?ws = "fst (take_info s)"
  have ok: "sched_ok ?s" by (rule sched_ok_take_info [OF assms(1)])
  have a: "sched_ok (set_worker p (is_pusher_update (\<lambda>_. True)) ?s)"
    if "\<not> (\<exists>w\<in>set ?ws. is_pusher (wi_state w))" "find_worker p ?ws = Some w" "applied_final_update (wi_state w)" for w
  proof (rule sched_ok_set_worker [OF ok])
    have st: "worker_state_at ?s p = wi_state w"
      using find_worker_state [OF that(2)] by (simp add: sched_simps)
    have "worker_ok (round_st ?s) (training_st ?s) (worker_state_at ?s p)" using ok by (simp add: sched_ok_def)
    then show "worker_ok (round_st ?s) (training_st ?s) ((worker_state_at ?s p)\<lparr>is_pusher := True\<rparr>)"
      using that(3) st by (simp add: worker_ok_def)
    have "\<not> is_pusher (worker_state_at ?s q)" for q
    proof (cases "q \<in> active_peers (tp_members (worker_pool s))")
      case True
      then obtain v where "v \<in> set ?ws" "wi_peer v = q" unfolding take_info_active by blast
      then show ?thesis using take_info_states [of v s] that(1) True by (auto simp: sched_simps)
    qed (simp add: sched_simps worker_state_default_def)
    then show "\<forall>q. q \<noteq> p \<longrightarrow> \<not> is_pusher (worker_state_at ?s q)" by blast
  qed
  have "training_complete (round_st (set_worker p f ?s))" for f using assms(2) by (simp add: sched_simps)
  then show ?thesis using ok a
    by (auto simp: handle_idle_complete_def split_beta Let_def split: option.split intro!: sched_ok_round)
qed

lemma sched_ok_idle: "sched_ok s \<Longrightarrow> sched_ok (snd (handle_idle cfg c p s))"
  by (simp add: handle_idle_def sched_ok_idle_training sched_ok_idle_complete sched_ok_irrelevant)

text \<open>A batch raises the counter of the round first and then the share of the worker, by the same amount.\<close>

lemma sched_ok_record_batch:
  assumes "sched_ok s"
  shows "sched_ok (set_worker p (samples_processed_update (\<lambda>m. saturating_add m n))
    (s\<lparr>training_st := record_batch n (training_st s)\<rparr>))"
proof (rule sched_ok_set_worker)
  let ?s = "s\<lparr>training_st := record_batch n (training_st s)\<rparr>"
  let ?f = "samples_processed_update (\<lambda>m. saturating_add m n)"
  have w: "worker_ok (round_st s) (training_st s) (worker_state_at s q)" for q using assms by (simp add: sched_ok_def)
  then have "samples_processed (worker_state_at s q) \<le> saturating_add (counter (training_st s)) n" for q
    using order_trans [OF _ saturating_add_ge] by (auto simp: worker_ok_def)
  then show "sched_ok ?s"
    using assms by (simp add: sched_ok_def sched_simps worker_ok_def record_batch_def)
  have "saturating_add (samples_processed (worker_state_at s p)) n \<le> saturating_add (counter (training_st s)) n"
    using w by (intro saturating_add_mono) (simp_all add: worker_ok_def)
  then show "worker_ok (round_st ?s) (training_st ?s) (?f (worker_state_at ?s p))"
    using w [of p] by (simp add: sched_simps worker_ok_def record_batch_def)
  show "is_pusher (?f (worker_state_at ?s p)) \<Longrightarrow> \<forall>q. q \<noteq> p \<longrightarrow> \<not> is_pusher (worker_state_at ?s q)"
    using assms by (auto simp: sched_ok_def sched_simps)
qed

lemma sched_ok_batch_completed: "sched_ok s \<Longrightarrow> sched_ok (snd (handle_batch_completed cfg c bs n p s))"
proof (cases "train_update_statistics p (batch_statistics (clk_since_start c) n) (worker_pool s)")
  case (Some wp)
  assume "sched_ok s"
  then have "sched_ok (snd (take_info (s\<lparr>worker_pool := wp\<rparr>)))"
    using sched_ok_stats [OF Some] by (intro sched_ok_take_info) simp
  from sched_ok_record_batch [OF this, of p "bs * n"] Some show ?thesis
    by (auto simp: handle_batch_completed_def split_beta Let_def split: option.split)
qed (simp add: handle_batch_completed_def)

lemma sched_ok_sent_update: "sched_ok s \<Longrightarrow> sched_ok (snd (handle_sent_update c tx m p s))"
  by (auto simp: handle_sent_update_def split_beta Let_def sched_simps sched_ok_irrelevant split: option.split
      intro!: sched_ok_round sched_ok_take_info) (auto simp: sched_ok_def)

lemma sched_ok_applied_update: "sched_ok s \<Longrightarrow> sched_ok (snd (handle_applied_update c p s))"
proof -
  assume ok: "sched_ok s"
  let ?s = "set_worker p (applied_update_update (\<lambda>_. True)) s"
  have ok1: "sched_ok ?s" using ok by (intro sched_ok_set_same) auto
  show ?thesis
  proof (cases "train_update_statistics p (\<lambda>st _. Some (st, clk_since_start c)) (worker_pool ?s)")
    case (Some wp)
    have ok2: "sched_ok (?s\<lparr>worker_pool := wp\<rparr>)" using ok1 sched_ok_stats [OF Some] by simp
    have "sched_ok (set_worker p (applied_final_update_update (\<lambda>_. True)) (?s\<lparr>worker_pool := wp\<rparr>))"
      if "training_complete (round_st s)"
    proof (rule sched_ok_set_worker [OF ok2])
      let ?t = "?s\<lparr>worker_pool := wp\<rparr>"
      have "worker_ok (round_st ?t) (training_st ?t) (worker_state_at ?t p)" using ok2 by (simp add: sched_ok_def)
      then show "worker_ok (round_st ?t) (training_st ?t) ((worker_state_at ?t p)\<lparr>applied_final_update := True\<rparr>)"
        using that by (simp add: worker_ok_def sched_simps)
      show "is_pusher ((worker_state_at ?t p)\<lparr>applied_final_update := True\<rparr>) \<Longrightarrow>
          \<forall>q. q \<noteq> p \<longrightarrow> \<not> is_pusher (worker_state_at ?t q)"
        using ok2 unfolding sched_ok_def by auto
    qed
    moreover have "sched_ok (set_worker q (\<lambda>st. st\<lparr>waiting_for_model := False, receiving_from := Some p\<rparr>)
        (snd (take_info (?s\<lparr>worker_pool := wp\<rparr>))))" for q
      using sched_ok_take_info [OF ok2] by (intro sched_ok_set_same) auto
    ultimately show ?thesis using Some sched_ok_take_info [OF ok2]
      by (auto simp: handle_applied_update_def split_beta Let_def sched_simps split: option.split)
  qed (simp add: handle_applied_update_def Let_def ok1)
qed


lemma sched_ok_pushed: "sched_ok s \<Longrightarrow> sched_ok (snd (handle_pushed_to_hub p s))"
proof -
  assume ok: "sched_ok s"
  let ?s = "snd (take_info s)"
  have ok1: "sched_ok ?s" by (rule sched_ok_take_info [OF ok])
  have "sched_ok (?s\<lparr>round_st := (round_st ?s)\<lparr>push_done := True\<rparr>\<rparr>)"
    if "find_worker p (fst (take_info s)) = Some w" "is_pusher (wi_state w)" for w
  proof (rule sched_ok_round [OF ok1])
    have "worker_ok (round_st s) (training_st s) (worker_state_at s p)" using ok by (simp add: sched_ok_def)
    then show "push_done ((round_st ?s)\<lparr>push_done := True\<rparr>) \<longrightarrow> training_complete ((round_st ?s)\<lparr>push_done := True\<rparr>)"
      using find_worker_state [OF that(1)] that(2) by (simp add: worker_ok_def sched_simps)
  qed simp_all
  then show ?thesis using ok1
    by (auto simp: handle_pushed_to_hub_def split_beta Let_def split: option.split)
qed

lemma sched_ok_train_error: "sched_ok s \<Longrightarrow> sched_ok (snd (handle_train_error c e p s))"
  by (cases e) (auto simp: handle_train_error_def Let_def intro!: sched_ok_set_same)

lemma sched_ok_train: "sched_ok s \<Longrightarrow> sched_ok (snd (handle_train cfg c tx st p s))"
  by (cases st) (simp_all add: handle_train_def sched_ok_joined sched_ok_waited sched_ok_idle
      sched_ok_batch_completed sched_ok_sent_update sched_ok_applied_update sched_ok_pushed sched_ok_train_error)

lemma sched_ok_aggregate_idle: "sched_ok s \<Longrightarrow> sched_ok (snd (handle_aggregate_idle c p s))"
  by (auto simp: handle_aggregate_idle_def split_beta Let_def sched_simps
      intro!: sched_ok_round sched_ok_take_info) (auto simp: sched_ok_def)

lemma foldl_set_worker:
  "sched_ok s \<Longrightarrow> (\<And>s w. sched_ok s \<Longrightarrow> sched_ok (set_worker (g w) f s)) \<Longrightarrow>
     sched_ok (foldl (\<lambda>s w. set_worker (g w) f s) s ws)"
  by (induction ws arbitrary: s) auto

lemma foldl_set_worker_fields [sched_simps]:
  "parameter_pool (foldl (\<lambda>s w. set_worker (g w) f s) s ws) = parameter_pool s"
  "round_st (foldl (\<lambda>s w. set_worker (g w) f s) s ws) = round_st s"
  "training_st (foldl (\<lambda>s w. set_worker (g w) f s) s ws) = training_st s"
  "tp_members (worker_pool (foldl (\<lambda>s w. set_worker (g w) f s) s ws)) = tp_members (worker_pool s)"
  by (induction ws arbitrary: s) (simp_all add: sched_simps)

lemma foldl_set_worker_state [sched_simps]:
  assumes "\<And>w. f (f w) = f w"
  shows "worker_state_at (foldl (\<lambda>s w. set_worker (g w) f s) s ws) q =
    (if q \<in> g ` set ws then f (worker_state_at s q) else worker_state_at s q)"
  by (induction ws arbitrary: s) (auto simp: sched_simps assms)

lemma sched_ok_reset_applied: "sched_ok s \<Longrightarrow> sched_ok (reset_applied ws s)"
  unfolding reset_applied_def by (rule foldl_set_worker) (auto intro!: sched_ok_set_same)

lemma sched_ok_aggregated: "sched_ok s \<Longrightarrow> sched_ok (snd (handle_aggregated_updates c p s))"
  by (auto simp: handle_aggregated_updates_def split_beta Let_def sched_simps
      intro!: sched_ok_reset_applied sched_ok_take_info sched_ok_round) (auto simp: sched_ok_def)

text \<open>
  A broadcast resets the counter and the shares of all members; the pool was pruned just before, so
  that no other share is left.
\<close>

lemma reset_samples_zero:
  "samples_processed (worker_state_at (reset_samples (fst (take_info s)) (snd (take_info s))) q) = 0"
proof (cases "q \<in> active_peers (tp_members (worker_pool s))")
  case True
  then have "q \<in> wi_peer ` set (fst (take_info s))" unfolding take_info_active by blast
  then show ?thesis unfolding reset_samples_def by (subst foldl_set_worker_state) simp_all
next
  case False
  then have "q \<notin> wi_peer ` set (fst (take_info s))" unfolding take_info_active by blast
  then show ?thesis unfolding reset_samples_def using False
    by (subst foldl_set_worker_state) (simp_all add: sched_simps worker_state_default_def)
qed

lemma sched_ok_reset_samples: "sched_ok s \<Longrightarrow> sched_ok (reset_samples ws s)"
  unfolding reset_samples_def by (rule foldl_set_worker) (auto intro!: sched_ok_set_same)

lemma sched_ok_advance:
  assumes "sched_ok s" and "\<forall>q. samples_processed (worker_state_at s q) = 0"
  shows "sched_ok (s\<lparr>round_st := advance_round c (round_st s), training_st := reset_round (training_st s)\<rparr>)"
proof -
  have le: "round (round_st s) \<le> saturating_add (round (round_st s)) 1" by (rule saturating_add_ge)
  then show ?thesis using assms order_trans [OF _ le, of "update_rounds (round_st s)"]
    by (auto simp: sched_ok_def sched_simps worker_ok_def advance_round_def reset_round_def Let_def)
qed

definition broadcast_reset :: "peer_id \<times> u32 \<times> metrics_map \<Rightarrow> sched \<Rightarrow> sched" where
  "broadcast_reset x s =
     (let s0 = s\<lparr>sent_metrics := sent_metrics s @ [x]\<rparr>;
          s1 = reset_samples (fst (take_info s0)) (snd (take_info s0))
      in case primary_ps s1 of
           None \<Rightarrow> s1
         | Some ps \<Rightarrow> s1\<lparr>parameter_pool := aggregate_update_state ps (\<lambda>_. {}) (parameter_pool s1)\<rparr>)"

lemma handle_broadcasted_cases:
  obtains (closed) "\<not> tx" and "handle_broadcasted_update c tx m p s = (SendMetricsError, s)"
  | (advance) x s2 where "tx" and "s2 = broadcast_reset x s" and "fst x = p"
      and "handle_broadcasted_update c tx m p s = (Reply (aggregate_idle (short_idle c)),
        (let s3 = s2\<lparr>round_st := advance_round c (round_st s2), training_st := reset_round (training_st s2)\<rparr>
         in if training_complete (round_st s3) then s3
            else s3\<lparr>round_st := (round_st s3)\<lparr>aggregated_updates := False\<rparr>\<rparr>))"
proof (cases tx)
  case True
  show thesis
    by (rule advance [OF True refl, of "(p, round (round_st s), add_metrics (round (round_st s))
          (of_nat_float F32 (unat (counter (training_st s)))) (as_secs_f32 (clk_instant c - round_started_at (round_st s)))
          (case m of None \<Rightarrow> Map.empty | Some m \<Rightarrow> m))"])
      (simp_all add: True handle_broadcasted_update_def broadcast_reset_def split_beta Let_def)
qed (simp add: closed handle_broadcasted_update_def Let_def)

lemma broadcast_reset_fields:
  "round_st (broadcast_reset x s) = round_st s" "training_st (broadcast_reset x s) = training_st s"
  "samples_processed (worker_state_at (broadcast_reset x s) q) = 0"
  "tp_members (worker_pool (broadcast_reset x s)) = tp_members (worker_pool s)"
  by (simp_all add: broadcast_reset_def Let_def sched_simps reset_samples_zero split: option.split)
    (simp_all add: reset_samples_def sched_simps)

lemma sched_ok_broadcast_reset: "sched_ok s \<Longrightarrow> sched_ok (broadcast_reset x s)"
  unfolding broadcast_reset_def Let_def
  by (auto simp: sched_ok_irrelevant split: option.split intro!: sched_ok_reset_samples sched_ok_take_info)

lemma sched_ok_broadcasted: "sched_ok s \<Longrightarrow> sched_ok (snd (handle_broadcasted_update c tx m p s))"
proof (cases rule: handle_broadcasted_cases [of tx c m p s])
  case (advance x s2)
  assume "sched_ok s"
  then have "sched_ok s2" by (simp add: advance(2) sched_ok_broadcast_reset)
  define s3 where "s3 = s2\<lparr>round_st := advance_round c (round_st s2), training_st := reset_round (training_st s2)\<rparr>"
  have ok3: "sched_ok s3" unfolding s3_def using \<open>sched_ok s2\<close>
    by (rule sched_ok_advance) (simp add: advance(2) broadcast_reset_fields)
  have "sched_ok (s3\<lparr>round_st := (round_st s3)\<lparr>aggregated_updates := False\<rparr>\<rparr>)"
    by (rule sched_ok_round [OF ok3]) (use ok3 in \<open>auto simp: sched_ok_def\<close>)
  then show ?thesis using ok3 by (simp add: advance(4) Let_def flip: s3_def)
qed simp

lemma sched_ok_aggregate: "sched_ok s \<Longrightarrow> sched_ok (snd (handle_aggregate c tx st p s))"
proof -
  assume ok: "sched_ok s"
  have "sched_ok (s\<lparr>round_st := (round_st s)\<lparr>aggregated_updates := False\<rparr>\<rparr>)"
    using ok by (intro sched_ok_round) (auto simp: sched_ok_def)
  then show ?thesis using ok
    by (cases st) (auto simp: handle_aggregate_def sched_ok_aggregate_idle sched_ok_aggregated
        sched_ok_broadcasted handle_aggregate_error_def Let_def split: aggregate_error.split)
qed

lemma sched_ok_schedule: "sched_ok s \<Longrightarrow> sched_ok (snd (schedule cfg c tx p st s))"
  by (cases st) (simp_all add: schedule_def Let_def sched_ok_train sched_ok_aggregate sched_ok_irrelevant)

section \<open>Runs\<close>

inductive sched_step :: "sched_config \<Rightarrow> sched \<Rightarrow> sched \<Rightarrow> bool" for cfg where
  step_request: "schedule cfg c tx p st s = (r, s') \<Longrightarrow> sched_step cfg s s'"
| step_members: "sched_step cfg s (s\<lparr>worker_pool := (worker_pool s)\<lparr>tp_members := ws\<rparr>,
     parameter_pool := (parameter_pool s)\<lparr>ap_members := ps\<rparr>\<rparr>)"

lemma sched_ok_members:
  "sched_ok (s\<lparr>worker_pool := (worker_pool s)\<lparr>tp_members := ws\<rparr>, parameter_pool := pp\<rparr>) = sched_ok s"
  by (simp add: sched_ok_def worker_state_at_def state_of_def entry_or_default_def)

lemma sched_step_ok: "sched_step cfg s s' \<Longrightarrow> sched_ok s \<Longrightarrow> sched_ok s'"
  by (induction rule: sched_step.induct) (use sched_ok_schedule in \<open>metis snd_conv\<close>, simp add: sched_ok_members)

lemma sched_steps_ok: "(sched_step cfg)\<^sup>*\<^sup>* s s' \<Longrightarrow> sched_ok s \<Longrightarrow> sched_ok s'"
  by (induction rule: rtranclp_induct) (auto intro: sched_step_ok)

lemma sched_ok_init:
  "tp_info wp = Map.empty \<Longrightarrow> sched_ok (sched_init wp pp start q g n k)"
  by (simp add: sched_ok_def sched_init_def worker_state_at_def state_of_def entry_or_default_def
      train_entry_default_def worker_state_default_def worker_ok_def)

end
