(* ===== verification/Batch_Properties.thy ===== *)
theory Batch_Properties
  imports Batch_Invariants
begin

text \<open>
  What the round protocol promises: when rounds advance and training completes, when updates are sent,
  aggregated and broadcast, who pushes the result, that handling a request does not panic, and the
  final round that does not end.
\<close>

section \<open>Who gets which action\<close>

lemma handle_train_reply: "fst (handle_train cfg c tx st p s) \<noteq> Reply (AggregateAction a)"
  by (cases st)
    (auto simp: handle_train_def handle_joined_def handle_waited_for_model_def handle_idle_def
      handle_idle_training_def handle_idle_complete_def handle_batch_completed_def handle_sent_update_def
      handle_applied_update_def handle_pushed_to_hub_def handle_train_error_def train_idle_def Let_def split_beta
      split: option.splits train_error.splits list.splits if_splits)

lemma handle_aggregate_reply: "fst (handle_aggregate c tx st p s) \<noteq> Reply (TrainAction a)"
  by (cases st)
    (auto simp: handle_aggregate_def handle_aggregate_idle_def handle_aggregated_updates_def
      handle_broadcasted_update_def handle_aggregate_error_def aggregate_idle_def Let_def split_beta
      split: option.splits aggregate_error.splits if_splits)

lemma schedule_train [simp]:
  "schedule cfg c tx p (TrainStatus st) s =
     handle_train cfg c tx st p (s\<lparr>parameter_pool := snd (aggregate_info (parameter_pool s))\<rparr>)"
  by (simp add: schedule_def Let_def)

lemma schedule_aggregate [simp]:
  "schedule cfg c tx p (AggregateStatus st) s =
     handle_aggregate c tx st p (s\<lparr>parameter_pool := snd (aggregate_info (parameter_pool s))\<rparr>)"
  by (simp add: schedule_def Let_def)

lemma aggregate_info_prune [simp]:
  "fst (aggregate_info (snd (aggregate_info t))) = fst (aggregate_info t)"
  by (simp add: aggregate_info_def Let_def hash_retain_def updates_of_def cong: map_cong)

lemma parameter_servers_prune [simp]:
  "parameter_servers (s\<lparr>parameter_pool := snd (aggregate_info (parameter_pool s))\<rparr>) = parameter_servers s"
  "primary_ps (s\<lparr>parameter_pool := snd (aggregate_info (parameter_pool s))\<rparr>) = primary_ps s"
  "primary_updates (s\<lparr>parameter_pool := snd (aggregate_info (parameter_pool s))\<rparr>) = primary_updates s"
  "has_sent_update q (s\<lparr>parameter_pool := snd (aggregate_info (parameter_pool s))\<rparr>) = has_sent_update q s"
  by (simp_all add: parameter_servers_def primary_ps_def primary_updates_def has_sent_update_def
      cong: option.case_cong)

lemma take_info_prune [simp]:
  "fst (take_info (s\<lparr>parameter_pool := pp\<rparr>)) = fst (take_info s)" by (simp add: take_info_eq)

text \<open>The primary parameter server has an entry, so that its reports are always found.\<close>

lemma primary_entry:
  assumes "primary_ps s = Some p"
  obtains e where "List.find (\<lambda>w. ai_peer w = p) (fst (aggregate_info (parameter_pool s))) = Some e"
    and "primary_updates s = Some (worker_updates e)"
proof -
  have "p \<in> ai_peer ` set (fst (aggregate_info (parameter_pool s)))"
    using assms unfolding primary_ps_def parameter_servers_def
    by (cases "fst (aggregate_info (parameter_pool s))") (auto simp del: map_ai_peer)
  then have "List.find (\<lambda>w. ai_peer w = p) (fst (aggregate_info (parameter_pool s))) \<noteq> None"
    by (auto simp: find_None_iff)
  with that assms show thesis by (auto simp: primary_updates_def)
qed

definition member_states :: "sched \<Rightarrow> (peer_id \<times> worker_state) list" where
  "member_states s = map (\<lambda>w. (wi_peer w, wi_state w)) (fst (take_info s))"

lemma member_states_eq: "member_states s = map (\<lambda>d. (wd_peer d, worker_state_at s (wd_peer d))) (tp_members (worker_pool s))"
proof -
  have "map (\<lambda>w. (wi_peer w, wi_state w)) (fst (take_info s)) =
      map (\<lambda>w. (wi_peer w, worker_state_at s (wi_peer w))) (fst (take_info s))"
    using take_info_states(1) by (intro map_cong) auto
  also have "\<dots> = map (\<lambda>q. (q, worker_state_at s q)) (map wi_peer (fst (take_info s)))" by simp
  also have "map wi_peer (fst (take_info s)) = map wd_peer (tp_members (worker_pool s))" by (simp add: take_info_eq)
  finally show ?thesis by (simp add: member_states_def comp_def)
qed

definition trainers :: "sched \<Rightarrow> peer_id list" where
  "trainers s = map fst (filter (\<lambda>(q, w). \<not> waiting_for_model w) (member_states s))"

text \<open>
  C17. Aggregation starts only when it may: the action goes to the primary parameter server, while training
  is not complete, and names exactly the members that do not wait for a model, at least one;
  and either all of them have reported their update to it, or the number of reports reached the quorum
  (or the number of these workers, when that is smaller) and the grace period since the first
  report of the round has passed.
\<close>

theorem aggregation_needs_quorum:
  assumes "schedule cfg c tx p st s = (Reply (AggregateAction (AggregateUpdates src)), s')"
  shows "st = AggregateStatus AggregateIdle \<and> primary_ps s = Some p \<and> \<not> training_complete (round_st s)
    \<and> src = peers_all (trainers s) \<and> trainers s \<noteq> []
    \<and> (\<exists>u. primary_updates s = Some u \<and>
        (set (trainers s) \<subseteq> u
         \<or> min (min_quorum (round_st s)) (length (trainers s)) \<le> card u
           \<and> (\<exists>t. first_update_at (round_st s) = Some t \<and> grace (round_st s) \<le> clk_instant c - t)))"
proof -
  let ?s = "s\<lparr>parameter_pool := snd (aggregate_info (parameter_pool s))\<rparr>"
  obtain ag where st: "st = AggregateStatus ag"
    using assms handle_train_reply [of cfg c tx _ p ?s] by (cases st) (auto simp: prod_eq_iff)
  with assms have "ag = AggregateIdle"
    by (cases ag) (auto simp: handle_aggregate_def handle_aggregated_updates_def handle_broadcasted_update_def
        handle_aggregate_error_def aggregate_idle_def Let_def split_beta split: option.splits aggregate_error.splits if_splits)
  have workers: "map wi_peer (filter (\<lambda>w. \<not> waiting_for_model (wi_state w)) (fst (take_info s))) = trainers s"
    by (simp add: trainers_def member_states_def filter_map comp_def)
  then have ne: "filter (\<lambda>w. \<not> waiting_for_model (wi_state w)) (fst (take_info s)) = [] \<longleftrightarrow> trainers s = []"
    by (metis map_is_Nil_conv)
  have h: "handle_aggregate_idle c p ?s = (Reply (AggregateAction (AggregateUpdates src)), s')"
    using assms st \<open>ag = AggregateIdle\<close> by (simp add: handle_aggregate_def)
  then have a: "primary_ps s = Some p" "\<not> training_complete (round_st s)" "src = peers_all (trainers s)"
      "trainers s \<noteq> []" "aggregate_ready c p (trainers s) (snd (take_info ?s))"
    by (auto simp: handle_aggregate_idle_def aggregate_idle_def split_beta Let_def workers ne split: if_splits)
  have info: "fst (aggregate_info (parameter_pool (snd (take_info ?s)))) = fst (aggregate_info (parameter_pool s))"
    by (simp add: sched_simps)
  obtain e where e: "List.find (\<lambda>w. ai_peer w = p) (fst (aggregate_info (parameter_pool s))) = Some e"
    and pu: "primary_updates s = Some (worker_updates e)" using primary_entry [OF a(1)] .
  have "\<exists>u. primary_updates s = Some u \<and>
        (set (trainers s) \<subseteq> u
         \<or> min (min_quorum (round_st s)) (length (trainers s)) \<le> card u
           \<and> (\<exists>t. first_update_at (round_st s) = Some t \<and> grace (round_st s) \<le> clk_instant c - t))"
    using a(5) unfolding aggregate_ready_def info e Let_def
    by (auto simp: pu e sched_simps split: option.splits)
  with a st \<open>ag = AggregateIdle\<close> show ?thesis by blast
qed

text \<open>A worker, a parameter server and a configuration for the witnesses: one round of ten samples.\<close>

definition demo_clock :: "nat \<Rightarrow> clock" where
  "demo_clock t = \<lparr>clk_now = t, clk_since_start = of_nat t, clk_instant = t\<rparr>"

definition demo_cfg :: sched_config where
  "demo_cfg = \<lparr>batch_sizer = (\<lambda>_. 10), multi_batch_size = 5, push_destination = None\<rparr>"

definition demo_wp :: train_pool where
  "demo_wp = \<lparr>tp_members = [demo_member 5 1], tp_info = Map.empty\<rparr>"

definition demo_pp :: aggregate_pool where
  "demo_pp = \<lparr>ap_members = [demo_member 9 2], ap_info = Map.empty\<rparr>"

definition demo_sched :: sched where
  "demo_sched = sched_init demo_wp demo_pp 0 1 0 10 1"

lemma demo_sched_ok: "sched_ok demo_sched"
  unfolding demo_sched_def by (rule sched_ok_init) (simp add: demo_wp_def)

lemma demo_sched_fields [simp]:
  "parameter_servers demo_sched = [9]" "primary_ps demo_sched = Some 9"
  "round_st demo_sched = \<lparr>aggregated_updates = False, first_update_at = None, round_started_at = 0,
     aggregate_started_at = None, min_quorum = 1, grace = 0, round = 0, update_rounds = 1,
     training_complete = False, push_done = False\<rparr>"
  "training_st demo_sched = \<lparr>update_target = 10, counter = 0\<rparr>"
  "tp_members (worker_pool demo_sched) = [demo_member 5 1]"
  "ap_members (parameter_pool demo_sched) = [demo_member 9 2]"
  "ap_info (parameter_pool demo_sched) = Map.empty" "tp_info (worker_pool demo_sched) = Map.empty"
  by (simp_all add: demo_sched_def sched_init_def training_new_def demo_wp_def demo_pp_def
      parameter_servers_def primary_ps_def demo_member_def)

definition demo_reported :: sched where
  "demo_reported = demo_sched\<lparr>parameter_pool := demo_pp\<lparr>ap_info := [9 \<mapsto> {5}]\<rparr>\<rparr>"

lemma demo_trainers: "trainers demo_reported = [5]"
  by (simp add: trainers_def member_states_eq demo_reported_def worker_state_at_def state_of_def
      entry_or_default_def train_entry_default_def worker_state_default_def demo_member_def)

theorem aggregation_needs_quorum_witness:
  "\<exists>src s'. schedule demo_cfg (demo_clock 3) True 9 (AggregateStatus AggregateIdle) demo_reported
     = (Reply (AggregateAction (AggregateUpdates src)), s') \<and> src = peers_all [5]"
proof -
  let ?s = "demo_reported\<lparr>parameter_pool := snd (aggregate_info (parameter_pool demo_reported))\<rparr>"
  have p: "primary_ps demo_reported = Some 9"
    by (simp add: demo_reported_def primary_ps_def parameter_servers_def demo_pp_def demo_member_def)
  have w: "map wi_peer (filter (\<lambda>w. \<not> waiting_for_model (wi_state w)) (fst (take_info demo_reported))) = [5]"
    using demo_trainers by (simp add: trainers_def member_states_def filter_map comp_def)
  then have ne: "filter (\<lambda>w. \<not> waiting_for_model (wi_state w)) (fst (take_info demo_reported)) \<noteq> []" by auto
  have nc: "\<not> training_complete (round_st demo_reported)" by (simp add: demo_reported_def)
  have "aggregate_ready (demo_clock 3) 9 [5] (snd (take_info ?s))"
    unfolding aggregate_ready_def Let_def sched_simps
    by (simp add: demo_reported_def aggregate_info_def hash_retain_def updates_of_def active_peers_def
        demo_pp_def demo_member_def Let_def)
  then obtain src s' where r: "schedule demo_cfg (demo_clock 3) True 9 (AggregateStatus AggregateIdle) demo_reported
      = (Reply (AggregateAction (AggregateUpdates src)), s')"
    using p w ne nc by (simp add: handle_aggregate_def handle_aggregate_idle_def split_beta Let_def sched_simps)
  from aggregation_needs_quorum [OF r] r show ?thesis by (auto simp: demo_trainers)
qed

section \<open>Rounds\<close>

lemmas handler_defs = handle_joined_def handle_waited_for_model_def handle_idle_def handle_idle_training_def
  handle_idle_complete_def handle_batch_completed_def handle_sent_update_def handle_applied_update_def
  handle_pushed_to_hub_def handle_train_error_def handle_aggregate_idle_def handle_aggregated_updates_def
  handle_aggregate_error_def

definition same_round :: "sched \<Rightarrow> sched \<Rightarrow> bool" where
  "same_round s s' \<longleftrightarrow> round (round_st s') = round (round_st s) \<and> update_rounds (round_st s') = update_rounds (round_st s)
     \<and> training_complete (round_st s') = training_complete (round_st s)"

lemma same_round_train: "same_round s (snd (handle_train cfg c tx st p s))"
  by (cases st) (auto simp: handle_train_def same_round_def handler_defs Let_def split_beta sched_simps
      split: option.splits train_error.splits list.splits if_splits)

lemma round_reset_applied: "round_st (reset_applied ws s) = round_st s"
  by (simp add: reset_applied_def sched_simps)

lemma same_round_aggregate:
  "\<forall>m. st \<noteq> BroadcastedUpdate m \<Longrightarrow> same_round s (snd (handle_aggregate c tx st p s))"
  by (cases st) (auto simp: handle_aggregate_def same_round_def handler_defs Let_def split_beta sched_simps
      round_reset_applied split: option.splits aggregate_error.splits if_splits)

lemma updates_of_reset:
  "primary_ps s = Some ps \<Longrightarrow> updates_of ps (parameter_pool (broadcast_reset x s)) = {}"
proof -
  assume ps: "primary_ps s = Some ps"
  let ?s0 = "s\<lparr>sent_metrics := sent_metrics s @ [x]\<rparr>"
  let ?s1 = "reset_samples (fst (take_info ?s0)) (snd (take_info ?s0))"
  have "parameter_pool ?s1 = parameter_pool s" by (simp add: reset_samples_def sched_simps)
  moreover from this have "primary_ps ?s1 = Some ps"
    using ps by (simp add: primary_ps_def parameter_servers_def)
  ultimately show ?thesis by (simp add: broadcast_reset_def Let_def updates_of_update)
qed

text \<open>
  C18. Rounds advance one at a time and only when a broadcast is reported: every other request keeps
  the round and the completion of training. A report of a broadcast starts the next round with the sample
  counter, the shares of all workers and the reports at the primary parameter server cleared, and
  training is complete from the first round on that reaches the configured number; completion is
  never taken back.
\<close>

theorem rounds_advance_on_broadcast:
  "let s' = snd (schedule cfg c tx p st s)
   in (if tx \<and> (\<exists>m. st = AggregateStatus (BroadcastedUpdate m))
       then round (round_st s') = saturating_add (round (round_st s)) 1
         \<and> (training_complete (round_st s') \<longleftrightarrow> training_complete (round_st s) \<or> update_rounds (round_st s) \<le> round (round_st s'))
         \<and> counter (training_st s') = 0 \<and> (\<forall>q. samples_processed (worker_state_at s' q) = 0)
         \<and> (case primary_ps s of None \<Rightarrow> True | Some ps \<Rightarrow> updates_of ps (parameter_pool s') = {})
         \<and> first_update_at (round_st s') = None
       else round (round_st s') = round (round_st s)
         \<and> training_complete (round_st s') = training_complete (round_st s))
      \<and> update_rounds (round_st s') = update_rounds (round_st s)"
proof -
  let ?s = "s\<lparr>parameter_pool := snd (aggregate_info (parameter_pool s))\<rparr>"
  show ?thesis
  proof (cases "\<exists>m. st = AggregateStatus (BroadcastedUpdate m)")
    case False
    have "same_round ?s (snd (schedule cfg c tx p st s))"
      using False by (cases st) (auto intro: same_round_train same_round_aggregate)
    then show ?thesis using False by (simp add: same_round_def Let_def)
  next
    case True
    then obtain m where m: "st = AggregateStatus (BroadcastedUpdate m)" by blast
    show ?thesis
    proof (cases rule: handle_broadcasted_cases [of tx c m p ?s])
      case closed
      then show ?thesis using m by (simp add: handle_aggregate_def Let_def)
    next
      case (advance x s2)
      have "updates_of ps (parameter_pool s2) = {}" if "primary_ps s = Some ps" for ps
        using updates_of_reset [of ?s ps x] that advance(2) by simp
      then show ?thesis using advance m
        by (auto simp: handle_aggregate_def Let_def broadcast_reset_fields sched_simps advance_round_def reset_round_def
            split: option.split)
    qed
  qed
qed

end
