(* ===== verification/Batch_Runs.thy ===== *)
theory Batch_Runs
  imports Batch_Properties
begin

text \<open>
  Runs of the round protocol as sequences of events, what holds at every moment of a run, and a small
  run of one worker and one parameter server on which the properties of the next theories are
  evaluated.
\<close>

section \<open>Runs\<close>

text \<open>A run as a sequence of requests and changes of the two memberships, with the replies.\<close>

datatype sched_event =
    Ask clock bool peer_id executor_status
  | Members "worker_descriptor list" "worker_descriptor list"

fun sched_run :: "sched_config \<Rightarrow> sched_event list \<Rightarrow> sched \<Rightarrow> reply list \<times> sched" where
  "sched_run cfg [] s = ([], s)"
| "sched_run cfg (Ask c tx p st # es) s =
     (let (r, s) = schedule cfg c tx p st s; (out, s) = sched_run cfg es s in (r # out, s))"
| "sched_run cfg (Members ws ps # es) s =
     sched_run cfg es (s\<lparr>worker_pool := (worker_pool s)\<lparr>tp_members := ws\<rparr>,
       parameter_pool := (parameter_pool s)\<lparr>ap_members := ps\<rparr>\<rparr>)"

lemma sched_run_steps: "(sched_step cfg)\<^sup>*\<^sup>* s (snd (sched_run cfg es s))"
proof (induction es arbitrary: s)
  case (Cons e es)
  have "sched_step cfg s (snd (schedule cfg c tx p st s))" for c tx p st
    by (rule step_request [OF prod.collapse [symmetric]])
  note r = converse_rtranclp_into_rtranclp [of "sched_step cfg", OF this Cons]
    converse_rtranclp_into_rtranclp [of "sched_step cfg", OF step_members Cons]
  show ?case using r by (cases e) (simp_all add: split_beta Let_def)
qed simp

lemma schedule_update_rounds: "update_rounds (round_st (snd (schedule cfg c tx p st s))) = update_rounds (round_st s)"
proof (cases "\<exists>m. st = AggregateStatus (BroadcastedUpdate m)")
  case True
  then obtain m where "st = AggregateStatus (BroadcastedUpdate m)" by blast
  then show ?thesis
    by (cases rule: handle_broadcasted_cases [of tx c m p "s\<lparr>parameter_pool := snd (aggregate_info (parameter_pool s))\<rparr>"])
      (simp_all add: handle_aggregate_def Let_def broadcast_reset_fields advance_round_def)
next
  case False
  then have "same_round (s\<lparr>parameter_pool := snd (aggregate_info (parameter_pool s))\<rparr>) (snd (schedule cfg c tx p st s))"
    by (cases st) (auto intro: same_round_train same_round_aggregate)
  then show ?thesis by (simp add: same_round_def)
qed

lemma sched_steps_rounds: "(sched_step cfg)\<^sup>*\<^sup>* s s' \<Longrightarrow> update_rounds (round_st s') = update_rounds (round_st s)"
proof (induction rule: rtranclp_induct)
  case (step s1 s2)
  from step(2) have "update_rounds (round_st s2) = update_rounds (round_st s1)"
    by (cases rule: sched_step.cases) (metis schedule_update_rounds snd_conv, simp)
  with step show ?case by simp
qed simp

text \<open>
  C12. At every moment of every run, with any requests and any changes of membership: at most one worker is
  assigned to push the result, and it has applied the final update; a worker has applied the final
  update only when training is complete; no worker's share of the samples exceeds the count of the round; training
  is complete exactly from the configured number of rounds on; and pushing is done only after that.
\<close>

theorem training_run_invariant:
  assumes "(sched_step cfg)\<^sup>*\<^sup>* (sched_init wp pp start quorum gr n k) s" and "tp_info wp = Map.empty"
  shows "(\<forall>p q. is_pusher (worker_state_at s p) \<and> is_pusher (worker_state_at s q) \<longrightarrow> p = q)
    \<and> (\<forall>p. is_pusher (worker_state_at s p) \<longrightarrow> applied_final_update (worker_state_at s p))
    \<and> (\<forall>p. applied_final_update (worker_state_at s p) \<longrightarrow> training_complete (round_st s))
    \<and> (\<forall>p. samples_processed (worker_state_at s p) \<le> counter (training_st s))
    \<and> (0 < k \<longrightarrow> (training_complete (round_st s) \<longleftrightarrow> k \<le> round (round_st s)))
    \<and> (push_done (round_st s) \<longrightarrow> training_complete (round_st s))"
proof -
  have ok: "sched_ok s" using sched_steps_ok [OF assms(1)] sched_ok_init [OF assms(2)] by blast
  have k: "update_rounds (round_st s) = k"
    using sched_steps_rounds [OF assms(1)] by (simp add: sched_init_def)
  have "training_complete (round_st s) \<longleftrightarrow> k \<le> round (round_st s)" if "0 < k"
    using ok that unfolding sched_ok_def k by (metis linorder_not_less)
  with ok show ?thesis unfolding sched_ok_def worker_ok_def by blast
qed

section \<open>A small run\<close>

definition demo_trace :: "sched_event list" where
  "demo_trace =
     [Ask (demo_clock 1) True 5 (TrainStatus (BatchCompleted 10 1)),
      Ask (demo_clock 2) True 5 (TrainStatus (SentUpdate 0 Map.empty)),
      Ask (demo_clock 3) True 9 (AggregateStatus AggregateIdle),
      Ask (demo_clock 4) True 9 (AggregateStatus (AggregatedUpdates None)),
      Ask (demo_clock 5) True 5 (TrainStatus TrainIdle),
      Ask (demo_clock 6) True 5 (TrainStatus AppliedUpdate)]"


definition demo_at :: "(peer_id \<rightharpoonup> train_entry) \<Rightarrow> (peer_id \<rightharpoonup> peer_id set) \<Rightarrow> bool \<Rightarrow> instant option \<Rightarrow> instant option \<Rightarrow> u32
    \<Rightarrow> (peer_id \<times> u32 \<times> metrics_map) list \<Rightarrow> sched" where
  "demo_at ti ai aggr fst_at agg_at cnt ms =
    \<lparr>worker_pool = \<lparr>tp_members = [demo_member 5 1], tp_info = ti\<rparr>,
     parameter_pool = \<lparr>ap_members = [demo_member 9 2], ap_info = ai\<rparr>,
     round_st = \<lparr>aggregated_updates = aggr, first_update_at = fst_at, round_started_at = 0,
       aggregate_started_at = agg_at, min_quorum = 1, grace = 0, round = 0, update_rounds = 1,
       training_complete = False, push_done = False\<rparr>,
     training_st = \<lparr>update_target = 10, counter = cnt\<rparr>, sent_metrics = ms, job_cancelled = False\<rparr>"

lemmas demo_eval = Let_def split_beta handle_train_def handle_aggregate_def handler_defs
  take_info_eq set_worker_def train_info_def aggregate_info_def has_sent_update_def primary_updates_def
  parameter_servers_def primary_ps_def plan_update_def find_worker_def train_update_statistics_def train_update_state_def
  aggregate_update_state_def demo_at_def demo_cfg_def demo_clock_def demo_member_def active_peers_def hash_retain_upd entry_or_default_def
  worker_info_new_def updates_of_def batch_statistics_def train_entry_default_def worker_state_default_def record_batch_def
  aggregate_ready_def reset_applied_def saturating_add_def

lemma demo_0: "demo_sched = demo_at Map.empty Map.empty False None None 0 []"
  by (simp add: demo_at_def demo_sched_def sched_init_def training_new_def demo_wp_def demo_pp_def)

abbreviation demo_worker :: "u64 \<Rightarrow> bool \<Rightarrow> train_entry" where
  "demo_worker t a \<equiv> (t, rm_new, worker_state_default\<lparr>samples_processed := 10, applied_update := a\<rparr>)"

lemma demo_steps:
  "snd (schedule demo_cfg (demo_clock 1) True 5 (TrainStatus (BatchCompleted 10 1)) (demo_at Map.empty Map.empty False None None 0 []))
     = demo_at [5 \<mapsto> demo_worker 1 False] Map.empty False None None 10 []"
  "\<exists>m. snd (schedule demo_cfg (demo_clock 2) True 5 (TrainStatus (SentUpdate 0 Map.empty)) (demo_at [5 \<mapsto> demo_worker 1 False] Map.empty False None None 10 []))
     = demo_at [5 \<mapsto> demo_worker 1 False] [9 \<mapsto> {5}] False (Some 2) None 10 [m]"
  "snd (schedule demo_cfg (demo_clock 3) True 9 (AggregateStatus AggregateIdle) (demo_at [5 \<mapsto> demo_worker 1 False] [9 \<mapsto> {5}] False (Some 2) None 10 [m]))
    = demo_at [5 \<mapsto> demo_worker 1 False] [9 \<mapsto> {5}] False (Some 2) (Some 3) 10 [m]"
  "snd (schedule demo_cfg (demo_clock 4) True 9 (AggregateStatus (AggregatedUpdates None)) (demo_at [5 \<mapsto> demo_worker 1 False] [9 \<mapsto> {5}] False (Some 2) (Some 3) 10 [m]))
    = demo_at [5 \<mapsto> demo_worker 1 False] [9 \<mapsto> {5}] True (Some 2) (Some 3) 10 [m]"
  "snd (schedule demo_cfg (demo_clock 5) True 5 (TrainStatus TrainIdle) (demo_at [5 \<mapsto> demo_worker 1 False] [9 \<mapsto> {5}] True (Some 2) (Some 3) 10 [m]))
    = demo_at [5 \<mapsto> demo_worker 1 False] [9 \<mapsto> {5}] True (Some 2) (Some 3) 10 [m]"
  "snd (schedule demo_cfg (demo_clock 6) True 5 (TrainStatus AppliedUpdate) (demo_at [5 \<mapsto> demo_worker 1 False] [9 \<mapsto> {5}] True (Some 2) (Some 3) 10 [m]))
    = demo_at [5 \<mapsto> demo_worker 6 True] [9 \<mapsto> {5}] True (Some 2) (Some 3) 10 [m]"
  subgoal by (simp add: demo_eval)
  subgoal by (simp add: demo_eval)
  subgoal by (simp add: demo_eval)
  subgoal by (simp add: demo_eval)
  subgoal by (simp add: demo_eval)
  subgoal by (simp add: demo_eval)
  done

lemma demo_run:
  obtains m where "snd (sched_run demo_cfg demo_trace demo_sched) = demo_at [5 \<mapsto> demo_worker 6 True] [9 \<mapsto> {5}] True (Some 2) (Some 3) 10 [m]"
proof -
  from demo_steps(2) obtain m where m: "snd (schedule demo_cfg (demo_clock 2) True 5 (TrainStatus (SentUpdate 0 Map.empty))
      (demo_at [5 \<mapsto> demo_worker 1 False] Map.empty False None None 10 []))
     = demo_at [5 \<mapsto> demo_worker 1 False] [9 \<mapsto> {5}] False (Some 2) None 10 [m]" by blast
  show thesis
    by (rule that [of m]) (simp add: demo_trace_def demo_0 Let_def split_beta demo_steps m del: schedule_train schedule_aggregate One_nat_def)
qed

theorem training_run_invariant_witness:
  "\<exists>s. (sched_step demo_cfg)\<^sup>*\<^sup>* demo_sched s \<and> samples_processed (worker_state_at s 5) = 10
     \<and> samples_processed (worker_state_at s 5) \<le> counter (training_st s) \<and> \<not> training_complete (round_st s)"
proof -
  obtain m where m: "snd (sched_run demo_cfg demo_trace demo_sched) = demo_at [5 \<mapsto> demo_worker 6 True] [9 \<mapsto> {5}] True (Some 2) (Some 3) 10 [m]"
    by (rule demo_run)
  let ?s = "demo_at [5 \<mapsto> demo_worker 6 True] [9 \<mapsto> {5}] True (Some 2) (Some 3) 10 [m]"
  have r: "(sched_step demo_cfg)\<^sup>*\<^sup>* demo_sched ?s" using sched_run_steps [of demo_cfg demo_sched demo_trace] m by simp
  have "tp_info demo_wp = Map.empty" by (simp add: demo_wp_def)
  note inv = training_run_invariant [OF r [unfolded demo_sched_def] this]
  have "samples_processed (worker_state_at ?s 5) = 10" "\<not> training_complete (round_st ?s)"
    by (simp_all add: demo_at_def worker_state_at_def state_of_def entry_or_default_def)
  with r inv show ?thesis by blast
qed

end
