(* ===== verification/Batch_Safety.thy ===== *)
theory Batch_Safety
  imports Batch_Runs
begin

text \<open>
  Guarantees of the round protocol: who sends an update and with which weight, who pushes the
  result, and that no request makes the handler panic.
\<close>

section \<open>Updates and their weights\<close>

text \<open>The weight of an update is a share of the round: between zero and one.\<close>


lemma update_weight_unit:
  assumes "a \<le> b" and "0 < b"
  shows "fle (Fin 0) (update_weight a b) \<and> fle (update_weight a b) (Fin 1)"
proof -
  let ?r = "\<lambda>x :: u32. round_to F32 (of_nat (unat x))"
  have F: "1 \<le> prec F32" by (simp add: F32_def)
  have le: "?r a \<le> ?r b" using assms(1) by (intro round_to_mono F of_nat_0_le_iff of_nat_mono) (simp add: word_le_nat_alt)
  have b: "1 \<le> ?r b" by (rule of_nat_float_u32(3) [OF assms(2)])
  have "update_weight a b = finish F32 False (?r a / ?r b)"
    using b of_nat_float_u32(2) [of a] by (simp add: update_weight_def of_nat_float_u32(1) fdiv_def Let_def)
  moreover have "0 \<le> ?r a / ?r b" "?r a / ?r b \<le> 1" using le b of_nat_float_u32(2) [of a] by simp_all
  moreover have "finish F32 False 1 = Fin 1" by (simp add: float_simps)
  ultimately show ?thesis using finish_nonneg [of "?r a / ?r b" F32] finish_mono [OF _ _ F, of "?r a / ?r b" 1] by simp
qed

lemma plan_update_True:
  "plan_update cfg ws p count target = Some (True, projected, n) \<Longrightarrow> target \<le> count \<and> projected = count"
  by (auto simp: plan_update_def Let_def split: if_splits option.splits)

lemma servers_cong:
  "parameter_pool s' = parameter_pool s \<Longrightarrow> parameter_servers s' = parameter_servers s"
  "parameter_pool s' = parameter_pool s \<Longrightarrow> has_sent_update p s' = has_sent_update p s"
  by (simp_all add: parameter_servers_def has_sent_update_def primary_updates_def primary_ps_def cong: option.case_cong)

lemma share_le_counter:
  assumes "sched_ok s"
  shows "(case find_worker p (fst (take_info s)) of None \<Rightarrow> 0 | Some w \<Rightarrow> samples_processed (wi_state w)) \<le> counter (training_st s)"
  using assms find_worker_state(1) [of p s] by (auto simp: sched_ok_def worker_ok_def split: option.split)

lemma word_le_mult:
  fixes a n :: u32
  assumes "0 < n" and "unat a * unat n < 2 ^ 32"
  shows "a \<le> a * n"
proof -
  have "unat (a * n) = unat a * unat n" using assms(2) by (simp add: unat_word_ariths)
  then show ?thesis using assms(1) by (simp add: word_le_nat_alt word_less_nat_alt)
qed

lemma idle_send_update:
  assumes "handle_idle_training cfg c p s = (Reply (TrainAction (SendUpdate tgt w)), s')" and "sched_ok s"
  shows "(\<exists>ps rest. parameter_servers s = ps # rest \<and> tgt = peers_one ps) \<and> \<not> has_sent_update p s
    \<and> update_target (training_st s) \<le> counter (training_st s') \<and> training_st s' = training_st s
    \<and> (\<exists>n\<le>counter (training_st s'). w = update_weight n (counter (training_st s')))"
proof -
  let ?n = "case find_worker p (fst (take_info s)) of None \<Rightarrow> 0 | Some w \<Rightarrow> samples_processed (wi_state w)"
  obtain u projected b where pl: "plan_update cfg (fst (take_info s)) p (counter (training_st s)) (update_target (training_st s))
      = Some (u, projected, b)"
    using assms(1) by (auto simp: handle_idle_training_def split_beta Let_def sched_simps split: option.splits)
  have sc: "parameter_servers (snd (take_info s)) = parameter_servers s"
    "has_sent_update p (snd (take_info s)) = has_sent_update p s" by (auto intro!: servers_cong simp: sched_simps)
  from assms(1) pl have a: "u" "s' = snd (take_info s)" "\<not> has_sent_update p s" "w = update_weight ?n projected"
    "\<exists>ps rest. parameter_servers s = ps # rest \<and> tgt = peers_one ps"
    by (auto simp: handle_idle_training_def train_idle_def split_beta Let_def sched_simps sc split: if_splits list.splits)
  with plan_update_True pl have "update_target (training_st s) \<le> counter (training_st s)" "projected = counter (training_st s)"
    by auto
  with a share_le_counter [OF assms(2), of p] show ?thesis by (auto simp: sched_simps)
qed

lemma batch_send_update:
  assumes "handle_batch_completed cfg c bs n p s = (Reply (TrainAction (SendUpdate tgt w)), s')" and "sched_ok s"
  shows "(\<exists>ps rest. parameter_servers s = ps # rest \<and> tgt = peers_one ps) \<and> \<not> has_sent_update p s
    \<and> \<not> training_complete (round_st s)
    \<and> update_target (training_st s) \<le> counter (training_st s')
    \<and> training_st s' = record_batch (bs * n) (training_st s)
    \<and> (0 < n \<and> unat bs * unat n < 2 ^ 32 \<longrightarrow>
        (\<exists>n\<le>counter (training_st s'). w = update_weight n (counter (training_st s'))))"
proof -
  obtain wp where wp: "train_update_statistics p (batch_statistics (clk_since_start c) n) (worker_pool s) = Some wp"
    using assms(1) by (auto simp: handle_batch_completed_def split: option.splits)
  let ?t = "s\<lparr>worker_pool := wp\<rparr>"
  let ?ws = "fst (take_info ?t)"
  define u where "u = set_worker p (samples_processed_update (\<lambda>m. saturating_add m (bs * n)))
    (snd (take_info ?t)\<lparr>training_st := record_batch (bs * n) (training_st (snd (take_info ?t)))\<rparr>)"
  let ?m = "case find_worker p ?ws of None \<Rightarrow> bs | Some w \<Rightarrow> saturating_add (samples_processed (wi_state w)) bs"
  have sc: "parameter_servers u = parameter_servers s" "has_sent_update p u = has_sent_update p s"
    "round_st u = round_st s" "training_st u = record_batch (bs * n) (training_st s)"
    by (auto intro!: servers_cong simp: sched_simps u_def)
  have h: "handle_batch_completed cfg c bs n p s =
     (if training_complete (round_st u) \<or> has_sent_update p u then (Reply (train_idle (short_idle c)), u)
      else case plan_update cfg ?ws p (counter (training_st u)) (update_target (training_st u)) of
        None \<Rightarrow> (Panicked, u)
      | Some (should_update, projected, b) \<Rightarrow>
         (Reply (if \<not> should_update then TrainAction (ExecuteBatch b)
            else case parameter_servers u of [] \<Rightarrow> train_idle (short_idle c)
             | ps # _ \<Rightarrow> TrainAction (SendUpdate (peers_one ps) (update_weight ?m projected))), u))"
    unfolding u_def by (simp add: handle_batch_completed_def wp split_beta Let_def)
  from assms(1) obtain pr b where pl: "plan_update cfg ?ws p (counter (training_st u)) (update_target (training_st u)) = Some (True, pr, b)"
    and a: "\<not> training_complete (round_st s)" "\<not> has_sent_update p s" "s' = u" "w = update_weight ?m pr"
    "\<exists>ps rest. parameter_servers s = ps # rest \<and> tgt = peers_one ps"
    unfolding h sc by (auto simp: train_idle_def split: if_splits list.splits option.splits)
  have "?m \<le> saturating_add (counter (training_st s)) (bs * n)" if n: "0 < n" "unat bs * unat n < 2 ^ 32"
  proof (cases "find_worker p ?ws")
    case None
    then show ?thesis using saturating_add_mono [OF _ word_le_mult [OF n], of 0 "counter (training_st s)"] by (simp add: saturating_add_def)
  next
    case (Some v)
    have "wi_state v = worker_state_at s p"
      using find_worker_state(1) [OF Some] worker_state_at_stats [OF wp] by simp
    then have "samples_processed (wi_state v) \<le> counter (training_st s)"
      using assms(2) by (simp add: sched_ok_def worker_ok_def)
    then show ?thesis using word_le_mult [OF n] Some by (simp add: saturating_add_mono)
  qed
  then show ?thesis using a plan_update_True [OF pl] by (auto simp: sc record_batch_def)
qed

text \<open>
  The reports of a round: the primary parameter server keeps the workers that have reported their update, and
  forgets them only when it reports the broadcast.
\<close>

lemma has_sent_update_iff:
  "has_sent_update p s \<longleftrightarrow> (\<exists>d ds. ap_members (parameter_pool s) = d # ds \<and> p \<in> updates_of (wd_peer d) (parameter_pool s))"
  by (cases "ap_members (parameter_pool s)")
    (auto simp: has_sent_update_def primary_updates_def primary_ps_def parameter_servers_def aggregate_info_def
      Let_def updates_of_def hash_retain_def active_peers_def split: option.splits)

lemma updates_of_prune:
  "ap_members t = d # ds \<Longrightarrow> updates_of (wd_peer d) (snd (aggregate_info t)) = updates_of (wd_peer d) t"
  by (simp add: aggregate_info_def Let_def updates_of_def hash_retain_def active_peers_def)

definition is_broadcast :: "executor_status \<Rightarrow> bool" where
  "is_broadcast st = (case st of AggregateStatus (BroadcastedUpdate _) \<Rightarrow> True | _ \<Rightarrow> False)"

lemma handle_train_pool:
  assumes "\<And>u m. st \<noteq> SentUpdate u m"
  shows "parameter_pool (snd (handle_train cfg c tx st q s)) = parameter_pool s"
proof (cases st)
  case TrainIdle
  then show ?thesis
    by (auto simp: handle_train_def handle_idle_def handle_idle_training_def handle_idle_complete_def Let_def split_beta sched_simps
        split: option.split)
next
  case (BatchCompleted bs n)
  then show ?thesis
    by (auto simp: handle_train_def handle_batch_completed_def Let_def split_beta sched_simps split: option.split)
next
  case AppliedUpdate
  then show ?thesis
    by (auto simp: handle_train_def handle_applied_update_def Let_def split_beta sched_simps split: option.split)
qed (use assms in \<open>auto simp: handle_train_def handle_joined_def handle_waited_for_model_def handle_pushed_to_hub_def
    handle_train_error_def Let_def split_beta sched_simps split: option.split train_error.split\<close>)

lemma handle_aggregate_pool:
  assumes "\<And>m. st \<noteq> BroadcastedUpdate m"
  shows "parameter_pool (snd (handle_aggregate c tx st q s)) = parameter_pool s"
  using assms by (cases st) (auto simp: handle_aggregate_def handle_aggregate_idle_def handle_aggregated_updates_def
    handle_aggregate_error_def reset_applied_def Let_def split_beta sched_simps split: aggregate_error.split)

lemma sent_update_pool:
  "parameter_pool (snd (handle_sent_update c tx m q s)) =
     (case primary_ps s of Some ps \<Rightarrow> if tx then aggregate_update_state ps (insert q) (parameter_pool s) else parameter_pool s
      | None \<Rightarrow> parameter_pool s)"
  by (auto simp: handle_sent_update_def Let_def split_beta sched_simps primary_ps_def parameter_servers_def split: option.split)

lemma has_sent_update_prune:
  "ap_members (parameter_pool s') = ap_members (parameter_pool s) \<Longrightarrow>
   (\<And>d ds. ap_members (parameter_pool s) = d # ds \<Longrightarrow>
      updates_of (wd_peer d) (parameter_pool s) \<subseteq> updates_of (wd_peer d) (parameter_pool s')) \<Longrightarrow>
   has_sent_update p s \<Longrightarrow> has_sent_update p s'"
  unfolding has_sent_update_iff by auto

text \<open>A report is taken, and stays until the broadcast.\<close>

lemma sent_update_taken:
  assumes "primary_ps s \<noteq> None"
  shows "has_sent_update p (snd (schedule cfg c True p (TrainStatus (SentUpdate u m)) s))
    \<and> ap_members (parameter_pool (snd (schedule cfg c True p (TrainStatus (SentUpdate u m)) s))) = ap_members (parameter_pool s)"
proof -
  let ?s = "s\<lparr>parameter_pool := snd (aggregate_info (parameter_pool s))\<rparr>"
  from assms obtain d ds where d: "ap_members (parameter_pool s) = d # ds"
    by (cases "ap_members (parameter_pool s)") (auto simp: primary_ps_def parameter_servers_def)
  then have "primary_ps ?s = Some (wd_peer d)" by (simp add: primary_ps_def parameter_servers_def)
  then have "parameter_pool (snd (schedule cfg c True p (TrainStatus (SentUpdate u m)) s))
      = aggregate_update_state (wd_peer d) (insert p) (snd (aggregate_info (parameter_pool s)))"
    by (simp add: handle_train_def sent_update_pool)
  then show ?thesis using d unfolding has_sent_update_iff by (simp add: updates_of_update)
qed

lemma sent_update_kept:
  assumes "\<not> is_broadcast st"
  shows "ap_members (parameter_pool (snd (schedule cfg c tx q st s))) = ap_members (parameter_pool s)
    \<and> (has_sent_update p s \<longrightarrow> has_sent_update p (snd (schedule cfg c tx q st s)))"
proof -
  let ?s = "s\<lparr>parameter_pool := snd (aggregate_info (parameter_pool s))\<rparr>" and ?s' = "snd (schedule cfg c tx q st s)"
  consider (same) "parameter_pool ?s' = parameter_pool ?s"
    | (sent) ps where "parameter_pool ?s' = aggregate_update_state ps (insert q) (parameter_pool ?s)"
  proof (cases st)
    case (TrainStatus t)
    show ?thesis
    proof (cases "\<exists>u m. t = SentUpdate u m")
      case True
      then obtain u m where "t = SentUpdate u m" by blast
      then have "parameter_pool ?s' = parameter_pool ?s
          \<or> (\<exists>ps. parameter_pool ?s' = aggregate_update_state ps (insert q) (parameter_pool ?s))"
        using TrainStatus sent_update_pool [of c tx m q ?s] by (auto simp: handle_train_def split: option.splits if_splits)
      with that show ?thesis by blast
    next
      case False
      then show ?thesis using that(1) handle_train_pool [of t cfg c tx q ?s] TrainStatus by simp
    qed
  next
    case (AggregateStatus a)
    then have "\<And>m. a \<noteq> BroadcastedUpdate m" using assms by (auto simp: is_broadcast_def)
    then show ?thesis using that(1) handle_aggregate_pool [of a c tx q ?s] AggregateStatus by simp
  qed
  then show ?thesis
  proof cases
    case same
    then show ?thesis using has_sent_update_prune [of ?s' s p] updates_of_prune by simp
  next
    case (sent ps)
    have "updates_of (wd_peer d) (parameter_pool s) \<subseteq> updates_of (wd_peer d) (parameter_pool ?s')"
      if "ap_members (parameter_pool s) = d # ds" for d ds
      using updates_of_prune [OF that] by (auto simp: sent updates_of_update)
    then show ?thesis using has_sent_update_prune [of ?s' s p] by (simp add: sent)
  qed
qed

text \<open>An event of the same round: no broadcast is reported and the parameter servers stay.\<close>

definition within_round :: "worker_descriptor list \<Rightarrow> sched_event \<Rightarrow> bool" where
  "within_round servers e = (case e of Ask _ _ _ st \<Rightarrow> \<not> is_broadcast st | Members _ ps \<Rightarrow> ps = servers)"

lemma sent_update_run:
  assumes "\<forall>e\<in>set es. within_round (ap_members (parameter_pool s)) e" and "has_sent_update p s"
  shows "has_sent_update p (snd (sched_run cfg es s))"
  using assms
proof (induction es arbitrary: s)
  case (Cons e es)
  show ?case
  proof (cases e)
    case (Ask c tx q st)
    then have "\<not> is_broadcast st" using Cons.prems(1) by (simp add: within_round_def)
    from sent_update_kept [OF this, of cfg c tx q s p] Cons.IH [of "snd (schedule cfg c tx q st s)"] Cons.prems Ask
    show ?thesis by (simp add: split_beta Let_def)
  next
    case (Members ws ps)
    then have ps: "ps = ap_members (parameter_pool s)" using Cons.prems(1) by (simp add: within_round_def)
    let ?s = "s\<lparr>worker_pool := (worker_pool s)\<lparr>tp_members := ws\<rparr>, parameter_pool := (parameter_pool s)\<lparr>ap_members := ps\<rparr>\<rparr>"
    have "has_sent_update p ?s" using Cons.prems(2) unfolding has_sent_update_iff by (simp add: ps updates_of_def)
    with Cons.IH [of ?s] Cons.prems(1) Members show ?thesis by (simp add: ps)
  qed
qed simp

text \<open>
  C13. A worker is asked for its update only when it is due: before completion, when the samples of the round
  have reached the target, and only while it has not reported its update of the round: after its report was taken it
  is not asked again, whatever requests and changes of the workers follow, until a broadcast is reported or the
  parameter servers change. (Before the report it may be asked more than once: each poll is answered anew.) The
  update goes to the primary parameter server alone. Its weight is between zero and one, when the target is
  positive and the status does not report zero batches or more samples than a 32-bit word holds; these numbers
  are the peer's and are not checked.
\<close>

theorem send_update_share:
  assumes "schedule cfg c tx p st s = (Reply (TrainAction (SendUpdate tgt w)), s')" and "sched_ok s"
  shows "(\<exists>ps. primary_ps s = Some ps \<and> tgt = peers_one ps) \<and> \<not> has_sent_update p s
    \<and> \<not> training_complete (round_st s) \<and> update_target (training_st s) \<le> counter (training_st s')
    \<and> (\<forall>s0 c0 u m es. primary_ps s0 \<noteq> None \<and> (\<forall>e\<in>set es. within_round (ap_members (parameter_pool s0)) e) \<longrightarrow>
        s \<noteq> snd (sched_run cfg (Ask c0 True p (TrainStatus (SentUpdate u m)) # es) s0))
    \<and> (0 < update_target (training_st s)
        \<and> (\<forall>bs n. st = TrainStatus (BatchCompleted bs n) \<longrightarrow> 0 < n \<and> unat bs * unat n < 2 ^ 32) \<longrightarrow>
        fle (Fin 0) w \<and> fle w (Fin 1))"
proof -
  let ?s = "s\<lparr>parameter_pool := snd (aggregate_info (parameter_pool s))\<rparr>"
  have ok: "sched_ok ?s" using assms(2) by (simp add: sched_ok_irrelevant)
  obtain t where t: "st = TrainStatus t"
    using assms(1) handle_aggregate_reply [of c tx _ p ?s] by (cases st) (auto simp: prod_eq_iff)
  with assms(1) have h: "handle_train cfg c tx t p ?s = (Reply (TrainAction (SendUpdate tgt w)), s')" by simp
  then consider "handle_idle_training cfg c p ?s = (Reply (TrainAction (SendUpdate tgt w)), s')" "\<not> training_complete (round_st s)"
    | bs n where "t = BatchCompleted bs n" "handle_batch_completed cfg c bs n p ?s = (Reply (TrainAction (SendUpdate tgt w)), s')"
    by (cases t) (auto simp: handle_train_def handle_joined_def handle_waited_for_model_def handle_idle_def handle_idle_complete_def
        handle_sent_update_def handle_applied_update_def handle_pushed_to_hub_def handle_train_error_def train_idle_def Let_def split_beta
      split: option.splits train_error.splits list.splits if_splits)
  then have a: "(\<exists>ps rest. parameter_servers s = ps # rest \<and> tgt = peers_one ps) \<and> \<not> has_sent_update p s
    \<and> \<not> training_complete (round_st s) \<and> update_target (training_st s) \<le> counter (training_st s')
    \<and> ((\<forall>bs n. st = TrainStatus (BatchCompleted bs n) \<longrightarrow> 0 < n \<and> unat bs * unat n < 2 ^ 32) \<longrightarrow>
        (\<exists>n\<le>counter (training_st s'). w = update_weight n (counter (training_st s'))))"
  proof cases
    case 1
    then show ?thesis using idle_send_update [OF 1(1) ok] by auto
  next
    case (2 bs n)
    then show ?thesis using batch_send_update [OF 2(2) ok] t by auto
  qed
  moreover have "s \<noteq> snd (sched_run cfg (Ask c0 True p (TrainStatus (SentUpdate u m)) # es) s0)"
    if "primary_ps s0 \<noteq> None" "\<forall>e\<in>set es. within_round (ap_members (parameter_pool s0)) e" for s0 c0 u m es
    using sent_update_taken [OF that(1), of p cfg c0 u m] that(2) a
      sent_update_run [of es "snd (schedule cfg c0 True p (TrainStatus (SentUpdate u m)) s0)" p cfg]
    by (auto simp: split_beta Let_def simp del: schedule_train)
  moreover have "fle (Fin 0) w \<and> fle w (Fin 1)"
    if "0 < update_target (training_st s)"
      "\<forall>bs n. st = TrainStatus (BatchCompleted bs n) \<longrightarrow> 0 < n \<and> unat bs * unat n < 2 ^ 32"
  proof -
    have "0 < counter (training_st s')" using a that(1) by auto
    then show ?thesis using a that(2) update_weight_unit by blast
  qed
  ultimately show ?thesis by (auto simp: primary_ps_def)
qed

theorem send_update_share_witness:
  "\<exists>tgt w s'. schedule demo_cfg (demo_clock 1) True 5 (TrainStatus (BatchCompleted 10 1)) demo_sched
      = (Reply (TrainAction (SendUpdate tgt w)), s') \<and> tgt = peers_one 9 \<and> fle (Fin 0) w \<and> fle w (Fin 1)"
proof -
  have "fst (schedule demo_cfg (demo_clock 1) True 5 (TrainStatus (BatchCompleted 10 1)) demo_sched)
      = Reply (TrainAction (SendUpdate (peers_one 9) (update_weight 10 10)))"
    unfolding demo_0 by (simp add: demo_eval)
  then obtain s' where r: "schedule demo_cfg (demo_clock 1) True 5 (TrainStatus (BatchCompleted 10 1)) demo_sched
      = (Reply (TrainAction (SendUpdate (peers_one 9) (update_weight 10 10))), s')"
    by (metis prod.collapse)
  from send_update_share [OF r demo_sched_ok] r show ?thesis by simp
qed

section \<open>Pushing the result\<close>

text \<open>
  C15. Only one worker is sent to push the result: it asked while training was complete and pushing not
  done, it is a member that has applied the final update, no member was assigned before, and
  afterwards it is the only one assigned. The destination is the configured one.
\<close>

theorem push_needs_final_update:
  assumes "schedule cfg c tx p st s = (Reply (TrainAction (PushToHub repository token)), s')"
  shows "st = TrainStatus TrainIdle \<and> push_destination cfg = Some (repository, token)
    \<and> training_complete (round_st s) \<and> \<not> push_done (round_st s)
    \<and> p \<in> active_peers (tp_members (worker_pool s)) \<and> applied_final_update (worker_state_at s p)
    \<and> (\<forall>q\<in>active_peers (tp_members (worker_pool s)). \<not> is_pusher (worker_state_at s q))
    \<and> (\<forall>q. is_pusher (worker_state_at s' q) \<longleftrightarrow> q = p)"
proof -
  let ?s = "s\<lparr>parameter_pool := snd (aggregate_info (parameter_pool s))\<rparr>"
  obtain t where t: "st = TrainStatus t"
    using assms handle_aggregate_reply [of c tx _ p ?s] by (cases st) (auto simp: prod_eq_iff)
  with assms have t': "t = TrainIdle"
    by (cases t) (auto simp: handle_train_def handle_joined_def handle_waited_for_model_def
        handle_batch_completed_def handle_sent_update_def
        handle_applied_update_def handle_pushed_to_hub_def handle_train_error_def train_idle_def Let_def split_beta
      split: option.splits train_error.splits list.splits if_splits)
  have h: "handle_idle cfg c p ?s = (Reply (TrainAction (PushToHub repository token)), s')"
    using assms t t' by (simp add: handle_train_def)
  then have co: "training_complete (round_st s)" "\<not> push_done (round_st s)"
    and hc: "handle_idle_complete cfg c p ?s = (Reply (TrainAction (PushToHub repository token)), s')"
    by (auto simp: handle_idle_def handle_idle_training_def train_idle_def split_beta Let_def
        split: if_splits option.splits list.splits)
  then have d: "push_destination cfg = Some (repository, token)"
    and na: "\<not> (\<exists>w\<in>set (fst (take_info s)). is_pusher (wi_state w))"
    and s': "s' = set_worker p (is_pusher_update (\<lambda>_. True)) (snd (take_info ?s))"
    and f: "\<exists>w. find_worker p (fst (take_info s)) = Some w \<and> applied_final_update (wi_state w)"
    by (auto simp: handle_idle_complete_def train_idle_def split_beta Let_def split: if_splits option.splits)
  from f obtain w where w: "find_worker p (fst (take_info s)) = Some w" "applied_final_update (wi_state w)" by blast
  have np: "\<not> is_pusher (worker_state_at s q)" if "q \<in> active_peers (tp_members (worker_pool s))" for q
    using that na take_info_states(1) unfolding take_info_active by metis
  then have "is_pusher (worker_state_at s' q) \<longleftrightarrow> q = p" for q
    unfolding s' by (auto simp: sched_simps worker_state_default_def)
  with t t' co d w np find_worker_state [OF w(1)] show ?thesis by simp
qed

definition demo_complete :: sched where
  "demo_complete = demo_sched
     \<lparr>worker_pool := \<lparr>tp_members = [demo_member 5 1], tp_info = [5 \<mapsto> (9, rm_new, worker_state_default
        \<lparr>applied_update := True, applied_final_update := True\<rparr>)]\<rparr>,
      round_st := (round_st demo_sched)\<lparr>round := 1, training_complete := True, aggregated_updates := True\<rparr>\<rparr>"

theorem push_needs_final_update_witness:
  "\<exists>s'. schedule (demo_cfg\<lparr>push_destination := Some (''repo'', ''token'')\<rparr>) (demo_clock 9) True 5 (TrainStatus TrainIdle) demo_complete
     = (Reply (TrainAction (PushToHub ''repo'' ''token'')), s') \<and> (\<forall>q. is_pusher (worker_state_at s' q) \<longleftrightarrow> q = 5)"
proof -
  have "fst (schedule (demo_cfg\<lparr>push_destination := Some (''repo'', ''token'')\<rparr>) (demo_clock 9) True 5 (TrainStatus TrainIdle) demo_complete)
     = Reply (TrainAction (PushToHub ''repo'' ''token''))"
    by (simp add: demo_complete_def demo_eval)
  then obtain s' where r: "schedule (demo_cfg\<lparr>push_destination := Some (''repo'', ''token'')\<rparr>) (demo_clock 9) True 5 (TrainStatus TrainIdle) demo_complete
     = (Reply (TrainAction (PushToHub ''repo'' ''token'')), s')"
    by (metis prod.collapse)
  from push_needs_final_update [OF r] r show ?thesis by simp
qed

section \<open>No panic\<close>

lemma plan_update_total [simp]: "plan_update cfg ws p count target \<noteq> None"
proof (cases "target \<le> count \<or> ws = []")
  case False
  let ?stats = "map (\<lambda>w. case wi_statistic w of None \<Rightarrow> 0 | Some v \<Rightarrow> v) ws"
  let ?progress = "map (\<lambda>w. case wi_last_updated w of None \<Rightarrow> 0 | Some v \<Rightarrow> v) ws"
  let ?sizes = "map (\<lambda>w. batch_sizer cfg (wi_resources w)) ws"
  have "\<exists>t n ups b. project ?progress ?sizes ?stats (saturating_sub target count) (multi_batch_size cfg) = Some (t, n, ups, b)
      \<and> length ups = length ?sizes"
    by (rule project_total) (use False in simp_all)
  then obtain t n ups b where "project ?progress ?sizes ?stats (saturating_sub target count) (multi_batch_size cfg) = Some (t, n, ups, b)"
    and "length ups = length ws" by auto
  moreover have "(case position (\<lambda>w. wi_peer w = p) ws of None \<Rightarrow> 0 | Some i \<Rightarrow> i) < length ws"
    using False by (auto split: option.split dest!: position_SomeD)
  ultimately show ?thesis using False by (auto simp: plan_update_def Let_def)
qed (auto simp: plan_update_def Let_def)

text \<open>The running statistic of a peer, and a bound on the samples that all of them count.\<close>

definition stat_at :: "sched \<Rightarrow> peer_id \<Rightarrow> running_mean" where
  "stat_at s q = fst (snd (entry_or_default q (worker_pool s)))"

definition stats_ok :: "nat \<Rightarrow> sched \<Rightarrow> bool" where
  "stats_ok b s \<longleftrightarrow> (\<forall>q. uint (samples (stat_at s q)) \<le> int b \<and> (samples (stat_at s q) \<noteq> 0 \<longrightarrow> uint (mean (stat_at s q)) < 2 ^ 63))"

lemma stat_at_simps [sched_simps]:
  "stat_at (snd (take_info s)) q = (if q \<in> active_peers (tp_members (worker_pool s)) then stat_at s q else rm_new)"
  "stat_at (set_worker p f s) q = stat_at s q"
  "stat_at (s\<lparr>parameter_pool := pp\<rparr>) q = stat_at s q"
  "stat_at (s\<lparr>round_st := r\<rparr>) q = stat_at s q"
  "stat_at (s\<lparr>training_st := t\<rparr>) q = stat_at s q"
  "stat_at (s\<lparr>sent_metrics := m\<rparr>) q = stat_at s q"
  "stat_at (s\<lparr>job_cancelled := b\<rparr>) q = stat_at s q"
  by (auto simp: stat_at_def take_info_eq train_info_def Let_def hash_retain_def set_worker_def train_update_state_def
      entry_or_default_def train_entry_default_def split: prod.split option.split)

lemma stat_at_update:
  "train_update_statistics p f (worker_pool s) = Some wp \<Longrightarrow>
   stat_at (s\<lparr>worker_pool := wp\<rparr>) q = (if q = p then fst (the (f (stat_at s p) (fst (entry_or_default p (worker_pool s))))) else stat_at s q)"
  by (auto simp: train_update_statistics_def stat_at_def entry_or_default_def split: prod.splits option.splits)

lemma stats_ok_simps [sched_simps]:
  "stats_ok b (set_worker p f s) = stats_ok b s"
  "stats_ok b (s\<lparr>parameter_pool := pp\<rparr>) = stats_ok b s"
  "stats_ok b (s\<lparr>round_st := r\<rparr>) = stats_ok b s"
  "stats_ok b (s\<lparr>training_st := t\<rparr>) = stats_ok b s"
  "stats_ok b (s\<lparr>sent_metrics := m\<rparr>) = stats_ok b s"
  "stats_ok b (s\<lparr>job_cancelled := x\<rparr>) = stats_ok b s"
  "stats_ok b (foldl (\<lambda>s w. set_worker (g w) f s) s ws) = stats_ok b s"
  by (simp_all add: stats_ok_def sched_simps) (induction ws arbitrary: s; simp add: sched_simps)

lemma stats_ok_take_info: "stats_ok b s \<Longrightarrow> stats_ok b (snd (take_info s))"
  by (simp add: stats_ok_def sched_simps rm_new_def)

lemma stats_ok_touch:
  "train_update_statistics p (\<lambda>st _. Some (st, x)) (worker_pool s) = Some wp \<Longrightarrow> stats_ok b (s\<lparr>worker_pool := wp\<rparr>) = stats_ok b s"
  by (auto simp: stats_ok_def stat_at_update)

lemma touch_Some: "train_update_statistics p (\<lambda>st _. Some (st, x)) wp \<noteq> None"
  by (auto simp: train_update_statistics_def split: prod.split)

lemma stats_ok_mono: "stats_ok b s \<Longrightarrow> b \<le> b' \<Longrightarrow> stats_ok b' s"
  by (auto simp: stats_ok_def intro: order_trans)

lemma batch_statistics_ok:
  assumes "stats_ok b s" and "int b + 2 ^ 32 < 2 ^ 63" and "uint (clk_since_start c) < 2 ^ 63"
  obtains wp where "train_update_statistics p (batch_statistics (clk_since_start c) n) (worker_pool s) = Some wp"
    and "stats_ok (b + 2 ^ 32) (s\<lparr>worker_pool := wp\<rparr>)"
proof -
  obtain lu m w where e: "entry_or_default p (worker_pool s) = (lu, m, w)" by (metis prod.exhaust)
  have m: "uint (samples m) \<le> int b" "samples m \<noteq> 0 \<longrightarrow> uint (mean m) < 2 ^ 63"
    using assms(1) e unfolding stats_ok_def stat_at_def by (metis fst_conv snd_conv)+
  have "\<exists>m' lu'. batch_statistics (clk_since_start c) n m lu = Some (m', lu')
     \<and> uint (samples m') \<le> int b + 2 ^ 32 \<and> (samples m' \<noteq> 0 \<longrightarrow> uint (mean m') < 2 ^ 63)"
  proof (cases "0 < lu \<and> 0 < (ucast n :: u64)")
    case True
    let ?t = "saturating_sub (clk_since_start c) lu"
    have "?t \<le> clk_since_start c" by (simp add: word_le_nat_alt unat_saturating_sub)
    then have t: "uint ?t < 2 ^ 63" using assms(3) unfolding word_le_def by linarith
    have un: "uint n < 2 ^ 32" using unsigned_less [of n, where ?'a = int] by simp
    then have "take_bit 64 (uint n) = uint n" by (intro take_bit_int_eq_self) auto
    with un have n: "uint (ucast n :: u64) < 2 ^ 32" by (simp add: unsigned_ucast_eq)
    with rm_update_between [of "ucast n" m ?t] m assms(2) True t obtain m' where
      m': "rm_update ?t (ucast n) m = Some m'" "uint (samples m') = uint (samples m) + uint (ucast n :: u64)"
      "if samples m = 0 then mean m' = ?t div ucast n else mean m' \<le> max (mean m) (?t div ucast n)" by auto
    have "0 < uint (ucast n :: u64)" using True by (simp add: word_less_def)
    then have "?t div ucast n \<le> ?t" by (simp add: word_le_def uint_div_distrib int_div_le)
    then have "uint (mean m') < 2 ^ 63" using m'(3) m(2) t by (auto simp: word_le_def max_def split: if_splits)
    then show ?thesis using True m' m n by (auto simp: batch_statistics_def)
  next
    case False
    then show ?thesis using m by (auto simp: batch_statistics_def rm_update_def)
  qed
  then obtain m' lu' where b: "batch_statistics (clk_since_start c) n m lu = Some (m', lu')"
     "uint (samples m') \<le> int b + 2 ^ 32" "samples m' \<noteq> 0 \<longrightarrow> uint (mean m') < 2 ^ 63" by blast
  obtain wp where wp: "train_update_statistics p (batch_statistics (clk_since_start c) n) (worker_pool s) = Some wp"
    using b(1) e by (simp add: train_update_statistics_def)
  have "stat_at (s\<lparr>worker_pool := wp\<rparr>) q = (if q = p then m' else stat_at s q)" for q
    using stat_at_update [OF wp, of q] b(1) e by (simp add: stat_at_def)
  with assms(1) b have "stats_ok (b + 2 ^ 32) (s\<lparr>worker_pool := wp\<rparr>)" 
    by (auto simp: stats_ok_def intro: order_trans [of _ "int b"])
  with that wp show thesis by blast
qed

lemma no_panic_batch:
  assumes "stats_ok b s" and "int b + 2 ^ 32 < 2 ^ 63" and "uint (clk_since_start c) < 2 ^ 63"
  shows "fst (handle_batch_completed cfg c bs n p s) \<noteq> Panicked \<and> stats_ok (b + 2 ^ 32) (snd (handle_batch_completed cfg c bs n p s))"
proof -
  obtain wp where wp: "train_update_statistics p (batch_statistics (clk_since_start c) n) (worker_pool s) = Some wp"
    and ok: "stats_ok (b + 2 ^ 32) (s\<lparr>worker_pool := wp\<rparr>)" using batch_statistics_ok [OF assms] .
  from stats_ok_take_info [OF ok] wp show ?thesis
    by (auto simp: handle_batch_completed_def split_beta Let_def sched_simps split: option.split)
qed

lemma no_panic_applied: "stats_ok b s \<Longrightarrow> fst (handle_applied_update c p s) \<noteq> Panicked \<and> stats_ok b (snd (handle_applied_update c p s))"
proof -
  assume ok: "stats_ok b s"
  let ?s = "set_worker p (applied_update_update (\<lambda>_. True)) s"
  obtain wp where wp: "train_update_statistics p (\<lambda>st _. Some (st, clk_since_start c)) (worker_pool ?s) = Some wp"
    using touch_Some by blast
  have "stats_ok b (?s\<lparr>worker_pool := wp\<rparr>)" using ok stats_ok_touch [OF wp] by (simp add: sched_simps)
  with stats_ok_take_info [OF this] wp show ?thesis
    by (auto simp: handle_applied_update_def split_beta Let_def sched_simps split: option.split)
qed

lemma no_panic_schedule:
  assumes "stats_ok b s" and "int b + 2 ^ 32 < 2 ^ 63" and "uint (clk_since_start c) < 2 ^ 63"
  shows "fst (schedule cfg c tx p st s) \<noteq> Panicked \<and> stats_ok (b + 2 ^ 32) (snd (schedule cfg c tx p st s))"
proof -
  let ?s = "s\<lparr>parameter_pool := snd (aggregate_info (parameter_pool s))\<rparr>"
  have ok: "stats_ok b ?s" using assms(1) by (simp add: sched_simps)
  note ok' = stats_ok_mono [OF ok le_add1] and ti = stats_ok_take_info
  note mono = stats_ok_mono [OF _ le_add1, of b]
  show ?thesis
  proof (cases st)
    case (TrainStatus t)
    have "fst (handle_train cfg c tx t p ?s) \<noteq> Panicked \<and> stats_ok (b + 2 ^ 32) (snd (handle_train cfg c tx t p ?s))"
    proof (cases t)
      case TrainIdle
      then show ?thesis using ok'
        by (auto simp: handle_train_def handle_idle_def handle_idle_training_def handle_idle_complete_def split_beta Let_def
            sched_simps split: option.split intro!: ti)
    next
      case (BatchCompleted bs n)
      then show ?thesis using no_panic_batch [OF ok assms(2,3)] by (simp add: handle_train_def)
    next
      case AppliedUpdate
      then show ?thesis using no_panic_applied [OF ok, of c p] mono by (auto simp: handle_train_def)
    qed (use ok' in \<open>auto simp: handle_train_def handle_joined_def handle_waited_for_model_def handle_sent_update_def
        handle_pushed_to_hub_def handle_train_error_def split_beta Let_def sched_simps split: option.split train_error.split intro!: ti\<close>)
    with TrainStatus show ?thesis by simp
  next
    case (AggregateStatus a)
    have "fst (handle_aggregate c tx a p ?s) \<noteq> Panicked \<and> stats_ok (b + 2 ^ 32) (snd (handle_aggregate c tx a p ?s))"
      using ok' by (cases a) (auto simp: handle_aggregate_def handle_aggregate_idle_def handle_aggregated_updates_def
        handle_broadcasted_update_def handle_aggregate_error_def reset_applied_def reset_samples_def split_beta Let_def sched_simps
        split: option.split aggregate_error.split intro!: ti)
    with AggregateStatus show ?thesis by simp
  qed
qed

lemma no_panic_run:
  assumes "stats_ok b s" and "int b + int (length es) * 2 ^ 32 < 2 ^ 63"
    and "\<forall>c tx p st. Ask c tx p st \<in> set es \<longrightarrow> uint (clk_since_start c) < 2 ^ 63"
  shows "Panicked \<notin> set (fst (sched_run cfg es s))"
  using assms
proof (induction es arbitrary: s b)
  case (Cons e es)
  show ?case
  proof (cases e)
    case (Ask c tx p st)
    let ?s = "snd (schedule cfg c tx p st s)"
    have "int b + 2 ^ 32 < 2 ^ 63" using Cons.prems(2) by simp
    then have st: "fst (schedule cfg c tx p st s) \<noteq> Panicked \<and> stats_ok (b + 2 ^ 32) ?s"
      using Cons.prems(1,3) Ask by (intro no_panic_schedule) auto
    then have "Panicked \<notin> set (fst (sched_run cfg es ?s))"
      using Cons.prems(2,3) by (intro Cons.IH [of "b + 2 ^ 32"]) auto
    with st Ask show ?thesis by (auto simp: split_beta Let_def)
  next
    case (Members ws ps)
    have "stats_ok b (s\<lparr>worker_pool := (worker_pool s)\<lparr>tp_members := ws\<rparr>, parameter_pool := (parameter_pool s)\<lparr>ap_members := ps\<rparr>\<rparr>)"
      using Cons.prems(1) by (simp add: stats_ok_def stat_at_def entry_or_default_def)
    then show ?thesis using Cons.prems(2,3) Members Cons.IH [of b] by auto
  qed
qed simp

text \<open>
  C14. Handling a request never panics: in any run of fewer than two billion requests and changes of membership, with
  clocks below half of their range, no division by zero, overflowing division or index out of range
  happens, whatever the peers report.
\<close>

theorem schedule_never_panics:
  assumes "tp_info wp = Map.empty" and "length es < 2 ^ 31"
    and "\<forall>c tx p st. Ask c tx p st \<in> set es \<longrightarrow> uint (clk_since_start c) < 2 ^ 63"
  shows "Panicked \<notin> set (fst (sched_run cfg es (sched_init wp pp start quorum gr n k)))"
proof (rule no_panic_run [of 0])
  show "stats_ok 0 (sched_init wp pp start quorum gr n k)"
    using assms(1) by (simp add: stats_ok_def stat_at_def sched_init_def entry_or_default_def train_entry_default_def rm_new_def)
  have "int (length es) < 2 ^ 31" using assms(2) by simp
  then show "int 0 + int (length es) * 2 ^ 32 < 2 ^ 63" by simp
qed (use assms(3) in blast)

theorem schedule_never_panics_witness:
  "Panicked \<notin> set (fst (sched_run demo_cfg demo_trace (sched_init demo_wp demo_pp 0 1 0 10 1)))"
  by (rule schedule_never_panics) (auto simp: demo_wp_def demo_trace_def demo_clock_def)

end
