(* ===== verification/Batch_Stall.thy ===== *)
theory Batch_Stall
  imports Batch_Runs
begin

text \<open>
  The last round: a worker that reports an applied update before the parameter server reports the
  broadcast is not recorded as having applied the final one, and nobody is asked again.
\<close>

section \<open>A state that no poll leaves\<close>

definition stalled :: "sched \<Rightarrow> bool" where
  "stalled s \<longleftrightarrow> training_complete (round_st s) \<and> aggregated_updates (round_st s) \<and> \<not> push_done (round_st s)
     \<and> tp_members (worker_pool s) \<noteq> []
     \<and> (\<forall>q\<in>active_peers (tp_members (worker_pool s)).
          applied_update (worker_state_at s q) \<and> \<not> applied_final_update (worker_state_at s q))"

fun idle_poll :: "peer_id set \<Rightarrow> sched_event \<Rightarrow> bool" where
  "idle_poll ps (Ask c tx p st) \<longleftrightarrow> (st = TrainStatus TrainIdle \<and> p \<in> ps) \<or> st = AggregateStatus AggregateIdle"
| "idle_poll ps (Members _ _) \<longleftrightarrow> False"

definition idle_reply :: "reply \<Rightarrow> bool" where
  "idle_reply r \<longleftrightarrow> (\<exists>t. r = Reply (train_idle t) \<or> r = Reply (aggregate_idle t))"

lemma idle_reply_simps [simp]: "idle_reply (Reply (train_idle t))" "idle_reply (Reply (aggregate_idle t))"
  by (auto simp: idle_reply_def)

lemma find_worker_member:
  assumes "p \<in> active_peers (tp_members (worker_pool s))"
  obtains w where "find_worker p (fst (take_info s)) = Some w" and "wi_state w = worker_state_at s p"
proof -
  obtain v where "v \<in> set (fst (take_info s))" "wi_peer v = p" using assms unfolding take_info_active by blast
  then have "find_worker p (fst (take_info s)) \<noteq> None" by (auto simp: find_worker_def find_None_iff)
  then obtain w where "find_worker p (fst (take_info s)) = Some w" by blast
  with that find_worker_state(1) show thesis by blast
qed

lemma stalled_take_info: "stalled s \<Longrightarrow> stalled (snd (take_info s))"
  by (simp add: stalled_def sched_simps)

lemma stalled_prune: "stalled (s\<lparr>parameter_pool := pp\<rparr>) = stalled s"
  by (simp add: stalled_def sched_simps)

lemma stalled_train_idle:
  assumes "stalled s" and "p \<in> active_peers (tp_members (worker_pool s))"
  shows "handle_idle cfg c p s = (Reply (train_idle (short_idle c)), snd (take_info s))"
proof -
  from assms(2) obtain w where w: "find_worker p (fst (take_info s)) = Some w" "wi_state w = worker_state_at s p"
    by (rule find_worker_member)
  with assms show ?thesis
    by (simp add: stalled_def handle_idle_def handle_idle_complete_def split_beta Let_def sched_simps)
qed

lemma stalled_aggregate_idle:
  assumes "stalled s"
  shows "handle_aggregate_idle c p s = (Reply (aggregate_idle (short_idle c)), snd (take_info s))"
proof -
  obtain d where "d \<in> set (tp_members (worker_pool s))" using assms by (metis list.set_intros(1) neq_Nil_conv stalled_def)
  then have "wd_peer d \<in> active_peers (tp_members (worker_pool s))" by (auto simp: active_peers_def)
  then obtain w where "w \<in> set (fst (take_info s))" "wi_peer w = wd_peer d" unfolding take_info_active by blast
  moreover from this have "\<not> applied_final_update (wi_state w)"
    using assms take_info_states [of w s] by (simp add: stalled_def)
  ultimately have "\<not> (\<forall>w\<in>set (fst (take_info s)). applied_final_update (wi_state w))" by blast
  then show ?thesis using assms by (auto simp: stalled_def handle_aggregate_idle_def split_beta Let_def)
qed

lemma stalled_poll:
  assumes "stalled s" and "idle_poll (active_peers (tp_members (worker_pool s))) (Ask c tx p st)"
  shows "idle_reply (fst (schedule cfg c tx p st s)) \<and> stalled (snd (schedule cfg c tx p st s))
    \<and> tp_members (worker_pool (snd (schedule cfg c tx p st s))) = tp_members (worker_pool s)"
proof -
  let ?s = "s\<lparr>parameter_pool := snd (aggregate_info (parameter_pool s))\<rparr>"
  have st: "stalled ?s" using assms(1) by (simp add: stalled_prune)
  show ?thesis using assms(2) stalled_train_idle [OF st, of p cfg c] stalled_aggregate_idle [OF st, of c p] stalled_take_info [OF st]
    by (auto simp: handle_train_def handle_aggregate_def sched_simps)
qed

lemma stalled_run:
  assumes "stalled s" and "\<forall>r\<in>set rs. idle_poll (active_peers (tp_members (worker_pool s))) r"
  shows "(\<forall>r\<in>set (fst (sched_run cfg rs s)). idle_reply r) \<and> stalled (snd (sched_run cfg rs s))"
  using assms
proof (induction rs arbitrary: s)
  case (Cons a rs)
  obtain c tx p st where a: "a = Ask c tx p st"
    using Cons.prems(2) by (metis idle_poll.simps(2) list.set_intros(1) sched_event.exhaust)
  from stalled_poll [OF Cons.prems(1), of c tx p st cfg] Cons.prems(2) Cons.IH [of "snd (schedule cfg c tx p st s)"]
  show ?case by (auto simp: a split_beta Let_def)
qed simp

lemma broadcast_reset_state:
  assumes "q \<in> active_peers (tp_members (worker_pool s))"
  shows "applied_update (worker_state_at (broadcast_reset x s) q) = applied_update (worker_state_at s q)"
    and "applied_final_update (worker_state_at (broadcast_reset x s) q) = applied_final_update (worker_state_at s q)"
proof -
  let ?s = "s\<lparr>sent_metrics := sent_metrics s @ [x]\<rparr>"
  let ?f = "\<lambda>st. st\<lparr>sent_update := False, samples_processed := 0\<rparr>"
  have "worker_state_at (broadcast_reset x s) q = worker_state_at (reset_samples (fst (take_info ?s)) (snd (take_info ?s))) q"
    by (simp add: broadcast_reset_def Let_def sched_simps split: option.split)
  also have "\<dots> \<in> {?f (worker_state_at (snd (take_info ?s)) q), worker_state_at (snd (take_info ?s)) q}"
    unfolding reset_samples_def by (subst foldl_set_worker_state) simp_all
  also have "worker_state_at (snd (take_info ?s)) q = worker_state_at s q" using assms by (simp add: sched_simps)
  finally show "applied_update (worker_state_at (broadcast_reset x s) q) = applied_update (worker_state_at s q)"
    and "applied_final_update (worker_state_at (broadcast_reset x s) q) = applied_final_update (worker_state_at s q)"
    by auto
qed

text \<open>
  C16. The last round may never end: when every worker has reported its applied update before
  the parameter server reports the broadcast of the last round, training completes with no worker recorded as
  having applied the final update, and from then on every poll of a worker or of a parameter server is answered with
  \<^verbatim>\<open>Idle\<close>. Nobody pushes the result, and nobody terminates.
\<close>

theorem final_round_stalls:
  assumes "sched_ok s" and "\<not> training_complete (round_st s)"
    and "update_rounds (round_st s) \<le> saturating_add (round (round_st s)) 1"
    and "aggregated_updates (round_st s)" and "tp_members (worker_pool s) \<noteq> []"
    and "\<forall>q\<in>active_peers (tp_members (worker_pool s)). applied_update (worker_state_at s q)"
    and "\<forall>r\<in>set polls. idle_poll (active_peers (tp_members (worker_pool s))) r"
  shows "\<forall>r\<in>set (fst (sched_run cfg (Ask c True p (AggregateStatus (BroadcastedUpdate m)) # polls) s)). idle_reply r"
proof -
  let ?s = "s\<lparr>parameter_pool := snd (aggregate_info (parameter_pool s))\<rparr>"
  let ?s' = "snd (schedule cfg c True p (AggregateStatus (BroadcastedUpdate m)) s)"
  have f: "\<not> applied_final_update (worker_state_at s q)" "\<not> push_done (round_st s)" for q
    using assms(1,2) by (auto simp: sched_ok_def worker_ok_def)
  have "stalled ?s' \<and> idle_reply (fst (schedule cfg c True p (AggregateStatus (BroadcastedUpdate m)) s))
    \<and> tp_members (worker_pool ?s') = tp_members (worker_pool s)"
  proof (cases rule: handle_broadcasted_cases [of True c m p ?s])
    case (advance x s2)
    have w: "applied_update (worker_state_at s2 q) \<and> \<not> applied_final_update (worker_state_at s2 q)"
      if "q \<in> active_peers (tp_members (worker_pool s))" for q
      using broadcast_reset_state [of q ?s x] that assms(6) f by (simp add: advance(2) sched_simps)
    have "round_st s2 = round_st s" "tp_members (worker_pool s2) = tp_members (worker_pool s)"
      by (simp_all add: advance(2) broadcast_reset_fields)
    then show ?thesis using advance(4) assms(2-5) f w
      by (simp add: handle_aggregate_def Let_def stalled_def advance_round_def sched_simps)
  qed simp
  with stalled_run [of ?s' polls cfg] assms(7) show ?thesis by (simp add: split_beta Let_def)
qed

theorem final_round_stalls_witness:
  "list_all idle_reply (fst (sched_run demo_cfg (Ask (demo_clock 7) True 9 (AggregateStatus (BroadcastedUpdate None)) #
      [Ask (demo_clock 8) True 5 (TrainStatus TrainIdle), Ask (demo_clock 9) True 9 (AggregateStatus AggregateIdle)])
      (snd (sched_run demo_cfg demo_trace demo_sched))))"
proof -
  obtain m where m: "snd (sched_run demo_cfg demo_trace demo_sched) = demo_at [5 \<mapsto> demo_worker 6 True] [9 \<mapsto> {5}] True (Some 2) (Some 3) 10 [m]"
    by (rule demo_run)
  show ?thesis unfolding list_all_iff
  proof (rule final_round_stalls)
    show "sched_ok (snd (sched_run demo_cfg demo_trace demo_sched))"
      by (rule sched_steps_ok [OF sched_run_steps demo_sched_ok])
  qed (simp_all add: m demo_at_def demo_member_def active_peers_def worker_state_at_def state_of_def entry_or_default_def
      saturating_add_def)
qed

end
