(* ===== verification/Net_Answers.thy ===== *)
theory Net_Answers
  imports Prelude "HOL-Library.Multiset"
begin

text \<open>
  What the drivers of the network share: a caller hands over the sending end of a channel, the driver files it
  under an identifier that the library gives it, and a later event of the library settles it. The locale
  \<open>answering\<close> is that contract; it is proved here, once, that nobody is forgotten and nobody is answered twice.
\<close>

section \<open>Tables of channels that wait for an answer\<close>

text \<open>A channel is named by its sending end. What was sent on which channel is kept as a log.\<close>

type_synonym chan = nat

datatype ('id, 'v) effect = Register 'id chan | Settle 'id 'v | Refuse chan 'v | Quiet

type_synonym ('id, 'v) table = "('id \<rightharpoonup> chan) \<times> (chan \<times> 'v) list"

fun take_effect :: "('id, 'v) effect \<Rightarrow> ('id, 'v) table \<Rightarrow> ('id, 'v) table" where
  "take_effect (Register i c) (p, a) = (p(i \<mapsto> c), a)"
| "take_effect (Settle i v) (p, a) = (case p i of None \<Rightarrow> (p, a) | Some c \<Rightarrow> (p(i := None), a @ [(c, v)]))"
| "take_effect (Refuse c v) (p, a) = (p, a @ [(c, v)])"
| "take_effect Quiet t = t"

fun effects_ids :: "('id, 'v) effect list \<Rightarrow> 'id list" where
  "effects_ids [] = []"
| "effects_ids (Register i c # es) = i # effects_ids es"
| "effects_ids (_ # es) = effects_ids es"

fun effects_asked :: "('id, 'v) effect list \<Rightarrow> chan list" where
  "effects_asked [] = []"
| "effects_asked (Register i c # es) = c # effects_asked es"
| "effects_asked (Refuse c v # es) = c # effects_asked es"
| "effects_asked (_ # es) = effects_asked es"

lemma effects_append [simp]:
  "effects_ids (es @ fs) = effects_ids es @ effects_ids fs"
  "effects_asked (es @ fs) = effects_asked es @ effects_asked fs"
  by (induction es rule: effects_ids.induct) auto

lemma in_effects_ids: "i \<in> set (effects_ids es) \<longleftrightarrow> (\<exists>c. Register i c \<in> set es)"
  by (induction es rule: effects_ids.induct) auto

lemma register_asked: "Register i c \<in> set es \<Longrightarrow> c \<in> set (effects_asked es)"
  by (induction es rule: effects_asked.induct) auto

text \<open>The channels that wait, in the order of their registration.\<close>

definition waiting :: "('id \<rightharpoonup> chan) \<Rightarrow> 'id list \<Rightarrow> chan list" where
  "waiting p ids = List.map_filter p ids"

lemma waiting_simps [simp]:
  "waiting p [] = []" "waiting p (i # is) = (case p i of None \<Rightarrow> waiting p is | Some c \<Rightarrow> c # waiting p is)"
  "waiting p (is @ js) = waiting p is @ waiting p js"
  by (auto simp: waiting_def List.map_filter_def split: option.splits)

lemma waiting_fresh: "i \<notin> set is \<Longrightarrow> waiting (p(i := x)) is = waiting p is"
  by (induction "is") (auto split: option.splits)

lemma mset_waiting_settle:
  "p i = Some c \<Longrightarrow> i \<in> set is \<Longrightarrow> distinct is \<Longrightarrow> mset (waiting p is) = add_mset c (mset (waiting (p(i := None)) is))"
  by (induction "is") (auto simp: waiting_fresh split: option.splits)

lemma take_effects_conserve:
  assumes "foldl (\<lambda>t e. take_effect e t) (Map.empty, []) es = (p, a)" and "distinct (effects_ids es)"
  shows "dom p \<subseteq> set (effects_ids es) \<and> mset (map fst a) + mset (waiting p (effects_ids es)) = mset (effects_asked es)"
  using assms
proof (induction es arbitrary: p a rule: rev_induct)
  case (snoc e es)
  obtain p0 a0 where t: "foldl (\<lambda>t e. take_effect e t) (Map.empty, []) es = (p0, a0)" by force
  with snoc have IH: "dom p0 \<subseteq> set (effects_ids es)" "mset (map fst a0) + mset (waiting p0 (effects_ids es)) = mset (effects_asked es)"
    by auto
  from snoc.prems(1) t have r: "take_effect e (p0, a0) = (p, a)" by simp
  show ?case
  proof (cases e)
    case (Register i c)
    with r have pa: "p = p0(i \<mapsto> c)" "a = a0" by auto
    from Register snoc.prems(2) have "i \<notin> set (effects_ids es)" by simp
    with pa(1) have "waiting p (effects_ids es) = waiting p0 (effects_ids es)" by (metis waiting_fresh)
    moreover have "dom p = insert i (dom p0)" "p i = Some c" using pa by simp_all
    ultimately show ?thesis using IH Register pa(2) by auto
  next
    case (Settle i v)
    show ?thesis
    proof (cases "p0 i")
      case None
      with Settle r IH show ?thesis by simp
    next
      case (Some c)
      with IH(1) have "i \<in> set (effects_ids es)" by auto
      moreover have pa: "p = p0(i := None)" "a = a0 @ [(c, v)]" using r Settle Some by simp_all
      ultimately have "mset (waiting p0 (effects_ids es)) = add_mset c (mset (waiting p (effects_ids es)))"
        using mset_waiting_settle [of p0 i c "effects_ids es"] Some Settle snoc.prems(2) by simp
      moreover have "dom p \<subseteq> dom p0" using pa(1) by auto
      ultimately show ?thesis using IH Settle pa(2) by auto
    qed
  qed (use r IH in auto)
qed simp

text \<open>Every answer is the one that the library, or a refusal, gave for that very channel.\<close>

definition own_answer :: "('id, 'v) effect set \<Rightarrow> chan \<Rightarrow> 'v \<Rightarrow> bool" where
  "own_answer E c v \<longleftrightarrow> Refuse c v \<in> E \<or> (\<exists>i. Register i c \<in> E \<and> Settle i v \<in> E)"

lemma own_answer_mono: "own_answer E c v \<Longrightarrow> E \<subseteq> F \<Longrightarrow> own_answer F c v"
  by (auto simp: own_answer_def)

lemma take_effects_answers:
  assumes "foldl (\<lambda>t e. take_effect e t) (Map.empty, []) es = (p, a)"
  shows "(\<forall>i c. p i = Some c \<longrightarrow> Register i c \<in> set es) \<and> (\<forall>(c, v)\<in>set a. own_answer (set es) c v)"
  using assms
proof (induction es arbitrary: p a rule: rev_induct)
  case (snoc e es)
  obtain p0 a0 where t: "foldl (\<lambda>t e. take_effect e t) (Map.empty, []) es = (p0, a0)" by force
  define E where "E = set (es @ [e])"
  have IH: "p0 i = Some c \<Longrightarrow> Register i c \<in> E" "(c, v) \<in> set a0 \<Longrightarrow> own_answer E c v" for i c v
    using snoc.IH [OF t] by (auto simp: E_def intro: own_answer_mono)
  from snoc.prems t have r: "take_effect e (p0, a0) = (p, a)" by simp
  have "e \<in> E" by (simp add: E_def)
  have "(\<forall>i c. p i = Some c \<longrightarrow> Register i c \<in> E) \<and> (\<forall>(c, v)\<in>set a. own_answer E c v)"
  proof (cases e)
    case (Settle i v)
    show ?thesis
    proof (cases "p0 i")
      case (Some c)
      with Settle \<open>e \<in> E\<close> IH(1) have "own_answer E c v" unfolding own_answer_def by blast
      moreover from Some Settle r have "p = p0(i := None)" "a = a0 @ [(c, v)]" by simp_all
      ultimately show ?thesis using IH by auto
    qed (use Settle r IH in auto)
  next
    case (Refuse c v)
    with \<open>e \<in> E\<close> have "own_answer E c v" by (simp add: own_answer_def)
    with Refuse r IH show ?thesis by auto
  qed (use r IH \<open>e \<in> E\<close> in \<open>auto split: if_splits\<close>)
  then show ?case by (simp add: E_def)
qed simp

text \<open>What was settled after it was filed does not wait any more.\<close>

lemma settled_not_waiting:
  assumes "foldl (\<lambda>t e. take_effect e t) t es = (p, a)" and "Settle i v \<in> set es" and "i \<notin> set (effects_ids es)"
  shows "p i = None"
  using assms
proof (induction es arbitrary: p a rule: rev_induct)
  case (snoc e es)
  obtain p0 a0 where t: "foldl (\<lambda>t e. take_effect e t) t es = (p0, a0)" by force
  from snoc.prems(1) t have r: "take_effect e (p0, a0) = (p, a)" by simp
  show ?case
  proof (cases "Settle i v \<in> set es")
    case True
    then have "p0 i = None" using snoc t by auto
    with r snoc.prems(3) show ?thesis by (cases e) (auto split: option.splits)
  next
    case False
    with snoc.prems(2) have "e = Settle i v" by simp
    with r show ?thesis by (auto split: option.splits)
  qed
qed simp

text \<open>A channel that waits under one identifier, and has no answer; it stays so while nothing is about either.\<close>

definition unanswered :: "'id \<Rightarrow> chan \<Rightarrow> ('id, 'v) table \<Rightarrow> bool" where
  "unanswered i c t \<longleftrightarrow> fst t i = Some c \<and> c \<notin> fst ` set (snd t) \<and> (\<forall>j. fst t j = Some c \<longrightarrow> j = i)"

fun about :: "'id \<Rightarrow> chan \<Rightarrow> ('id, 'v) effect \<Rightarrow> bool" where
  "about i c (Register j d) \<longleftrightarrow> j = i \<or> d = c"
| "about i c (Settle j v) \<longleftrightarrow> j = i"
| "about i c (Refuse d v) \<longleftrightarrow> d = c"
| "about i c Quiet \<longleftrightarrow> False"

lemma unansweredI:
  "p i = Some c \<Longrightarrow> c \<notin> fst ` set a \<Longrightarrow> (\<And>j. p j = Some c \<Longrightarrow> j = i) \<Longrightarrow> unanswered i c (p, a)"
  unfolding unanswered_def fst_conv snd_conv by blast

lemma unanswered_effect:
  assumes "unanswered i c (p, a)" and "\<not> about i c e"
  shows "unanswered i c (take_effect e (p, a))"
proof -
  have w: "p i = Some c" "c \<notin> fst ` set a" and only: "\<And>j. p j = Some c \<Longrightarrow> j = i"
    using assms(1) unfolding unanswered_def fst_conv snd_conv by blast+
  show ?thesis
  proof (cases e)
    case (Register j d)
    with assms(2) have "j \<noteq> i" "d \<noteq> c" by auto
    then have "unanswered i c (p(j \<mapsto> d), a)" using w by (intro unansweredI) (auto split: if_splits intro: only)
    with Register show ?thesis by simp
  next
    case (Settle j v)
    show ?thesis
    proof (cases "p j")
      case (Some d)
      have "d \<noteq> c" "j \<noteq> i" using Settle assms(2) only [of j] Some by auto
      then have "unanswered i c (p(j := None), a @ [(d, v)])" using w by (intro unansweredI) (auto split: if_splits intro: only)
      with Settle Some show ?thesis by simp
    qed (use Settle assms(1) in simp)
  next
    case (Refuse d v)
    with assms(2) have "unanswered i c (p, a @ [(d, v)])" using w by (intro unansweredI) (auto intro: only)
    with Refuse show ?thesis by simp
  qed (use assms in simp)
qed

section \<open>The contract of a driver\<close>

locale answering =
  fixes step :: "'e \<Rightarrow> 's \<Rightarrow> 's" and effect :: "'e \<Rightarrow> ('id, 'v) effect" and view :: "'s \<Rightarrow> ('id, 'v) table"
  assumes step_view: "view (step e s) = take_effect (effect e) (view s)"
begin

lemma run_view: "view (foldl (\<lambda>s e. step e s) s es) = foldl (\<lambda>t e. take_effect e t) (view s) (map effect es)"
  by (induction es arbitrary: s) (simp_all add: step_view)

lemma run_conserves:
  assumes "view s = (Map.empty, [])" and "view (foldl (\<lambda>s e. step e s) s es) = (p, a)"
    and "distinct (effects_ids (map effect es))"
  shows "mset (map fst a) + mset (waiting p (effects_ids (map effect es))) = mset (effects_asked (map effect es))"
  using take_effects_conserve [of "map effect es" p a] assms by (simp add: run_view)

lemma run_answers_own:
  assumes "view s = (Map.empty, [])" and "view (foldl (\<lambda>s e. step e s) s es) = (p, a)" and "(c, v) \<in> set a"
  shows "own_answer (effect ` set es) c v"
  using take_effects_answers [of "map effect es" p a] assms by (auto simp: run_view)

text \<open>With channels that are handed over once: at most one answer each, and one as soon as it is settled.\<close>

lemma run_once:
  assumes "view s = (Map.empty, [])" and "view (foldl (\<lambda>s e. step e s) s es) = (p, a)"
    and "distinct (effects_ids (map effect es))" and "distinct (effects_asked (map effect es))"
  shows "distinct (map fst a) \<and> set (map fst a) \<inter> set (waiting p (effects_ids (map effect es))) = {}
    \<and> set (map fst a) \<union> set (waiting p (effects_ids (map effect es))) = set (effects_asked (map effect es))"
proof -
  let ?w = "waiting p (effects_ids (map effect es))"
  have m: "mset (map fst a @ ?w) = mset (effects_asked (map effect es))" using run_conserves [OF assms(1-3)] by simp
  with assms(4) have "distinct (map fst a @ ?w)" by (metis mset_eq_imp_distinct_iff)
  moreover have "set (map fst a @ ?w) = set (effects_asked (map effect es))" using m by (metis set_mset_mset)
  ultimately show ?thesis by auto
qed

lemma run_settled:
  assumes "view (foldl (\<lambda>s e. step e s) s es) = (p, a)" and "e \<in> set es" and "effect e = Settle i v"
    and "\<forall>e\<in>set es. \<forall>c. effect e \<noteq> Register i c"
  shows "p i = None"
proof -
  have "Settle i v \<in> set (map effect es)" using assms(2,3) by force
  moreover have "i \<notin> set (effects_ids (map effect es))" using assms(4) by (auto simp: in_effects_ids) metis
  ultimately show ?thesis using settled_not_waiting [of "view s" "map effect es" p a i v] assms(1) by (simp add: run_view)
qed

lemma run_settled_answered:
  assumes "view s = (Map.empty, [])" and "view (foldl (\<lambda>s e. step e s) s (es1 @ e # es2)) = (p, a)"
    and "distinct (effects_ids (map effect (es1 @ e # es2)))" and "distinct (effects_asked (map effect (es1 @ e # es2)))"
    and "effect e = Register i c" and "e' \<in> set es2" and "effect e' = Settle i v"
  shows "c \<in> fst ` set a"
proof (rule ccontr)
  let ?es = "map effect (es1 @ e # es2)"
  assume "c \<notin> fst ` set a"
  moreover have "c \<in> set (effects_asked ?es)" using assms(5) by simp
  ultimately have "c \<in> set (waiting p (effects_ids ?es))" using run_once [OF assms(1-4)] by auto
  then obtain j where j: "p j = Some c" by (auto simp: waiting_def List.map_filter_def)
  have "foldl (\<lambda>t e. take_effect e t) (Map.empty, []) ?es = (p, a)" using run_view [of s "es1 @ e # es2"] assms(1,2) by metis
  from take_effects_answers [OF this] j have "Register j c \<in> set ?es" by blast
  then have "Register j c = Register i c \<or> Register j c \<in> set (map effect es1) \<or> Register j c \<in> set (map effect es2)"
    using assms(5) by auto
  then have "j = i" using assms(4,5) register_asked [of j c "map effect es1"] register_asked [of j c "map effect es2"] by auto
  moreover have "p i = None"
  proof (rule run_settled)
    show "view (foldl (\<lambda>s e. step e s) (foldl (\<lambda>s e. step e s) s (es1 @ [e])) es2) = (p, a)" using assms(2) by simp
    show "\<forall>e\<in>set es2. \<forall>c. effect e \<noteq> Register i c" using assms(3,5) by (auto simp: in_effects_ids image_iff) metis
  qed (rule assms(6,7))+
  ultimately show False using j by simp
qed

lemma run_unanswered:
  "unanswered i c (view s) \<Longrightarrow> \<forall>e\<in>set es. \<not> about i c (effect e) \<Longrightarrow> unanswered i c (view (foldl (\<lambda>s e. step e s) s es))"
proof (induction es arbitrary: s)
  case (Cons e es)
  obtain p a where "view s = (p, a)" by force
  with Cons.prems have "unanswered i c (view (step e s))" by (simp add: step_view unanswered_effect)
  with Cons show ?case by simp
qed simp

end

end
