(* ===== verification/Net_Streams.thy ===== *)
theory Net_Streams
  imports Prelude "HOL-Library.Sublist"
begin

text \<open>
  The length-checked streams of \<^verbatim>\<open>crates/network/src/utils.rs\<close> and the two protocols over them,
  \<^verbatim>\<open>stream_push.rs\<close> and \<^verbatim>\<open>stream_pull.rs\<close>: a payload travels behind a header of eight bytes that announces
  its length, and both ends enforce it. The sockets are parameters; what they promise is stated by
  the locales \<open>async_reader\<close> and \<open>async_writer\<close>, which the length-checked ends keep in turn.
\<close>

section \<open>Polls, buffers and bytes\<close>

type_synonym byte = "8 word"

text \<open>A poll is not ready, gives a result, or panics.\<close>

datatype 'a poll = Pending | Ready 'a | Panicked

lemma poll_cases:
  obtains (pending) s where "y = (Pending, s)"
  | (ok) v s where "y = (Ready (Inr v), s)"
  | (error) e s where "y = (Ready (Inl e), s)"
  | (panic) s where "y = (Panicked, s)"
  by (metis poll.exhaust sum.exhaust surj_pair)

datatype io_error = UnexpectedEof | InvalidData | WriteZero | OtherIo string

text \<open>
  The \<^verbatim>\<open>ReadBuf\<close> that a reader fills: the room that is left in it and how much of that room is
  initialised. \<^verbatim>\<open>advance\<close> panics beyond the initialised part, and \<^verbatim>\<open>take\<close> gives a buffer
  in which nothing is initialised.
\<close>

record read_buf =
  room :: nat
  initialised :: nat

definition buf_new :: "nat \<Rightarrow> read_buf" where
  "buf_new n = \<lparr>room = n, initialised = n\<rparr>"

definition buf_take :: "nat \<Rightarrow> read_buf \<Rightarrow> read_buf" where
  "buf_take n b = \<lparr>room = min (room b) n, initialised = 0\<rparr>"

lemma buf_simps [simp]:
  "room (buf_new n) = n" "initialised (buf_new n) = n" "room (buf_take n b) = min (room b) n"
  by (simp_all add: buf_new_def buf_take_def)

text \<open>\<^verbatim>\<open>u64::to_le_bytes\<close> and \<^verbatim>\<open>u64::from_le_bytes\<close>.\<close>

definition to_le_bytes :: "u64 \<Rightarrow> byte list" where
  "to_le_bytes n = map (\<lambda>i. of_nat (unat n div 256 ^ i mod 256)) [0..<8]"

fun le_value :: "byte list \<Rightarrow> nat" where
  "le_value [] = 0"
| "le_value (b # bs) = unat b + 256 * le_value bs"

definition from_le_bytes :: "byte list \<Rightarrow> u64" where
  "from_le_bytes bs = of_nat (le_value bs)"

lemma length_to_le_bytes [simp]: "length (to_le_bytes n) = 8"
  by (simp add: to_le_bytes_def)

lemma le_value_digits:
  "le_value (map (\<lambda>i. of_nat (x div 256 ^ i mod 256)) [m..<m + k]) = x div 256 ^ m mod 256 ^ k"
proof (induction k arbitrary: m)
  case (Suc k)
  let ?d = "\<lambda>i. of_nat (x div 256 ^ i mod 256) :: byte"
  have "le_value (map ?d [m..<m + Suc k]) = unat (?d m) + 256 * le_value (map ?d [Suc m..<Suc m + k])"
    by (subst upt_conv_Cons) simp_all
  also have "unat (?d m) = x div 256 ^ m mod 256" by (simp add: unat_of_nat)
  also have "le_value (map ?d [Suc m..<Suc m + k]) = x div 256 ^ m div 256 mod 256 ^ k"
    by (simp only: Suc.IH power_Suc2 div_mult2_eq)
  also have "x div 256 ^ m mod 256 + 256 * (x div 256 ^ m div 256 mod 256 ^ k) = x div 256 ^ m mod 256 ^ Suc k"
    by (simp add: mod_mult2_eq)
  finally show ?case .
qed simp

lemma le_bytes_roundtrip [simp]: "from_le_bytes (to_le_bytes n) = n"
proof -
  have "unat n < 2 ^ LENGTH(64)" by (rule unsigned_less)
  then have "unat n < 256 ^ 8" by simp
  then show ?thesis
    using le_value_digits [of "unat n" 0 8] by (simp add: from_le_bytes_def to_le_bytes_def del: upt_rec_numeral)
qed

lemma unat_sub_of_nat: "k \<le> unat r \<Longrightarrow> unat (r - of_nat k) = unat r - k" for r :: u64
proof -
  assume k: "k \<le> unat r"
  then have "unat (of_nat k :: u64) = k"
    using unsigned_less [of r, where ?'a = nat] by (simp add: unat_of_nat)
  with k show ?thesis by (simp add: unat_sub word_le_nat_alt)
qed

section \<open>What a reader and a writer promise\<close>

type_synonym 'r reader = "'r \<Rightarrow> read_buf \<Rightarrow> (io_error + byte list) poll \<times> 'r"
type_synonym 'w writer = "'w \<Rightarrow> byte list \<Rightarrow> (io_error + nat) poll \<times> 'w"

text \<open>
  \<open>source r\<close> is what is still to come from a reader. A read delivers a prefix of it that fits the
  buffer; reading nothing into a buffer with room is the end.
\<close>

locale async_reader =
  fixes rd :: "'r reader" and source :: "'r \<Rightarrow> byte list"
  assumes read_bytes: "rd r b = (Ready (Inr bs), r') \<Longrightarrow> source r = bs @ source r' \<and> length bs \<le> room b"
    and read_other: "rd r b = (Pending, r') \<or> rd r b = (Ready (Inl e), r') \<Longrightarrow> source r' = source r"
    and read_end: "rd r b = (Ready (Inr []), r') \<Longrightarrow> 0 < room b \<Longrightarrow> source r = []"

text \<open>\<open>sent w\<close> is what a writer has taken so far. A write takes a prefix of what it is given.\<close>

locale async_writer =
  fixes wr :: "'w writer" and sent :: "'w \<Rightarrow> byte list"
  assumes write_bytes: "wr w bs = (Ready (Inr k), w') \<Longrightarrow> k \<le> length bs \<and> sent w' = sent w @ take k bs"
    and write_other: "wr w bs = (Pending, w') \<or> wr w bs = (Ready (Inl e), w') \<Longrightarrow> sent w' = sent w"

locale async_sink = async_writer wr sent for wr :: "'w writer" and sent +
  fixes flush :: "'w \<Rightarrow> (io_error + unit) poll \<times> 'w"
  assumes flush_sent: "flush w = (x, w') \<Longrightarrow> sent w' = sent w"

text \<open>A socket: the two directions do not disturb each other.\<close>

locale socket = async_reader rd source + async_sink wr sent flush
  for rd :: "'s reader" and source and wr :: "'s writer" and sent and flush +
  assumes read_sent: "rd s b = (x, s') \<Longrightarrow> sent s' = sent s"
    and write_source: "wr s bs = (y, s') \<Longrightarrow> source s' = source s"
    and flush_source: "flush s = (z, s') \<Longrightarrow> source s' = source s"

section \<open>The loops of the clients\<close>

text \<open>
  \<^verbatim>\<open>read_exact\<close>, \<^verbatim>\<open>write_all\<close>, and reading a stream to its end through a buffer of a fixed size, as
  \<^verbatim>\<open>tokio::io::copy\<close> does. A poll that is not ready is repeated; \<open>None\<close> is a loop that never returns.
\<close>

datatype ('e, 'a) outcome = Done 'a | Failed 'e | Panics

partial_function (option) read_exact :: "'r reader \<Rightarrow> nat \<Rightarrow> byte list \<Rightarrow> 'r \<Rightarrow> ((io_error, byte list) outcome \<times> 'r) option" where
  [code]: "read_exact rd n acc r =
     (if n = 0 then Some (Done acc, r)
      else case rd r (buf_new n) of
             (Pending, r') \<Rightarrow> read_exact rd n acc r'
           | (Panicked, r') \<Rightarrow> Some (Panics, r')
           | (Ready (Inl e), r') \<Rightarrow> Some (Failed e, r')
           | (Ready (Inr bs), r') \<Rightarrow>
               if bs = [] then Some (Failed UnexpectedEof, r') else read_exact rd (n - length bs) (acc @ bs) r')"

partial_function (option) write_all :: "'w writer \<Rightarrow> byte list \<Rightarrow> 'w \<Rightarrow> ((io_error, unit) outcome \<times> 'w) option" where
  [code]: "write_all wr bs w =
     (if bs = [] then Some (Done (), w)
      else case wr w bs of
             (Pending, w') \<Rightarrow> write_all wr bs w'
           | (Panicked, w') \<Rightarrow> Some (Panics, w')
           | (Ready (Inl e), w') \<Rightarrow> Some (Failed e, w')
           | (Ready (Inr k), w') \<Rightarrow> if k = 0 then Some (Failed WriteZero, w') else write_all wr (drop k bs) w')"

partial_function (option) read_to_end :: "'r reader \<Rightarrow> nat \<Rightarrow> byte list \<Rightarrow> 'r \<Rightarrow> ((io_error, byte list) outcome \<times> 'r) option" where
  [code]: "read_to_end rd cap acc r =
     (case rd r (buf_new cap) of
        (Pending, r') \<Rightarrow> read_to_end rd cap acc r'
      | (Panicked, r') \<Rightarrow> Some (Panics, r')
      | (Ready (Inl e), r') \<Rightarrow> Some (Failed e, r')
      | (Ready (Inr bs), r') \<Rightarrow>
          if bs = [] then Some (Done acc, r') else read_to_end rd cap (acc @ bs) r')"

partial_function (option) flush_all :: "('w \<Rightarrow> (io_error + unit) poll \<times> 'w) \<Rightarrow> 'w \<Rightarrow> ((io_error, unit) outcome \<times> 'w) option" where
  [code]: "flush_all flush w =
     (case flush w of
        (Pending, w') \<Rightarrow> flush_all flush w'
      | (Panicked, w') \<Rightarrow> Some (Panics, w')
      | (Ready (Inl e), w') \<Rightarrow> Some (Failed e, w')
      | (Ready (Inr _), w') \<Rightarrow> Some (Done (), w'))"

text \<open>The operator \<^verbatim>\<open>?\<close> after such a loop, with the conversion of the error.\<close>

definition and_then ::
    "(('e, 'a) outcome \<times> 's) option \<Rightarrow> ('e \<Rightarrow> 'f) \<Rightarrow> ('a \<Rightarrow> 's \<Rightarrow> ('f, 'b) outcome option) \<Rightarrow> ('f, 'b) outcome option" where
  "and_then x conv k =
     (case x of
        None \<Rightarrow> None
      | Some (Done v, s) \<Rightarrow> k v s
      | Some (Failed e, s) \<Rightarrow> Some (Failed (conv e))
      | Some (Panics, s) \<Rightarrow> Some Panics)"

lemma and_then_Done:
  "and_then x conv k = Some (Done z) \<longleftrightarrow> (\<exists>v s. x = Some (Done v, s) \<and> k v s = Some (Done z))"
  by (auto simp: and_then_def split: option.splits outcome.splits)

text \<open>The loops over anything that keeps the contracts.\<close>

lemma read_exact_prefix:
  assumes "read_exact rd n acc r = Some (Done bs, r')" and "async_reader rd source"
  shows "bs @ source r' = acc @ source r \<and> length bs = length acc + n"
  using assms
proof (induction rd n acc r "(Done bs :: (io_error, byte list) outcome, r')" rule: read_exact.raw_induct [rotated, consumes 1])
  case (1 rec rd n acc r)
  note rd = async_reader.read_bytes [OF 1(3)] async_reader.read_other [OF 1(3)]
  show ?case
  proof (cases "n = 0")
    case False
    show ?thesis
    proof (cases "rd r (buf_new n)" rule: poll_cases)
      case (ok bs' r1)
      with 1(2) False have "bs' \<noteq> []" and "rec rd (n - length bs') (acc @ bs') r1 = Some (Done bs, r')"
        by (auto split: if_splits)
      from 1(1) [OF this(2) 1(3)] rd(1) [OF ok] show ?thesis by simp
    next
      case (pending r1)
      with 1(2) False have "rec rd n acc r1 = Some (Done bs, r')" by simp
      from 1(1) [OF this 1(3)] rd(2) pending show ?thesis by force
    qed (use 1(2) False in simp_all)
  qed (use 1(2) in simp)
qed

lemma read_to_end_all:
  assumes "read_to_end rd cap acc r = Some (Done bs, r')" and "async_reader rd source" and "0 < cap"
  shows "bs = acc @ source r"
  using assms
proof (induction rd cap acc r "(Done bs :: (io_error, byte list) outcome, r')" rule: read_to_end.raw_induct [rotated, consumes 1])
  case (1 rec rd cap acc r)
  note rd = async_reader.read_bytes [OF 1(3)] async_reader.read_other [OF 1(3)] async_reader.read_end [OF 1(3)]
  show ?case
  proof (cases "rd r (buf_new cap)" rule: poll_cases)
    case (ok bs' r1)
    show ?thesis
    proof (cases "bs' = []")
      case True
      with 1(2,4) ok rd(3) [of r "buf_new cap" r1] show ?thesis by simp
    next
      case False
      with 1(2) ok have "rec rd cap (acc @ bs') r1 = Some (Done bs, r')" by simp
      from 1(1) [OF this 1(3,4)] rd(1) [OF ok] show ?thesis by simp
    qed
  next
    case (pending r1)
    with 1(2) have "rec rd cap acc r1 = Some (Done bs, r')" by simp
    from 1(1) [OF this 1(3,4)] rd(2) pending show ?thesis by force
  qed (use 1(2) in simp_all)
qed

lemma write_all_sent:
  assumes "write_all wr bs w = Some (Done (), w')" and "async_writer wr sent"
  shows "sent w' = sent w @ bs"
  using assms
proof (induction wr bs w "(Done () :: (io_error, unit) outcome, w')" rule: write_all.raw_induct [rotated, consumes 1])
  case (1 rec wr bs w)
  note wr = async_writer.write_bytes [OF 1(3)] async_writer.write_other [OF 1(3)]
  show ?case
  proof (cases "bs = []")
    case False
    show ?thesis
    proof (cases "wr w bs" rule: poll_cases)
      case (ok k w1)
      with 1(2) False have "rec wr (drop k bs) w1 = Some (Done (), w')" by (auto split: if_splits)
      from 1(1) [OF this 1(3)] wr(1) [OF ok] show ?thesis by simp
    next
      case (pending w1)
      with 1(2) False have "rec wr bs w1 = Some (Done (), w')" by simp
      from 1(1) [OF this 1(3)] wr(2) pending show ?thesis by force
    qed (use 1(2) False in simp_all)
  qed (use 1(2) in simp)
qed

text \<open>What every poll keeps, a loop keeps.\<close>

lemma read_exact_keeps:
  assumes "read_exact rd n acc r = Some (x, r')" and "\<And>r b. P r \<Longrightarrow> P (snd (rd r b))" and "P r"
  shows "P r'"
  using assms
proof (induction rd n acc r "(x, r')" rule: read_exact.raw_induct [rotated, consumes 1])
  case (1 rec rd n acc r)
  have "P (snd (rd r (buf_new n)))" by (rule 1(3) [OF 1(4)])
  with 1 show ?case
    by (cases "rd r (buf_new n)" rule: poll_cases) (auto split: if_splits)
qed

lemma write_all_keeps:
  assumes "write_all wr bs w = Some (x, w')" and "\<And>w bs. P w \<Longrightarrow> P (snd (wr w bs))" and "P w"
  shows "P w'"
  using assms
proof (induction wr bs w "(x, w')" rule: write_all.raw_induct [rotated, consumes 1])
  case (1 rec wr bs w)
  have "P (snd (wr w bs))" by (rule 1(3) [OF 1(4)])
  with 1 show ?case
    by (cases "wr w bs" rule: poll_cases) (auto split: if_splits)
qed

lemma flush_all_keeps:
  assumes "flush_all flush w = Some (x, w')" and "\<And>w. P w \<Longrightarrow> P (snd (flush w))" and "P w"
  shows "P w'"
  using assms
proof (induction flush w "(x, w')" rule: flush_all.raw_induct [rotated, consumes 1])
  case (1 rec flush w)
  have "P (snd (flush w))" by (rule 1(3) [OF 1(4)])
  with 1 show ?case
    by (cases "flush w" rule: poll_cases) auto
qed

section \<open>The length-checked ends\<close>

record 'r fixed_read =
  fr_inner :: 'r
  fr_remaining :: u64

definition fixed_read_new :: "'r \<Rightarrow> u64 \<Rightarrow> 'r fixed_read" where
  "fixed_read_new r n = \<lparr>fr_inner = r, fr_remaining = n\<rparr>"

definition fixed_poll_read :: "'r reader \<Rightarrow> 'r fixed_read reader" where
  "fixed_poll_read rd f b =
     (if fr_remaining f = 0 then (Ready (Inr []), f)
      else let available = min (unat (fr_remaining f)) (room b)
           in case rd (fr_inner f) (buf_take available b) of
                (Ready (Inr bs), r) \<Rightarrow>
                  (let f = f\<lparr>fr_inner := r\<rparr>
                   in if bs = [] then (Ready (Inl UnexpectedEof), f)
                      else if unat (fr_remaining f) < length bs then (Ready (Inl InvalidData), f)
                      else if initialised b < length bs
                           then (Panicked, f\<lparr>fr_remaining := fr_remaining f - of_nat (length bs)\<rparr>)
                      else (Ready (Inr bs), f\<lparr>fr_remaining := fr_remaining f - of_nat (length bs)\<rparr>))
              | (Ready (Inl e), r) \<Rightarrow> (Ready (Inl e), f\<lparr>fr_inner := r\<rparr>)
              | (Pending, r) \<Rightarrow> (Pending, f\<lparr>fr_inner := r\<rparr>)
              | (Panicked, r) \<Rightarrow> (Panicked, f\<lparr>fr_inner := r\<rparr>))"

record 'w fixed_write =
  fw_inner :: 'w
  fw_remaining :: u64

definition fixed_write_new :: "'w \<Rightarrow> u64 \<Rightarrow> 'w fixed_write" where
  "fixed_write_new w n = \<lparr>fw_inner = w, fw_remaining = n\<rparr>"

definition fixed_poll_write :: "'w writer \<Rightarrow> 'w fixed_write writer" where
  "fixed_poll_write wr f bs =
     (if bs = [] then (Ready (Inr 0), f)
      else if unat (fw_remaining f) < length bs then (Ready (Inl InvalidData), f)
      else case wr (fw_inner f) bs of
             (Ready (Inr k), w) \<Rightarrow>
               (let f = f\<lparr>fw_inner := w\<rparr>
                in if k = 0 then (Ready (Inr 0), f)
                   else if unat (fw_remaining f) < k then (Ready (Inl InvalidData), f)
                   else (Ready (Inr k), f\<lparr>fw_remaining := fw_remaining f - of_nat k\<rparr>))
           | (Ready (Inl e), w) \<Rightarrow> (Ready (Inl e), f\<lparr>fw_inner := w\<rparr>)
           | (Pending, w) \<Rightarrow> (Pending, f\<lparr>fw_inner := w\<rparr>)
           | (Panicked, w) \<Rightarrow> (Panicked, f\<lparr>fw_inner := w\<rparr>))"

text \<open>Flushing is passed on; a shutdown is refused while bytes are missing.\<close>

definition fixed_poll_flush :: "('w \<Rightarrow> (io_error + unit) poll \<times> 'w) \<Rightarrow> 'w fixed_write \<Rightarrow> (io_error + unit) poll \<times> 'w fixed_write" where
  "fixed_poll_flush flush f = (let (x, w) = flush (fw_inner f) in (x, f\<lparr>fw_inner := w\<rparr>))"

definition fixed_poll_shutdown :: "('w \<Rightarrow> (io_error + unit) poll \<times> 'w) \<Rightarrow> 'w fixed_write \<Rightarrow> (io_error + unit) poll \<times> 'w fixed_write" where
  "fixed_poll_shutdown shutdown f =
     (if 0 < fw_remaining f then (Ready (Inl UnexpectedEof), f)
      else let (x, w) = shutdown (fw_inner f) in (x, f\<lparr>fw_inner := w\<rparr>))"


section \<open>The length-checked ends keep the contracts\<close>

context async_writer
begin

lemma fixed_write_cases:
  assumes "fixed_poll_write wr f bs = (x, f')"
  obtains (bytes) k w where "wr (fw_inner f) bs = (Ready (Inr k), w)" "k \<le> length bs" "length bs \<le> unat (fw_remaining f)"
      "x = Ready (Inr k)" "f' = \<lparr>fw_inner = w, fw_remaining = fw_remaining f - of_nat k\<rparr>"
  | (nothing) "bs = []" "x = Ready (Inr 0)" "f' = f"
  | (excess) "unat (fw_remaining f) < length bs" "x = Ready (Inl InvalidData)" "f' = f"
  | (error) e w where "wr (fw_inner f) bs = (Ready (Inl e), w)" "x = Ready (Inl e)" "f' = f\<lparr>fw_inner := w\<rparr>"
  | (pending) w where "wr (fw_inner f) bs = (Pending, w)" "x = Pending" "f' = f\<lparr>fw_inner := w\<rparr>"
  | (panic) "x = Panicked"
proof -
  consider "bs = []" | "bs \<noteq> []" "unat (fw_remaining f) < length bs" | "bs \<noteq> []" "length bs \<le> unat (fw_remaining f)" by force
  then show ?thesis
  proof cases
    case 3
    note d = fixed_poll_write_def [of wr f bs]
    show ?thesis
    proof (cases "wr (fw_inner f) bs" rule: poll_cases)
      case (ok k w)
      from write_bytes [OF ok] have k: "k \<le> length bs" by simp
      with ok 3 assms show ?thesis by (intro bytes) (auto simp: d Let_def split: if_splits)
    qed (use 3 assms in \<open>auto simp: d intro: error pending panic\<close>)
  next
    case 1
    with assms have "x = Ready (Inr 0)" and "f' = f" by (simp_all add: fixed_poll_write_def)
    with 1 show ?thesis by (rule nothing)
  next
    case 2
    with assms show ?thesis by (intro excess) (simp_all add: fixed_poll_write_def)
  qed
qed

end

context async_reader
begin

lemma fixed_read_cases:
  assumes "fixed_poll_read rd f b = (x, f')" and "fr_remaining f \<noteq> 0"
  obtains (bytes) bs r where "rd (fr_inner f) (buf_take (min (unat (fr_remaining f)) (room b)) b) = (Ready (Inr bs), r)"
      "bs \<noteq> []" "length bs \<le> unat (fr_remaining f)" "length bs \<le> initialised b" "length bs \<le> room b"
      "x = Ready (Inr bs)" "f' = \<lparr>fr_inner = r, fr_remaining = fr_remaining f - of_nat (length bs)\<rparr>"
  | (eof) r where "rd (fr_inner f) (buf_take (min (unat (fr_remaining f)) (room b)) b) = (Ready (Inr []), r)"
      "x = Ready (Inl UnexpectedEof)" "f' = f\<lparr>fr_inner := r\<rparr>"
  | (error) e r where "rd (fr_inner f) (buf_take (min (unat (fr_remaining f)) (room b)) b) = (Ready (Inl e), r)"
      "x = Ready (Inl e)" "f' = f\<lparr>fr_inner := r\<rparr>"
  | (pending) r where "rd (fr_inner f) (buf_take (min (unat (fr_remaining f)) (room b)) b) = (Pending, r)"
      "x = Pending" "f' = f\<lparr>fr_inner := r\<rparr>"
  | (panic) y r where "rd (fr_inner f) (buf_take (min (unat (fr_remaining f)) (room b)) b) = (y, r)"
      "y = Panicked \<or> (\<exists>bs. y = Ready (Inr bs) \<and> initialised b < length bs)" "x = Panicked"
proof -
  let ?b = "buf_take (min (unat (fr_remaining f)) (room b)) b"
  note d = fixed_poll_read_def [of rd f b]
  show ?thesis
  proof (cases "rd (fr_inner f) ?b" rule: poll_cases)
    case (ok bs r)
    from read_bytes [OF ok] have len: "length bs \<le> unat (fr_remaining f)" "length bs \<le> room b" by simp_all
    consider "bs = []" | "bs \<noteq> []" "initialised b < length bs" | "bs \<noteq> []" "length bs \<le> initialised b" by force
    then show ?thesis
      by cases (use ok assms len eof panic bytes in \<open>auto simp: d Let_def\<close>)
  qed (use assms in \<open>auto simp: d intro: error pending panic\<close>)
qed

end

locale fixed_reader = inner: async_reader rd source for rd :: "'r reader" and source

sublocale fixed_reader \<subseteq> limited: async_reader "fixed_poll_read rd" "\<lambda>f. take (unat (fr_remaining f)) (source (fr_inner f))"
proof
  fix f b bs f'
  assume *: "fixed_poll_read rd f b = (Ready (Inr bs), f')"
  show "take (unat (fr_remaining f)) (source (fr_inner f))
      = bs @ take (unat (fr_remaining f')) (source (fr_inner f')) \<and> length bs \<le> room b"
  proof (cases "fr_remaining f = 0")
    case True
    with * show ?thesis by (simp add: fixed_poll_read_def)
  next
    case False
    with * show ?thesis
    proof (cases rule: inner.fixed_read_cases)
      case (bytes bs' r)
      then have "unat (fr_remaining f') = unat (fr_remaining f) - length bs'"
        by (simp add: unat_sub_of_nat)
      with bytes inner.read_bytes [OF bytes(1)] show ?thesis by simp
    qed simp_all
  qed
next
  fix f b f' e
  assume *: "fixed_poll_read rd f b = (Pending, f') \<or> fixed_poll_read rd f b = (Ready (Inl e), f')"
  then have nz: "fr_remaining f \<noteq> 0" by (auto simp: fixed_poll_read_def)
  from * obtain x where "fixed_poll_read rd f b = (x, f')" and "x = Pending \<or> x = Ready (Inl e)" by blast
  from this(1) nz show "take (unat (fr_remaining f')) (source (fr_inner f')) = take (unat (fr_remaining f)) (source (fr_inner f))"
  proof (cases rule: inner.fixed_read_cases)
    case (eof r)
    then show ?thesis using inner.read_bytes [OF eof(1)] by simp
  next
    case (error e r)
    then show ?thesis using inner.read_other by force
  next
    case (pending r)
    then show ?thesis using inner.read_other by force
  qed (use \<open>x = Pending \<or> x = Ready (Inl e)\<close> in auto)
next
  fix f b f'
  assume "fixed_poll_read rd f b = (Ready (Inr []), f')" and "0 < room b"
  then show "take (unat (fr_remaining f)) (source (fr_inner f)) = []"
    by (auto elim: inner.fixed_read_cases)
qed

locale fixed_writer = inner: async_writer wr sent for wr :: "'w writer" and sent

sublocale fixed_writer \<subseteq> counted: async_writer "fixed_poll_write wr" "\<lambda>f. sent (fw_inner f)"
proof
  fix f bs k f'
  assume "fixed_poll_write wr f bs = (Ready (Inr k), f')"
  then show "k \<le> length bs \<and> sent (fw_inner f') = sent (fw_inner f) @ take k bs"
    by (cases rule: inner.fixed_write_cases) (simp_all add: inner.write_bytes)
next
  fix f bs f' e
  assume "fixed_poll_write wr f bs = (Pending, f') \<or> fixed_poll_write wr f bs = (Ready (Inl e), f')"
  then obtain x where "fixed_poll_write wr f bs = (x, f')" and x: "x = Pending \<or> x = Ready (Inl e)" by blast
  from this(1) show "sent (fw_inner f') = sent (fw_inner f)"
    by (cases rule: inner.fixed_write_cases) (use x inner.write_other in force)+
qed

text \<open>So the loops of the clients may run over the length-checked ends as well.\<close>

context fixed_reader
begin

lemma limited_reader: "async_reader (fixed_poll_read rd) (\<lambda>f. take (unat (fr_remaining f)) (source (fr_inner f)))"
  by (rule limited.async_reader_axioms)

end

context fixed_writer
begin

lemma counted_writer: "async_writer (fixed_poll_write wr) (\<lambda>f. sent (fw_inner f))"
  by (rule counted.async_writer_axioms)

end

section \<open>The protocols\<close>

datatype open_error = OpenFailed string | OpenIo io_error

abbreviation PAYLOAD_LENGTH_HEADER_SIZE :: nat where
  "PAYLOAD_LENGTH_HEADER_SIZE \<equiv> 8"

definition MAX_REQUEST_HEADER_SIZE :: u64 where
  "MAX_REQUEST_HEADER_SIZE = 1024 * 1024"

text \<open>
  Pushing: the sender announces the length, the receiver reads it; a header that cannot be read drops
  the stream. \<open>opened\<close> is what opening the stream gave.
\<close>

definition open_push_stream ::
    "'s writer \<Rightarrow> ('s \<Rightarrow> (io_error + unit) poll \<times> 's) \<Rightarrow> u64 \<Rightarrow> string + 's \<Rightarrow> (open_error, 's fixed_write) outcome option" where
  "open_push_stream wr flush payload_len opened =
     (case opened of
        Inl e \<Rightarrow> Some (Failed (OpenFailed e))
      | Inr s \<Rightarrow>
          and_then (write_all wr (to_le_bytes payload_len) s) OpenIo (\<lambda>_ s.
          and_then (flush_all flush s) OpenIo (\<lambda>_ s.
          Some (Done (fixed_write_new s payload_len)))))"

definition accept_push :: "'s reader \<Rightarrow> peer_id \<Rightarrow> 's \<Rightarrow> (io_error, (peer_id \<times> 's fixed_read) option) outcome option" where
  "accept_push rd peer s =
     (case read_exact rd PAYLOAD_LENGTH_HEADER_SIZE [] s of
        None \<Rightarrow> None
      | Some (Done header, s) \<Rightarrow> Some (Done (Some (peer, fixed_read_new s (from_le_bytes header))))
      | Some (Failed _, s) \<Rightarrow> Some (Done None)
      | Some (Panics, s) \<Rightarrow> Some Panics)"

text \<open>
  Pulling: the request travels behind its length, the payload of the answer behind its own.
  \<open>to_vec\<close> and \<open>from_slice\<close> stand for \<^verbatim>\<open>serde_json\<close>.
\<close>

record ('q, 's) incoming_pull =
  ip_peer_id :: peer_id
  ip_request :: 'q
  ip_stream :: 's

definition open_pull_stream ::
    "'s reader \<Rightarrow> 's writer \<Rightarrow> ('s \<Rightarrow> (io_error + unit) poll \<times> 's) \<Rightarrow> ('q \<Rightarrow> byte list) \<Rightarrow> 'q \<Rightarrow> string + 's
      \<Rightarrow> (open_error, 's fixed_read) outcome option" where
  "open_pull_stream rd wr flush to_vec request opened =
     (case opened of
        Inl e \<Rightarrow> Some (Failed (OpenFailed e))
      | Inr s \<Rightarrow>
          (let request_bytes = to_vec request
           in and_then (write_all wr (to_le_bytes (of_nat (length request_bytes))) s) OpenIo (\<lambda>_ s.
              and_then (write_all wr request_bytes s) OpenIo (\<lambda>_ s.
              and_then (flush_all flush s) OpenIo (\<lambda>_ s.
              and_then (read_exact rd PAYLOAD_LENGTH_HEADER_SIZE [] s) OpenIo (\<lambda>header s.
              Some (Done (fixed_read_new s (from_le_bytes header)))))))))"

definition accept_pull ::
    "'s reader \<Rightarrow> (byte list \<Rightarrow> 'q option) \<Rightarrow> peer_id \<Rightarrow> 's \<Rightarrow> (io_error, ('q, 's) incoming_pull option) outcome option" where
  "accept_pull rd from_slice peer s =
     (case read_exact rd 8 [] s of
        None \<Rightarrow> None
      | Some (Panics, s) \<Rightarrow> Some Panics
      | Some (Failed _, s) \<Rightarrow> Some (Done None)
      | Some (Done resource_len, s) \<Rightarrow>
          (let request_len = from_le_bytes resource_len
           in if MAX_REQUEST_HEADER_SIZE \<le> request_len then Some (Done None)
              else case read_exact rd (unat request_len) [] s of
                     None \<Rightarrow> None
                   | Some (Panics, s) \<Rightarrow> Some Panics
                   | Some (Failed _, s) \<Rightarrow> Some (Done None)
                   | Some (Done request_bytes, s) \<Rightarrow>
                       Some (Done (map_option (\<lambda>q. \<lparr>ip_peer_id = peer, ip_request = q, ip_stream = s\<rparr>)
                         (from_slice request_bytes)))))"

definition create_response ::
    "'s writer \<Rightarrow> ('s \<Rightarrow> (io_error + unit) poll \<times> 's) \<Rightarrow> u64 \<Rightarrow> ('q, 's) incoming_pull
      \<Rightarrow> (io_error, peer_id \<times> 'q \<times> 's fixed_write) outcome option" where
  "create_response wr flush payload_len inc =
     and_then (write_all wr (to_le_bytes payload_len) (ip_stream inc)) id (\<lambda>_ s.
     and_then (flush_all flush s) id (\<lambda>_ s.
     Some (Done (ip_peer_id inc, ip_request inc, fixed_write_new s payload_len))))"

section \<open>A socket that follows a script\<close>

text \<open>
  A socket as a network may make it: what arrives comes in chunks, between which the socket is not ready or
  fails; a write takes as much as the script says.
\<close>

record sock =
  incoming :: "(io_error + byte list) poll list"
  takes :: "nat list"
  outgoing :: "byte list"

fun arriving :: "(io_error + byte list) poll list \<Rightarrow> byte list" where
  "arriving [] = []"
| "arriving (Ready (Inr bs) # xs) = bs @ arriving xs"
| "arriving (_ # xs) = arriving xs"

definition sock_source :: "sock \<Rightarrow> byte list" where
  "sock_source s = arriving (incoming s)"

definition sock_read :: "sock reader" where
  "sock_read s b =
     (case incoming s of
        [] \<Rightarrow> (Ready (Inr []), s)
      | Ready (Inr bs) # xs \<Rightarrow>
          if bs = [] then (Pending, s\<lparr>incoming := xs\<rparr>)
          else if length bs \<le> room b then (Ready (Inr bs), s\<lparr>incoming := xs\<rparr>)
          else (Ready (Inr (take (room b) bs)), s\<lparr>incoming := Ready (Inr (drop (room b) bs)) # xs\<rparr>)
      | x # xs \<Rightarrow> (x, s\<lparr>incoming := xs\<rparr>))"

definition sock_write :: "sock writer" where
  "sock_write s bs =
     (case takes s of
        [] \<Rightarrow> (Ready (Inr (length bs)), s\<lparr>outgoing := outgoing s @ bs\<rparr>)
      | k # ks \<Rightarrow>
          if k = 0 then (Pending, s\<lparr>takes := ks\<rparr>)
          else (Ready (Inr (min k (length bs))), s\<lparr>takes := ks, outgoing := outgoing s @ take k bs\<rparr>))"

definition sock_flush :: "sock \<Rightarrow> (io_error + unit) poll \<times> sock" where
  "sock_flush s = (Ready (Inr ()), s)"

interpretation script: socket sock_read sock_source sock_write outgoing sock_flush
  by unfold_locales
    (auto simp: sock_read_def sock_write_def sock_flush_def sock_source_def min_def split: list.splits poll.splits sum.splits if_splits)

interpretation script_in: fixed_reader sock_read sock_source
  by unfold_locales

interpretation script_out: fixed_writer sock_write outgoing
  by unfold_locales

text \<open>
  Over such a socket every loop returns: a poll shortens the script or delivers bytes.
\<close>

fun script_size :: "(io_error + byte list) poll list \<Rightarrow> nat" where
  "script_size [] = 0"
| "script_size (Ready (Inr bs) # xs) = Suc (length bs + script_size xs)"
| "script_size (_ # xs) = Suc (script_size xs)"

lemma sock_read_progress:
  assumes "sock_read s b = (x, s')" and "0 < room b" and "x \<noteq> Ready (Inr [])"
  shows "script_size (incoming s') < script_size (incoming s)"
  using assms by (auto simp: sock_read_def split: list.splits poll.splits sum.splits if_splits)

text \<open>A script without failures: chunks, and moments at which nothing is there.\<close>

definition healthy :: "sock \<Rightarrow> bool" where
  "healthy s \<longleftrightarrow> (\<forall>x\<in>set (incoming s). x = Pending \<or> (\<exists>bs. x = Ready (Inr bs)))"

lemma sock_read_healthy:
  assumes "healthy s" and "sock_read s b = (x, s')"
  shows "healthy s' \<and> (x = Pending \<or> (\<exists>bs. x = Ready (Inr bs)))"
  using assms by (auto simp: sock_read_def healthy_def split: list.splits poll.splits sum.splits if_splits)

lemma fixed_read_healthy:
  assumes "healthy (fr_inner f)" and "0 < cap"
  shows "\<exists>f'. read_to_end (fixed_poll_read sock_read) cap acc f =
    Some (if unat (fr_remaining f) \<le> length (sock_source (fr_inner f))
          then Done (acc @ take (unat (fr_remaining f)) (sock_source (fr_inner f))) else Failed UnexpectedEof, f')"
  using assms(1)
proof (induction "script_size (incoming (fr_inner f))" arbitrary: f acc rule: less_induct)
  case less
  obtain x f1 where x: "fixed_poll_read sock_read f (buf_new cap) = (x, f1)" by force
  let ?b = "buf_take (min (unat (fr_remaining f)) cap) (buf_new cap)"
  note unfold = read_to_end.simps [of "fixed_poll_read sock_read" cap acc f]
  show ?case
  proof (cases "fr_remaining f = 0")
    case False
    then have room: "0 < room ?b" using assms(2) by (simp add: unat_gt_0)
    from x False show ?thesis
    proof (cases rule: script.fixed_read_cases)
      case (bytes bs r)
      with room less(2) have "script_size (incoming r) < script_size (incoming (fr_inner f))" "healthy r"
        using sock_read_progress [OF bytes(1)] sock_read_healthy [OF less(2) bytes(1)] by auto
      with less(1) [of f1 "acc @ bs"] x bytes script.read_bytes [OF bytes(1)] show ?thesis
        by (auto simp: unfold unat_sub_of_nat)
    next
      case (pending r)
      with room less(2) have "script_size (incoming r) < script_size (incoming (fr_inner f))" "healthy r" "sock_source r = sock_source (fr_inner f)"
        using sock_read_progress [OF pending(1)] sock_read_healthy [OF less(2) pending(1)] script.read_other pending(1) by auto
      with less(1) [of f1 acc] x pending show ?thesis by (auto simp: unfold split: if_splits)
    next
      case (eof r)
      with script.read_end [OF eof(1)] room False x show ?thesis by (simp add: unfold unat_eq_zero)
    next
      case (error e r)
      with sock_read_healthy [OF less(2) error(1)] show ?thesis by simp
    next
      case (panic y r)
      with sock_read_healthy [OF less(2) panic(1)] script.read_bytes [of "fr_inner f" ?b] show ?thesis by fastforce
    qed
  qed (simp add: unfold fixed_poll_read_def)
qed

section \<open>What arrives is what was sent\<close>

text \<open>The reader counts down: it ends only when everything that was announced has been read.\<close>

context async_reader
begin

lemma fixed_read_to_end_length:
  assumes "read_to_end (fixed_poll_read rd) cap acc f = Some (Done bs, f')"
  shows "length bs = length acc + unat (fr_remaining f)"
  using assms
proof (induction "fixed_poll_read rd" cap acc f "(Done bs :: (io_error, byte list) outcome, f')"
    rule: read_to_end.raw_induct [rotated, consumes 1])
  case (1 rec cap acc f)
  obtain x f1 where x: "fixed_poll_read rd f (buf_new cap) = (x, f1)" by force
  show ?case
  proof (cases "fr_remaining f = 0")
    case False
    from x this show ?thesis
    proof (cases rule: fixed_read_cases)
      case (bytes bs' r)
      with 1(2) x have "rec (fixed_poll_read rd) cap (acc @ bs') f1 = Some (Done bs, f')" by simp
      from 1(1) [OF this] bytes show ?thesis by (simp add: unat_sub_of_nat)
    next
      case (pending r)
      with 1(2) x have "rec (fixed_poll_read rd) cap acc f1 = Some (Done bs, f')" by simp
      from 1(1) [OF this] pending show ?thesis by simp
    qed (use 1(2) x in simp_all)
  qed (use 1(2) in \<open>simp add: fixed_poll_read_def\<close>)
qed

end

text \<open>The writer counts down: what it has passed on and what is missing add up.\<close>

context async_writer
begin

lemma fixed_write_all_remaining:
  assumes "write_all (fixed_poll_write wr) bs f = Some (Done (), f')"
  shows "length bs + unat (fw_remaining f') = unat (fw_remaining f)"
  using assms
proof (induction "fixed_poll_write wr" bs f "(Done () :: (io_error, unit) outcome, f')"
    rule: write_all.raw_induct [rotated, consumes 1])
  case (1 rec bs f)
  obtain x f1 where x: "fixed_poll_write wr f bs = (x, f1)" by force
  show ?case
  proof (cases "bs = []")
    case False
    from x show ?thesis
    proof (cases rule: fixed_write_cases)
      case (bytes k w)
      with 1(2) x False have "rec (fixed_poll_write wr) (drop k bs) f1 = Some (Done (), f')" by (simp split: if_splits)
      from 1(1) [OF this] bytes show ?thesis by (simp add: unat_sub_of_nat)
    next
      case (pending w)
      with 1(2) x False have "rec (fixed_poll_write wr) bs f1 = Some (Done (), f')" by simp
      from 1(1) [OF this] pending show ?thesis by simp
    qed (use 1(2) x False in simp_all)
  qed (use 1(2) in simp)
qed

end

lemma flush_all_sent:
  assumes "flush_all flush w = Some (x, w')" and "async_sink wr sent flush"
  shows "sent w' = sent w"
  using flush_all_keeps [OF assms(1), of "\<lambda>v. sent v = sent w"] async_sink.flush_sent [OF assms(2)]
  by (metis prod.collapse)

text \<open>
  One payload behind its header, from a sink to a reader that sees a prefix of what the sink has taken: a length-checked
  reader that comes to the end has read exactly the payload.
\<close>

lemma framed_payload:
  assumes sink: "async_sink wr sent flush" and reader: "async_reader rd source"
    and header: "write_all wr (to_le_bytes n) w = Some (Done (), w1)" and flushed: "flush_all flush w1 = Some (Done (), w2)"
    and payload: "write_all (fixed_poll_write wr) payload (fixed_write_new w2 n) = Some (Done (), fw)"
    and complete: "fw_remaining fw = 0"
    and link: "prefix (source r) (drop (length (sent w)) (sent (fw_inner fw)))"
    and accepted: "read_exact rd PAYLOAD_LENGTH_HEADER_SIZE [] r = Some (Done h, r1)"
    and read: "read_to_end (fixed_poll_read rd) cap [] (fixed_read_new r1 (from_le_bytes h)) = Some (Done out, f)" and cap: "0 < cap"
  shows "length payload = unat n \<and> out = payload"
proof -
  have w: "async_writer wr sent" by (rule async_sink.axioms(1) [OF sink])
  have "sent w1 = sent w @ to_le_bytes n" and "sent w2 = sent w1"
    using write_all_sent [OF header w] flush_all_sent [OF flushed sink] by simp_all
  moreover have "sent (fw_inner fw) = sent w2 @ payload"
    using write_all_sent [OF payload fixed_writer.counted_writer [OF fixed_writer.intro [OF w]]] by (simp add: fixed_write_new_def)
  ultimately have wire: "prefix (source r) (to_le_bytes n @ payload)" using link by simp
  have len: "length payload = unat n"
    using async_writer.fixed_write_all_remaining [OF w payload] complete by (simp add: fixed_write_new_def)
  have h: "h @ source r1 = source r" "length h = 8" using read_exact_prefix [OF accepted reader] by simp_all
  from wire obtain z where "to_le_bytes n @ payload = source r @ z" by (elim prefixE)
  then have "h @ (source r1 @ z) = to_le_bytes n @ payload" by (simp flip: h(1))
  with h(2) have "h = to_le_bytes n \<and> source r1 @ z = payload" by (subst (asm) append_eq_append_conv) simp_all
  then have *: "h = to_le_bytes n" "prefix (source r1) payload" by auto
  have "out = take (unat n) (source r1)"
    using read_to_end_all [OF read fixed_reader.limited_reader [OF fixed_reader.intro [OF reader]] cap] * by (simp add: fixed_read_new_def)
  moreover have "length out = unat n"
    using async_reader.fixed_read_to_end_length [OF reader read] * by (simp add: fixed_read_new_def)
  ultimately show ?thesis using *(2) len by (auto simp: prefix_def)
qed

text \<open>
  C21. A pushed payload arrives as it was sent: over any sockets that keep the contracts of a sink and a reader,
  however they split the bytes and however often they are not ready, when the sender has written its payload and its
  shutdown succeeds, and the receiver, which sees a prefix of what the sender's socket took, reads the accepted stream to its
  end, then it has exactly the payload, and its length is the announced one. In particular a connection that breaks
  in between is never taken for the end of the payload.
\<close>

theorem push_roundtrip:
  assumes "async_sink wr sent flush" and "async_reader rd source"
    and "open_push_stream wr flush n (Inr w) = Some (Done fw)"
    and "write_all (fixed_poll_write wr) payload fw = Some (Done (), fw')"
    and "fixed_poll_shutdown shutdown fw' = (Ready (Inr ()), fw'')"
    and "prefix (source r) (drop (length (sent w)) (sent (fw_inner fw')))"
    and "accept_push rd peer r = Some (Done (Some (p, f)))"
    and "read_to_end (fixed_poll_read rd) cap [] f = Some (Done out, f')" and "0 < cap"
  shows "p = peer \<and> length payload = unat n \<and> out = payload"
proof -
  obtain w1 w2 where w: "write_all wr (to_le_bytes n) w = Some (Done (), w1)" "flush_all flush w1 = Some (Done (), w2)"
    and fw: "fw = fixed_write_new w2 n"
    using assms(3) by (auto simp: open_push_stream_def and_then_Done)
  obtain h r1 where h: "read_exact rd PAYLOAD_LENGTH_HEADER_SIZE [] r = Some (Done h, r1)"
    and f: "p = peer" "f = fixed_read_new r1 (from_le_bytes h)"
    using assms(7) by (auto simp: accept_push_def split: option.splits outcome.splits)
  have "fw_remaining fw' = 0" using assms(5) by (auto simp: fixed_poll_shutdown_def word_gt_0 split: if_splits)
  from framed_payload [OF assms(1,2) w assms(4) [unfolded fw] this assms(6) h assms(8) [unfolded f] assms(9)] f
  show ?thesis by simp
qed

text \<open>A request behind its length, as the pulling side sends it and the serving side reads it.\<close>

lemma framed_request:
  assumes "async_reader rd source" and "prefix (source s) (to_le_bytes (of_nat (length bs)) @ bs)" and "length bs < 2 ^ 64"
    and "read_exact rd 8 [] s = Some (Done h, s1)" and "read_exact rd (unat (from_le_bytes h)) [] s1 = Some (Done b, s2)"
  shows "b = bs"
proof -
  have h: "h @ source s1 = source s" "length h = 8" using read_exact_prefix [OF assms(4,1)] by simp_all
  have b: "b @ source s2 = source s1" "length b = unat (from_le_bytes h)" using read_exact_prefix [OF assms(5,1)] by simp_all
  from assms(2) obtain z where "to_le_bytes (of_nat (length bs)) @ bs = source s @ z" by (elim prefixE)
  then have "h @ (b @ source s2 @ z) = to_le_bytes (of_nat (length bs)) @ bs" by (simp flip: h(1) b(1))
  with h(2) have *: "h = to_le_bytes (of_nat (length bs)) \<and> b @ source s2 @ z = bs" by (subst (asm) append_eq_append_conv) simp_all
  with b(2) assms(3) have "length b = length bs" by (simp add: unat_of_nat)
  with * show ?thesis by (metis append_eq_conv_conj order_refl take_all_iff)
qed

context socket
begin

lemma loops_keep:
  "read_exact rd n acc s = Some (x, s') \<Longrightarrow> sent s' = sent s"
  "write_all wr bs s = Some (y, s') \<Longrightarrow> source s' = source s"
  "flush_all flush s = Some (y, s') \<Longrightarrow> source s' = source s"
  using read_exact_keeps [of rd n acc s x s' "\<lambda>v. sent v = sent s"] write_all_keeps [of wr bs s y s' "\<lambda>v. source v = source s"]
    flush_all_keeps [of flush s y s' "\<lambda>v. source v = source s"] read_sent write_source flush_source
  by (metis prod.collapse)+

end

text \<open>
  C22. A pulled resource is the one that was asked for, and it arrives as it was served: the serving side decodes
  exactly the request that the pulling side encoded, and when it has written its payload completely and the pulling side
  comes to the end of its stream, that side has exactly the payload.
\<close>

theorem pull_roundtrip:
  assumes "socket rd source wr sent flush" and "from_slice (to_vec q) = Some q" and "length (to_vec q) < 2 ^ 64"
    and "open_pull_stream rd wr flush to_vec q (Inr c) = Some (Done f)"
    and "prefix (source s) (drop (length (sent c)) (sent (fr_inner f)))"
    and "accept_pull rd from_slice peer s = Some (Done (Some inc))"
    and "create_response wr flush n inc = Some (Done (p, q', fw))"
    and "write_all (fixed_poll_write wr) payload fw = Some (Done (), fw')" and "fw_remaining fw' = 0"
    and "prefix (source c) (drop (length (sent s)) (sent (fw_inner fw')))"
    and "read_to_end (fixed_poll_read rd) cap [] f = Some (Done out, f')" and "0 < cap"
  shows "p = peer \<and> q' = q \<and> length payload = unat n \<and> out = payload"
proof -
  have rd: "async_reader rd source" and sink: "async_sink wr sent flush" and wr: "async_writer wr sent"
    using assms(1) by (auto simp: socket_def async_sink_def)
  note keep = socket.loops_keep [OF assms(1)]
  let ?l = "to_le_bytes (of_nat (length (to_vec q)))"
  obtain c1 c2 c3 c4 h where c: "write_all wr ?l c = Some (Done (), c1)" "write_all wr (to_vec q) c1 = Some (Done (), c2)"
      "flush_all flush c2 = Some (Done (), c3)" "read_exact rd 8 [] c3 = Some (Done h, c4)"
    and f: "f = fixed_read_new c4 (from_le_bytes h)"
    using assms(4) by (auto simp: open_pull_stream_def and_then_Done Let_def)
  have "sent c4 = sent c @ ?l @ to_vec q"
    using keep(1) [OF c(4)] write_all_sent [OF c(1) wr] write_all_sent [OF c(2) wr] flush_all_sent [OF c(3) sink] by simp
  with assms(5) f have wire: "prefix (source s) (?l @ to_vec q)" by (simp add: fixed_read_new_def)
  obtain h0 s1 b s2 where s: "read_exact rd 8 [] s = Some (Done h0, s1)" "read_exact rd (unat (from_le_bytes h0)) [] s1 = Some (Done b, s2)"
    and inc: "from_slice b = Some (ip_request inc)" "ip_peer_id inc = peer" "ip_stream inc = s2"
    using assms(6) by (auto simp: accept_pull_def Let_def split: option.splits outcome.splits if_splits)
  have "b = to_vec q" by (rule framed_request [OF rd wire assms(3) s])
  with inc(1) assms(2) have q: "ip_request inc = q" by simp
  obtain s3 s4 where s': "write_all wr (to_le_bytes n) s2 = Some (Done (), s3)" "flush_all flush s3 = Some (Done (), s4)"
    and fw: "p = peer" "q' = q" "fw = fixed_write_new s4 n"
    using assms(7) inc q by (auto simp: create_response_def and_then_Done)
  have "prefix (source c3) (drop (length (sent s2)) (sent (fw_inner fw')))"
    using assms(10) keep(1) [OF s(1)] keep(1) [OF s(2)] keep(2) [OF c(1)] keep(2) [OF c(2)] keep(3) [OF c(3)] by simp
  from framed_payload [OF sink rd s' assms(8) [unfolded fw(3)] assms(9) this c(4) assms(11) [unfolded f] assms(12)] fw(1,2)
  show ?thesis by simp
qed

text \<open>
  Reading a length-checked stream to its end always comes to a decision: over a socket that delivers its bytes in
  any chunks and is not ready in between, the loop returns, with exactly the announced number of bytes when that many
  arrive, and with \<^verbatim>\<open>UnexpectedEof\<close> when the stream is shorter.
\<close>

lemma fixed_read_decides:
  assumes "healthy s" and "0 < cap"
  shows "\<exists>f'. read_to_end (fixed_poll_read sock_read) cap [] (fixed_read_new s n) =
    Some (if unat n \<le> length (sock_source s) then Done (take (unat n) (sock_source s)) else Failed UnexpectedEof, f')"
  using fixed_read_healthy [of "fixed_read_new s n" cap "[]"] assms by (simp add: fixed_read_new_def cong: if_cong)

text \<open>
  A buffer that is not initialised makes the reader panic: it advances the buffer over the bytes that the inner
  reader wrote, but never marks them as initialised.
\<close>

lemma uninitialised_buffer_panics:
  assumes "rd (fr_inner f) (buf_take (min (unat (fr_remaining f)) (room b)) b) = (Ready (Inr bs), r)"
    and "bs \<noteq> []" and "length bs \<le> unat (fr_remaining f)" and "initialised b < length bs"
  shows "fst (fixed_poll_read rd f b) = Panicked"
  using assms by (auto simp: fixed_poll_read_def)

section \<open>A payload of three bytes\<close>

definition demo_sender :: sock where
  "demo_sender = \<lparr>incoming = [], takes = [5, 0, 3, 1, 0], outgoing = []\<rparr>"

definition demo_receiver :: sock where
  "demo_receiver = \<lparr>incoming = [Ready (Inr [3, 0, 0]), Pending, Ready (Inr [0, 0, 0, 0, 0, 7]), Pending, Ready (Inr [8, 9])],
     takes = [], outgoing = []\<rparr>"

lemma demo_header: "to_le_bytes 3 = [3, 0, 0, 0, 0, 0, 0, 0]"
  by (simp add: to_le_bytes_def upt_rec)

lemmas demo_simps = demo_sender_def demo_receiver_def demo_header sock_read_def sock_write_def sock_flush_def buf_take_def
  write_all.simps [of sock_write] flush_all.simps [of sock_flush] read_exact.simps [of sock_read]
  write_all.simps [of "fixed_poll_write sock_write"] fixed_poll_write_def fixed_poll_read_def and_then_def

lemma demo_push:
  "open_push_stream sock_write sock_flush 3 (Inr demo_sender) =
     Some (Done (fixed_write_new \<lparr>incoming = [], takes = [1, 0], outgoing = [3, 0, 0, 0, 0, 0, 0, 0]\<rparr> 3))"
  by (simp add: open_push_stream_def demo_simps)

lemma demo_accept:
  "accept_push sock_read 4 demo_receiver =
     Some (Done (Some (4, fixed_read_new \<lparr>incoming = [Ready (Inr [7]), Pending, Ready (Inr [8, 9])], takes = [], outgoing = []\<rparr> 3)))"
  by (simp add: accept_push_def demo_simps from_le_bytes_def)

lemma demo_write:
  "write_all (fixed_poll_write sock_write) [7, 8, 9]
     (fixed_write_new \<lparr>incoming = [], takes = [1, 0], outgoing = [3, 0, 0, 0, 0, 0, 0, 0]\<rparr> 3) =
   Some (Done (), \<lparr>fw_inner = \<lparr>incoming = [], takes = [], outgoing = [3, 0, 0, 0, 0, 0, 0, 0, 7, 8, 9]\<rparr>, fw_remaining = 0\<rparr>)"
  by (simp add: fixed_write_new_def demo_simps)

abbreviation demo_rest :: sock where
  "demo_rest \<equiv> \<lparr>incoming = [Ready (Inr [7]), Pending, Ready (Inr [8, 9])], takes = [], outgoing = []\<rparr>"

lemma demo_read: "\<exists>f'. read_to_end (fixed_poll_read sock_read) 2 [] (fixed_read_new demo_rest 3) = Some (Done [7, 8, 9], f')"
  using fixed_read_healthy [of "fixed_read_new demo_rest 3" 2 "[]"]
  by (simp add: fixed_read_new_def healthy_def sock_source_def)

lemma fixed_read_decides_witness:
  "\<exists>f'. read_to_end (fixed_poll_read sock_read) 2 [] (fixed_read_new demo_rest 4) = Some (Failed UnexpectedEof, f')"
  using fixed_read_decides [of demo_rest 2 4] by (simp add: healthy_def sock_source_def)

theorem push_roundtrip_witness:
  "\<exists>out f'. read_to_end (fixed_poll_read sock_read) 2 [] (fixed_read_new demo_rest 3) = Some (Done out, f')
     \<and> out = [7, 8, 9] \<and> length out = unat (3 :: u64)"
proof -
  obtain out f' where out: "read_to_end (fixed_poll_read sock_read) 2 [] (fixed_read_new demo_rest 3) = Some (Done out, f')"
    using demo_read by blast
  have "(4 :: peer_id) = 4 \<and> length [7, 8, 9 :: byte] = unat (3 :: u64) \<and> out = [7, 8, 9]"
    by (rule push_roundtrip [OF script.async_sink_axioms script.async_reader_axioms demo_push demo_write _ _ demo_accept out,
          where shutdown = sock_flush])
      (simp_all add: fixed_poll_shutdown_def sock_flush_def sock_source_def demo_sender_def demo_receiver_def)
  with out show ?thesis by auto
qed

definition demo_client :: sock where
  "demo_client = \<lparr>incoming = [Pending, Ready (Inr [3, 0, 0, 0, 0, 0, 0, 0, 7]), Pending, Ready (Inr [8, 9])], takes = [6, 0], outgoing = []\<rparr>"

definition demo_server :: sock where
  "demo_server = \<lparr>incoming = [Ready (Inr [1, 0, 0, 0, 0, 0, 0, 0, 42])], takes = [5, 0, 3, 1, 0], outgoing = []\<rparr>"

definition demo_parse :: "byte list \<Rightarrow> byte option" where
  "demo_parse bs = (case bs of [b] \<Rightarrow> Some b | _ \<Rightarrow> None)"

lemma demo_open_pull:
  "open_pull_stream sock_read sock_write sock_flush (\<lambda>b. [b]) 42 (Inr demo_client) =
     Some (Done (fixed_read_new (demo_rest\<lparr>outgoing := [1, 0, 0, 0, 0, 0, 0, 0, 42]\<rparr>) 3))"
  by (simp add: open_pull_stream_def demo_client_def demo_simps from_le_bytes_def to_le_bytes_def upt_rec)

lemma demo_accept_pull:
  "accept_pull sock_read demo_parse 6 demo_server =
     Some (Done (Some \<lparr>ip_peer_id = 6, ip_request = 42, ip_stream = \<lparr>incoming = [], takes = [5, 0, 3, 1, 0], outgoing = []\<rparr>\<rparr>))"
  by (simp add: accept_pull_def demo_server_def demo_simps from_le_bytes_def MAX_REQUEST_HEADER_SIZE_def demo_parse_def word_le_nat_alt)

lemma demo_create_response:
  "create_response sock_write sock_flush 3 \<lparr>ip_peer_id = 6, ip_request = 42 :: byte, ip_stream = \<lparr>incoming = [], takes = [5, 0, 3, 1, 0], outgoing = []\<rparr>\<rparr> =
     Some (Done (6, 42, fixed_write_new \<lparr>incoming = [], takes = [1, 0], outgoing = [3, 0, 0, 0, 0, 0, 0, 0]\<rparr> 3))"
  by (simp add: create_response_def demo_simps)

theorem pull_roundtrip_witness:
  "\<exists>out f'. read_to_end (fixed_poll_read sock_read) 2 [] (fixed_read_new (demo_rest\<lparr>outgoing := [1, 0, 0, 0, 0, 0, 0, 0, 42]\<rparr>) 3) = Some (Done out, f')
     \<and> out = [7, 8, 9]"
proof -
  let ?f = "fixed_read_new (demo_rest\<lparr>outgoing := [1, 0, 0, 0, 0, 0, 0, 0, 42]\<rparr>) 3"
  obtain out f' where out: "read_to_end (fixed_poll_read sock_read) 2 [] ?f = Some (Done out, f')"
    using fixed_read_healthy [of ?f 2 "[]"] by (auto simp: fixed_read_new_def healthy_def sock_source_def)
  have "(6 :: peer_id) = 6 \<and> (42 :: byte) = 42 \<and> length [7, 8, 9 :: byte] = unat (3 :: u64) \<and> out = [7, 8, 9]"
    by (rule pull_roundtrip [OF script.socket_axioms _ _ demo_open_pull _ demo_accept_pull demo_create_response demo_write _ _ out])
      (simp_all add: sock_source_def demo_client_def demo_server_def demo_parse_def fixed_read_new_def)
  with out show ?thesis by auto
qed

end
