(* ===== verification/Net_Utils.thy ===== *)
theory Net_Utils
  imports Net_Streams
begin

text \<open>
  The rest of \<^verbatim>\<open>crates/network/src/utils.rs\<close>: the stream adapter \<^verbatim>\<open>Batched\<close>, which collects the items of a
  stream and hands them on in batches, and the lookup of an address in a list of networks. The stream
  below and the membership of an address in a network are parameters.
\<close>

section \<open>Addresses\<close>

type_synonym u16 = "16 word"

datatype ip_addr = V4 u32 | V6 "128 word"

text \<open>The components of a multiaddress that the sources distinguish.\<close>

datatype protocol = Ip4 u32 | Ip6 "128 word" | Tcp u16 | OtherProtocol string

type_synonym multiaddr = "protocol list"

fun protocol_ip :: "protocol \<Rightarrow> ip_addr option" where
  "protocol_ip (Ip4 a) = Some (V4 a)"
| "protocol_ip (Ip6 a) = Some (V6 a)"
| "protocol_ip _ = None"

fun find_map :: "('a \<Rightarrow> 'b option) \<Rightarrow> 'a list \<Rightarrow> 'b option" where
  "find_map f [] = None"
| "find_map f (x # xs) = (case f x of None \<Rightarrow> find_map f xs | Some y \<Rightarrow> Some y)"

text \<open>\<open>contains net ip\<close> stands for \<^verbatim>\<open>IpNet::contains\<close>.\<close>

definition find_containing_cidr :: "('net \<Rightarrow> ip_addr \<Rightarrow> bool) \<Rightarrow> multiaddr \<Rightarrow> 'net list \<Rightarrow> 'net option" where
  "find_containing_cidr contains addr cidrs =
     (case find_map protocol_ip addr of
        None \<Rightarrow> None
      | Some ip \<Rightarrow> List.find (\<lambda>net. contains net ip) cidrs)"

datatype socket_addr = SocketAddr ip_addr u16

fun multiaddr_from_socketaddr :: "socket_addr \<Rightarrow> multiaddr" where
  "multiaddr_from_socketaddr (SocketAddr (V4 a) port) = [Ip4 a, Tcp port]"
| "multiaddr_from_socketaddr (SocketAddr (V6 a) port) = [Ip6 a, Tcp port]"

lemma find_map_None: "find_map f xs = None \<longleftrightarrow> (\<forall>x\<in>set xs. f x = None)"
  by (induction xs) (auto split: option.splits)

text \<open>An address without an IP component is in no network; otherwise the first one decides.\<close>

lemma find_containing_cidr_None:
  "find_containing_cidr contains addr cidrs = None \<longleftrightarrow>
     (\<forall>ip. find_map protocol_ip addr = Some ip \<longrightarrow> (\<forall>net\<in>set cidrs. \<not> contains net ip))"
  by (auto simp: find_containing_cidr_def find_None_iff split: option.splits)

section \<open>Batches\<close>

text \<open>
  The inner stream is a function of its state; \<^verbatim>\<open>Ready None\<close> is its end. The timer is the moment at which it fires.
  One poll reads the clock once.
\<close>

record ('s, 'a) batched =
  ba_inner :: 's
  ba_delay :: "instant option"
  ba_buffer :: "'a list"
  ba_limit :: nat
  ba_wait :: duration

definition batched_new :: "'s \<Rightarrow> nat \<Rightarrow> duration \<Rightarrow> ('s, 'a) batched" where
  "batched_new s limit wait = \<lparr>ba_inner = s, ba_delay = None, ba_buffer = [], ba_limit = limit, ba_wait = wait\<rparr>"

type_synonym ('s, 'a) stream_poll = "'s \<Rightarrow> 'a option poll \<times> 's"

text \<open>Handing on the buffer, which resets the timer.\<close>

definition flush_buffer :: "('s, 'a) batched \<Rightarrow> 'a list option poll \<times> ('s, 'a) batched" where
  "flush_buffer b = (Ready (Some (ba_buffer b)), b\<lparr>ba_delay := None, ba_buffer := []\<rparr>)"

function batched_poll :: "('s, 'a) stream_poll \<Rightarrow> instant \<Rightarrow> ('s, 'a) batched \<Rightarrow> 'a list option poll \<times> ('s, 'a) batched" where
  "batched_poll poll now b =
     (case poll (ba_inner b) of
        (Ready (Some item), s) \<Rightarrow>
          (let b = (if ba_buffer b = [] then b\<lparr>ba_delay := Some (now + ba_wait b)\<rparr> else b);
               b = b\<lparr>ba_inner := s, ba_buffer := ba_buffer b @ [item]\<rparr>
           in if ba_limit b \<le> length (ba_buffer b) then flush_buffer b else batched_poll poll now b)
      | (Ready None, s) \<Rightarrow>
          if ba_buffer b = [] then (Ready None, b\<lparr>ba_inner := s\<rparr>) else flush_buffer (b\<lparr>ba_inner := s\<rparr>)
      | (Pending, s) \<Rightarrow>
          (let b = b\<lparr>ba_inner := s\<rparr>
           in if ba_buffer b = [] then (Pending, b)
              else case ba_delay b of
                     Some t \<Rightarrow> if t \<le> now then flush_buffer b else (Pending, b)
                   | None \<Rightarrow> (Pending, b))
      | (Panicked, s) \<Rightarrow> (Panicked, b\<lparr>ba_inner := s\<rparr>))"
  by pat_completeness auto
termination
  by (relation "measure (\<lambda>(poll, now, b). ba_limit b - length (ba_buffer b))") (auto simp: Let_def split: if_splits)

declare batched_poll.simps [simp del]

text \<open>The items that polls of the inner stream give, from one state to another.\<close>

inductive pulls :: "('s, 'a) stream_poll \<Rightarrow> 's \<Rightarrow> 'a list \<Rightarrow> 's \<Rightarrow> bool" for poll where
  pulls_refl: "pulls poll s [] s"
| pulls_item: "pulls poll s xs s' \<Longrightarrow> poll s' = (Ready (Some x), s'') \<Longrightarrow> pulls poll s (xs @ [x]) s''"
| pulls_other: "pulls poll s xs s' \<Longrightarrow> poll s' = (y, s'') \<Longrightarrow> \<forall>x. y \<noteq> Ready (Some x) \<Longrightarrow> pulls poll s xs s''"

text \<open>The buffer is below the limit, and the timer runs exactly while something is buffered.\<close>

definition batched_ok :: "('s, 'a) batched \<Rightarrow> bool" where
  "batched_ok b \<longleftrightarrow>
     (if ba_buffer b = [] then ba_delay b = None else length (ba_buffer b) < ba_limit b \<and> ba_delay b \<noteq> None)"

text \<open>What one poll does, for a buffer that holds what the inner stream gave from its state \<open>s\<close> on.\<close>

definition batched_step :: "('s, 'a) stream_poll \<Rightarrow> 's \<Rightarrow> instant \<Rightarrow> 'a list option poll \<Rightarrow> ('s, 'a) batched \<Rightarrow> nat \<Rightarrow> duration \<Rightarrow> bool" where
  "batched_step poll s now x b limit wait \<longleftrightarrow>
     ba_limit b = limit \<and> ba_wait b = wait \<and> batched_ok b \<and>
     (case x of
        Ready (Some out) \<Rightarrow> pulls poll s out (ba_inner b) \<and> ba_buffer b = [] \<and> out \<noteq> [] \<and> length out \<le> max 1 limit
      | Ready None \<Rightarrow> pulls poll s [] (ba_inner b) \<and> ba_buffer b = []
      | Pending \<Rightarrow> pulls poll s (ba_buffer b) (ba_inner b) \<and> (\<forall>t. ba_delay b = Some t \<longrightarrow> now < t)
      | Panicked \<Rightarrow> pulls poll s (ba_buffer b) (ba_inner b))"

lemma flush_buffer_step:
  assumes "pulls poll s (ba_buffer b) (ba_inner b)" and "ba_buffer b \<noteq> []" and "length (ba_buffer b) \<le> max 1 (ba_limit b)"
    and "flush_buffer b = (x, b')"
  shows "batched_step poll s now x b' (ba_limit b) (ba_wait b)"
  using assms by (auto simp: flush_buffer_def batched_step_def batched_ok_def)

lemma batched_poll_step:
  assumes "pulls poll s (ba_buffer b) (ba_inner b)" and "batched_ok b"
    and "batched_poll poll now b = (x, b')"
  shows "batched_step poll s now x b' (ba_limit b) (ba_wait b)"
  using assms
proof (induction poll now b rule: batched_poll.induct)
  case (1 poll now b)
  obtain y s' where y: "poll (ba_inner b) = (y, s')" by force
  show ?case
  proof (cases y)
    case Pending
    with y have "pulls poll s (ba_buffer b) s'" by (intro pulls_other [OF 1(2)]) auto
    with 1(3,4) y Pending show ?thesis
      by (subst (asm) batched_poll.simps) (auto simp: Let_def batched_step_def batched_ok_def flush_buffer_def split: if_splits)
  next
    case Panicked
    with y have "pulls poll s (ba_buffer b) s'" by (intro pulls_other [OF 1(2)]) auto
    with 1(3,4) y Panicked show ?thesis
      by (subst (asm) batched_poll.simps) (auto simp: batched_step_def batched_ok_def split: if_splits)
  next
    case (Ready z)
    show ?thesis
    proof (cases z)
      case None
      with y Ready have "pulls poll s (ba_buffer b) s'" by (intro pulls_other [OF 1(2)]) auto
      with 1(3,4) y Ready None show ?thesis
        by (subst (asm) batched_poll.simps) (auto simp: batched_step_def batched_ok_def flush_buffer_def split: if_splits)
    next
      case (Some item)
      let ?b0 = "if ba_buffer b = [] then b\<lparr>ba_delay := Some (now + ba_wait b)\<rparr> else b"
      let ?b = "?b0\<lparr>ba_inner := s', ba_buffer := ba_buffer ?b0 @ [item]\<rparr>"
      have p: "pulls poll s (ba_buffer ?b) (ba_inner ?b)" using pulls_item [OF 1(2)] y Ready Some by auto
      have f: "ba_limit ?b = ba_limit b" "ba_wait ?b = ba_wait b" by simp_all
      have r: "batched_poll poll now b = (if ba_limit b \<le> length (ba_buffer ?b) then flush_buffer ?b else batched_poll poll now ?b)"
        using y Ready Some by (subst batched_poll.simps) (simp add: Let_def)
      show ?thesis
      proof (cases "ba_limit b \<le> length (ba_buffer ?b)")
        case True
        have "length (ba_buffer ?b) \<le> max 1 (ba_limit ?b)" using 1(3) by (auto simp: batched_ok_def split: if_splits)
        from flush_buffer_step [OF p _ this] True r 1(4) f show ?thesis by simp
      next
        case False
        then have "batched_ok ?b" using 1(3) by (auto simp: batched_ok_def split: if_splits)
        from 1(1) [OF y [symmetric] Ready Some refl refl _ p this] False r 1(4) f show ?thesis by simp
      qed
    qed
  qed
qed

text \<open>Polls at the given moments, and the batches that they give.\<close>

fun batched_run :: "('s, 'a) stream_poll \<Rightarrow> instant list \<Rightarrow> ('s, 'a) batched \<Rightarrow> 'a list option poll list \<times> ('s, 'a) batched" where
  "batched_run poll [] b = ([], b)"
| "batched_run poll (now # ts) b =
     (let (x, b) = batched_poll poll now b; (xs, b) = batched_run poll ts b in (x # xs, b))"

fun batches :: "'a list option poll list \<Rightarrow> 'a list list" where
  "batches [] = []"
| "batches (Ready (Some out) # xs) = out # batches xs"
| "batches (_ # xs) = batches xs"

lemma pulls_trans: "pulls poll s1 ys s2 \<Longrightarrow> pulls poll s xs s1 \<Longrightarrow> pulls poll s (xs @ ys) s2"
proof (induction rule: pulls.induct)
  case (pulls_item s1 ys s' x s'')
  then show ?case using pulls.pulls_item [of poll s "xs @ ys"] by simp
next
  case (pulls_other s1 ys s' y s'')
  then show ?case using pulls.pulls_other [of poll s "xs @ ys"] by blast
qed simp

lemma batched_run_ok:
  assumes "batched_run poll ts b = (outs, b')" and "pulls poll s (ba_buffer b) (ba_inner b)" and "batched_ok b"
  shows "pulls poll s (concat (batches outs) @ ba_buffer b') (ba_inner b') \<and> batched_ok b' \<and> ba_limit b' = ba_limit b
    \<and> ba_wait b' = ba_wait b \<and> (\<forall>out\<in>set (batches outs). out \<noteq> [] \<and> length out \<le> max 1 (ba_limit b))
    \<and> (\<forall>t. ts \<noteq> [] \<longrightarrow> last outs = Pending \<longrightarrow> ba_delay b' = Some t \<longrightarrow> last ts < t)"
  using assms
proof (induction ts arbitrary: b s outs)
  case (Cons now ts)
  obtain x b1 xs where x: "batched_poll poll now b = (x, b1)" and xs: "batched_run poll ts b1 = (xs, b')" and outs: "outs = x # xs"
    using Cons.prems(1) by (auto simp: Let_def split: prod.splits)
  have step: "batched_step poll s now x b1 (ba_limit b) (ba_wait b)"
    by (rule batched_poll_step [OF Cons.prems(2,3) x])
  obtain s1 ys where s1: "pulls poll s (concat ys) s1" "pulls poll s1 (ba_buffer b1) (ba_inner b1)"
    and ys: "batches outs = ys @ batches xs" "\<forall>out\<in>set ys. out \<noteq> [] \<and> length out \<le> max 1 (ba_limit b)"
  proof (cases "\<exists>out. x = Ready (Some out)")
    case True
    then obtain out where "x = Ready (Some out)" ..
    with step outs show ?thesis by (intro that [of "[out]" "ba_inner b1"]) (auto simp: batched_step_def intro: pulls_refl)
  next
    case False
    then have "batches outs = batches xs" using outs by (cases x) auto
    moreover have "pulls poll s (ba_buffer b1) (ba_inner b1)"
      using step False by (auto simp: batched_step_def split: poll.splits option.splits)
    ultimately show ?thesis by (intro that [of "[]" s]) (auto intro: pulls_refl)
  qed
  have ok: "batched_ok b1" "ba_limit b1 = ba_limit b" "ba_wait b1 = ba_wait b" using step by (simp_all add: batched_step_def)
  from Cons.IH [OF xs s1(2) ok(1)] have IH:
    "pulls poll s1 (concat (batches xs) @ ba_buffer b') (ba_inner b')" "batched_ok b'" "ba_limit b' = ba_limit b1" "ba_wait b' = ba_wait b1"
    "\<forall>out\<in>set (batches xs). out \<noteq> [] \<and> length out \<le> max 1 (ba_limit b1)"
    "\<forall>t. ts \<noteq> [] \<longrightarrow> last xs = Pending \<longrightarrow> ba_delay b' = Some t \<longrightarrow> last ts < t" by auto
  have "last outs = Pending \<Longrightarrow> ba_delay b' = Some t \<Longrightarrow> last (now # ts) < t" for t
  proof (cases ts)
    case Nil
    then show "last outs = Pending \<Longrightarrow> ba_delay b' = Some t \<Longrightarrow> ?thesis" using step xs outs by (auto simp: batched_step_def)
  next
    case (Cons t' ts')
    then have "xs \<noteq> []" using xs by (auto simp: Let_def split: prod.splits)
    then show "last outs = Pending \<Longrightarrow> ba_delay b' = Some t \<Longrightarrow> ?thesis" using IH(6) Cons outs by simp
  qed
  with pulls_trans [OF IH(1) s1(1)] IH(2-5) ok ys show ?case by auto
qed simp

text \<open>
  The timer: a poll that leaves something in the buffer has set it if the buffer was empty before, and
  has left it alone otherwise.
\<close>

lemma batched_poll_delay:
  assumes "batched_poll poll now b = (x, b')" and "ba_buffer b' \<noteq> []"
  shows "ba_delay b' = (if ba_buffer b = [] then Some (now + ba_wait b) else ba_delay b)"
  using assms
proof (induction poll now b rule: batched_poll.induct)
  case (1 poll now b)
  obtain y s' where y: "poll (ba_inner b) = (y, s')" by force
  show ?case
  proof (cases "\<exists>item. y = Ready (Some item)")
    case False
    then consider "y = Pending" | "y = Panicked" | "y = Ready None" by (metis poll.exhaust option.exhaust)
    then show ?thesis using 1(2,3) y
      by cases (subst (asm) batched_poll.simps; auto simp: Let_def flush_buffer_def split: if_splits option.splits)+
  next
    case True
    then obtain item where item: "y = Ready (Some item)" ..
    let ?b0 = "if ba_buffer b = [] then b\<lparr>ba_delay := Some (now + ba_wait b)\<rparr> else b"
    let ?b = "?b0\<lparr>ba_inner := s', ba_buffer := ba_buffer ?b0 @ [item]\<rparr>"
    have r: "batched_poll poll now b = (if ba_limit b \<le> length (ba_buffer ?b) then flush_buffer ?b else batched_poll poll now ?b)"
      using y item by (subst batched_poll.simps) (simp add: Let_def)
    have "\<not> ba_limit b \<le> length (ba_buffer ?b)" using r 1(2,3) by (auto simp: flush_buffer_def)
    with 1(1) [OF y [symmetric] item refl refl refl] r 1(2,3) show ?thesis by (auto split: if_splits)
  qed
qed

lemma batched_run_snoc:
  "batched_run poll (ts @ [now]) b =
     (let (xs, b1) = batched_run poll ts b; (x, b2) = batched_poll poll now b1 in (xs @ [x], b2))"
  by (induction ts arbitrary: b) (simp_all add: Let_def split: prod.splits)

lemma batched_run_wait: "ba_wait (snd (batched_run poll ts (batched_new s limit wait))) = wait"
  using batched_run_ok [where poll = poll and ts = ts and b = "batched_new s limit wait" and s = s, OF prod.collapse [symmetric]]
  by (simp add: batched_new_def batched_ok_def pulls_refl)

text \<open>
  What is buffered since when: \<open>buffered_since poll ts b t\<close> holds of the moment \<open>t\<close> of the poll that read the first item
  of the present buffer. The buffer was empty before that poll and has not been empty after any poll since.
\<close>

definition buffered_since :: "('s, 'a) stream_poll \<Rightarrow> instant list \<Rightarrow> ('s, 'a) batched \<Rightarrow> instant \<Rightarrow> bool" where
  "buffered_since poll ts b t \<longleftrightarrow>
     (\<exists>us vs. ts = us @ t # vs \<and> ba_buffer (snd (batched_run poll us b)) = []
        \<and> (\<forall>n\<le>length vs. ba_buffer (snd (batched_run poll (us @ t # take n vs) b)) \<noteq> []))"

lemma buffered_since_snoc:
  assumes "buffered_since poll ts b t" and "ba_buffer (snd (batched_run poll (ts @ [now]) b)) \<noteq> []"
  shows "buffered_since poll (ts @ [now]) b t"
proof -
  from assms(1) obtain us vs where u: "ts = us @ t # vs" "ba_buffer (snd (batched_run poll us b)) = []"
    "\<forall>n\<le>length vs. ba_buffer (snd (batched_run poll (us @ t # take n vs) b)) \<noteq> []"
    by (auto simp: buffered_since_def)
  have "ba_buffer (snd (batched_run poll (us @ t # take n (vs @ [now])) b)) \<noteq> []" if "n \<le> length (vs @ [now])" for n
    using that u(1,3) assms(2) by (cases "n = Suc (length vs)") auto
  then show ?thesis using u(1,2) unfolding buffered_since_def
    by (intro exI [of _ us] exI [of _ "vs @ [now]"]) simp
qed

lemma batched_run_delay:
  assumes "ba_buffer (snd (batched_run poll ts (batched_new s limit wait))) \<noteq> []"
  shows "\<exists>t. buffered_since poll ts (batched_new s limit wait) t
    \<and> ba_delay (snd (batched_run poll ts (batched_new s limit wait))) = Some (t + wait)"
  using assms
proof (induction ts rule: rev_induct)
  case Nil
  then show ?case by (simp add: batched_new_def)
next
  case (snoc now ts)
  let ?b = "batched_new s limit wait :: ('b, 'a) batched"
  let ?b1 = "snd (batched_run poll ts ?b)" and ?b2 = "snd (batched_run poll (ts @ [now]) ?b)"
  have "batched_poll poll now ?b1 = (fst (batched_poll poll now ?b1), ?b2)"
    by (simp add: batched_run_snoc Let_def split: prod.splits)
  note d = batched_poll_delay [OF this snoc.prems]
  show ?case
  proof (cases "ba_buffer ?b1 = []")
    case True
    then have "buffered_since poll (ts @ [now]) ?b now" using snoc.prems unfolding buffered_since_def
      by (intro exI [of _ ts] exI [of _ "[]"]) simp
    with d True show ?thesis by (auto simp: batched_run_wait)
  next
    case False
    from snoc.IH [OF this] obtain t where "buffered_since poll ts ?b t" "ba_delay ?b1 = Some (t + wait)" by blast
    with d False buffered_since_snoc [OF _ snoc.prems] show ?thesis by auto
  qed
qed

text \<open>
  C23. The batches are the stream, cut into pieces: whatever the inner stream gives at whatever polls, the batches handed
  on, in order, followed by what is still buffered, are exactly the items that were read, in order. No batch is
  empty or longer than the limit (or one, for a limit of zero). Nothing is kept back too long: when a poll answers that
  nothing is ready although something is buffered, then less than the waiting time has passed since the poll that read
  the first of the buffered items, the one before which the buffer was last empty.
\<close>

theorem batched_lossless:
  assumes "batched_run poll ts (batched_new s limit wait) = (outs, b)"
  shows "pulls poll s (concat (batches outs) @ ba_buffer b) (ba_inner b)
    \<and> (\<forall>out\<in>set (batches outs). out \<noteq> [] \<and> length out \<le> max 1 limit)
    \<and> (ba_buffer b \<noteq> [] \<longrightarrow> (\<exists>t. buffered_since poll ts (batched_new s limit wait) t
        \<and> (last outs = Pending \<longrightarrow> last ts < t + wait)))"
proof -
  have ok: "batched_ok (batched_new s limit wait :: ('b, 'a) batched)" by (simp add: batched_ok_def batched_new_def)
  have "pulls poll s (ba_buffer (batched_new s limit wait)) (ba_inner (batched_new s limit wait))"
    by (simp add: batched_new_def pulls_refl)
  from batched_run_ok [OF assms this ok] have *:
    "pulls poll s (concat (batches outs) @ ba_buffer b) (ba_inner b)"
    "\<forall>out\<in>set (batches outs). out \<noteq> [] \<and> length out \<le> max 1 limit"
    "\<forall>t. ts \<noteq> [] \<longrightarrow> last outs = Pending \<longrightarrow> ba_delay b = Some t \<longrightarrow> last ts < t" by (auto simp: batched_new_def)
  have "ts \<noteq> []" if "ba_buffer b \<noteq> []" using that assms by (auto simp: batched_new_def)
  with * show ?thesis using batched_run_delay [of poll ts s limit wait] assms by auto
qed

text \<open>A stream that follows a script.\<close>

fun script_poll :: "('a option poll list, 'a) stream_poll" where
  "script_poll [] = (Ready None, [])"
| "script_poll (x # xs) = (x, xs)"

abbreviation demo_items :: "nat option poll list" where
  "demo_items \<equiv> [Ready (Some 1), Ready (Some 2), Ready (Some 3), Pending, Pending, Pending]"

lemma demo_batches:
  "batched_run script_poll [10, 11, 12] (batched_new demo_items 2 5) =
     ([Ready (Some [1, 2]), Pending, Pending],
      \<lparr>ba_inner = [Pending], ba_delay = Some 16, ba_buffer = [3], ba_limit = 2, ba_wait = 5\<rparr>)"
  by (simp add: batched_new_def batched_poll.simps flush_buffer_def)

theorem batched_lossless_witness:
  "pulls script_poll demo_items (concat [[1, 2]] @ [3]) [Pending] \<and> length [1, 2 :: nat] \<le> max 1 2
   \<and> (\<exists>t. buffered_since script_poll [10, 11, 12] (batched_new demo_items 2 5) t \<and> 12 < t + 5)"
  using batched_lossless [OF demo_batches] by auto

end
