(* ===== verification/Net_Drivers.thy ===== *)
theory Net_Drivers
  imports Net_Answers Net_Utils
begin

text \<open>
  The drivers of the network that answer each caller once: \<^verbatim>\<open>dial.rs\<close>, \<^verbatim>\<open>listen.rs\<close> and
  \<^verbatim>\<open>request_response.rs\<close> of \<^verbatim>\<open>crates/network/src\<close>. What the library returns from a call (an identifier, an error)
  is an argument of the action that makes the call.
\<close>

section \<open>Dialing\<close>

type_synonym connection_id = nat

datatype dial_error = Aborted | DialFailed string

datatype dial_action = Dial multiaddr chan

record dialer =
  pending_dials :: "connection_id \<rightharpoonup> chan"
  dial_answers :: "(chan \<times> (dial_error + peer_id)) list"
  dialed :: "multiaddr list"

text \<open>
  An address in an excluded network is reported in the log and dialed nevertheless. \<open>conn\<close> is the identifier in the
  options of the dial, \<open>result\<close> the error of \<^verbatim>\<open>Swarm::dial\<close>, if any.
\<close>

fun process_dial_action :: "connection_id \<Rightarrow> dial_error option \<Rightarrow> dial_action \<Rightarrow> dialer \<Rightarrow> dialer" where
  "process_dial_action conn result (Dial address tx) d =
     (let d = d\<lparr>dialed := dialed d @ [address]\<rparr>
      in case result of
           Some err \<Rightarrow> d\<lparr>dial_answers := dial_answers d @ [(tx, Inl err)]\<rparr>
         | None \<Rightarrow> d\<lparr>pending_dials := (pending_dials d)(conn \<mapsto> tx)\<rparr>)"

definition process_connection_established :: "peer_id \<Rightarrow> connection_id \<Rightarrow> dialer \<Rightarrow> dialer" where
  "process_connection_established peer conn d =
     (case pending_dials d conn of
        None \<Rightarrow> d
      | Some tx \<Rightarrow> d\<lparr>pending_dials := (pending_dials d)(conn := None), dial_answers := dial_answers d @ [(tx, Inr peer)]\<rparr>)"

definition process_connection_error :: "connection_id \<Rightarrow> dial_error \<Rightarrow> dialer \<Rightarrow> dialer" where
  "process_connection_error conn error d =
     (case pending_dials d conn of
        None \<Rightarrow> d
      | Some tx \<Rightarrow> d\<lparr>pending_dials := (pending_dials d)(conn := None), dial_answers := dial_answers d @ [(tx, Inl error)]\<rparr>)"

text \<open>What the caller of \<^verbatim>\<open>dial\<close> gets; \<open>None\<close> is a channel whose sending end was dropped.\<close>

fun dial_outcome :: "(dial_error + peer_id) option \<Rightarrow> dial_error + peer_id" where
  "dial_outcome (Some x) = x"
| "dial_outcome None = Inl Aborted"

section \<open>Listening\<close>

type_synonym listener_id = nat
type_synonym transport_error = string

datatype listen_action = Listen multiaddr chan

record listener =
  pending_listens :: "listener_id \<rightharpoonup> chan"
  listen_answers :: "(chan \<times> (transport_error + unit)) list"

fun process_listen_action :: "transport_error + listener_id \<Rightarrow> listen_action \<Rightarrow> listener \<Rightarrow> listener" where
  "process_listen_action (Inr lid) (Listen address tx) l = l\<lparr>pending_listens := (pending_listens l)(lid \<mapsto> tx)\<rparr>"
| "process_listen_action (Inl err) (Listen address tx) l = l\<lparr>listen_answers := listen_answers l @ [(tx, Inl err)]\<rparr>"

definition process_new_listen_addr :: "listener_id \<Rightarrow> multiaddr \<Rightarrow> listener \<Rightarrow> listener" where
  "process_new_listen_addr lid address l =
     (case pending_listens l lid of
        None \<Rightarrow> l
      | Some tx \<Rightarrow> l\<lparr>pending_listens := (pending_listens l)(lid := None), listen_answers := listen_answers l @ [(tx, Inr ())]\<rparr>)"

section \<open>Requests and responses\<close>

type_synonym handler_id = u64
type_synonym outbound_id = nat
type_synonym inbound_id = nat

text \<open>\<^verbatim>\<open>HandlerId::new\<close>: a counter that is read and incremented, and wraps.\<close>

definition handler_id_new :: "u64 \<Rightarrow> handler_id \<times> u64" where
  "handler_id_new counter = (counter, counter + 1)"

datatype outbound_failure = DialFailure | Timeout | ConnectionClosed | UnsupportedProtocols | OutboundIo

datatype rr_error = RequestFailed outbound_failure | ResponseFailed | ChannelError string | NoHandler | OtherError string

text \<open>\<open>in_channel\<close> is where the response has to go.\<close>

record 'q inbound_request =
  in_request_id :: inbound_id
  in_channel :: nat
  in_peer_id :: peer_id
  in_request :: 'q

record 'q request_handler =
  rh_id :: handler_id
  rh_matcher :: "'q \<Rightarrow> bool"
  rh_sender :: chan

datatype ('q, 'r) rr_action =
    OutboundRequest peer_id 'q chan
  | OutboundResponse inbound_id nat 'r chan
  | RegisterHandler handler_id "'q \<Rightarrow> bool" chan
  | UnregisterHandler handler_id

datatype ('q, 'r) rr_event =
    InboundFailure peer_id inbound_id
  | MessageRequest peer_id inbound_id 'q nat
  | MessageResponse peer_id outbound_id 'r
  | OutboundFailure peer_id outbound_id outbound_failure
  | ResponseSent peer_id inbound_id

text \<open>
  The maps and the handlers, and what was sent: answers to callers of \<^verbatim>\<open>request\<close>, confirmations to callers of
  \<^verbatim>\<open>respond\<close>, requests handed to the tasks that put them into the channels of handlers, and responses given to
  the library.
\<close>

record ('q, 'r) requester =
  outbound_requests :: "outbound_id \<rightharpoonup> chan"
  outbound_responses :: "inbound_id \<rightharpoonup> chan"
  request_handlers :: "'q request_handler list"
  rr_answers :: "(chan \<times> (rr_error + 'r)) list"
  rr_confirmed :: "(chan \<times> (rr_error + unit)) list"
  rr_handed :: "(chan \<times> 'q inbound_request) list"
  rr_responses :: "(nat \<times> 'r) list"

definition requester_new :: "('q, 'r) requester" where
  "requester_new = \<lparr>outbound_requests = Map.empty, outbound_responses = Map.empty, request_handlers = [], rr_answers = [],
     rr_confirmed = [], rr_handed = [], rr_responses = []\<rparr>"

text \<open>\<open>oid\<close> is the identifier from \<^verbatim>\<open>send_request\<close>; \<open>up\<close> says whether \<^verbatim>\<open>send_response\<close> still found the channel open.\<close>

fun process_request_response_action ::
    "outbound_id \<Rightarrow> bool \<Rightarrow> ('q, 'r) rr_action \<Rightarrow> ('q, 'r) requester \<Rightarrow> ('q, 'r) requester" where
  "process_request_response_action oid up (OutboundRequest peer request tx) d =
     d\<lparr>outbound_requests := (outbound_requests d)(oid \<mapsto> tx)\<rparr>"
| "process_request_response_action oid up (OutboundResponse iid channel response tx) d =
     (let (result, sent) = (if up then (Inr (), [(channel, response)]) else (Inl (OtherError ''Failed to send response''), []))
      in d\<lparr>rr_responses := rr_responses d @ sent, rr_confirmed := rr_confirmed d @ [(tx, result)]\<rparr>)"
| "process_request_response_action oid up (RegisterHandler hid matcher sender) d =
     d\<lparr>request_handlers := request_handlers d @ [\<lparr>rh_id = hid, rh_matcher = matcher, rh_sender = sender\<rparr>]\<rparr>"
| "process_request_response_action oid up (UnregisterHandler hid) d =
     d\<lparr>request_handlers := filter (\<lambda>h. rh_id h \<noteq> hid) (request_handlers d)\<rparr>"

fun process_request_response_event :: "('q, 'r) rr_event \<Rightarrow> ('q, 'r) requester \<Rightarrow> ('q, 'r) requester" where
  "process_request_response_event (InboundFailure peer iid) d = d"
| "process_request_response_event (MessageRequest peer iid request channel) d =
     (case List.find (\<lambda>h. rh_matcher h request) (request_handlers d) of
        None \<Rightarrow> d
      | Some h \<Rightarrow>
          d\<lparr>rr_handed := rr_handed d @
            [(rh_sender h, \<lparr>in_request_id = iid, in_channel = channel, in_peer_id = peer, in_request = request\<rparr>)]\<rparr>)"
| "process_request_response_event (MessageResponse peer oid response) d =
     (case outbound_requests d oid of
        None \<Rightarrow> d
      | Some tx \<Rightarrow>
          d\<lparr>outbound_requests := (outbound_requests d)(oid := None), rr_answers := rr_answers d @ [(tx, Inr response)]\<rparr>)"
| "process_request_response_event (OutboundFailure peer oid error) d =
     (case outbound_requests d oid of
        None \<Rightarrow> d
      | Some tx \<Rightarrow>
          d\<lparr>outbound_requests := (outbound_requests d)(oid := None), rr_answers := rr_answers d @ [(tx, Inl (RequestFailed error))]\<rparr>)"
| "process_request_response_event (ResponseSent peer iid) d =
     (case outbound_responses d iid of
        None \<Rightarrow> d
      | Some tx \<Rightarrow>
          d\<lparr>outbound_responses := (outbound_responses d)(iid := None), rr_confirmed := rr_confirmed d @ [(tx, Inr ())]\<rparr>)"

text \<open>What the callers of \<^verbatim>\<open>request\<close> and \<^verbatim>\<open>respond\<close> get; \<open>None\<close> is a channel whose sending end was dropped.\<close>

fun request_outcome :: "(rr_error + 'r) option \<Rightarrow> rr_error + 'r" where
  "request_outcome (Some x) = x"
| "request_outcome None = Inl (ChannelError ''Response channel closed unexpectedly'')"

fun respond_outcome :: "(rr_error + unit) option \<Rightarrow> rr_error + unit" where
  "respond_outcome (Some x) = x"
| "respond_outcome None = Inl (ChannelError ''Response confirmation channel closed'')"

end
