(* ===== verification/Net_Discovery.thy ===== *)
theory Net_Discovery
  imports Net_Drivers
begin

text \<open>
  Discovery: the driver and the interface of the distributed hash table (\<^verbatim>\<open>crates/network/src/kad.rs\<close>) and of the
  topics (\<^verbatim>\<open>gossipsub.rs\<close>). A query may give several results, which are forwarded in order; the caller
  reads until the driver drops its sending end, and folds what it read. What the library answers is an
  argument.
\<close>

section \<open>The hash table\<close>

type_synonym query_id = nat
type_synonym kad_key = string

record kad_record =
  kr_key :: kad_key
  kr_value :: "byte list"

text \<open>Errors of the library are kept as its text.\<close>

datatype providers_ok = FoundProviders kad_key "peer_id set" | FinishedWithNoAdditionalRecord "peer_id list"

datatype kad_ok =
    OkGetProviders providers_ok
  | OkStartProviding
  | OkPutRecord
  | OkGetRecord kad_record
  | OkGetClosestPeers "peer_id list"

datatype kad_error =
    ErrGetProviders string
  | ErrStore string
  | ErrPutRecord string
  | ErrGetRecord string
  | ErrGetClosestPeers string
  | ErrOther string

type_synonym kad_result = "kad_error + kad_ok"

datatype kad_action =
    GetProvider kad_key chan
  | GetRecord kad_key chan
  | PutRecord kad_record chan
  | StartProviding kad_key chan
  | GetClosestPeers peer_id chan
  | WaitForBootstrap chan

text \<open>The results of queries that the driver distinguishes; the others carry nothing that it reads.\<close>

datatype query_result =
    QPutRecord "string + unit"
  | QFoundRecord kad_record
  | QFinishedRecord
  | QGetRecordError string
  | QGetProviders "string + providers_ok"
  | QStartProviding "string + unit"
  | QGetClosestPeers "string + peer_id list"
  | QBootstrap "string + unit"
  | QOther

text \<open>
  \<open>kad_sent\<close> logs the results sent on the callers' channels, \<open>boot_waiting\<close> the channels of the tasks that wait
  for the bootstrap and \<open>boot_sent\<close> those that were woken; \<open>routing\<close> the addresses given to the routing table.
\<close>

record kademlia =
  pending_queries :: "query_id \<rightharpoonup> chan"
  pending_bootstrap :: bool
  kad_sent :: "(chan \<times> kad_result) list"
  boot_waiting :: "chan list"
  boot_sent :: "chan list"
  routing :: "(peer_id \<times> multiaddr) list"

definition kademlia_new :: kademlia where
  "kademlia_new = \<lparr>pending_queries = Map.empty, pending_bootstrap = False, kad_sent = [], boot_waiting = [], boot_sent = [], routing = []\<rparr>"

text \<open>\<open>q\<close> is what the library returned from starting the query; only storing and providing can fail.\<close>

definition kad_file :: "query_id \<Rightarrow> chan \<Rightarrow> kademlia \<Rightarrow> kademlia" where
  "kad_file q tx k = k\<lparr>pending_queries := (pending_queries k)(q \<mapsto> tx)\<rparr>"

definition kad_file_or_fail :: "string + query_id \<Rightarrow> chan \<Rightarrow> kademlia \<Rightarrow> kademlia" where
  "kad_file_or_fail q tx k =
     (case q of
        Inr q \<Rightarrow> kad_file q tx k
      | Inl err \<Rightarrow> k\<lparr>kad_sent := kad_sent k @ [(tx, Inl (ErrStore err))]\<rparr>)"

text \<open>A task that waits for the bootstrap: it is woken at once when that has happened already.\<close>

definition wait_for_bootstrap :: "chan \<Rightarrow> kademlia \<Rightarrow> kademlia" where
  "wait_for_bootstrap tx k =
     (if pending_bootstrap k then k\<lparr>boot_sent := boot_sent k @ [tx]\<rparr> else k\<lparr>boot_waiting := boot_waiting k @ [tx]\<rparr>)"

text \<open>\<open>qid\<close> is what a query that cannot fail to start returned, \<open>q\<close> what the other two returned.\<close>

fun process_kademlia_action :: "query_id \<Rightarrow> string + query_id \<Rightarrow> kad_action \<Rightarrow> kademlia \<Rightarrow> kademlia" where
  "process_kademlia_action qid q (GetRecord key tx) k = kad_file qid tx k"
| "process_kademlia_action qid q (PutRecord record tx) k = kad_file_or_fail q tx k"
| "process_kademlia_action qid q (GetProvider key tx) k = kad_file qid tx k"
| "process_kademlia_action qid q (StartProviding key tx) k = kad_file_or_fail q tx k"
| "process_kademlia_action qid q (GetClosestPeers peer tx) k = kad_file qid tx k"
| "process_kademlia_action qid q (WaitForBootstrap tx) k = wait_for_bootstrap tx k"

definition send_kademlia_result :: "query_id \<Rightarrow> bool \<Rightarrow> kad_result \<Rightarrow> kademlia \<Rightarrow> kademlia" where
  "send_kademlia_result q last_step result k =
     (case pending_queries k q of
        None \<Rightarrow> k
      | Some tx \<Rightarrow>
          (let k = k\<lparr>kad_sent := kad_sent k @ [(tx, result)]\<rparr>
           in if last_step then k\<lparr>pending_queries := (pending_queries k)(q := None)\<rparr> else k))"

definition set_bootstrapped :: "kademlia \<Rightarrow> kademlia" where
  "set_bootstrapped k = k\<lparr>pending_bootstrap := True, boot_sent := boot_sent k @ boot_waiting k, boot_waiting := []\<rparr>"

fun process_kademlia_query_result :: "query_id \<Rightarrow> query_result \<Rightarrow> bool \<Rightarrow> kademlia \<Rightarrow> kademlia" where
  "process_kademlia_query_result q (QPutRecord (Inr _)) l k = send_kademlia_result q l (Inr OkPutRecord) k"
| "process_kademlia_query_result q (QPutRecord (Inl err)) l k = send_kademlia_result q l (Inl (ErrPutRecord err)) k"
| "process_kademlia_query_result q (QFoundRecord record) l k = send_kademlia_result q l (Inr (OkGetRecord record)) k"
| "process_kademlia_query_result q (QGetRecordError err) l k = send_kademlia_result q l (Inl (ErrGetRecord err)) k"
| "process_kademlia_query_result q (QGetProviders (Inr providers)) l k = send_kademlia_result q l (Inr (OkGetProviders providers)) k"
| "process_kademlia_query_result q (QGetProviders (Inl err)) l k = send_kademlia_result q l (Inl (ErrGetProviders err)) k"
| "process_kademlia_query_result q (QStartProviding (Inr _)) l k = send_kademlia_result q l (Inr OkStartProviding) k"
| "process_kademlia_query_result q (QGetClosestPeers (Inr peers)) l k = send_kademlia_result q l (Inr (OkGetClosestPeers peers)) k"
| "process_kademlia_query_result q (QGetClosestPeers (Inl err)) l k = send_kademlia_result q l (Inl (ErrGetClosestPeers err)) k"
| "process_kademlia_query_result q (QBootstrap (Inr _)) l k = set_bootstrapped k"
| "process_kademlia_query_result q _ l k = k"

text \<open>The addresses that a peer says it listens on, less those in the excluded networks.\<close>

datatype identify_event = Received peer_id "multiaddr list" | IdentifySent peer_id | Pushed peer_id "multiaddr list" | IdentifyError peer_id

fun process_identify_event :: "('net \<Rightarrow> ip_addr \<Rightarrow> bool) \<Rightarrow> 'net list \<Rightarrow> identify_event \<Rightarrow> kademlia \<Rightarrow> kademlia" where
  "process_identify_event contains cidrs (Received peer listen_addrs) k =
     k\<lparr>routing := routing k @ map (Pair peer) (filter (\<lambda>a. find_containing_cidr contains a cidrs = None) listen_addrs)\<rparr>"
| "process_identify_event contains cidrs _ k = k"

subsection \<open>The callers\<close>

text \<open>
  A caller that reads all results folds them once its channel is closed; a caller that reads one result takes the first, and
  a channel that closes without one is an error.
\<close>

definition unexpected :: kad_error where
  "unexpected = ErrOther ''Unexpected response''"

fun kad_store :: "kad_error + unit \<Rightarrow> kad_result list \<Rightarrow> kad_error + unit" where
  "kad_store acc [] = acc"
| "kad_store acc (Inr OkPutRecord # rs) = kad_store acc rs"
| "kad_store acc (Inl err # rs) = kad_store (Inl err) rs"
| "kad_store acc (_ # rs) = kad_store (Inl unexpected) rs"

fun kad_provide :: "kad_error + unit \<Rightarrow> kad_result list \<Rightarrow> kad_error + unit" where
  "kad_provide acc [] = acc"
| "kad_provide acc (Inr OkStartProviding # rs) = kad_provide acc rs"
| "kad_provide acc (Inl err # rs) = kad_provide (Inl err) rs"
| "kad_provide acc (_ # rs) = kad_provide (Inl unexpected) rs"

fun kad_get :: "kad_result list \<Rightarrow> kad_error + kad_record" where
  "kad_get [] = Inl (ErrOther ''No response received from the network'')"
| "kad_get (Inr (OkGetRecord record) # rs) = Inr record"
| "kad_get (Inl err # rs) = Inl err"
| "kad_get (_ # rs) = Inl unexpected"

fun find_provider :: "kad_error + peer_id set \<Rightarrow> kad_result list \<Rightarrow> kad_error + peer_id set" where
  "find_provider acc [] = acc"
| "find_provider acc (Inr (OkGetProviders (FoundProviders key providers)) # rs) =
     find_provider (map_sum id (\<lambda>s. s \<union> providers) acc) rs"
| "find_provider acc (Inr (OkGetProviders (FinishedWithNoAdditionalRecord closest)) # rs) = find_provider acc rs"
| "find_provider acc (Inl err # rs) = find_provider (Inl err) rs"
| "find_provider acc (_ # rs) = find_provider (Inl unexpected) rs"

fun get_closest_peers :: "kad_error + peer_id list \<Rightarrow> kad_result list \<Rightarrow> kad_error + peer_id list" where
  "get_closest_peers acc [] = acc"
| "get_closest_peers acc (Inr (OkGetClosestPeers peers) # rs) = get_closest_peers (map_sum id (\<lambda>ps. ps @ peers) acc) rs"
| "get_closest_peers acc (Inl err # rs) = get_closest_peers (Inl err) rs"
| "get_closest_peers acc (_ # rs) = get_closest_peers (Inl unexpected) rs"

section \<open>Topics\<close>

type_synonym topic = string

record gossip_message =
  gm_source :: peer_id
  gm_data :: "byte list"

datatype gossip_error = SubscriptionError string | PublishError string

datatype gossip_action = Publish topic "byte list" chan | Subscribe topic chan | Unsubscribe topic chan

text \<open>
  A subscription is a broadcast channel, named by a number; \<open>next_channel\<close> is the next one. \<open>gs_receivers\<close> logs who was
  given a receiver of which channel and how many messages that channel had then, \<open>gs_messages\<close> the messages sent on each.
\<close>

record gossip =
  subscriptions :: "topic \<rightharpoonup> nat"
  next_channel :: nat
  gs_published :: "(chan \<times> (gossip_error + unit)) list"
  gs_receivers :: "(chan \<times> (gossip_error + nat \<times> nat)) list"
  gs_messages :: "nat \<Rightarrow> gossip_message list"

text \<open>
  What the library answers to a publication, a subscription and the end of one. \<open>None\<close> is the panic of
  an \<^verbatim>\<open>expect\<close>.
\<close>

record gossip_answers =
  ga_publish :: "string option"
  ga_subscribe :: "string + bool"
  ga_unsubscribe :: bool

fun process_gossipsub_action :: "gossip_answers \<Rightarrow> gossip_action \<Rightarrow> gossip \<Rightarrow> gossip option" where
  "process_gossipsub_action lib (Publish topic bytes tx) g =
     Some (case ga_publish lib of
             Some e \<Rightarrow> g\<lparr>gs_published := gs_published g @ [(tx, Inl (PublishError e))]\<rparr>
           | None \<Rightarrow> g\<lparr>gs_published := gs_published g @ [(tx, Inr ())]\<rparr>)"
| "process_gossipsub_action lib (Subscribe topic tx) g =
     (case ga_subscribe lib of
        Inr True \<Rightarrow>
          (let c = next_channel g
           in Some (g\<lparr>next_channel := Suc c, subscriptions := (subscriptions g)(topic \<mapsto> c), gs_receivers := gs_receivers g @ [(tx, Inr (c, length (gs_messages g c)))]\<rparr>))
      | Inr False \<Rightarrow>
          (case subscriptions g topic of
             None \<Rightarrow> None
           | Some c \<Rightarrow> Some (g\<lparr>gs_receivers := gs_receivers g @ [(tx, Inr (c, length (gs_messages g c)))]\<rparr>))
      | Inl e \<Rightarrow> Some (g\<lparr>gs_receivers := gs_receivers g @ [(tx, Inl (SubscriptionError e))]\<rparr>))"
| "process_gossipsub_action lib (Unsubscribe topic tx) g =
     Some (let g = (if ga_unsubscribe lib then g\<lparr>subscriptions := (subscriptions g)(topic := None)\<rparr> else g)
           in g\<lparr>gs_published := gs_published g @ [(tx, Inr ())]\<rparr>)"

text \<open>A message carries its source unless the library does not enforce it.\<close>

datatype gossip_event = Message topic "peer_id option" "byte list" | OtherGossip

fun process_gossipsub_event :: "gossip_event \<Rightarrow> gossip \<Rightarrow> gossip option" where
  "process_gossipsub_event (Message topic source bytes) g =
     (case subscriptions g topic of
        None \<Rightarrow> Some g
      | Some c \<Rightarrow>
          (case source of
             None \<Rightarrow> None
           | Some p \<Rightarrow> Some (g\<lparr>gs_messages := (gs_messages g)(c := gs_messages g c @ [\<lparr>gm_source = p, gm_data = bytes\<rparr>])\<rparr>)))"
| "process_gossipsub_event OtherGossip g = Some g"

section \<open>Queries\<close>

datatype kad_event = KadAction query_id "string + query_id" kad_action | KadProgress query_id query_result bool

fun kad_step :: "kad_event \<Rightarrow> kademlia \<Rightarrow> kademlia" where
  "kad_step (KadAction qid q a) k = process_kademlia_action qid q a k"
| "kad_step (KadProgress q r l) k = process_kademlia_query_result q r l k"

text \<open>What is forwarded of a result, if anything.\<close>

fun forwarded_result :: "query_result \<Rightarrow> kad_result option" where
  "forwarded_result (QPutRecord r) = Some (map_sum ErrPutRecord (\<lambda>_. OkPutRecord) r)"
| "forwarded_result (QFoundRecord record) = Some (Inr (OkGetRecord record))"
| "forwarded_result (QGetRecordError err) = Some (Inl (ErrGetRecord err))"
| "forwarded_result (QGetProviders r) = Some (map_sum ErrGetProviders OkGetProviders r)"
| "forwarded_result (QStartProviding (Inr _)) = Some (Inr OkStartProviding)"
| "forwarded_result (QGetClosestPeers r) = Some (map_sum ErrGetClosestPeers OkGetClosestPeers r)"
| "forwarded_result _ = None"

lemma process_query_result:
  "process_kademlia_query_result q r l k =
     (case forwarded_result r of
        Some v \<Rightarrow> send_kademlia_result q l v k
      | None \<Rightarrow> if \<exists>x. r = QBootstrap (Inr x) then set_bootstrapped k else k)"
  by (cases "(q, r, l, k)" rule: process_kademlia_query_result.cases) auto

text \<open>The results on a channel; the results that the library reports of a query; what becomes of them.\<close>

definition sent_on :: "chan \<Rightarrow> kademlia \<Rightarrow> kad_result list" where
  "sent_on tx k = map snd (filter (\<lambda>x. fst x = tx) (kad_sent k))"

fun progress_of :: "query_id \<Rightarrow> kad_event list \<Rightarrow> (query_result \<times> bool) list" where
  "progress_of q [] = []"
| "progress_of q (KadProgress q' r l # es) = (if q' = q then [(r, l)] else []) @ progress_of q es"
| "progress_of q (_ # es) = progress_of q es"

fun forwards :: "(query_result \<times> bool) list \<Rightarrow> kad_result list" where
  "forwards [] = []"
| "forwards ((r, l) # ps) =
     (case forwarded_result r of None \<Rightarrow> forwards ps | Some v \<Rightarrow> v # (if l then [] else forwards ps))"

fun finished :: "(query_result \<times> bool) list \<Rightarrow> bool" where
  "finished [] \<longleftrightarrow> False"
| "finished ((r, l) # ps) \<longleftrightarrow> (forwarded_result r \<noteq> None \<and> l) \<or> finished ps"

text \<open>An action that leaves a query and its channel alone: the library gives new identifiers, and a channel is handed over once.\<close>

fun action_chan :: "kad_action \<Rightarrow> chan" where
  "action_chan (GetProvider _ tx) = tx"
| "action_chan (GetRecord _ tx) = tx"
| "action_chan (PutRecord _ tx) = tx"
| "action_chan (StartProviding _ tx) = tx"
| "action_chan (GetClosestPeers _ tx) = tx"
| "action_chan (WaitForBootstrap tx) = tx"

fun apart :: "query_id \<Rightarrow> chan \<Rightarrow> kad_event \<Rightarrow> bool" where
  "apart q tx (KadAction qid res a) \<longleftrightarrow> qid \<noteq> q \<and> res \<noteq> Inr q \<and> action_chan a \<noteq> tx"
| "apart q tx (KadProgress q' r l) \<longleftrightarrow> True"

lemma sent_on_simps [simp]:
  "sent_on tx (k\<lparr>kad_sent := kad_sent k @ [(c, v)]\<rparr>) = sent_on tx k @ (if c = tx then [v] else [])"
  "sent_on tx (k\<lparr>pending_queries := m\<rparr>) = sent_on tx k"
  "sent_on tx (k\<lparr>kad_sent := kad_sent k @ [(c, v)], pending_queries := m\<rparr>) = sent_on tx k @ (if c = tx then [v] else [])"
  "sent_on tx (set_bootstrapped k) = sent_on tx k"
  "sent_on tx (wait_for_bootstrap c k) = sent_on tx k"
  by (simp_all add: sent_on_def set_bootstrapped_def wait_for_bootstrap_def)

lemma pending_simps [simp]:
  "pending_queries (set_bootstrapped k) = pending_queries k"
  "pending_queries (wait_for_bootstrap c k) = pending_queries k"
  by (simp_all add: set_bootstrapped_def wait_for_bootstrap_def)

text \<open>The caller's view of its query: the channel, and that no other query has it.\<close>

definition owns :: "query_id \<Rightarrow> chan \<Rightarrow> kademlia \<Rightarrow> bool" where
  "owns q tx k \<longleftrightarrow> (\<forall>q'. pending_queries k q' = Some tx \<longrightarrow> q' = q)"

lemma kad_action_apart:
  assumes "apart q tx (KadAction qid res a)" and "owns q tx k"
  shows "sent_on tx (process_kademlia_action qid res a k) = sent_on tx k
    \<and> pending_queries (process_kademlia_action qid res a k) q = pending_queries k q \<and> owns q tx (process_kademlia_action qid res a k)"
  using assms by (cases a) (auto simp: kad_file_def kad_file_or_fail_def owns_def split: sum.splits)

lemma send_result_other:
  assumes "q' \<noteq> q" and "owns q tx k"
  shows "sent_on tx (send_kademlia_result q' l v k) = sent_on tx k
    \<and> pending_queries (send_kademlia_result q' l v k) q = pending_queries k q \<and> owns q tx (send_kademlia_result q' l v k)"
  using assms by (cases l; cases "pending_queries k q'") (auto simp: send_kademlia_result_def owns_def)

lemma owns_close:
  "owns q tx k \<Longrightarrow> owns q tx (k\<lparr>kad_sent := s, pending_queries := (pending_queries k)(q := None)\<rparr>)"
  "owns q tx k \<Longrightarrow> owns q tx (k\<lparr>kad_sent := s\<rparr>)"
  by (simp_all add: owns_def)

lemma send_result_own:
  assumes "owns q tx k" and "pending_queries k q = Some tx"
  shows "sent_on tx (send_kademlia_result q l v k) = sent_on tx k @ [v]
    \<and> pending_queries (send_kademlia_result q l v k) q = (if l then None else Some tx) \<and> owns q tx (send_kademlia_result q l v k)"
  using assms by (cases l) (simp_all add: send_kademlia_result_def owns_close)

lemma send_result_closed: "pending_queries k q = None \<Longrightarrow> send_kademlia_result q l v k = k"
  by (simp add: send_kademlia_result_def)

lemma kad_run_closed:
  assumes "pending_queries k q = None" and "owns q tx k" and "\<forall>e\<in>set es. apart q tx e"
  shows "sent_on tx (foldl (\<lambda>k e. kad_step e k) k es) = sent_on tx k \<and> pending_queries (foldl (\<lambda>k e. kad_step e k) k es) q = None"
  using assms
proof (induction es arbitrary: k)
  case (Cons e es)
  have "sent_on tx (kad_step e k) = sent_on tx k \<and> pending_queries (kad_step e k) q = None \<and> owns q tx (kad_step e k)"
  proof (cases e)
    case (KadAction qid res a)
    with kad_action_apart [of q tx qid res a k] Cons.prems show ?thesis by simp
  next
    case (KadProgress q' r l)
    show ?thesis
    proof (cases "q' = q")
      case True
      with KadProgress Cons.prems show ?thesis by (auto simp: process_query_result send_result_closed owns_def split: option.splits)
    next
      case False
      with KadProgress send_result_other [OF False] Cons.prems show ?thesis by (auto simp: process_query_result owns_def split: option.splits)
    qed
  qed
  with Cons show ?case by simp
qed simp

text \<open>All that the library reports of a query is forwarded in order, up to and including its last result, with which the channel is closed.\<close>

lemma kad_run_forwards:
  assumes "pending_queries k q = Some tx" and "owns q tx k" and "\<forall>e\<in>set es. apart q tx e"
  shows "sent_on tx (foldl (\<lambda>k e. kad_step e k) k es) = sent_on tx k @ forwards (progress_of q es)
    \<and> pending_queries (foldl (\<lambda>k e. kad_step e k) k es) q = (if finished (progress_of q es) then None else Some tx)"
  using assms
proof (induction es arbitrary: k)
  case (Cons e es)
  show ?case
  proof (cases e)
    case (KadAction qid res a)
    with kad_action_apart [of q tx qid res a k] Cons show ?thesis by simp
  next
    case (KadProgress q' r l)
    let ?k = "kad_step e k"
    show ?thesis
    proof (cases "q' = q \<and> forwarded_result r \<noteq> None")
      case True
      then obtain v where v: "forwarded_result r = Some v" "q' = q" by auto
      with KadProgress send_result_own [OF Cons.prems(2,1)] have
        s: "sent_on tx ?k = sent_on tx k @ [v]" "pending_queries ?k q = (if l then None else Some tx)" "owns q tx ?k"
        by (auto simp: process_query_result)
      show ?thesis
      proof (cases l)
        case True
        with kad_run_closed [of ?k q tx es] s Cons.prems v KadProgress show ?thesis by simp
      next
        case False
        with Cons.IH [of ?k] s Cons.prems v KadProgress show ?thesis by simp
      qed
    next
      case False
      have "sent_on tx ?k = sent_on tx k \<and> pending_queries ?k q = pending_queries k q \<and> owns q tx ?k"
      proof (cases "q' = q")
        case True
        with False KadProgress Cons.prems(2) show ?thesis by (auto simp: process_query_result owns_def)
      next
        case False
        with KadProgress send_result_other [OF False Cons.prems(2)] Cons.prems(2) show ?thesis
          by (auto simp: process_query_result owns_def split: option.splits)
      qed
      with Cons.IH [of ?k] Cons.prems False KadProgress show ?thesis by (auto split: option.splits)
    qed
  qed
qed simp

text \<open>A query for providers: the answers so far, then the last one.\<close>

definition providers_progress :: "(string + providers_ok) list \<Rightarrow> (query_result \<times> bool) list" where
  "providers_progress rs = map (\<lambda>r. (QGetProviders r, False)) (butlast rs) @ map (\<lambda>r. (QGetProviders r, True)) (if rs = [] then [] else [last rs])"

fun found :: "string + providers_ok \<Rightarrow> peer_id set" where
  "found (Inr (FoundProviders key ps)) = ps"
| "found _ = {}"

lemma providers_progress_snoc:
  "forwards (providers_progress (rs @ [r])) = map (map_sum ErrGetProviders OkGetProviders) (rs @ [r])"
  "finished (providers_progress (rs @ [r]))"
  by (induction rs) (auto simp: providers_progress_def)

lemma find_provider_append: "find_provider acc (xs @ ys) = find_provider (find_provider acc xs) ys"
  by (induction acc xs rule: find_provider.induct) auto

lemma find_provider_fold:
  "find_provider acc (map (map_sum ErrGetProviders OkGetProviders) rs) =
     (case List.find isl (rev rs) of
        Some r \<Rightarrow> Inl (ErrGetProviders (projl r))
      | None \<Rightarrow> map_sum id (\<lambda>s. s \<union> \<Union> (found ` set rs)) acc)"
proof (induction rs rule: rev_induct)
  case Nil
  then show ?case by (cases acc) auto
next
  case (snoc r rs)
  show ?case
  proof (cases r)
    case (Inl e)
    then show ?thesis by (simp add: find_provider_append)
  next
    case (Inr ok)
    with snoc show ?thesis
      by (cases ok; cases acc) (auto simp: find_provider_append Un_assoc Un_commute Un_left_commute split: option.splits)
  qed
qed

text \<open>
  C26. Finding providers finds them all: however the results of the query interleave with other queries and
  actions, once the library has reported its last result the caller's channel is closed, and what the caller gets is the union
  of all providers that were reported, or, if errors were reported, the last of them.
\<close>

theorem find_provider_complete:
  assumes "pending_queries k q = Some tx" and "owns q tx k" and "sent_on tx k = []" and "\<forall>e\<in>set es. apart q tx e"
    and "progress_of q es = providers_progress rs" and "rs \<noteq> []"
  shows "pending_queries (foldl (\<lambda>k e. kad_step e k) k es) q = None
    \<and> find_provider (Inr {}) (sent_on tx (foldl (\<lambda>k e. kad_step e k) k es)) =
        (case List.find isl (rev rs) of Some r \<Rightarrow> Inl (ErrGetProviders (projl r)) | None \<Rightarrow> Inr (\<Union> (found ` set rs)))"
proof -
  obtain rs' r where rs: "rs = rs' @ [r]" using assms(6) by (cases rs rule: rev_cases) auto
  with kad_run_forwards [OF assms(1,2,4)] assms(3,5) providers_progress_snoc [of rs' r] find_provider_fold [of "Inr {}" rs]
  show ?thesis by (auto split: option.splits)
qed

text \<open>
  A failed announcement leaves its caller waiting for ever: when the library reports, as the only and last result of
  the query, that providing a key failed, nothing is sent on the caller's channel and the channel is not
  closed, whatever happens to other queries afterwards.
\<close>

lemma provide_failure_hangs:
  assumes "owns q tx (process_kademlia_action qid (Inr q) (StartProviding key tx) k)" and "sent_on tx k = []"
    and "\<forall>e\<in>set es. apart q tx e" and "progress_of q es = [(QStartProviding (Inl err), True)]"
  shows "pending_queries (foldl (\<lambda>k e. kad_step e k) (process_kademlia_action qid (Inr q) (StartProviding key tx) k) es) q = Some tx
    \<and> sent_on tx (foldl (\<lambda>k e. kad_step e k) (process_kademlia_action qid (Inr q) (StartProviding key tx) k) es) = []"
  using kad_run_forwards [of "process_kademlia_action qid (Inr q) (StartProviding key tx) k" q tx es] assms
  by (simp add: kad_file_or_fail_def kad_file_def)

text \<open>Peers in excluded networks do not enter the routing table.\<close>

lemma identify_filters:
  "(p, a) \<in> set (routing (process_identify_event contains cidrs e k)) \<Longrightarrow>
     (p, a) \<in> set (routing k) \<or> find_containing_cidr contains a cidrs = None"
  by (cases "(contains, cidrs, e, k)" rule: process_identify_event.cases) auto

section \<open>Subscriptions\<close>

text \<open>
  What the library documents: a subscription is new exactly when the topic was not subscribed, and ending one succeeds
  exactly when it was. \<open>T\<close> are the topics it is subscribed to.
\<close>

fun gossip_lib :: "topic set \<Rightarrow> gossip_answers \<Rightarrow> gossip_action \<Rightarrow> bool" where
  "gossip_lib T lib (Subscribe t tx) \<longleftrightarrow> (\<forall>new. ga_subscribe lib = Inr new \<longrightarrow> (new \<longleftrightarrow> t \<notin> T))"
| "gossip_lib T lib (Unsubscribe t tx) \<longleftrightarrow> (ga_unsubscribe lib \<longleftrightarrow> t \<in> T)"
| "gossip_lib T lib (Publish t bytes tx) \<longleftrightarrow> True"

fun gossip_topics :: "gossip_answers \<Rightarrow> gossip_action \<Rightarrow> topic set \<Rightarrow> topic set" where
  "gossip_topics lib (Subscribe t tx) T = (if isl (ga_subscribe lib) then T else insert t T)"
| "gossip_topics lib (Unsubscribe t tx) T = T - {t}"
| "gossip_topics lib (Publish t bytes tx) T = T"

definition gossip_new :: gossip where
  "gossip_new = \<lparr>subscriptions = Map.empty, next_channel = 0, gs_published = [], gs_receivers = [], gs_messages = (\<lambda>_. [])\<rparr>"

inductive gossip_run :: "topic set \<Rightarrow> gossip \<Rightarrow> bool" where
  gossip_start: "gossip_run {} gossip_new"
| gossip_acts: "gossip_run T g \<Longrightarrow> gossip_lib T lib a \<Longrightarrow> process_gossipsub_action lib a g = Some g' \<Longrightarrow>
    gossip_run (gossip_topics lib a T) g'"
| gossip_hears: "gossip_run T g \<Longrightarrow> process_gossipsub_event e g = Some g' \<Longrightarrow> gossip_run T g'"

definition gossip_ok :: "topic set \<Rightarrow> gossip \<Rightarrow> bool" where
  "gossip_ok T g \<longleftrightarrow> dom (subscriptions g) = T \<and> inj_on (subscriptions g) T \<and> (\<forall>c\<in>ran (subscriptions g). c < next_channel g)"

lemma inj_on_insert_map:
  "inj_on m A \<Longrightarrow> \<forall>c\<in>ran m. c < n \<Longrightarrow> inj_on (m(t \<mapsto> n)) (insert t A)" for m :: "'a \<rightharpoonup> nat"
  by (auto simp: inj_on_def ran_def) (metis less_irrefl option.inject)+

lemma gossip_ok_action:
  assumes "gossip_ok T g" and "gossip_lib T lib a"
  obtains g' where "process_gossipsub_action lib a g = Some g'" and "gossip_ok (gossip_topics lib a T) g'"
proof -
  note ok = assms(1) [unfolded gossip_ok_def]
  have "\<exists>g'. process_gossipsub_action lib a g = Some g' \<and> gossip_ok (gossip_topics lib a T) g'"
  proof (cases a)
    case (Publish t bytes tx)
    with ok show ?thesis by (auto simp: gossip_ok_def split: option.splits)
  next
    case (Subscribe t tx)
    show ?thesis
    proof (cases "ga_subscribe lib")
      case (Inl e)
      with Subscribe ok show ?thesis by (simp add: gossip_ok_def)
    next
      case (Inr new)
      with assms(2) Subscribe have new: "new \<longleftrightarrow> t \<notin> T" by simp
      show ?thesis
      proof (cases new)
        case True
        have "ran ((subscriptions g)(t \<mapsto> next_channel g)) \<subseteq> insert (next_channel g) (ran (subscriptions g))"
          by (auto simp: ran_def split: if_splits)
        with ok have "\<forall>c\<in>ran ((subscriptions g)(t \<mapsto> next_channel g)). c < Suc (next_channel g)" by (auto simp: less_Suc_eq)
        moreover have "inj_on ((subscriptions g)(t \<mapsto> next_channel g)) (insert t T)" using inj_on_insert_map ok by metis
        ultimately show ?thesis using True Inr Subscribe ok by (simp add: gossip_ok_def Let_def)
      next
        case False
        with new ok obtain c where "subscriptions g t = Some c" by auto
        with False Inr Subscribe new ok show ?thesis by (simp add: gossip_ok_def insert_absorb)
      qed
    qed
  next
    case (Unsubscribe t tx)
    have "ran ((subscriptions g)(t := None)) \<subseteq> ran (subscriptions g)" by (auto simp: ran_def split: if_splits)
    with Unsubscribe assms(2) ok show ?thesis by (auto simp: gossip_ok_def inj_on_def)
  qed
  with that show ?thesis by blast
qed

lemma gossip_event_fields:
  "process_gossipsub_event e g = Some g' \<Longrightarrow> subscriptions g' = subscriptions g \<and> next_channel g' = next_channel g"
  by (cases e) (auto split: option.splits)

lemma gossip_run_ok: "gossip_run T g \<Longrightarrow> gossip_ok T g"
proof (induction rule: gossip_run.induct)
  case gossip_start
  then show ?case by (simp add: gossip_ok_def gossip_new_def)
next
  case (gossip_acts T g lib a g')
  then show ?case by (metis gossip_ok_action option.inject)
next
  case (gossip_hears T g e g')
  then show ?case using gossip_event_fields [of e g g'] by (simp add: gossip_ok_def)
qed

text \<open>
  Topics are kept apart and their handling does not panic: with a library that keeps to its documentation
  and messages that carry their source, in every run every action and every event is handled, and a message is appended
  to the channel of its own topic, if that is subscribed, and to no other topic's channel.
\<close>

lemma gossip_delivery:
  assumes "gossip_run T g" and "gossip_lib T lib a"
  shows "process_gossipsub_action lib a g \<noteq> None
    \<and> (\<exists>g'. process_gossipsub_event (Message t (Some p) bytes) g = Some g'
        \<and> (\<forall>c. subscriptions g t = Some c \<longrightarrow> gs_messages g' c = gs_messages g c @ [\<lparr>gm_source = p, gm_data = bytes\<rparr>])
        \<and> (\<forall>t' c'. t' \<noteq> t \<longrightarrow> subscriptions g t' = Some c' \<longrightarrow> gs_messages g' c' = gs_messages g c'))"
proof -
  have ok: "gossip_ok T g" by (rule gossip_run_ok [OF assms(1)])
  have "t' \<noteq> t \<Longrightarrow> subscriptions g t' = Some c' \<Longrightarrow> subscriptions g t \<noteq> Some c'" for t' c'
    using ok by (auto simp: gossip_ok_def inj_on_def dom_def)
  moreover have "process_gossipsub_action lib a g \<noteq> None" using gossip_ok_action [OF ok assms(2)] by blast
  ultimately show ?thesis by (auto split: option.splits)
qed

section \<open>A query, a failed announcement and a topic\<close>

definition demo_query :: kademlia where
  "demo_query = kademlia_new\<lparr>pending_queries := [3 \<mapsto> 50]\<rparr>"

definition demo_progress :: "kad_event list" where
  "demo_progress =
     [KadProgress 3 (QGetProviders (Inr (FoundProviders ''data'' {7, 8}))) False,
      KadAction 4 (Inr 5) (StartProviding ''other'' 51),
      KadProgress 5 (QStartProviding (Inr ())) True,
      KadProgress 3 (QGetProviders (Inr (FoundProviders ''data'' {9}))) False,
      KadProgress 3 (QGetProviders (Inr (FinishedWithNoAdditionalRecord []))) True]"

theorem find_provider_complete_witness:
  "find_provider (Inr {}) (sent_on 50 (foldl (\<lambda>k e. kad_step e k) demo_query demo_progress)) = Inr {7, 8, 9}"
proof -
  let ?rs = "[Inr (FoundProviders ''data'' {7, 8}), Inr (FoundProviders ''data'' {9}), Inr (FinishedWithNoAdditionalRecord [])]"
  have "progress_of 3 demo_progress = providers_progress ?rs" by (simp add: demo_progress_def providers_progress_def)
  from find_provider_complete [of demo_query 3 50 demo_progress, OF _ _ _ _ this] show ?thesis
    by (simp add: demo_query_def kademlia_new_def owns_def sent_on_def demo_progress_def insert_commute)
qed

lemma provide_failure_hangs_witness:
  "pending_queries (foldl (\<lambda>k e. kad_step e k) (process_kademlia_action 0 (Inr 3) (StartProviding ''key'' 50) kademlia_new)
     [KadProgress 3 (QStartProviding (Inl ''timeout'')) True, KadProgress 9 (QBootstrap (Inr ())) True]) 3 = Some 50"
  using provide_failure_hangs [of 3 50 0 "''key''" kademlia_new
      "[KadProgress 3 (QStartProviding (Inl ''timeout'')) True, KadProgress 9 (QBootstrap (Inr ())) True]" "''timeout''"]
  by (simp add: owns_def kad_file_or_fail_def kad_file_def kademlia_new_def sent_on_def)

definition demo_lib :: gossip_answers where
  "demo_lib = \<lparr>ga_publish = None, ga_subscribe = Inr True, ga_unsubscribe = True\<rparr>"

lemma gossip_delivery_witness:
  "\<exists>g g'. process_gossipsub_action demo_lib (Subscribe ''work'' 1) gossip_new = Some g
     \<and> process_gossipsub_event (Message ''work'' (Some 7) [1]) g = Some g' \<and> gs_messages g' 0 = [\<lparr>gm_source = 7, gm_data = [1]\<rparr>]"
proof -
  obtain g where g: "process_gossipsub_action demo_lib (Subscribe ''work'' 1) gossip_new = Some g"
    and c: "subscriptions g ''work'' = Some 0" "gs_messages g 0 = []"
    by (simp add: demo_lib_def gossip_new_def Let_def)
  have "gossip_run (gossip_topics demo_lib (Subscribe ''work'' 1) {}) g"
    by (rule gossip_acts [OF gossip_start _ g]) (simp add: demo_lib_def)
  from gossip_delivery [OF this, where lib = demo_lib and a = "Publish ''work'' [] 2" and t = "''work''" and p = 7 and bytes = "[1]"] c g
  show ?thesis by auto
qed

end
