(* ===== verification/Network_Driver.thy ===== *)
theory Network_Driver
  imports Net_Discovery Messages
begin

text \<open>
  The loop of the worker's network driver (\<^verbatim>\<open>crates/worker/src/network.rs\<close>, \<^verbatim>\<open>NetworkDriver::run\<close>): it takes turns
  between the events of the swarm and the actions of the callers, and passes each to the driver that it belongs to.
  A turn is one step; the answers of the library to the calls of an action are part of the input.
\<close>

section \<open>The driver\<close>

datatype health_request = HealthRequest

record health_response =
  healthy_flag :: bool

record network_driver =
  nd_dialer :: dialer
  nd_listener :: listener
  nd_kad :: kademlia
  nd_gossip :: gossip
  nd_api :: "(api_request, api_response) requester"
  nd_health :: "(health_request, health_response) requester"
  nd_action :: "(action_request, action_response) requester"
  nd_external :: "multiaddr list"
  nd_rtt :: "(peer_id \<times> duration) list"

definition network_new :: network_driver where
  "network_new = \<lparr>nd_dialer = \<lparr>pending_dials = Map.empty, dial_answers = [], dialed = []\<rparr>,
     nd_listener = \<lparr>pending_listens = Map.empty, listen_answers = []\<rparr>, nd_kad = kademlia_new, nd_gossip = gossip_new,
     nd_api = requester_new, nd_health = requester_new, nd_action = requester_new, nd_external = [], nd_rtt = []\<rparr>"

datatype swarm_event =
    ConnectionEstablished peer_id connection_id
  | ConnectionClosedEvent peer_id
  | OutgoingConnectionError connection_id dial_error
  | NewListenAddr listener_id multiaddr
  | ListenerClosed listener_id
  | ExternalAddrConfirmed multiaddr
  | IdentifyEvent identify_event
  | KademliaEvent query_id query_result bool
  | GossipsubEvent gossip_event
  | ApiEvent "(api_request, api_response) rr_event"
  | HealthEvent "(health_request, health_response) rr_event"
  | ActionEvent "(action_request, action_response) rr_event"
  | DcutrEvent
  | PingEvent peer_id "duration option"
  | OtherEvent

datatype net_action =
    DialAct connection_id "dial_error option" dial_action
  | ListenAct "transport_error + listener_id" listen_action
  | KademliaAct query_id "string + query_id" kad_action
  | GossipsubAct gossip_answers gossip_action
  | ApiAct outbound_id bool "(api_request, api_response) rr_action"
  | HealthAct outbound_id bool "(health_request, health_response) rr_action"
  | ActionAct outbound_id bool "(action_request, action_response) rr_action"
  | ExternalAddressAct multiaddr

fun handle_event :: "('net \<Rightarrow> ip_addr \<Rightarrow> bool) \<Rightarrow> 'net list \<Rightarrow> swarm_event \<Rightarrow> network_driver \<Rightarrow> network_driver option" where
  "handle_event contains cidrs (ConnectionEstablished peer conn) d =
     Some (d\<lparr>nd_dialer := process_connection_established peer conn (nd_dialer d)\<rparr>)"
| "handle_event contains cidrs (OutgoingConnectionError conn error) d =
     Some (d\<lparr>nd_dialer := process_connection_error conn error (nd_dialer d)\<rparr>)"
| "handle_event contains cidrs (NewListenAddr lid address) d =
     Some (d\<lparr>nd_listener := process_new_listen_addr lid address (nd_listener d)\<rparr>)"
| "handle_event contains cidrs (ExternalAddrConfirmed address) d = Some (d\<lparr>nd_external := nd_external d @ [address]\<rparr>)"
| "handle_event contains cidrs (IdentifyEvent e) d = Some (d\<lparr>nd_kad := process_identify_event contains cidrs e (nd_kad d)\<rparr>)"
| "handle_event contains cidrs (KademliaEvent q r l) d = Some (d\<lparr>nd_kad := process_kademlia_query_result q r l (nd_kad d)\<rparr>)"
| "handle_event contains cidrs (GossipsubEvent e) d =
     map_option (\<lambda>g. d\<lparr>nd_gossip := g\<rparr>) (process_gossipsub_event e (nd_gossip d))"
| "handle_event contains cidrs (ApiEvent e) d = Some (d\<lparr>nd_api := process_request_response_event e (nd_api d)\<rparr>)"
| "handle_event contains cidrs (HealthEvent e) d = Some (d\<lparr>nd_health := process_request_response_event e (nd_health d)\<rparr>)"
| "handle_event contains cidrs (ActionEvent e) d = Some (d\<lparr>nd_action := process_request_response_event e (nd_action d)\<rparr>)"
| "handle_event contains cidrs (PingEvent peer (Some rtt)) d = Some (d\<lparr>nd_rtt := nd_rtt d @ [(peer, rtt)]\<rparr>)"
| "handle_event contains cidrs _ d = Some d"

fun handle_action :: "net_action \<Rightarrow> network_driver \<Rightarrow> network_driver option" where
  "handle_action (DialAct conn result a) d = Some (d\<lparr>nd_dialer := process_dial_action conn result a (nd_dialer d)\<rparr>)"
| "handle_action (ListenAct result a) d = Some (d\<lparr>nd_listener := process_listen_action result a (nd_listener d)\<rparr>)"
| "handle_action (KademliaAct qid q a) d = Some (d\<lparr>nd_kad := process_kademlia_action qid q a (nd_kad d)\<rparr>)"
| "handle_action (GossipsubAct lib a) d = map_option (\<lambda>g. d\<lparr>nd_gossip := g\<rparr>) (process_gossipsub_action lib a (nd_gossip d))"
| "handle_action (ApiAct oid up a) d = Some (d\<lparr>nd_api := process_request_response_action oid up a (nd_api d)\<rparr>)"
| "handle_action (HealthAct oid up a) d = Some (d\<lparr>nd_health := process_request_response_action oid up a (nd_health d)\<rparr>)"
| "handle_action (ActionAct oid up a) d = Some (d\<lparr>nd_action := process_request_response_action oid up a (nd_action d)\<rparr>)"
| "handle_action (ExternalAddressAct address) d = Some (d\<lparr>nd_external := nd_external d @ [address]\<rparr>)"

datatype net_input = Swarm swarm_event | Caller net_action

fun network_step :: "('net \<Rightarrow> ip_addr \<Rightarrow> bool) \<Rightarrow> 'net list \<Rightarrow> net_input \<Rightarrow> network_driver \<Rightarrow> network_driver option" where
  "network_step contains cidrs (Swarm e) d = handle_event contains cidrs e d"
| "network_step contains cidrs (Caller a) d = handle_action a d"

fun network_run :: "('net \<Rightarrow> ip_addr \<Rightarrow> bool) \<Rightarrow> 'net list \<Rightarrow> net_input list \<Rightarrow> network_driver \<Rightarrow> network_driver option" where
  "network_run contains cidrs [] d = Some d"
| "network_run contains cidrs (i # is) d =
     (case network_step contains cidrs i d of None \<Rightarrow> None | Some d' \<Rightarrow> network_run contains cidrs is d')"

section \<open>Each of its tables keeps the contract\<close>

text \<open>A step that does not panic, as a total function.\<close>

definition net_step :: "('net \<Rightarrow> ip_addr \<Rightarrow> bool) \<Rightarrow> 'net list \<Rightarrow> net_input \<Rightarrow> network_driver \<Rightarrow> network_driver" where
  "net_step contains cidrs i d = (case network_step contains cidrs i d of None \<Rightarrow> d | Some d' \<Rightarrow> d')"

lemma network_run_foldl:
  "network_run contains cidrs is d = Some d' \<Longrightarrow> d' = foldl (\<lambda>d i. net_step contains cidrs i d) d is"
  by (induction "is" arbitrary: d) (auto simp: net_step_def split: option.splits)

fun dial_effect :: "net_input \<Rightarrow> (connection_id, dial_error + peer_id) effect" where
  "dial_effect (Caller (DialAct conn None (Dial address tx))) = Register conn tx"
| "dial_effect (Caller (DialAct conn (Some err) (Dial address tx))) = Refuse tx (Inl err)"
| "dial_effect (Swarm (ConnectionEstablished peer conn)) = Settle conn (Inr peer)"
| "dial_effect (Swarm (OutgoingConnectionError conn err)) = Settle conn (Inl err)"
| "dial_effect _ = Quiet"

fun listen_effect :: "net_input \<Rightarrow> (listener_id, transport_error + unit) effect" where
  "listen_effect (Caller (ListenAct (Inr lid) (Listen address tx))) = Register lid tx"
| "listen_effect (Caller (ListenAct (Inl err) (Listen address tx))) = Refuse tx (Inl err)"
| "listen_effect (Swarm (NewListenAddr lid address)) = Settle lid (Inr ())"
| "listen_effect _ = Quiet"

fun rr_action_effect :: "outbound_id \<Rightarrow> ('q, 'r) rr_action \<Rightarrow> (outbound_id, rr_error + 'r) effect" where
  "rr_action_effect oid (OutboundRequest peer request tx) = Register oid tx"
| "rr_action_effect oid _ = Quiet"

fun rr_event_effect :: "('q, 'r) rr_event \<Rightarrow> (outbound_id, rr_error + 'r) effect" where
  "rr_event_effect (MessageResponse peer oid response) = Settle oid (Inr response)"
| "rr_event_effect (OutboundFailure peer oid error) = Settle oid (Inl (RequestFailed error))"
| "rr_event_effect _ = Quiet"

fun api_effect :: "net_input \<Rightarrow> (outbound_id, rr_error + api_response) effect" where
  "api_effect (Caller (ApiAct oid up a)) = rr_action_effect oid a"
| "api_effect (Swarm (ApiEvent e)) = rr_event_effect e"
| "api_effect _ = Quiet"

fun health_effect :: "net_input \<Rightarrow> (outbound_id, rr_error + health_response) effect" where
  "health_effect (Caller (HealthAct oid up a)) = rr_action_effect oid a"
| "health_effect (Swarm (HealthEvent e)) = rr_event_effect e"
| "health_effect _ = Quiet"

fun action_effect :: "net_input \<Rightarrow> (outbound_id, rr_error + action_response) effect" where
  "action_effect (Caller (ActionAct oid up a)) = rr_action_effect oid a"
| "action_effect (Swarm (ActionEvent e)) = rr_event_effect e"
| "action_effect _ = Quiet"

definition rr_view :: "('q, 'r) requester \<Rightarrow> (outbound_id, rr_error + 'r) table" where
  "rr_view r = (outbound_requests r, rr_answers r)"

lemma rr_action_view: "rr_view (process_request_response_action oid up a r) = take_effect (rr_action_effect oid a) (rr_view r)"
  by (cases a) (simp_all add: rr_view_def split: if_splits)

lemma rr_event_view: "rr_view (process_request_response_event e r) = take_effect (rr_event_effect e) (rr_view r)"
  by (cases e) (auto simp: rr_view_def split: option.splits)

definition dial_view :: "network_driver \<Rightarrow> (connection_id, dial_error + peer_id) table" where
  "dial_view d = (pending_dials (nd_dialer d), dial_answers (nd_dialer d))"

definition listen_view :: "network_driver \<Rightarrow> (listener_id, transport_error + unit) table" where
  "listen_view d = (pending_listens (nd_listener d), listen_answers (nd_listener d))"

lemma dial_action_view:
  "(pending_dials (process_dial_action conn r a s), dial_answers (process_dial_action conn r a s)) =
     take_effect (dial_effect (Caller (DialAct conn r a))) (pending_dials s, dial_answers s)"
  by (cases a; cases r) simp_all

lemma listen_action_view:
  "(pending_listens (process_listen_action r a s), listen_answers (process_listen_action r a s)) =
     take_effect (listen_effect (Caller (ListenAct r a))) (pending_listens s, listen_answers s)"
  by (cases a; cases r) simp_all

lemma ping_step: "handle_event contains cidrs (PingEvent p x) d = Some (d\<lparr>nd_rtt := nd_rtt d @ (case x of None \<Rightarrow> [] | Some r \<Rightarrow> [(p, r)])\<rparr>)"
  by (cases x) simp_all

lemmas driver_simps = net_step_def dial_view_def listen_view_def ping_step dial_action_view listen_action_view rr_action_view rr_event_view

lemma views_step:
  "dial_view (net_step contains cidrs i d) = take_effect (dial_effect i) (dial_view d)
   \<and> listen_view (net_step contains cidrs i d) = take_effect (listen_effect i) (listen_view d)
   \<and> rr_view (nd_api (net_step contains cidrs i d)) = take_effect (api_effect i) (rr_view (nd_api d))
   \<and> rr_view (nd_health (net_step contains cidrs i d)) = take_effect (health_effect i) (rr_view (nd_health d))
   \<and> rr_view (nd_action (net_step contains cidrs i d)) = take_effect (action_effect i) (rr_view (nd_action d))"
proof (cases i)
  case (Swarm e)
  then show ?thesis
    by (cases e) (simp_all add: driver_simps process_connection_established_def process_connection_error_def
        process_new_listen_addr_def split: option.splits)
next
  case (Caller a)
  then show ?thesis by (cases a) (simp_all add: driver_simps split: option.splits)
qed

interpretation dials: answering "net_step contains cidrs" dial_effect dial_view for contains cidrs
  by unfold_locales (simp add: views_step)

interpretation listens: answering "net_step contains cidrs" listen_effect listen_view for contains cidrs
  by unfold_locales (simp add: views_step)

interpretation api: answering "net_step contains cidrs" api_effect "\<lambda>d. rr_view (nd_api d)" for contains cidrs
  by unfold_locales (simp add: views_step)

interpretation health: answering "net_step contains cidrs" health_effect "\<lambda>d. rr_view (nd_health d)" for contains cidrs
  by unfold_locales (simp add: views_step)

interpretation actions: answering "net_step contains cidrs" action_effect "\<lambda>d. rr_view (nd_action d)" for contains cidrs
  by unfold_locales (simp add: views_step)

section \<open>What the callers can rely on\<close>

text \<open>
  A table after a run: with identifiers that the library never gives twice and channels that are handed over once,
  every channel is either answered once or waits; and every answer is its own.
\<close>

definition answered_once :: "('id, 'v) effect list \<Rightarrow> ('id, 'v) table \<Rightarrow> bool" where
  "answered_once es t \<longleftrightarrow>
     (distinct (effects_ids es) \<and> distinct (effects_asked es) \<longrightarrow>
        distinct (map fst (snd t)) \<and> set (map fst (snd t)) \<inter> set (waiting (fst t) (effects_ids es)) = {}
        \<and> set (map fst (snd t)) \<union> set (waiting (fst t) (effects_ids es)) = set (effects_asked es))
     \<and> (\<forall>(c, v)\<in>set (snd t). own_answer (set es) c v)"

context answering
begin

lemma run_answered_once:
  assumes "view s = (Map.empty, [])"
  shows "answered_once (map effect es) (view (foldl (\<lambda>s e. step e s) s es))"
proof -
  obtain p a where pa: "view (foldl (\<lambda>s e. step e s) s es) = (p, a)" by force
  with run_once [OF assms pa] run_answers_own [OF assms pa] show ?thesis by (auto simp: answered_once_def)
qed

end

lemma start_views:
  "dial_view network_new = (Map.empty, [])" "listen_view network_new = (Map.empty, [])"
  "rr_view (nd_api network_new) = (Map.empty, [])" "rr_view (nd_health network_new) = (Map.empty, [])"
  "rr_view (nd_action network_new) = (Map.empty, [])"
  by (simp_all add: dial_view_def listen_view_def rr_view_def network_new_def requester_new_def)

text \<open>
  C24. Nobody is forgotten and nobody is answered twice: in every run of the worker's network driver from its start, for each
  of dialing, listening and the three request protocols, every channel that a caller handed over
  either has exactly one answer or still waits under an identifier of the library, and every answer is the
  library's result for that caller's own request.
\<close>

theorem driver_answers_once:
  assumes "network_run contains cidrs is network_new = Some d"
  shows "answered_once (map dial_effect is) (dial_view d) \<and> answered_once (map listen_effect is) (listen_view d)
    \<and> answered_once (map api_effect is) (rr_view (nd_api d)) \<and> answered_once (map health_effect is) (rr_view (nd_health d))
    \<and> answered_once (map action_effect is) (rr_view (nd_action d))"
proof -
  have d: "d = foldl (\<lambda>d i. net_step contains cidrs i d) network_new is" by (rule network_run_foldl [OF assms])
  show ?thesis unfolding d
    using dials.run_answered_once [OF start_views(1)] listens.run_answered_once [OF start_views(2)] api.run_answered_once [OF start_views(3)]
      health.run_answered_once [OF start_views(4)] actions.run_answered_once [OF start_views(5)] by blast
qed

text \<open>
  Every request of a caller that the library settles is answered: when, after the request was handed to the library
  under an identifier, the library reports a response or a failure for that identifier, the caller's
  channel has its answer, whatever else the driver does in between.
\<close>

lemma settled_request_answered:
  assumes "network_run contains cidrs (is1 @ Caller (ApiAct oid up (OutboundRequest peer request tx)) # is2) network_new = Some d"
    and "distinct (effects_ids (map api_effect (is1 @ Caller (ApiAct oid up (OutboundRequest peer request tx)) # is2)))"
    and "distinct (effects_asked (map api_effect (is1 @ Caller (ApiAct oid up (OutboundRequest peer request tx)) # is2)))"
    and "Swarm (ApiEvent e) \<in> set is2" and "rr_event_effect e = Settle oid v"
  shows "tx \<in> fst ` set (rr_answers (nd_api d))"
proof -
  let ?is = "is1 @ Caller (ApiAct oid up (OutboundRequest peer request tx)) # is2"
  have "rr_view (nd_api (foldl (\<lambda>d i. net_step contains cidrs i d) network_new ?is)) = rr_view (nd_api d)"
    using network_run_foldl [OF assms(1)] by simp
  then have "rr_view (nd_api (foldl (\<lambda>d i. net_step contains cidrs i d) network_new ?is)) = (outbound_requests (nd_api d), rr_answers (nd_api d))"
    by (simp only: rr_view_def)
  from api.run_settled_answered [OF start_views(3) this assms(2,3) _ assms(4), of oid tx v] assms(5) show ?thesis by simp
qed

text \<open>
  A listener that fails after it was started leaves its caller waiting for ever: as long as the library does
  not report an address for the listener, the caller has no answer, even when the library
  reports that the listener was closed.
\<close>

lemma failed_listener_unanswered:
  assumes "unanswered lid tx (listen_view d)" and "network_run contains cidrs is d = Some d'"
    and "\<forall>i\<in>set is. \<not> about lid tx (listen_effect i)"
  shows "tx \<notin> fst ` set (listen_answers (nd_listener d')) \<and> pending_listens (nd_listener d') lid = Some tx
    \<and> network_step contains cidrs (Swarm (ListenerClosed lid)) d' = Some d'"
proof -
  have "d' = foldl (\<lambda>d i. net_step contains cidrs i d) d is" by (rule network_run_foldl [OF assms(2)])
  with listens.run_unanswered [OF assms(1,3)] have "unanswered lid tx (listen_view d')" by simp
  then show ?thesis by (simp add: unanswered_def listen_view_def)
qed

section \<open>A run of the driver\<close>

text \<open>A dial, a request that is answered, and a listener that is closed before it has an address.\<close>

definition demo_request :: net_input where
  "demo_request = Caller (ApiAct 20 True (OutboundRequest 7 (RenewLeaseReq 5) 100))"

definition demo_response :: net_input where
  "demo_response = Swarm (ApiEvent (MessageResponse 7 20 (RenewLeaseResp RenewNotFound)))"

definition demo_inputs :: "net_input list" where
  "demo_inputs = [Caller (DialAct 3 None (Dial [Ip4 1, Tcp 80] 101)), demo_request, Swarm (ConnectionEstablished 7 3), demo_response]"

abbreviation demo_driver :: network_driver where
  "demo_driver \<equiv> foldl (\<lambda>d i. net_step (\<lambda>_ _. False) ([] :: nat list) i d) network_new demo_inputs"

lemmas demo_driver_simps = demo_inputs_def demo_request_def demo_response_def network_new_def requester_new_def
  process_connection_established_def

lemma demo_network_run: "network_run (\<lambda>_ _. False) ([] :: nat list) demo_inputs network_new = Some demo_driver"
  by (simp add: demo_driver_simps net_step_def)

theorem driver_answers_once_witness:
  "answered_once (map dial_effect demo_inputs) (dial_view demo_driver)
   \<and> answered_once (map api_effect demo_inputs) (rr_view (nd_api demo_driver))"
  using driver_answers_once [OF demo_network_run] by blast

lemma settled_request_answered_witness: "100 \<in> fst ` set (rr_answers (nd_api demo_driver))"
  by (rule settled_request_answered [of "\<lambda>_ _. False" "[] :: nat list" "[Caller (DialAct 3 None (Dial [Ip4 1, Tcp 80] 101))]" 20 True 7 "RenewLeaseReq 5" 100
        "[Swarm (ConnectionEstablished 7 3), demo_response]" _ "MessageResponse 7 20 (RenewLeaseResp RenewNotFound)" "Inr (RenewLeaseResp RenewNotFound)"])
    (use demo_network_run in \<open>simp_all add: demo_inputs_def demo_request_def demo_response_def\<close>)

lemma failed_listener_unanswered_witness:
  "pending_listens (nd_listener (network_new\<lparr>nd_listener := \<lparr>pending_listens = [4 \<mapsto> 102], listen_answers = []\<rparr>\<rparr>)) 4 = Some 102
   \<and> 102 \<notin> fst ` set (listen_answers (nd_listener (network_new\<lparr>nd_listener := \<lparr>pending_listens = [4 \<mapsto> 102], listen_answers = []\<rparr>\<rparr>)))"
  using failed_listener_unanswered [of 4 102 "network_new\<lparr>nd_listener := \<lparr>pending_listens = [4 \<mapsto> 102], listen_answers = []\<rparr>\<rparr>"
      "\<lambda>_ _. False" "[] :: nat list" "[Swarm (ListenerClosed 4)]"]
  by (simp add: unanswered_def listen_view_def)

end
