(* ===== verification/Connector.thy ===== *)
theory Connector
  imports Messages "HOL-Library.Multiset"
begin

text \<open>
  The worker's connector (\<^verbatim>\<open>crates/worker/src/connector/mod.rs\<close>): it routes a reference to the first connector that
  supports it, and the built-in connectors fetch over HTTP and from a hub, and push to and receive from peers. What
  the network and the two web libraries give is an argument; a stream of items is the list of what it yields.
\<close>

section \<open>Routing\<close>

datatype connector_error =
    OpenStream string
  | AlreadyRegistered
  | HuggingFaceError string
  | HttpError string
  | ConnectorIo string
  | UnsupportedFetch reference
  | UnsupportedSend reference
  | UnsupportedReceive reference

record item_meta =
  meta_kind :: string
  meta_name :: string

text \<open>The three connector traits have the same shape: what they support, and the operation.\<close>

record ('q, 'a) endpoint =
  supports :: "reference \<Rightarrow> bool"
  operate :: "'q \<Rightarrow> connector_error + 'a"

record ('f, 's, 'r) connector =
  fetchers :: "(fetch, 'f) endpoint list"
  senders :: "(send \<times> u64, 's) endpoint list"
  receivers :: "(receive, 'r) endpoint list"

fun route :: "('q, 'a) endpoint list \<Rightarrow> reference \<Rightarrow> connector_error \<Rightarrow> 'q \<Rightarrow> connector_error + 'a" where
  "route [] r e q = Inl e"
| "route (c # cs) r e q = (if supports c r then operate c q else route cs r e q)"

definition connector_fetch :: "('f, 's, 'r) connector \<Rightarrow> fetch \<Rightarrow> connector_error + 'f" where
  "connector_fetch c f = route (fetchers c) (fetch_reference f) (UnsupportedFetch (fetch_reference f)) f"

definition connector_send :: "('f, 's, 'r) connector \<Rightarrow> send \<Rightarrow> u64 \<Rightarrow> connector_error + 's" where
  "connector_send c s payload_len =
     route (senders c) (send_reference s) (UnsupportedSend (send_reference s)) (s, payload_len)"

definition connector_receive :: "('f, 's, 'r) connector \<Rightarrow> receive \<Rightarrow> connector_error + 'r" where
  "connector_receive c r = route (receivers c) (receive_reference r) (UnsupportedReceive (receive_reference r)) r"

definition with_fetcher :: "(fetch, 'f) endpoint \<Rightarrow> ('f, 's, 'r) connector \<Rightarrow> ('f, 's, 'r) connector" where
  "with_fetcher f c = c\<lparr>fetchers := fetchers c @ [f]\<rparr>"

definition with_sender :: "(send \<times> u64, 's) endpoint \<Rightarrow> ('f, 's, 'r) connector \<Rightarrow> ('f, 's, 'r) connector" where
  "with_sender s c = c\<lparr>senders := senders c @ [s]\<rparr>"

definition with_receiver :: "(receive, 'r) endpoint \<Rightarrow> ('f, 's, 'r) connector \<Rightarrow> ('f, 's, 'r) connector" where
  "with_receiver r c = c\<lparr>receivers := receivers c @ [r]\<rparr>"

section \<open>The built-in connectors\<close>

text \<open>\<^verbatim>\<open>value.rsplit('/').next()\<close>: what follows the last slash.\<close>

definition last_segment :: "string \<Rightarrow> string" where
  "last_segment v = rev (takeWhile (\<lambda>c. c \<noteq> CHR ''/'') (rev v))"

definition http_hf_supports :: "reference \<Rightarrow> bool" where
  "http_hf_supports r \<longleftrightarrow> (case r of Uri _ \<Rightarrow> True | HuggingFace _ _ _ _ \<Rightarrow> True | _ \<Rightarrow> False)"

text \<open>\<open>http\<close> gives the body for an address or the error; \<open>hub\<close> the error of building the client, or what it gives for a repository, revision and file.\<close>

definition http_hf_fetch ::
    "(string \<Rightarrow> string + 'b) \<Rightarrow> (string option \<Rightarrow> string + (string \<Rightarrow> string \<Rightarrow> string \<Rightarrow> string + 'b)) \<Rightarrow> fetch
      \<Rightarrow> connector_error + (string + item_meta \<times> 'b) list" where
  "http_hf_fetch http hub f =
     (case fetch_reference f of
        Uri v \<Rightarrow>
          (case http v of
             Inl e \<Rightarrow> Inl (HttpError e)
           | Inr body \<Rightarrow> Inr [Inr (\<lparr>meta_kind = ''uri'', meta_name = last_segment v\<rparr>, body)])
      | HuggingFace repository revision filenames token \<Rightarrow>
          if filenames = [] then Inr []
          else (case hub token of
                  Inl e \<Rightarrow> Inl (HuggingFaceError e)
                | Inr get \<Rightarrow>
                    Inr (map (\<lambda>name. map_sum id (Pair \<lparr>meta_kind = ''huggingface'', meta_name = name\<rparr>)
                      (get repository (case revision of None \<Rightarrow> ''main'' | Some r \<Rightarrow> r) name)) filenames))
      | r \<Rightarrow> Inl (UnsupportedFetch r))"

definition peer_supports :: "reference \<Rightarrow> bool" where
  "peer_supports r \<longleftrightarrow> (case r of Peers _ _ _ \<Rightarrow> True | _ \<Rightarrow> False)"

text \<open>
  \<open>attempt\<close> opens a push stream once, \<open>retried\<close> is the outcome of the retries; the writers for all peers come in the order in which the
  attempts end.
\<close>

definition peer_send ::
    "(peer_id \<Rightarrow> u64 \<Rightarrow> string + 'w) \<Rightarrow> (peer_id \<Rightarrow> u64 \<Rightarrow> string + 'w) \<Rightarrow> (peer_id list \<Rightarrow> peer_id list) \<Rightarrow> send \<Rightarrow> u64
      \<Rightarrow> connector_error + (connector_error + peer_id \<times> 'w) list" where
  "peer_send attempt retried ended s payload_len =
     (case send_reference s of
        Peers peers strategy _ \<Rightarrow>
          (case strategy of
             StrategyAll \<Rightarrow> Inr (map (\<lambda>p. map_sum OpenStream (Pair p) (retried p payload_len)) (ended peers))
           | _ \<Rightarrow>
               (case peers of
                  [] \<Rightarrow> Inl (ConnectorIo ''no peers provided'')
                | p # _ \<Rightarrow>
                    (case attempt p payload_len of
                       Inl e \<Rightarrow> Inl (OpenStream e)
                     | Inr w \<Rightarrow> Inr [Inr (p, w)])))
      | r \<Rightarrow> Inl (UnsupportedSend r))"

text \<open>\<open>incoming\<close> are the streams that peers push, or \<open>None\<close> when the protocol is already registered.\<close>

definition peer_receive ::
    "(peer_id \<times> 'r) list option \<Rightarrow> receive \<Rightarrow> connector_error + (peer_id \<times> 'r) list" where
  "peer_receive incoming r =
     (case receive_reference r of
        Peers peers StrategyAll _ \<Rightarrow>
          (case incoming of
             None \<Rightarrow> Inl AlreadyRegistered
           | Some xs \<Rightarrow> Inr (filter (\<lambda>(p, _). peers = [] \<or> (\<exists>q\<in>set peers. q = p)) xs))
      | ref \<Rightarrow> Inl (UnsupportedReceive ref))"

definition connector_new ::
    "(string \<Rightarrow> string + 'b) \<Rightarrow> (string option \<Rightarrow> string + (string \<Rightarrow> string \<Rightarrow> string \<Rightarrow> string + 'b))
      \<Rightarrow> (peer_id \<Rightarrow> u64 \<Rightarrow> string + 'w) \<Rightarrow> (peer_id \<Rightarrow> u64 \<Rightarrow> string + 'w) \<Rightarrow> (peer_id list \<Rightarrow> peer_id list) \<Rightarrow> (peer_id \<times> 'r) list option
      \<Rightarrow> ((string + item_meta \<times> 'b) list, (connector_error + peer_id \<times> 'w) list, (peer_id \<times> 'r) list) connector" where
  "connector_new http hub attempt retried ended incoming =
     \<lparr>fetchers = [\<lparr>supports = http_hf_supports, operate = http_hf_fetch http hub\<rparr>],
      senders = [\<lparr>supports = peer_supports, operate = (\<lambda>(s, n). peer_send attempt retried ended s n)\<rparr>],
      receivers = [\<lparr>supports = peer_supports, operate = peer_receive incoming\<rparr>]\<rparr>"

section \<open>Properties\<close>

lemma route_first:
  "route cs r e q = (case List.find (\<lambda>c. supports c r) cs of None \<Rightarrow> Inl e | Some c \<Rightarrow> operate c q)"
  by (induction cs) auto

text \<open>A connector that is added later does not take over what an earlier one supports.\<close>

lemma with_sender_keeps:
  "\<exists>c'\<in>set (senders c). supports c' (send_reference s) \<Longrightarrow> connector_send (with_sender x c) s n = connector_send c s n"
proof -
  have "\<exists>c\<in>set cs. supports c r \<Longrightarrow> route (cs @ [x]) r e q = route cs r e q" for cs r e q
    by (induction cs) auto
  then show "\<exists>c'\<in>set (senders c). supports c' (send_reference s) \<Longrightarrow> connector_send (with_sender x c) s n = connector_send c s n"
    by (simp add: connector_send_def with_sender_def)
qed

text \<open>
  The built-in connectors serve peers as asked: sending to all peers yields, in some order, exactly one writer or one error
  for every listed peer, and receiving yields exactly the streams of the listed peers, or of anybody when none is
  listed.
\<close>

lemma connector_peers:
  assumes "mset (ended peers) = mset peers"
  shows "(\<exists>ws. connector_send (connector_new http hub attempt retried ended incoming) (Send (Peers peers StrategyAll x)) n = Inr ws
      \<and> mset ws = image_mset (\<lambda>p. map_sum OpenStream (Pair p) (retried p n)) (mset peers))
    \<and> connector_receive (connector_new http hub attempt retried ended (Some xs)) (Receive (Peers peers StrategyAll x))
      = Inr (filter (\<lambda>(p, _). peers = [] \<or> p \<in> set peers) xs)"
  using assms by (auto simp: connector_send_def connector_receive_def connector_new_def peer_supports_def peer_send_def peer_receive_def
      intro!: filter_cong)

lemma connector_peers_witness:
  "\<exists>ws. connector_send (connector_new (\<lambda>_. Inl ''offline'') (\<lambda>_. Inl ''offline'') (\<lambda>_ _. Inl ''busy'')
       (\<lambda>p _. if p = 2 then Inl ''gone'' else Inr ()) rev (Some [(9 :: peer_id, ())])) (Send (Peers [1, 2, 3] StrategyAll None)) 10 = Inr ws
     \<and> mset ws = {#Inr (1, ()), Inl (OpenStream ''gone''), Inr (3, ())#}"
  using connector_peers [of rev "[1, 2, 3]" "\<lambda>_. Inl ''offline''" "\<lambda>_. Inl ''offline''" "\<lambda>_ _. Inl ''busy''"
      "\<lambda>p _. if p = 2 then Inl ''gone'' else Inr ()" "Some [(9, ())]" None 10 "[]"]
  by (auto simp: add_mset_commute)

end
