(* ===== verification/Parameter_Server.thy ===== *)
theory Parameter_Server
  imports Connector
begin

text \<open>
  The worker's parameter server (\<^verbatim>\<open>crates/worker/src/executor/parameter_server.rs\<close>): it stores the updates that workers push,
  sums one of each peer on request, applies Nesterov momentum, and broadcasts the result. Files are a map from paths to
  named tensors; the tensor operations of the library and its digest are parameters. A file that is
  missing is an error; failures of the disk itself are not modelled.
\<close>

section \<open>Tensors and files\<close>

type_synonym 't tensors = "(string \<times> 't) list"

datatype ps_path =
    IncomingFile peer_id uuid
  | JoinedFile uuid
  | AvgFinal
  | MomentumFile
  | MomentumUpdate
  | GradientUpdate
  | PartFile string

type_synonym 't files = "ps_path \<rightharpoonup> 't tensors"

datatype exec_error =
    ExecIo
  | UnsupportedJobSpec
  | TensorFailure
  | InvalidExecutorConfig string
  | ConnectorFailure connector_error
  | CopyPanic

type_synonym 't tensor_op = "'t \<Rightarrow> 't \<Rightarrow> 't option"

text \<open>
  The loop over the tensors of the first file: each result goes to a file of its own, named by the digest of its name. A tensor
  of the first file that cannot be loaded fails like the operation on it, so its loading is part of \<open>f\<close>. The second file
  holds the tensors that can be loaded from it: the source skips the others like missing ones.
\<close>

fun tensor_loop ::
    "(string \<Rightarrow> string) \<Rightarrow> 't tensor_op \<Rightarrow> 't tensors \<Rightarrow> 't tensors \<Rightarrow> ps_path list \<Rightarrow> 't files \<Rightarrow> (exec_error + ps_path list) \<times> 't files" where
  "tensor_loop digest f [] tb results fs = (Inr results, fs)"
| "tensor_loop digest f ((name, a) # ta) tb results fs =
     (case map_of tb name of
        None \<Rightarrow> tensor_loop digest f ta tb results fs
      | Some b \<Rightarrow>
          (case f a b of
             None \<Rightarrow> (Inl TensorFailure, fs)
           | Some r \<Rightarrow>
               (let path = PartFile (digest name)
                in tensor_loop digest f ta tb (results @ [path]) (fs(path \<mapsto> [(name, r)])))))"

definition contents :: "'t files \<Rightarrow> ps_path list \<Rightarrow> 't tensors" where
  "contents fs paths = concat (map (\<lambda>p. case fs p of None \<Rightarrow> [] | Some ts \<Rightarrow> ts) paths)"

definition apply_tensor_op ::
    "(string \<Rightarrow> string) \<Rightarrow> 't tensor_op \<Rightarrow> ps_path \<Rightarrow> ps_path \<Rightarrow> ps_path \<Rightarrow> 't files \<Rightarrow> (exec_error + unit) \<times> 't files" where
  "apply_tensor_op digest f a b out fs =
     (case (fs a, fs b) of
        (Some ta, Some tb) \<Rightarrow>
          (case tensor_loop digest f ta tb [] fs of
             (Inl e, fs) \<Rightarrow> (Inl e, fs)
           | (Inr results, fs) \<Rightarrow>
               if results = [] then (Inr (), fs) else (Inr (), fs(out \<mapsto> contents fs results)))
      | _ \<Rightarrow> (Inl TensorFailure, fs))"

section \<open>Momentum\<close>

definition momentum_op :: "(float \<Rightarrow> 't \<Rightarrow> 't option) \<Rightarrow> 't tensor_op \<Rightarrow> float \<Rightarrow> 't tensor_op" where
  "momentum_op scale add mu g m = (case scale mu m of None \<Rightarrow> None | Some t \<Rightarrow> add t g)"

definition update_momentum ::
    "(string \<Rightarrow> string) \<Rightarrow> (float \<Rightarrow> 't \<Rightarrow> 't option) \<Rightarrow> 't tensor_op \<Rightarrow> ps_path \<Rightarrow> float \<Rightarrow> 't files \<Rightarrow> (exec_error + ps_path) \<times> 't files" where
  "update_momentum digest scale add gradient mu fs =
     (case fs MomentumFile of
        None \<Rightarrow>
          (case fs gradient of
             None \<Rightarrow> (Inl CopyPanic, fs)
           | Some ts \<Rightarrow> (Inr MomentumFile, fs(MomentumFile \<mapsto> ts)))
      | Some _ \<Rightarrow>
          (case apply_tensor_op digest (momentum_op scale add mu) gradient MomentumFile MomentumUpdate fs of
             (Inl e, fs) \<Rightarrow> (Inl e, fs)
           | (Inr _, fs) \<Rightarrow>
               (case fs MomentumUpdate of
                  None \<Rightarrow> (Inl ExecIo, fs)
                | Some ts \<Rightarrow> (Inr MomentumFile, fs(MomentumFile \<mapsto> ts)))))"

definition nesterov_op :: "(float \<Rightarrow> 't \<Rightarrow> 't option) \<Rightarrow> 't tensor_op \<Rightarrow> float \<Rightarrow> float \<Rightarrow> 't tensor_op" where
  "nesterov_op scale add mu lr g m =
     (case scale mu m of
        None \<Rightarrow> None
      | Some t \<Rightarrow> (case add t g of None \<Rightarrow> None | Some t \<Rightarrow> scale lr t))"

definition nesterov_step ::
    "(string \<Rightarrow> string) \<Rightarrow> (float \<Rightarrow> 't \<Rightarrow> 't option) \<Rightarrow> 't tensor_op \<Rightarrow> ps_path \<Rightarrow> float \<Rightarrow> float \<Rightarrow> 't files \<Rightarrow> (exec_error + ps_path) \<times> 't files" where
  "nesterov_step digest scale add gradient mu lr fs =
     (case update_momentum digest scale add gradient mu fs of
        (Inl e, fs) \<Rightarrow> (Inl e, fs)
      | (Inr mom, fs) \<Rightarrow>
          (case apply_tensor_op digest (nesterov_op scale add mu lr) gradient mom GradientUpdate fs of
             (Inl e, fs) \<Rightarrow> (Inl e, fs)
           | (Inr _, fs) \<Rightarrow> (Inr GradientUpdate, fs)))"

section \<open>Storing and aggregating\<close>

record 't ps_state =
  ps_files :: "'t files"
  ps_store :: "peer_id \<rightharpoonup> ps_path list"

text \<open>The end of the receiving task for one update, after its bytes have been copied to a new file.\<close>

definition store_update :: "peer_id \<times> uuid \<times> 't tensors \<Rightarrow> 't ps_state \<Rightarrow> 't ps_state" where
  "store_update = (\<lambda>(peer, u, ts) s.
     s\<lparr>ps_files := (ps_files s)(IncomingFile peer u \<mapsto> ts),
       ps_store := (ps_store s)(peer \<mapsto> (case ps_store s peer of None \<Rightarrow> [] | Some fs \<Rightarrow> fs) @ [IncomingFile peer u])\<rparr>)"

text \<open>The choice: the first eligible peer that was not used and has a file gives its newest one.\<close>

fun pick_update :: "peer_id list \<Rightarrow> peer_id set \<Rightarrow> (peer_id \<rightharpoonup> ps_path list) \<Rightarrow> (peer_id \<times> ps_path) option \<times> (peer_id \<rightharpoonup> ps_path list)" where
  "pick_update [] used store = (None, store)"
| "pick_update (p # ps) used store =
     (if p \<in> used then pick_update ps used store
      else case store p of
             Some files \<Rightarrow>
               if files = [] then pick_update ps used store
               else (Some (p, last files), store(p \<mapsto> butlast files))
           | None \<Rightarrow> pick_update ps used store)"

datatype wake = Cancelled | GapElapsed | DeadlineReached | Notified

text \<open>
  One turn of the loop: the updates that other tasks have stored before it, the order of the store's keys, the identifier
  for a new file, and, should nothing be there, what ends the wait.
\<close>

record 't turn =
  tu_arrivals :: "(peer_id \<times> uuid \<times> 't tensors) list"
  tu_keys :: "peer_id list"
  tu_uuid :: uuid
  tu_wake :: wake

definition remove_file :: "ps_path \<Rightarrow> 't files \<Rightarrow> 't files" where
  "remove_file p fs = fs(p := None)"

text \<open>Merging a chosen file into the sum so far.\<close>

definition merge_update ::
    "(string \<Rightarrow> string) \<Rightarrow> 't tensor_op \<Rightarrow> uuid \<Rightarrow> ps_path \<Rightarrow> ps_path option \<Rightarrow> 't files \<Rightarrow> (exec_error + ps_path) \<times> 't files" where
  "merge_update digest add u file current fs =
     (case current of
        None \<Rightarrow> (Inr file, fs)
      | Some result \<Rightarrow>
          (case apply_tensor_op digest add file result (JoinedFile u) fs of
             (Inl e, fs) \<Rightarrow> (Inl e, fs)
           | (Inr _, fs) \<Rightarrow> (Inr (JoinedFile u), remove_file result (remove_file file fs))))"

text \<open>The end of the loop: the sum gets its final name.\<close>

definition finish_sum :: "ps_path option \<Rightarrow> 't files \<Rightarrow> (exec_error + ps_path) \<times> 't files" where
  "finish_sum current fs =
     (case current of
        None \<Rightarrow> (Inl (InvalidExecutorConfig ''no updates available to aggregate''), fs)
      | Some result \<Rightarrow>
          (case fs result of
             None \<Rightarrow> (Inl ExecIo, fs)
           | Some ts \<Rightarrow> (Inr AvgFinal, (fs(result := None))(AvgFinal \<mapsto> ts))))"

text \<open>
  The loop, with the peers and files chosen so far, of which the source keeps the set of peers. \<open>None\<close> means that it is still waiting after the given turns.
\<close>

fun aggregate_loop ::
    "(string \<Rightarrow> string) \<Rightarrow> 't tensor_op \<Rightarrow> peer_id set \<Rightarrow> 't turn list \<Rightarrow> (peer_id \<times> ps_path) list \<Rightarrow> ps_path option \<Rightarrow> 't ps_state
      \<Rightarrow> ((exec_error + ps_path) \<times> (peer_id \<times> ps_path) list \<times> 't ps_state) option" where
  "aggregate_loop digest add allowed [] picked current s = None"
| "aggregate_loop digest add allowed (t # ts) picked current s =
     (let s = fold store_update (tu_arrivals t) s;
          keys = (if allowed = {} then tu_keys t else filter (\<lambda>p. p \<in> allowed) (tu_keys t))
      in case pick_update keys (fst ` set picked) (ps_store s) of
           (Some (peer, file), store) \<Rightarrow>
             (let picked = picked @ [(peer, file)]; s = s\<lparr>ps_store := store\<rparr>
              in case merge_update digest add (tu_uuid t) file current (ps_files s) of
                   (Inl e, fs) \<Rightarrow> Some (Inl e, picked, s\<lparr>ps_files := fs\<rparr>)
                 | (Inr result, fs) \<Rightarrow>
                     (let s = s\<lparr>ps_files := fs\<rparr>
                      in if allowed \<noteq> {} \<and> card allowed \<le> card (fst ` set picked)
                         then let (r, fs) = finish_sum (Some result) (ps_files s) in Some (r, picked, s\<lparr>ps_files := fs\<rparr>)
                         else aggregate_loop digest add allowed ts picked (Some result) s))
         | (None, store) \<Rightarrow>
             (case tu_wake t of
                Cancelled \<Rightarrow> Some (Inl (InvalidExecutorConfig ''aggregation cancelled''), picked, s)
              | Notified \<Rightarrow> aggregate_loop digest add allowed ts picked current s
              | _ \<Rightarrow> (let (r, fs) = finish_sum current (ps_files s) in Some (r, picked, s\<lparr>ps_files := fs\<rparr>))))"

definition aggregate_updates ::
    "(string \<Rightarrow> string) \<Rightarrow> (float \<Rightarrow> 't \<Rightarrow> 't option) \<Rightarrow> 't tensor_op \<Rightarrow> nesterov \<Rightarrow> peer_id list \<Rightarrow> 't turn list \<Rightarrow> 't ps_state
      \<Rightarrow> ((exec_error + ps_path) \<times> 't ps_state) option" where
  "aggregate_updates digest scale add optimizer allowed_peers turns s =
     (case aggregate_loop digest add (set allowed_peers) turns [] None s of
        None \<Rightarrow> None
      | Some (Inl e, _, s) \<Rightarrow> Some (Inl e, s)
      | Some (Inr final, _, s) \<Rightarrow>
          (case nesterov_step digest scale add final (momentum optimizer) (outer_learning_rate optimizer) (ps_files s) of
             (Inl e, fs) \<Rightarrow> Some (Inl e, s\<lparr>ps_files := fs\<rparr>)
           | (Inr gradient, fs) \<Rightarrow> Some (Inr gradient, s\<lparr>ps_files := remove_file final fs\<rparr>)))"

section \<open>Broadcasting\<close>

text \<open>
  \<open>writers\<close> is what the connector gives; \<open>deliver peer w\<close> whether the copy to that peer and its shutdown succeed. Failures
  are logged; the file is removed whatever became of them. The second component are the peers that got the file.
\<close>

fun reached :: "(peer_id \<Rightarrow> 'w \<Rightarrow> bool) \<Rightarrow> (connector_error + peer_id \<times> 'w) list \<Rightarrow> peer_id list" where
  "reached deliver [] = []"
| "reached deliver (Inl e # ws) = reached deliver ws"
| "reached deliver (Inr (p, w) # ws) = (if deliver p w then p # reached deliver ws else reached deliver ws)"

definition broadcast_update ::
    "connector_error + (connector_error + peer_id \<times> 'w) list \<Rightarrow> (peer_id \<Rightarrow> 'w \<Rightarrow> bool) \<Rightarrow> ps_path \<Rightarrow> 't files
      \<Rightarrow> (exec_error + unit) \<times> peer_id list \<times> 't files" where
  "broadcast_update writers deliver gradient fs =
     (case fs gradient of
        None \<Rightarrow> (Inl ExecIo, [], fs)
      | Some _ \<Rightarrow>
          (case writers of
             Inl e \<Rightarrow> (Inl (ConnectorFailure e), [], fs)
           | Inr ws \<Rightarrow> (Inr (), reached deliver ws, remove_file gradient fs)))"

section \<open>The server's loop\<close>

record 't server =
  sv_status :: aggregate_status
  sv_pending :: "ps_path option"
  sv_state :: "'t ps_state"

text \<open>The start: the optimizer of the job, and a server that is idle with an empty directory.\<close>

definition server_start :: "job_spec \<Rightarrow> exec_error + nesterov \<times> 't server" where
  "server_start job =
     (case spec_executor job of
        AggregateExecutor _ c \<Rightarrow>
          Inr (ac_optimizer c,
               \<lparr>sv_status = AggregateIdle, sv_pending = None, sv_state = \<lparr>ps_files = Map.empty, ps_store = Map.empty\<rparr>\<rparr>)
      | _ \<Rightarrow> Inl UnsupportedJobSpec)"

text \<open>
  What one turn of the loop meets: whether the job is cancelled before the answer comes, while it is idle, or at the end of the turn; the answer of
  the scheduler; the turns of an aggregation; the writers for a target; which copies succeed.
\<close>

record ('t, 'w) server_input =
  si_cancelled :: bool
  si_answer :: "string + executor_action"
  si_idle_cancelled :: bool
  si_turns :: "'t turn list"
  si_writers :: "send \<Rightarrow> connector_error + (connector_error + peer_id \<times> 'w) list"
  si_deliver :: "peer_id \<Rightarrow> 'w \<Rightarrow> bool"
  si_end_cancelled :: bool

text \<open>
  \<open>Stopped\<close> is the end of the task, after which the directory is removed; \<open>Panicked\<close> ends it without; \<open>Waiting\<close>: an aggregation has not ended in the turns given.
\<close>

datatype 't server_result = Running "'t server" | Stopped "'t server" | Panicked | Waiting

definition fail_status :: "aggregate_error \<Rightarrow> 't server \<Rightarrow> 't server" where
  "fail_status e sv = sv\<lparr>sv_status := AggregateErrorStatus e\<rparr>"

definition stop_server :: "'t server \<Rightarrow> 't server_result" where
  "stop_server sv = Stopped (sv\<lparr>sv_state := (sv_state sv)\<lparr>ps_files := Map.empty\<rparr>\<rparr>)"

text \<open>The test at the end of the turn, which \<^verbatim>\<open>continue\<close> skips.\<close>

definition end_turn :: "bool \<Rightarrow> 't server \<Rightarrow> 't server_result" where
  "end_turn cancelled sv = (if cancelled then stop_server sv else Running sv)"

definition aggregate_failure :: "(exec_error \<Rightarrow> string) \<Rightarrow> exec_error \<Rightarrow> aggregate_error" where
  "aggregate_failure shown e =
     (case e of InvalidExecutorConfig msg \<Rightarrow> AggregateConnection msg | _ \<Rightarrow> AggregateOther (shown e))"

definition server_aggregate ::
    "(string \<Rightarrow> string) \<Rightarrow> (float \<Rightarrow> 't \<Rightarrow> 't option) \<Rightarrow> 't tensor_op \<Rightarrow> (exec_error \<Rightarrow> string) \<Rightarrow> nesterov \<Rightarrow> reference
      \<Rightarrow> ('t, 'w) server_input \<Rightarrow> 't server \<Rightarrow> 't server_result" where
  "server_aggregate digest scale add shown opt source i sv =
     (case receive_try_from source of
        Inl e \<Rightarrow> Running (fail_status (AggregateConnection e) sv)
      | Inr r \<Rightarrow>
          (case get_peers r of
             None \<Rightarrow> Panicked
           | Some allowed \<Rightarrow>
               (case aggregate_updates digest scale add opt allowed (si_turns i) (sv_state sv) of
                  None \<Rightarrow> Waiting
                | Some (Inr path, s) \<Rightarrow>
                    end_turn (si_end_cancelled i)
                      (sv\<lparr>sv_state := s, sv_pending := Some path, sv_status := AggregatedUpdates None\<rparr>)
                | Some (Inl e, s) \<Rightarrow>
                    if e = CopyPanic then Panicked
                    else end_turn (si_end_cancelled i) (fail_status (aggregate_failure shown e) (sv\<lparr>sv_state := s\<rparr>)))))"

definition server_broadcast ::
    "(exec_error \<Rightarrow> string) \<Rightarrow> reference \<Rightarrow> ('t, 'w) server_input \<Rightarrow> 't server \<Rightarrow> 't server_result \<times> peer_id list" where
  "server_broadcast shown target i sv =
     (case sv_pending sv of
        None \<Rightarrow> (Running (fail_status (AggregateOther ''no aggregated update available'') sv), [])
      | Some gradient \<Rightarrow>
          (case send_try_from target of
             Inl e \<Rightarrow> (Running (fail_status (AggregateConnection e) sv), [])
           | Inr send \<Rightarrow>
               (case broadcast_update (si_writers i send) (si_deliver i) gradient (ps_files (sv_state sv)) of
                  (Inr _, got, fs) \<Rightarrow>
                    (end_turn (si_end_cancelled i)
                       (sv\<lparr>sv_pending := None, sv_status := BroadcastedUpdate None, sv_state := (sv_state sv)\<lparr>ps_files := fs\<rparr>\<rparr>), got)
                | (Inl e, got, fs) \<Rightarrow>
                    (end_turn (si_end_cancelled i)
                       (fail_status (AggregateConnection (shown e)) (sv\<lparr>sv_state := (sv_state sv)\<lparr>ps_files := fs\<rparr>\<rparr>)), got))))"

text \<open>One turn, with the peers that a broadcast reached.\<close>

definition server_turn ::
    "(string \<Rightarrow> string) \<Rightarrow> (float \<Rightarrow> 't \<Rightarrow> 't option) \<Rightarrow> 't tensor_op \<Rightarrow> (exec_error \<Rightarrow> string) \<Rightarrow> nesterov \<Rightarrow> ('t, 'w) server_input \<Rightarrow> 't server
      \<Rightarrow> 't server_result \<times> peer_id list" where
  "server_turn digest scale add shown opt i sv =
     (if si_cancelled i then (stop_server sv, [])
      else case si_answer i of
        Inl e \<Rightarrow> (Running (fail_status (AggregateConnection (''action request failed: '' @ e)) sv), [])
      | Inr (AggregateAction TerminateAggregate) \<Rightarrow> (stop_server sv, [])
      | Inr (AggregateAction (IdleAggregate timeout)) \<Rightarrow>
          if si_idle_cancelled i then (stop_server sv, [])
          else (end_turn (si_end_cancelled i) (sv\<lparr>sv_status := AggregateIdle\<rparr>), [])
      | Inr (AggregateAction (AggregateUpdates source)) \<Rightarrow> (server_aggregate digest scale add shown opt source i sv, [])
      | Inr (AggregateAction (BroadcastUpdate target)) \<Rightarrow> server_broadcast shown target i sv
      | Inr (TrainAction _) \<Rightarrow>
          (end_turn (si_end_cancelled i) (fail_status (AggregateOther ''unexpected executor action'') sv), []))"

end
