(* ===== verification/Parameter_Sums.thy ===== *)
theory Parameter_Sums
  imports Parameter_Server
begin

text \<open>
  What the parameter server computes: the files it sums, against a reference definition of the sum of named tensors,
  and the step of the outer optimiser.
\<close>

section \<open>Combining named tensors\<close>

text \<open>The reference: the tensors that both have, combined; \<open>None\<close> when the operation fails on one.\<close>

fun combine :: "'t tensor_op \<Rightarrow> 't tensors \<Rightarrow> 't tensors \<Rightarrow> 't tensors option" where
  "combine f [] tb = Some []"
| "combine f ((n, a) # ta) tb =
     (case map_of tb n of
        None \<Rightarrow> combine f ta tb
      | Some b \<Rightarrow> (case f a b of None \<Rightarrow> None | Some r \<Rightarrow> map_option ((#) (n, r)) (combine f ta tb)))"

lemma combine_Cons:
  assumes "combine f ((n, a) # ta) tb = Some r"
  obtains (skipped) "map_of tb n = None" "combine f ta tb = Some r"
    | (combined) b c q where "map_of tb n = Some b" "f a b = Some c" "combine f ta tb = Some q" "r = (n, c) # q"
  using assms by (auto split: option.splits)

lemma combine_names: "combine f ta tb = Some r \<Longrightarrow> fst ` set r \<subseteq> fst ` set ta"
proof (induction ta arbitrary: r)
  case (Cons x ta)
  obtain n a where x: "x = (n, a)" by force
  from Cons.prems [unfolded x] show ?case
    by (cases rule: combine_Cons) (use Cons.IH x in auto)
qed simp

lemma combine_distinct: "combine f ta tb = Some r \<Longrightarrow> distinct (map fst ta) \<Longrightarrow> distinct (map fst r)"
proof (induction ta arbitrary: r)
  case (Cons x ta)
  obtain n a where x: "x = (n, a)" by force
  from Cons.prems(1) [unfolded x] show ?case
  proof (cases rule: combine_Cons)
    case skipped
    with Cons x show ?thesis by simp
  next
    case (combined b c q)
    with Cons x combine_names [OF combined(3)] show ?thesis by auto
  qed
qed simp

text \<open>When the first names are among the second, the combination has them all, each once.\<close>

lemma combine_all:
  "combine f ta tb = Some r \<Longrightarrow> fst ` set ta \<subseteq> fst ` set tb \<Longrightarrow> map fst r = map fst ta"
proof (induction ta arbitrary: r)
  case (Cons x ta)
  obtain n a where x: "x = (n, a)" by force
  from Cons.prems(1) [unfolded x] show ?case
  proof (cases rule: combine_Cons)
    case skipped
    with Cons.prems(2) x show ?thesis by (simp add: map_of_eq_None_iff)
  next
    case (combined b c q)
    with Cons x show ?thesis by simp
  qed
qed simp

lemma tensor_loop_combine:
  assumes "tensor_loop digest f ta tb results fs = (x, fs')" and "inj_on digest (fst ` set ta)" and "distinct (map fst ta)"
  shows "(\<forall>p. p \<notin> (\<lambda>n. PartFile (digest n)) ` fst ` set ta \<longrightarrow> fs' p = fs p)
    \<and> (case x of
         Inl e \<Rightarrow> e = TensorFailure \<and> combine f ta tb = None
       | Inr paths \<Rightarrow> (\<exists>out. combine f ta tb = Some out \<and> paths = results @ map (\<lambda>y. PartFile (digest (fst y))) out
           \<and> (\<forall>y\<in>set out. fs' (PartFile (digest (fst y))) = Some [y])))"
  using assms
proof (induction ta arbitrary: results fs)
  case (Cons na ta)
  obtain n a where na: "na = (n, a)" by force
  show ?case
  proof (cases "map_of tb n")
    case None
    with Cons na show ?thesis by (auto split: sum.splits)
  next
    case (Some b)
    show ?thesis
    proof (cases "f a b")
      case None
      with Some Cons.prems na show ?thesis by (auto split: sum.splits)
    next
      case (Some r)
      let ?p = "PartFile (digest n)" and ?fs = "fs(PartFile (digest n) \<mapsto> [(n, r)])"
      have loop: "tensor_loop digest f ta tb (results @ [?p]) ?fs = (x, fs')"
        using Cons.prems(1) na \<open>map_of tb n = Some b\<close> Some by (simp add: Let_def)
      have inj: "inj_on digest (fst ` set ta)" using Cons.prems(2) na by simp
      note IH = Cons.IH [OF loop inj]
      have "?p \<notin> (\<lambda>n. PartFile (digest n)) ` fst ` set ta"
        using Cons.prems(2,3) na by (auto simp: image_iff)
      with IH Cons.prems(3) na have "fs' ?p = Some [(n, r)]" by simp
      with IH Cons.prems(3) na Some \<open>map_of tb n = Some b\<close> show ?thesis by (auto split: sum.splits)
    qed
  qed
qed auto

definition is_part :: "ps_path \<Rightarrow> bool" where
  "is_part p \<longleftrightarrow> (\<exists>d. p = PartFile d)"

lemma contents_singletons: "\<forall>y\<in>set out. fs (g y) = Some [y] \<Longrightarrow> contents fs (map g out) = out"
  by (induction out) (auto simp: contents_def)

text \<open>\<^verbatim>\<open>apply_tensor_op\<close> writes the combination, unless it is empty, and touches nothing else but its parts.\<close>

lemma apply_tensor_op_combine:
  assumes "apply_tensor_op digest f a b out fs = (x, fs')" and "inj_on digest (fst ` set ta)"
    and "fs a = Some ta" and "fs b = Some tb" and "distinct (map fst ta)" and "\<not> is_part out"
  shows "(\<forall>p. p \<noteq> out \<longrightarrow> \<not> is_part p \<longrightarrow> fs' p = fs p)
    \<and> (case x of
         Inl e \<Rightarrow> e = TensorFailure \<and> combine f ta tb = None
       | Inr _ \<Rightarrow> (\<exists>r. combine f ta tb = Some r \<and> fs' out = (if r = [] then fs out else Some r)))"
proof -
  obtain y fs1 where loop: "tensor_loop digest f ta tb [] fs = (y, fs1)" by force
  note spec = tensor_loop_combine [OF loop assms(2,5)]
  have keep: "\<not> is_part p \<Longrightarrow> fs1 p = fs p" for p using spec by (auto simp: is_part_def)
  show ?thesis
  proof (cases y)
    case (Inl e)
    with loop spec assms(1,3,4,6) keep show ?thesis by (auto simp: apply_tensor_op_def)
  next
    case (Inr paths)
    with spec obtain r where r: "combine f ta tb = Some r" "paths = map (\<lambda>y. PartFile (digest (fst y))) r"
      "contents fs1 paths = r" by (auto intro!: contents_singletons)
    with Inr loop assms(1,3,4,6) keep show ?thesis by (auto simp: apply_tensor_op_def split: if_splits)
  qed
qed

lemma apply_tensor_op_missing: "fs a = None \<or> fs b = None \<Longrightarrow> apply_tensor_op digest f a b out fs = (Inl TensorFailure, fs)"
  by (auto simp: apply_tensor_op_def split: option.splits)

text \<open>The sum of several: each one is added to the sum of those before it.\<close>

fun merged :: "'t tensor_op \<Rightarrow> 't tensors list \<Rightarrow> 't tensors option" where
  "merged add [] = None"
| "merged add (c # cs) = foldl (\<lambda>acc c. case acc of None \<Rightarrow> None | Some m \<Rightarrow> combine add c m) (Some c) cs"

lemma merged_snoc:
  "cs \<noteq> [] \<Longrightarrow> merged add (cs @ [c]) = (case merged add cs of None \<Rightarrow> None | Some m \<Rightarrow> combine add c m)"
  by (cases cs) auto

section \<open>The updates in store\<close>

text \<open>
  \<open>C\<close> says what each path of an update holds. A store is sound when it lists each path once, under its peer, and the
  file is there with that content; every update has the names \<open>N\<close>.
\<close>

definition stored :: "'t ps_state \<Rightarrow> peer_id \<Rightarrow> ps_path list" where
  "stored s p = (case ps_store s p of None \<Rightarrow> [] | Some l \<Rightarrow> l)"

definition store_sound :: "(ps_path \<Rightarrow> 't tensors) \<Rightarrow> 't ps_state \<Rightarrow> bool" where
  "store_sound C s \<longleftrightarrow>
     (\<forall>p. distinct (stored s p) \<and> (\<forall>f\<in>set (stored s p). (\<exists>u. f = IncomingFile p u) \<and> ps_files s f = Some (C f)))"

definition same_names :: "(string \<Rightarrow> string) \<Rightarrow> string set \<Rightarrow> (ps_path \<Rightarrow> 't tensors) \<Rightarrow> bool" where
  "same_names digest N C \<longleftrightarrow>
     N \<noteq> {} \<and> inj_on digest N \<and> (\<forall>f. distinct (map fst (C f)) \<and> fst ` set (C f) = N)"

definition arriving_paths :: "(peer_id \<times> uuid \<times> 't tensors) list \<Rightarrow> ps_path list" where
  "arriving_paths = map (\<lambda>(p, u, ts). IncomingFile p u)"

definition fresh_arrivals :: "(ps_path \<Rightarrow> 't tensors) \<Rightarrow> (peer_id \<times> uuid \<times> 't tensors) list \<Rightarrow> 't files \<Rightarrow> bool" where
  "fresh_arrivals C arr fs \<longleftrightarrow>
     distinct (arriving_paths arr) \<and> (\<forall>f\<in>set (arriving_paths arr). fs f = None) \<and> (\<forall>(p, u, ts)\<in>set arr. ts = C (IncomingFile p u))"

lemma store_update_sound:
  assumes "store_sound C s" and "fresh_arrivals C (a # arr) (ps_files s)"
  shows "store_sound C (store_update a s)" and "fresh_arrivals C arr (ps_files (store_update a s))"
    and "ps_files s f = Some x \<Longrightarrow> ps_files (store_update a s) f = Some x"
    and "(\<And>p u. f \<noteq> IncomingFile p u) \<Longrightarrow> ps_files (store_update a s) f = ps_files s f"
    and "ps_files s f \<noteq> None \<Longrightarrow> f \<notin> set (stored s q) \<Longrightarrow> f \<notin> set (stored (store_update a s) q)"
proof -
  obtain p u ts where a: "a = (p, u, ts)" by (cases a)
  let ?f = "IncomingFile p u"
  from assms(2) a have new: "ps_files s ?f = None" and ts: "ts = C ?f" by (auto simp: fresh_arrivals_def arriving_paths_def)
  have st: "stored (store_update a s) q = (if q = p then stored s p @ [?f] else stored s q)" for q
    by (simp add: a stored_def store_update_def)
  have fs: "ps_files (store_update a s) = (ps_files s)(?f \<mapsto> ts)" by (simp add: a store_update_def)
  have "?f \<notin> set (stored s p)" using assms(1) new by (force simp: store_sound_def)
  with assms(1) ts show "store_sound C (store_update a s)" by (auto simp: store_sound_def st fs)
  show "fresh_arrivals C arr (ps_files (store_update a s))"
    unfolding fs using assms(2) a by (force simp: fresh_arrivals_def arriving_paths_def)
  show "ps_files s f = Some x \<Longrightarrow> ps_files (store_update a s) f = Some x" using new by (auto simp: fs)
  show "(\<And>p u. f \<noteq> IncomingFile p u) \<Longrightarrow> ps_files (store_update a s) f = ps_files s f" by (auto simp: fs)
  show "ps_files s f \<noteq> None \<Longrightarrow> f \<notin> set (stored s q) \<Longrightarrow> f \<notin> set (stored (store_update a s) q)"
    using new by (auto simp: st)
qed

lemma store_updates_sound:
  "store_sound C s \<Longrightarrow> fresh_arrivals C (as @ arr) (ps_files s) \<Longrightarrow>
     store_sound C (fold store_update as s) \<and> fresh_arrivals C arr (ps_files (fold store_update as s))
     \<and> (\<forall>f x. ps_files s f = Some x \<longrightarrow> ps_files (fold store_update as s) f = Some x)
     \<and> (\<forall>f. (\<forall>p u. f \<noteq> IncomingFile p u) \<longrightarrow> ps_files (fold store_update as s) f = ps_files s f)
     \<and> (\<forall>f q. ps_files s f \<noteq> None \<longrightarrow> f \<notin> set (stored s q) \<longrightarrow> f \<notin> set (stored (fold store_update as s) q))"
proof (induction as arbitrary: s)
  case (Cons a as)
  note step = store_update_sound [OF Cons.prems(1) Cons.prems(2) [simplified]]
  from Cons.IH [OF step(1,2)] step(3-5) show ?case by auto
qed simp

lemma pick_update_Some:
  "pick_update keys used store = (Some (p, f), store') \<Longrightarrow>
     p \<in> set keys \<and> p \<notin> used \<and> (\<exists>l. store p = Some l \<and> l \<noteq> [] \<and> f = last l \<and> store' = store(p \<mapsto> butlast l))"
  by (induction keys used store rule: pick_update.induct) (auto split: if_splits option.splits)

lemma pick_update_None:
  "pick_update keys used store = (None, store') \<Longrightarrow>
     store' = store \<and> (\<forall>p\<in>set keys. p \<notin> used \<longrightarrow> store p = None \<or> store p = Some [])"
  by (induction keys used store rule: pick_update.induct) (auto split: if_splits option.splits)

lemma picked_sound:
  assumes "store_sound C s" and "pick_update keys used (ps_store s) = (Some (p, f), store')"
  shows "\<exists>u. f = IncomingFile p u" and "ps_files s f = Some (C f)" and "p \<in> set keys" and "p \<notin> used"
    and "store_sound C (s\<lparr>ps_store := store'\<rparr>)" and "f \<notin> set (stored (s\<lparr>ps_store := store'\<rparr>) q)"
    and "set (stored (s\<lparr>ps_store := store'\<rparr>) q) \<subseteq> set (stored s q)"
proof -
  from pick_update_Some [OF assms(2)] obtain l where
    l: "ps_store s p = Some l" "l \<noteq> []" "f = last l" "store' = (ps_store s)(p \<mapsto> butlast l)"
    and "p \<in> set keys" "p \<notin> used" by auto
  then show "p \<in> set keys" "p \<notin> used" by auto
  from l(1,2) have stp: "stored s p = butlast l @ [last l]" by (simp add: stored_def)
  have st: "stored (s\<lparr>ps_store := store'\<rparr>) q = (if q = p then butlast l else stored s q)" for q
    using l(4) by (simp add: stored_def)
  have f: "f \<in> set (stored s p)" using l(3) stp by simp
  with assms(1) show "\<exists>u. f = IncomingFile p u" "ps_files s f = Some (C f)" by (auto simp: store_sound_def)
  have "distinct (stored s p)" using assms(1) by (simp add: store_sound_def)
  then have d: "distinct (butlast l)" "f \<notin> set (butlast l)" unfolding stp l(3) by simp_all
  show sub: "set (stored (s\<lparr>ps_store := store'\<rparr>) q) \<subseteq> set (stored s q)" for q
    using stp by (auto simp: st)
  have "(\<exists>u. g = IncomingFile p u) \<and> ps_files s g = Some (C g)" if "g \<in> set (butlast l)" for g
    using assms(1) that stp unfolding store_sound_def by (metis Un_iff set_append)
  with assms(1) d(1) show "store_sound C (s\<lparr>ps_store := store'\<rparr>)" by (simp add: store_sound_def st)
  have inq: "f \<in> set (stored s q) \<Longrightarrow> \<exists>u. f = IncomingFile q u" for q
    using assms(1) unfolding store_sound_def by blast
  show "f \<notin> set (stored (s\<lparr>ps_store := store'\<rparr>) q)"
    using d(2) inq [of q] inq [OF f] by (auto simp: st)
qed

section \<open>One aggregation\<close>

lemma merge_update_combine:
  assumes "merge_update digest add u f (Some c) fs = (x, fs')" and "same_names digest N C"
    and "fs f = Some (C f)" and "fs c = Some m" and "fst ` set m = N" and "c \<noteq> JoinedFile u" and "f \<noteq> JoinedFile u"
  shows "case x of
      Inl e \<Rightarrow> e = TensorFailure \<and> combine add (C f) m = None
        \<and> (\<forall>q. q \<noteq> JoinedFile u \<longrightarrow> \<not> is_part q \<longrightarrow> fs' q = fs q)
    | Inr r \<Rightarrow> r = JoinedFile u \<and> (\<exists>m'. combine add (C f) m = Some m' \<and> fs' r = Some m' \<and> fst ` set m' = N)
        \<and> (\<forall>q. q \<noteq> JoinedFile u \<longrightarrow> \<not> is_part q \<longrightarrow> q \<noteq> f \<longrightarrow> q \<noteq> c \<longrightarrow> fs' q = fs q)"
proof -
  obtain y fs1 where op: "apply_tensor_op digest add f c (JoinedFile u) fs = (y, fs1)" by force
  have names: "distinct (map fst (C f))" "fst ` set (C f) = N" "N \<noteq> {}" "inj_on digest (fst ` set (C f))"
    using assms(2) by (auto simp: same_names_def)
  note spec = apply_tensor_op_combine [OF op names(4) assms(3,4) names(1)]
  have "\<not> is_part (JoinedFile u)" by (simp add: is_part_def)
  note spec = spec [OF this]
  show ?thesis
  proof (cases y)
    case (Inl e)
    with op assms(1) spec show ?thesis by (auto simp: merge_update_def)
  next
    case (Inr v)
    with spec obtain r where r: "combine add (C f) m = Some r" "fs1 (JoinedFile u) = (if r = [] then fs (JoinedFile u) else Some r)"
      by auto
    have "map fst r = map fst (C f)" using combine_all [OF r(1)] names(2) assms(5) by auto
    then have "fst ` set r = N" "r \<noteq> []" using names(2,3) by (metis list.set_map, auto)
    with r Inr op assms(1,6,7) spec show ?thesis by (auto simp: merge_update_def remove_file_def)
  qed
qed

lemma store_sound_files:
  "store_sound C s \<Longrightarrow> (\<And>p q. q \<in> set (stored s p) \<Longrightarrow> fs q = ps_files s q) \<Longrightarrow> store_sound C (s\<lparr>ps_files := fs\<rparr>)"
  by (simp add: store_sound_def stored_def)

lemma store_sound_incoming:
  assumes "store_sound C s" and "\<And>p u. fs (IncomingFile p u) = ps_files s (IncomingFile p u)"
  shows "store_sound C (s\<lparr>ps_files := fs\<rparr>)"
proof (rule store_sound_files [OF assms(1)])
  fix p q assume "q \<in> set (stored s p)"
  with assms(1) obtain u where "q = IncomingFile p u" by (auto simp: store_sound_def)
  with assms(2) show "fs q = ps_files s q" by simp
qed

lemma fresh_arrivals_files:
  assumes "fresh_arrivals C arr fs" and "\<And>p u. fs (IncomingFile p u) = None \<Longrightarrow> fs' (IncomingFile p u) = None"
  shows "fresh_arrivals C arr fs'"
proof -
  have "fs' f = None" if "f \<in> set (arriving_paths arr)" for f
    using that assms unfolding fresh_arrivals_def by (auto simp: arriving_paths_def)
  with assms(1) show ?thesis by (simp add: fresh_arrivals_def)
qed

text \<open>The state of the loop: the sum so far is in the current file, which nothing else refers to.\<close>

definition sum_inv ::
    "string set \<Rightarrow> (ps_path \<Rightarrow> 't tensors) \<Rightarrow> 't tensor_op \<Rightarrow> uuid set \<Rightarrow> peer_id set \<Rightarrow> (peer_id \<times> ps_path) list \<Rightarrow> ps_path option \<Rightarrow> 't ps_state \<Rightarrow> bool" where
  "sum_inv N C add later allowed picked current s \<longleftrightarrow>
     distinct (map fst picked) \<and> (allowed \<noteq> {} \<longrightarrow> fst ` set picked \<subseteq> allowed) \<and>
     (case current of
        None \<Rightarrow> picked = []
      | Some c \<Rightarrow> picked \<noteq> [] \<and> (\<forall>p. c \<notin> set (stored s p))
          \<and> ((\<exists>p u. c = IncomingFile p u) \<or> (\<exists>u. c = JoinedFile u \<and> u \<notin> later))
          \<and> (\<exists>m. merged add (map (\<lambda>x. C (snd x)) picked) = Some m \<and> ps_files s c = Some m \<and> fst ` set m = N))"

lemma sum_inv_arrivals:
  assumes "sum_inv N C add later allowed picked current s" and "store_sound C s" and "fresh_arrivals C (as @ arr) (ps_files s)"
  shows "sum_inv N C add later allowed picked current (fold store_update as s)"
proof (cases current)
  case None
  with assms(1) show ?thesis by (simp add: sum_inv_def)
next
  case (Some c)
  with assms(1) obtain m where m: "ps_files s c = Some m" "\<And>p. c \<notin> set (stored s p)" by (auto simp: sum_inv_def)
  with store_updates_sound [OF assms(2,3)]
  have "ps_files (fold store_update as s) c = Some m" "\<And>p. c \<notin> set (stored (fold store_update as s) p)"
    by (blast, metis option.distinct(1))
  with assms(1) m Some show ?thesis by (simp add: sum_inv_def)
qed

lemma pick_merge_sum:
  assumes inv: "sum_inv N C add later allowed picked current s" and sound: "store_sound C s" and names: "same_names digest N C"
    and pick: "pick_update keys (fst ` set picked) (ps_store s) = (Some (p, f), store)"
    and merge: "merge_update digest add u f current (ps_files s) = (x, fs)"
    and keys: "allowed \<noteq> {} \<Longrightarrow> set keys \<subseteq> allowed" and u: "u \<in> later"
  shows "store_sound C (s\<lparr>ps_store := store, ps_files := fs\<rparr>)"
    and "distinct (map fst (picked @ [(p, f)]))" and "allowed \<noteq> {} \<Longrightarrow> fst ` set (picked @ [(p, f)]) \<subseteq> allowed"
    and "\<And>q. (\<And>u. q \<noteq> JoinedFile u) \<Longrightarrow> (\<And>p u. q \<noteq> IncomingFile p u) \<Longrightarrow> \<not> is_part q \<Longrightarrow> fs q = ps_files s q"
    and "\<And>p u. ps_files s (IncomingFile p u) = None \<Longrightarrow> fs (IncomingFile p u) = None"
    and "case x of
        Inl e \<Rightarrow> e = TensorFailure \<and> merged add (map (\<lambda>x. C (snd x)) (picked @ [(p, f)])) = None
      | Inr r \<Rightarrow> sum_inv N C add (later - {u}) allowed (picked @ [(p, f)]) (Some r) (s\<lparr>ps_store := store, ps_files := fs\<rparr>)"
proof -
  let ?s = "s\<lparr>ps_store := store\<rparr>"
  note pk = picked_sound [OF sound pick]
  obtain v where f: "f = IncomingFile p v" using pk(1) by blast
  show d: "distinct (map fst (picked @ [(p, f)]))" using inv pk(4) by (auto simp: sum_inv_def)
  show a: "allowed \<noteq> {} \<Longrightarrow> fst ` set (picked @ [(p, f)]) \<subseteq> allowed" using inv keys pk(3) by (auto simp: sum_inv_def)
  have st: "stored (s\<lparr>ps_store := store, ps_files := fs\<rparr>) q = stored ?s q" for q by (simp add: stored_def)
  have nn: "fst ` set (C f) = N" using names by (simp add: same_names_def)
  have inc: "q \<in> set (stored ?s r) \<Longrightarrow> \<exists>u. q = IncomingFile r u" for q r using pk(5) by (simp add: store_sound_def)
  have goal: "(\<forall>q r. q \<in> set (stored ?s r) \<longrightarrow> fs q = ps_files s q)
    \<and> (\<forall>q. (\<forall>u. q \<noteq> JoinedFile u) \<longrightarrow> (\<forall>p u. q \<noteq> IncomingFile p u) \<longrightarrow> \<not> is_part q \<longrightarrow> fs q = ps_files s q)
    \<and> (\<forall>p u. ps_files s (IncomingFile p u) = None \<longrightarrow> fs (IncomingFile p u) = None)
    \<and> (case x of
        Inl e \<Rightarrow> e = TensorFailure \<and> merged add (map (\<lambda>x. C (snd x)) (picked @ [(p, f)])) = None
      | Inr r \<Rightarrow> sum_inv N C add (later - {u}) allowed (picked @ [(p, f)]) (Some r) (s\<lparr>ps_store := store, ps_files := fs\<rparr>))"
  proof (cases current)
    case None
    with merge inv have "x = Inr f" "fs = ps_files s" "picked = []" by (auto simp: merge_update_def sum_inv_def)
    with d a pk(2,6) f nn show ?thesis by (auto simp: sum_inv_def st)
  next
    case (Some c)
    with inv obtain m where c: "picked \<noteq> []" "\<And>p. c \<notin> set (stored s p)"
      "merged add (map (\<lambda>x. C (snd x)) picked) = Some m" "ps_files s c = Some m" "fst ` set m = N"
      and cu: "c \<noteq> JoinedFile u" and cform: "(\<exists>p u. c = IncomingFile p u) \<or> (\<exists>u. c = JoinedFile u)"
      using u by (auto simp: sum_inv_def)
    have cs: "c \<notin> set (stored ?s q)" for q using c(2) pk(7) by blast
    have msnoc: "merged add (map (\<lambda>x. C (snd x)) (picked @ [(p, f)])) = combine add (C f) m"
      using c(1,3) by (simp add: merged_snoc)
    have fu: "f \<noteq> JoinedFile u" using f by simp
    note mg = merge_update_combine [OF merge [unfolded Some] names pk(2) c(4,5) cu fu]
    have part: "\<not> is_part (IncomingFile p u)" for p u by (simp add: is_part_def)
    show ?thesis
    proof (cases x)
      case (Inl e)
      with mg msnoc part inc show ?thesis by fastforce
    next
      case (Inr r)
      with mg obtain m' where r: "r = JoinedFile u" "combine add (C f) m = Some m'" "fs r = Some m'" "fst ` set m' = N"
        and frame: "\<And>q. q \<noteq> JoinedFile u \<Longrightarrow> \<not> is_part q \<Longrightarrow> q \<noteq> f \<Longrightarrow> q \<noteq> c \<Longrightarrow> fs q = ps_files s q" by auto
      have "q \<in> set (stored ?s r) \<Longrightarrow> fs q = ps_files s q" for q r
        using inc [of q r] frame [of q] part cs [of r] pk(6) [of r] by auto
      moreover have "sum_inv N C add (later - {u}) allowed (picked @ [(p, f)]) (Some r) (s\<lparr>ps_store := store, ps_files := fs\<rparr>)"
        using d a r msnoc inc unfolding sum_inv_def st by fastforce
      moreover have "ps_files s (IncomingFile p u) = None \<Longrightarrow> fs (IncomingFile p u) = None" for p u
        using frame [of "IncomingFile p u"] part pk(2) c(4) by (metis option.distinct(1) ps_path.distinct(1))
      moreover have "fs q = ps_files s q" if "\<And>u. q \<noteq> JoinedFile u" "\<And>p u. q \<noteq> IncomingFile p u" "\<not> is_part q" for q
        using frame [of q] that f cform by auto
      ultimately show ?thesis using Inr by simp
    qed
  qed
  then show "\<And>q. (\<And>u. q \<noteq> JoinedFile u) \<Longrightarrow> (\<And>p u. q \<noteq> IncomingFile p u) \<Longrightarrow> \<not> is_part q \<Longrightarrow> fs q = ps_files s q"
    "\<And>p u. ps_files s (IncomingFile p u) = None \<Longrightarrow> fs (IncomingFile p u) = None"
    "case x of
        Inl e \<Rightarrow> e = TensorFailure \<and> merged add (map (\<lambda>x. C (snd x)) (picked @ [(p, f)])) = None
      | Inr r \<Rightarrow> sum_inv N C add (later - {u}) allowed (picked @ [(p, f)]) (Some r) (s\<lparr>ps_store := store, ps_files := fs\<rparr>)"
    by blast+
  from goal store_sound_files [OF pk(5), of fs] show "store_sound C (s\<lparr>ps_store := store, ps_files := fs\<rparr>)" by auto
qed

lemma finish_sum_sound:
  assumes "finish_sum current (ps_files s) = (x, fs)" and "sum_inv N C add later allowed picked current s" and "store_sound C s"
  shows "store_sound C (s\<lparr>ps_files := fs\<rparr>)" and "fs MomentumFile = ps_files s MomentumFile"
    and "case x of
        Inl e \<Rightarrow> e = InvalidExecutorConfig ''no updates available to aggregate'' \<and> picked = []
      | Inr f \<Rightarrow> f = AvgFinal \<and> (\<exists>m. merged add (map (\<lambda>x. C (snd x)) picked) = Some m \<and> fs AvgFinal = Some m \<and> fst ` set m = N)"
proof -
  have inc: "q \<in> set (stored s r) \<Longrightarrow> \<exists>u. q = IncomingFile r u" for q r using assms(3) by (simp add: store_sound_def)
  have "(\<forall>q r. q \<in> set (stored s r) \<longrightarrow> fs q = ps_files s q) \<and> fs MomentumFile = ps_files s MomentumFile
    \<and> (case x of
        Inl e \<Rightarrow> e = InvalidExecutorConfig ''no updates available to aggregate'' \<and> picked = []
      | Inr f \<Rightarrow> f = AvgFinal \<and> (\<exists>m. merged add (map (\<lambda>x. C (snd x)) picked) = Some m \<and> fs AvgFinal = Some m \<and> fst ` set m = N))"
  proof (cases current)
    case None
    with assms(1,2) show ?thesis by (auto simp: finish_sum_def sum_inv_def)
  next
    case (Some c)
    with assms(2) obtain m where m: "\<And>p. c \<notin> set (stored s p)" "merged add (map (\<lambda>x. C (snd x)) picked) = Some m"
      "ps_files s c = Some m" "fst ` set m = N" "c \<noteq> MomentumFile" by (auto simp: sum_inv_def)
    with Some assms(1) have x: "x = Inr AvgFinal" "fs = (ps_files s)(c := None, AvgFinal \<mapsto> m)" by (auto simp: finish_sum_def)
    have "fs q = ps_files s q" if "q \<in> set (stored s r)" for q r using inc [OF that] m(1) [of r] that x(2) by auto
    with x m show ?thesis by simp
  qed
  then show "fs MomentumFile = ps_files s MomentumFile"
    "case x of
        Inl e \<Rightarrow> e = InvalidExecutorConfig ''no updates available to aggregate'' \<and> picked = []
      | Inr f \<Rightarrow> f = AvgFinal \<and> (\<exists>m. merged add (map (\<lambda>x. C (snd x)) picked) = Some m \<and> fs AvgFinal = Some m \<and> fst ` set m = N)"
    and "store_sound C (s\<lparr>ps_files := fs\<rparr>)"
    using store_sound_files [OF assms(3), of fs] by auto
qed

text \<open>What the loop has done when it ends.\<close>

definition sum_outcome ::
    "string set \<Rightarrow> (ps_path \<Rightarrow> 't tensors) \<Rightarrow> 't tensor_op \<Rightarrow> peer_id set \<Rightarrow> 't ps_state \<Rightarrow> exec_error + ps_path \<Rightarrow> (peer_id \<times> ps_path) list \<Rightarrow> 't ps_state \<Rightarrow> bool" where
  "sum_outcome N C add allowed s x picked s' \<longleftrightarrow>
     store_sound C s' \<and> distinct (map fst picked) \<and> (allowed \<noteq> {} \<longrightarrow> fst ` set picked \<subseteq> allowed)
     \<and> ps_files s' MomentumFile = ps_files s MomentumFile
     \<and> (case x of
          Inl e \<Rightarrow> e = TensorFailure \<and> merged add (map (\<lambda>x. C (snd x)) picked) = None
            \<or> e = InvalidExecutorConfig ''aggregation cancelled''
            \<or> e = InvalidExecutorConfig ''no updates available to aggregate'' \<and> picked = []
        | Inr f \<Rightarrow> f = AvgFinal \<and> (\<exists>m. merged add (map (\<lambda>x. C (snd x)) picked) = Some m \<and> ps_files s' f = Some m \<and> fst ` set m = N))"

lemma finish_sum_outcome:
  assumes "finish_sum current (ps_files s) = (x, fs)" and "sum_inv N C add later allowed picked current s" and "store_sound C s"
    and "ps_files s MomentumFile = ps_files s0 MomentumFile"
  shows "sum_outcome N C add allowed s0 x picked (s\<lparr>ps_files := fs\<rparr>)"
  using finish_sum_sound [OF assms(1-3)] assms(2,4) by (auto simp: sum_outcome_def sum_inv_def split: sum.splits)

lemma aggregate_loop_sum:
  assumes "aggregate_loop digest add allowed turns picked current s = Some (x, picked', s')"
    and "sum_inv N C add (tu_uuid ` set turns) allowed picked current s" and "store_sound C s" and "same_names digest N C"
    and "fresh_arrivals C (concat (map tu_arrivals turns)) (ps_files s)" and "distinct (map tu_uuid turns)"
    and "ps_files s MomentumFile = ps_files s0 MomentumFile"
  shows "sum_outcome N C add allowed s0 x picked' s'"
  using assms
proof (induction turns arbitrary: picked current s)
  case (Cons t ts)
  define s1 where "s1 = fold store_update (tu_arrivals t) s"
  define keys where "keys = (if allowed = {} then tu_keys t else filter (\<lambda>p. p \<in> allowed) (tu_keys t))"
  have arr: "fresh_arrivals C (tu_arrivals t @ concat (map tu_arrivals ts)) (ps_files s)" using Cons.prems(5) by simp
  have sound: "store_sound C s1" and fresh: "fresh_arrivals C (concat (map tu_arrivals ts)) (ps_files s1)"
    and mom: "ps_files s1 MomentumFile = ps_files s0 MomentumFile"
    using store_updates_sound [OF Cons.prems(3) arr] Cons.prems(7) by (auto simp: s1_def)
  have inv: "sum_inv N C add (tu_uuid ` set (t # ts)) allowed picked current s1"
    unfolding s1_def by (rule sum_inv_arrivals [OF Cons.prems(2,3) arr])
  have inv': "sum_inv N C add (tu_uuid ` set ts) allowed picked current s1"
    using inv by (auto simp: sum_inv_def split: option.splits)
  show ?case
  proof (cases "pick_update keys (fst ` set picked) (ps_store s1)")
    case (Pair y store)
    show ?thesis
    proof (cases y)
      case None
      with Pair Cons.prems(1) have "case tu_wake t of
          Cancelled \<Rightarrow> x = Inl (InvalidExecutorConfig ''aggregation cancelled'') \<and> picked' = picked \<and> s' = s1
        | Notified \<Rightarrow> aggregate_loop digest add allowed ts picked current s1 = Some (x, picked', s')
        | _ \<Rightarrow> (\<exists>fs. finish_sum current (ps_files s1) = (x, fs) \<and> picked' = picked \<and> s' = s1\<lparr>ps_files := fs\<rparr>)"
        by (cases "tu_wake t") (auto simp: s1_def [symmetric] keys_def [symmetric] Let_def split: prod.splits)
      with inv' sound mom fresh Cons.prems(4,6) Cons.IH [of picked current s1] finish_sum_outcome [OF _ inv' sound mom]
      show ?thesis by (cases "tu_wake t") (auto simp: sum_outcome_def sum_inv_def)
    next
      case (Some pf)
      obtain p f where pf: "pf = (p, f)" by force
      obtain z fs where merge: "merge_update digest add (tu_uuid t) f current (ps_files s1) = (z, fs)" by force
      have keys: "allowed \<noteq> {} \<Longrightarrow> set keys \<subseteq> allowed" by (auto simp: keys_def)
      note pick = Pair [unfolded Some pf]
      note pm = pick_merge_sum [OF inv sound Cons.prems(4) pick merge keys]
      let ?s = "s1\<lparr>ps_store := store, ps_files := fs\<rparr>" and ?picked = "picked @ [(p, f)]"
      have mom2: "ps_files ?s MomentumFile = ps_files s0 MomentumFile" using pm(4) [of MomentumFile] mom by (simp add: is_part_def)
      have fresh2: "fresh_arrivals C (concat (map tu_arrivals ts)) (ps_files ?s)"
        using fresh_arrivals_files [OF fresh] pm(5) by simp
      have later: "tu_uuid ` set (t # ts) - {tu_uuid t} = tu_uuid ` set ts" using Cons.prems(6) by auto
      show ?thesis
      proof (cases z)
        case (Inl e)
        with Cons.prems(1) pick merge have "x = Inl e" "picked' = ?picked" "s' = ?s"
          by (auto simp: s1_def [symmetric] keys_def [symmetric] Let_def)
        with pm(1,2,3,6) mom2 Inl show ?thesis by (simp add: sum_outcome_def)
      next
        case (Inr r)
        with pm(6) later have inv2: "sum_inv N C add (tu_uuid ` set ts) allowed ?picked (Some r) ?s" by simp
        from Inr Cons.prems(1) pick merge
        consider fs' where "finish_sum (Some r) (ps_files ?s) = (x, fs')" "picked' = ?picked" "s' = ?s\<lparr>ps_files := fs'\<rparr>"
          | "aggregate_loop digest add allowed ts ?picked (Some r) ?s = Some (x, picked', s')"
          by (auto simp: s1_def [symmetric] keys_def [symmetric] Let_def split: if_splits prod.splits)
        then show ?thesis
        proof cases
          case 1
          then show ?thesis using finish_sum_outcome [OF 1(1) inv2 pm(1) mom2] by simp
        next
          case 2
          then show ?thesis using Cons.IH [OF 2 inv2 pm(1) Cons.prems(4) fresh2 _ mom2] Cons.prems(6) by simp
        qed
      qed
    qed
  qed
qed simp

section \<open>Momentum\<close>

lemma combine_nonempty:
  assumes "combine f ta tb = Some r" and "fst ` set ta = N" and "fst ` set tb = N" and "N \<noteq> {}"
  shows "map fst r = map fst ta" and "fst ` set r = N" and "r \<noteq> []"
proof -
  show n: "map fst r = map fst ta" using combine_all [OF assms(1)] assms(2,3) by simp
  then show "fst ` set r = N" using assms(2) by (metis list.set_map)
  with assms(4) show "r \<noteq> []" by auto
qed

text \<open>The reference: the new momentum and the update, from the sum and the old momentum.\<close>

definition next_momentum :: "(float \<Rightarrow> 't \<Rightarrow> 't option) \<Rightarrow> 't tensor_op \<Rightarrow> float \<Rightarrow> 't tensors \<Rightarrow> 't tensors option \<Rightarrow> 't tensors option" where
  "next_momentum scale add mu g mom = (case mom of None \<Rightarrow> Some g | Some m \<Rightarrow> combine (momentum_op scale add mu) g m)"

definition next_update ::
    "(float \<Rightarrow> 't \<Rightarrow> 't option) \<Rightarrow> 't tensor_op \<Rightarrow> float \<Rightarrow> float \<Rightarrow> 't tensors \<Rightarrow> 't tensors option \<Rightarrow> ('t tensors \<times> 't tensors) option" where
  "next_update scale add mu lr g mom =
     (case next_momentum scale add mu g mom of
        None \<Rightarrow> None
      | Some m \<Rightarrow> map_option (Pair m) (combine (nesterov_op scale add mu lr) g m))"

definition named :: "string set \<Rightarrow> 't tensors \<Rightarrow> bool" where
  "named N g \<longleftrightarrow> distinct (map fst g) \<and> fst ` set g = N"

definition momentum_named :: "string set \<Rightarrow> 't files \<Rightarrow> bool" where
  "momentum_named N fs \<longleftrightarrow> (case fs MomentumFile of None \<Rightarrow> True | Some m \<Rightarrow> fst ` set m = N)"

lemma apply_tensor_op_named:
  assumes "apply_tensor_op digest f a b out fs = (x, fs')" and "inj_on digest N" and "N \<noteq> {}"
    and "fs a = Some ta" and "fs b = Some tb" and "named N ta" and "fst ` set tb = N" and "\<not> is_part out"
  shows "(\<forall>p. p \<noteq> out \<longrightarrow> \<not> is_part p \<longrightarrow> fs' p = fs p)
    \<and> (case x of
         Inl e \<Rightarrow> e = TensorFailure \<and> combine f ta tb = None
       | Inr _ \<Rightarrow> (\<exists>r. combine f ta tb = Some r \<and> fs' out = Some r \<and> named N r))"
proof -
  have d: "distinct (map fst ta)" "fst ` set ta = N" using assms(6) by (auto simp: named_def)
  note spec = apply_tensor_op_combine [OF assms(1) _ assms(4,5) d(1) assms(8), unfolded d(2), OF assms(2)]
  moreover have "named N r" "r \<noteq> []" if "combine f ta tb = Some r" for r
    using combine_nonempty [OF that d(2) assms(7,3)] d by (auto simp: named_def)
  ultimately show ?thesis by (auto split: sum.splits)
qed

lemma update_momentum_next:
  assumes "update_momentum digest scale add AvgFinal mu fs = (x, fs')" and "inj_on digest N" and "N \<noteq> {}"
    and "fs AvgFinal = Some g" and "named N g" and "momentum_named N fs"
  shows "(\<forall>p. p \<noteq> MomentumFile \<longrightarrow> p \<noteq> MomentumUpdate \<longrightarrow> \<not> is_part p \<longrightarrow> fs' p = fs p) \<and> momentum_named N fs'
    \<and> (case x of
         Inl e \<Rightarrow> e = TensorFailure \<and> next_momentum scale add mu g (fs MomentumFile) = None
       | Inr p \<Rightarrow> p = MomentumFile
           \<and> (\<exists>m. next_momentum scale add mu g (fs MomentumFile) = Some m \<and> fs' MomentumFile = Some m \<and> named N m))"
proof (cases "fs MomentumFile")
  case None
  with assms(1,4,5) show ?thesis by (auto simp: update_momentum_def next_momentum_def momentum_named_def named_def)
next
  case (Some m0)
  obtain y fs1 where op: "apply_tensor_op digest (momentum_op scale add mu) AvgFinal MomentumFile MomentumUpdate fs = (y, fs1)" by force
  have "fst ` set m0 = N" "\<not> is_part MomentumUpdate" using assms(6) Some by (auto simp: momentum_named_def is_part_def)
  note spec = apply_tensor_op_named [OF op assms(2,3,4) Some assms(5) this]
  with op Some assms(1) show ?thesis
    using assms(6)
    by (cases y) (auto simp: update_momentum_def next_momentum_def momentum_named_def named_def is_part_def)
qed

lemma nesterov_step_next:
  assumes "nesterov_step digest scale add AvgFinal mu lr fs = (x, fs')" and "inj_on digest N" and "N \<noteq> {}"
    and "fs AvgFinal = Some g" and "named N g" and "momentum_named N fs"
  shows "(\<forall>p. p \<notin> {MomentumFile, MomentumUpdate, GradientUpdate} \<longrightarrow> \<not> is_part p \<longrightarrow> fs' p = fs p) \<and> momentum_named N fs'
    \<and> (case x of
         Inl e \<Rightarrow> e = TensorFailure \<and> next_update scale add mu lr g (fs MomentumFile) = None
       | Inr p \<Rightarrow> p = GradientUpdate
           \<and> (\<exists>m u. next_update scale add mu lr g (fs MomentumFile) = Some (m, u)
               \<and> fs' MomentumFile = Some m \<and> named N m \<and> fs' GradientUpdate = Some u \<and> named N u))"
proof -
  obtain y fs1 where mom: "update_momentum digest scale add AvgFinal mu fs = (y, fs1)" by force
  note spec = update_momentum_next [OF mom assms(2-6)]
  show ?thesis
  proof (cases y)
    case (Inl e)
    with mom spec assms(1) show ?thesis by (auto simp: nesterov_step_def next_update_def)
  next
    case (Inr p)
    with spec obtain m where m: "p = MomentumFile" "next_momentum scale add mu g (fs MomentumFile) = Some m"
      "fs1 MomentumFile = Some m" "named N m" "fs1 AvgFinal = Some g"
      and frame: "\<And>p. p \<noteq> MomentumFile \<Longrightarrow> p \<noteq> MomentumUpdate \<Longrightarrow> \<not> is_part p \<Longrightarrow> fs1 p = fs p"
      using assms(4) by (auto simp: is_part_def)
    obtain z fs2 where op: "apply_tensor_op digest (nesterov_op scale add mu lr) AvgFinal MomentumFile GradientUpdate fs1 = (z, fs2)" by force
    have np: "fst ` set m = N" "\<not> is_part GradientUpdate" "\<not> is_part MomentumFile" using m(4) by (auto simp: named_def is_part_def)
    note sp2 = apply_tensor_op_named [OF op assms(2,3) m(5,3) assms(5) np(1,2)]
    have "fs2 MomentumFile = Some m" using sp2 m(3) np(3) by auto
    moreover from this np(1) have "momentum_named N fs2" by (simp add: momentum_named_def)
    ultimately show ?thesis using sp2 op mom Inr m frame assms(1)
      by (cases z) (auto simp: nesterov_step_def next_update_def)
  qed
qed

lemma merged_distinct:
  "merged add cs = Some m \<Longrightarrow> (\<And>c. c \<in> set cs \<Longrightarrow> distinct (map fst c)) \<Longrightarrow> distinct (map fst m)"
proof (induction cs rule: rev_induct)
  case (snoc c cs)
  then show ?case
    by (cases "cs = []") (auto simp: merged_snoc intro: combine_distinct split: option.splits)
qed simp

section \<open>A round\<close>

lemma aggregate_updates_outcome:
  assumes "aggregate_updates digest scale add opt allowed turns s = Some (x, s')"
    and loop: "aggregate_loop digest add (set allowed) turns [] None s = Some (y, picked, s1)"
    and "same_names digest N C" and "store_sound C s" and "momentum_named N (ps_files s)"
    and "fresh_arrivals C (concat (map tu_arrivals turns)) (ps_files s)" and "distinct (map tu_uuid turns)"
  shows "store_sound C s' \<and> momentum_named N (ps_files s') \<and>
    distinct (map fst picked) \<and> (allowed = [] \<or> fst ` set picked \<subseteq> set allowed) \<and>
      (case x of
         Inl e \<Rightarrow> e = InvalidExecutorConfig ''aggregation cancelled'' \<and> y = Inl e
           \<or> e = InvalidExecutorConfig ''no updates available to aggregate'' \<and> picked = []
           \<or> e = TensorFailure \<and> Option.bind (merged add (map (\<lambda>y. C (snd y)) picked))
               (\<lambda>g. next_update scale add (momentum opt) (outer_learning_rate opt) g (ps_files s MomentumFile)) = None
       | Inr p \<Rightarrow> p = GradientUpdate \<and> (\<exists>g m u. merged add (map (\<lambda>y. C (snd y)) picked) = Some g
           \<and> next_update scale add (momentum opt) (outer_learning_rate opt) g (ps_files s MomentumFile) = Some (m, u)
           \<and> ps_files s' MomentumFile = Some m \<and> ps_files s' GradientUpdate = Some u))"
proof -
  have N: "inj_on digest N" "N \<noteq> {}" "\<And>f. distinct (map fst (C f))" using assms(3) by (auto simp: same_names_def)
  have "sum_inv N C add (tu_uuid ` set turns) (set allowed) [] None s" by (simp add: sum_inv_def)
  note out = aggregate_loop_sum [OF loop \<open>sum_inv _ _ _ _ _ _ _ _\<close> assms(4,3,6,7) refl]
  show ?thesis
  proof (cases y)
    case (Inl e)
    with assms(1,5) loop out show ?thesis
      by (auto simp: aggregate_updates_def sum_outcome_def momentum_named_def)
  next
    case (Inr f)
    with out obtain g where g: "f = AvgFinal" "merged add (map (\<lambda>y. C (snd y)) picked) = Some g"
      "ps_files s1 AvgFinal = Some g" "fst ` set g = N" "ps_files s1 MomentumFile = ps_files s MomentumFile" "store_sound C s1"
      by (auto simp: sum_outcome_def)
    have named: "named N g" using merged_distinct [OF g(2)] N(3) g(4) by (auto simp: named_def)
    have mom: "momentum_named N (ps_files s1)" using assms(5) g(5) by (simp add: momentum_named_def)
    obtain z fs where step: "nesterov_step digest scale add AvgFinal (momentum opt) (outer_learning_rate opt) (ps_files s1) = (z, fs)"
      by force
    note spec = nesterov_step_next [OF step N(1,2) g(3) named mom, unfolded g(5)]
    have inc: "fs (IncomingFile p u) = ps_files s1 (IncomingFile p u)" for p u using spec by (auto simp: is_part_def)
    have sound: "store_sound C (s1\<lparr>ps_files := fs\<rparr>)" "store_sound C (s1\<lparr>ps_files := remove_file AvgFinal fs\<rparr>)"
      using g(6) inc by (auto intro!: store_sound_incoming simp: remove_file_def)
    have picked: "distinct (map fst picked) \<and> (allowed = [] \<or> fst ` set picked \<subseteq> set allowed)"
      using out by (auto simp: sum_outcome_def)
    show ?thesis
    proof (cases z)
      case (Inl e)
      with assms(1) loop Inr g(1) step have x: "x = Inl e" "s' = s1\<lparr>ps_files := fs\<rparr>" by (auto simp: aggregate_updates_def)
      with spec sound(1) picked g(2) Inl show ?thesis
        by (auto simp: momentum_named_def)
    next
      case (Inr p)
      with assms(1) loop \<open>y = Inr f\<close> g(1) step have x: "x = Inr p" "s' = s1\<lparr>ps_files := remove_file AvgFinal fs\<rparr>"
        by (auto simp: aggregate_updates_def)
      with spec sound(2) picked g(2) Inr show ?thesis
        by (auto simp: momentum_named_def remove_file_def named_def)
    qed
  qed
qed

text \<open>
  C27. One aggregation computes what it should. Let every update have the same tensor names and be stored under its own path.
  Then the server ends with an update file that is exactly the Nesterov step for the sum of one update of each of the peers it
  picked, who are distinct and among the allowed ones, and the momentum it keeps is that of the step; the store stays
  sound for the next round. It fails only when it was cancelled, when nothing came, or when the tensor library fails on
  these very tensors.
\<close>

theorem aggregate_updates_exact:
  assumes "aggregate_updates digest scale add opt allowed turns s = Some (x, s')"
    and "same_names digest N C" and "store_sound C s" and "momentum_named N (ps_files s)"
    and "fresh_arrivals C (concat (map tu_arrivals turns)) (ps_files s)" and "distinct (map tu_uuid turns)"
  shows "store_sound C s' \<and> momentum_named N (ps_files s') \<and>
    (\<exists>picked. distinct (map fst picked) \<and> (allowed = [] \<or> fst ` set picked \<subseteq> set allowed) \<and>
      (case x of
         Inl e \<Rightarrow> e = InvalidExecutorConfig ''aggregation cancelled''
           \<or> e = InvalidExecutorConfig ''no updates available to aggregate'' \<and> picked = []
           \<or> e = TensorFailure \<and> Option.bind (merged add (map (\<lambda>y. C (snd y)) picked))
               (\<lambda>g. next_update scale add (momentum opt) (outer_learning_rate opt) g (ps_files s MomentumFile)) = None
       | Inr p \<Rightarrow> p = GradientUpdate \<and> (\<exists>g m u. merged add (map (\<lambda>y. C (snd y)) picked) = Some g
           \<and> next_update scale add (momentum opt) (outer_learning_rate opt) g (ps_files s MomentumFile) = Some (m, u)
           \<and> ps_files s' MomentumFile = Some m \<and> ps_files s' GradientUpdate = Some u)))"
proof -
  obtain y picked s1 where "aggregate_loop digest add (set allowed) turns [] None s = Some (y, picked, s1)"
    using assms(1) by (auto simp: aggregate_updates_def split: option.splits)
  from aggregate_updates_outcome [OF assms(1) this assms(2-6)] show ?thesis
    by (intro conjI exI [of _ picked]) (auto split: sum.splits)
qed

text \<open>Two peers with an update of one number each.\<close>

definition example_content :: "ps_path \<Rightarrow> int tensors" where
  "example_content f = [(''w'', case f of IncomingFile p _ \<Rightarrow> int p | _ \<Rightarrow> 0)]"

definition example_store :: "int ps_state" where
  "example_store =
     \<lparr>ps_files = [IncomingFile 1 10 \<mapsto> [(''w'', 1)], IncomingFile 2 20 \<mapsto> [(''w'', 2)]],
      ps_store = [1 \<mapsto> [IncomingFile 1 10], 2 \<mapsto> [IncomingFile 2 20]]\<rparr>"

definition example_turns :: "int turn list" where
  "example_turns =
     [\<lparr>tu_arrivals = [], tu_keys = [1, 2], tu_uuid = 7, tu_wake = GapElapsed\<rparr>,
      \<lparr>tu_arrivals = [(3, 30, [(''w'', 3)])], tu_keys = [1, 2, 3], tu_uuid = 8, tu_wake = GapElapsed\<rparr>]"

lemma example_sound:
  "same_names id {''w''} example_content" "store_sound example_content example_store" "momentum_named {''w''} (ps_files example_store)"
  "fresh_arrivals example_content (concat (map tu_arrivals example_turns)) (ps_files example_store)" "distinct (map tu_uuid example_turns)"
  "stored example_store 1 = [IncomingFile 1 10]" "stored example_store 2 = [IncomingFile 2 20]"
  by (auto simp: same_names_def store_sound_def stored_def momentum_named_def fresh_arrivals_def arriving_paths_def
      example_content_def example_store_def example_turns_def split: if_splits)

theorem aggregate_updates_exact_witness:
  "\<exists>x s'. aggregate_updates id (\<lambda>_ a. Some (2 * a)) (\<lambda>a b. Some (a + b)) \<lparr>outer_learning_rate = NaN, momentum = NaN\<rparr> [1, 2] example_turns example_store
     = Some (x, s') \<and> store_sound example_content s' \<and> momentum_named {''w''} (ps_files s')"
proof -
  have "\<exists>x s'. aggregate_updates id (\<lambda>_ a. Some (2 * a)) (\<lambda>a b. Some (a + b)) \<lparr>outer_learning_rate = NaN, momentum = NaN\<rparr> [1, 2] example_turns example_store
     = Some (x, s')"
    by (simp add: example_turns_def example_store_def aggregate_updates_def merge_update_def apply_tensor_op_def contents_def finish_sum_def
        nesterov_step_def update_momentum_def nesterov_op_def momentum_op_def remove_file_def store_update_def Let_def)
  then show ?thesis using aggregate_updates_exact [OF _ example_sound(1-5)] by blast
qed

end
