(* ===== verification/Parameter_Rounds.thy ===== *)
theory Parameter_Rounds
  imports Parameter_Sums
begin

text \<open>
  The rounds of the parameter server: a round whose updates are all there ends with all of them, the momentum over
  the rounds follows its reference, and what a broadcast reports.
\<close>

section \<open>A round that has all updates\<close>

lemma tensor_loop_error: "tensor_loop digest f ta tb results fs = (Inl e, fs') \<Longrightarrow> e = TensorFailure"
  by (induction digest f ta tb results fs rule: tensor_loop.induct) (auto simp: Let_def split: option.splits)

lemma merge_update_error: "merge_update digest add u f c fs = (Inl e, fs') \<Longrightarrow> e = ExecIo \<or> e = TensorFailure"
  by (auto simp: merge_update_def apply_tensor_op_def split: option.splits sum.splits prod.splits if_splits dest: tensor_loop_error)

lemma store_updates_grow: "stored s p \<noteq> [] \<Longrightarrow> stored (fold store_update as s) p \<noteq> []"
proof (induction as arbitrary: s)
  case (Cons a as)
  have "stored (store_update a s) p \<noteq> []" using Cons.prems by (cases a) (auto simp: stored_def store_update_def)
  with Cons.IH show ?case by simp
qed simp

lemma pick_update_present:
  assumes "p \<in> set keys" and "p \<notin> used" and "stored s p \<noteq> []"
  obtains q f store where "pick_update keys used (ps_store s) = (Some (q, f), store)" and "q \<in> set keys" and "q \<notin> used"
    and "\<And>r. r \<noteq> q \<Longrightarrow> store r = ps_store s r"
proof (cases "pick_update keys used (ps_store s)")
  case (Pair y store)
  show ?thesis
  proof (cases y)
    case None
    with Pair pick_update_None [of keys used "ps_store s" store] assms show ?thesis
      by (auto simp: stored_def split: option.splits)
  next
    case (Some qf)
    then obtain q f where "y = Some (q, f)" by (cases qf) auto
    with Pair pick_update_Some [of keys used "ps_store s" q f store] that [of q f store] show ?thesis
      by (auto simp: stored_def)
  qed
qed

lemma aggregate_loop_complete:
  assumes "finite allowed" and "fst ` set picked \<subset> allowed" and "distinct (map fst picked)"
    and "card allowed \<le> length picked + length turns"
    and "\<forall>t\<in>set turns. allowed \<subseteq> set (tu_keys t)" and "\<forall>p\<in>allowed - fst ` set picked. stored s p \<noteq> []"
  shows "\<exists>x picked' s'. aggregate_loop digest add allowed turns picked current s = Some (x, picked', s') \<and> picked' \<noteq> []
    \<and> (case x of Inl e \<Rightarrow> e = ExecIo \<or> e = TensorFailure | Inr _ \<Rightarrow> fst ` set picked' = allowed)"
  using assms
proof (induction turns arbitrary: picked current s)
  case Nil
  have "card (fst ` set picked) < card allowed" using Nil.prems(1,2) by (rule psubset_card_mono)
  moreover have "card (fst ` set picked) = length picked" using Nil.prems(3) by (metis distinct_card length_map list.set_map)
  ultimately show ?case using Nil.prems(4) by simp
next
  case (Cons t ts)
  define s1 where "s1 = fold store_update (tu_arrivals t) s"
  obtain p where p: "p \<in> allowed" "p \<notin> fst ` set picked" using Cons.prems(2) by blast
  then have ne: "stored s1 p \<noteq> []" using Cons.prems(6) unfolding s1_def by (intro store_updates_grow) blast
  have keys: "p \<in> set (filter (\<lambda>p. p \<in> allowed) (tu_keys t))" using Cons.prems(5) p by auto
  from pick_update_present [OF keys p(2) ne] obtain q f store where
    pick: "pick_update (filter (\<lambda>p. p \<in> allowed) (tu_keys t)) (fst ` set picked) (ps_store s1) = (Some (q, f), store)"
    and q: "q \<in> allowed" "q \<notin> fst ` set picked"
    and "\<And>r. r \<noteq> q \<Longrightarrow> store r = ps_store s1 r"
    by (metis (no_types, lifting) mem_Collect_eq set_filter)
  then have rest: "\<And>r fs. r \<noteq> q \<Longrightarrow> stored (s1\<lparr>ps_store := store, ps_files := fs\<rparr>) r = stored s1 r"
    by (simp add: stored_def)
  obtain z fs where merge: "merge_update digest add (tu_uuid t) f current (ps_files s1) = (z, fs)" by force
  have grown: "\<forall>p\<in>allowed - fst ` set picked. stored s1 p \<noteq> []"
    using Cons.prems(6) store_updates_grow unfolding s1_def by blast
  have ne: "allowed \<noteq> {}" using p by auto
  let ?picked = "picked @ [(q, f)]" and ?s = "s1\<lparr>ps_store := store, ps_files := fs\<rparr>"
  have card: "card (fst ` set ?picked) = Suc (length picked)"
    using Cons.prems(3) q(2) distinct_card [of "map fst ?picked"] by auto
  note step = aggregate_loop.simps(2) [of digest add allowed t ts picked current s, folded s1_def]
  show ?case
  proof (cases z)
    case (Inl e)
    with step ne pick merge merge_update_error [of digest add "tu_uuid t" f current "ps_files s1" e fs] show ?thesis
      by (auto simp: Let_def s1_def [symmetric])
  next
    case (Inr r)
    show ?thesis
    proof (cases "card allowed \<le> card (fst ` set ?picked)")
      case True
      moreover have "fst ` set ?picked \<subseteq> allowed" using Cons.prems(2) q(1) by auto
      ultimately have "fst ` set ?picked = allowed" using Cons.prems(1) by (simp add: card_seteq)
      moreover have "case fst (finish_sum (Some r) fs) of Inl e \<Rightarrow> e = ExecIo | Inr _ \<Rightarrow> True"
        by (auto simp: finish_sum_def split: option.splits)
      ultimately show ?thesis using step ne pick merge Inr True
        by (auto simp: Let_def s1_def [symmetric] split: prod.splits sum.splits)
    next
      case False
      have "fst ` set ?picked \<subset> allowed" using False Cons.prems(2) q(1) by auto
      moreover have "\<forall>p\<in>allowed - fst ` set ?picked. stored ?s p \<noteq> []"
        using grown by (auto simp: rest)
      moreover have "distinct (map fst ?picked)" using Cons.prems(3) q(2) by auto
      moreover have "aggregate_loop digest add allowed (t # ts) picked current s = aggregate_loop digest add allowed ts ?picked (Some r) ?s"
        using step ne pick merge Inr False by (simp add: Let_def s1_def [symmetric])
      ultimately show ?thesis using Cons.IH [of ?picked ?s "Some r"] Cons.prems(1,4,5) by simp
    qed
  qed
qed

lemma combine_total: "(\<And>a b. f a b \<noteq> None) \<Longrightarrow> combine f ta tb \<noteq> None"
  by (induction ta) (auto simp del: not_None_eq split: option.splits)

lemma merged_total:
  assumes "\<And>a b. add a b \<noteq> None" and "cs \<noteq> []"
  shows "merged add cs \<noteq> None"
  using assms(2)
proof (induction cs rule: rev_induct)
  case (snoc c cs)
  then show ?case using combine_total [OF assms(1)] by (cases "cs = []") (auto simp: merged_snoc split: option.splits)
qed simp

lemma next_update_total:
  assumes "\<And>a b. add a b \<noteq> None" and "\<And>k a. scale k a \<noteq> None"
  shows "next_update scale add mu lr g mom \<noteq> None"
proof -
  have "momentum_op scale add mu a b \<noteq> None" "nesterov_op scale add mu lr a b \<noteq> None" for a b
    using assms by (auto simp del: not_None_eq simp: momentum_op_def nesterov_op_def split: option.splits)
  note this [THEN combine_total]
  then show ?thesis by (auto simp: next_update_def next_momentum_def split: option.splits)
qed

text \<open>
  C29. An aggregation whose updates are all there succeeds, without waiting, with every allowed peer exactly once: when each of them has an
  update in store, all with the same tensor names, and the tensor library does not fail, as many turns as there are allowed peers give the Nesterov step for the sum of one
  update from each.
\<close>

theorem aggregate_complete:
  assumes "\<And>a b. add a b \<noteq> None" and "\<And>k a. scale k a \<noteq> None"
    and "same_names digest N C" and "store_sound C s" and "momentum_named N (ps_files s)"
    and "fresh_arrivals C (concat (map tu_arrivals turns)) (ps_files s)" and "distinct (map tu_uuid turns)"
    and "allowed \<noteq> []" and "card (set allowed) \<le> length turns"
    and "\<forall>t\<in>set turns. set allowed \<subseteq> set (tu_keys t)" and "\<forall>p\<in>set allowed. stored s p \<noteq> []"
  shows "\<exists>s' picked g m u. aggregate_updates digest scale add opt allowed turns s = Some (Inr GradientUpdate, s')
    \<and> distinct (map fst picked) \<and> fst ` set picked = set allowed
    \<and> merged add (map (\<lambda>y. C (snd y)) picked) = Some g
    \<and> next_update scale add (momentum opt) (outer_learning_rate opt) g (ps_files s MomentumFile) = Some (m, u)
    \<and> ps_files s' MomentumFile = Some m \<and> ps_files s' GradientUpdate = Some u"
proof -
  have "fst ` set [] \<subset> set allowed" using assms(8) by (cases allowed) auto
  from aggregate_loop_complete [OF finite_set this, of turns s digest add None] assms(9-11)
  obtain y picked s1 where loop: "aggregate_loop digest add (set allowed) turns [] None s = Some (y, picked, s1)"
    and "picked \<noteq> []" and y: "case y of Inl e \<Rightarrow> e = ExecIo \<or> e = TensorFailure | Inr _ \<Rightarrow> fst ` set picked = set allowed" by auto
  have "\<exists>x s'. aggregate_updates digest scale add opt allowed turns s = Some (x, s')"
    using loop by (auto simp: aggregate_updates_def split: sum.splits prod.splits)
  then obtain x s' where agg: "aggregate_updates digest scale add opt allowed turns s = Some (x, s')" by blast
  note out = aggregate_updates_outcome [OF agg loop assms(3-7)]
  obtain g where g: "merged add (map (\<lambda>y. C (snd y)) picked) = Some g"
    using merged_total [of add, OF assms(1)] \<open>picked \<noteq> []\<close> by (metis map_is_Nil_conv not_None_eq)
  have "next_update scale add (momentum opt) (outer_learning_rate opt) g (ps_files s MomentumFile) \<noteq> None"
    by (rule next_update_total [OF assms(1,2)])
  with g out y \<open>picked \<noteq> []\<close> have "\<not> isl x" by (auto simp del: not_None_eq split: sum.splits)
  then obtain p where x: "x = Inr p" by (cases x) auto
  with agg loop y have "fst ` set picked = set allowed" by (auto simp: aggregate_updates_def split: sum.splits)
  with out x agg show ?thesis by auto
qed

theorem aggregate_complete_witness:
  "\<exists>s' u. aggregate_updates id (\<lambda>_ a. Some (2 * a)) (\<lambda>a b. Some (a + b)) \<lparr>outer_learning_rate = NaN, momentum = NaN\<rparr> [1, 2] example_turns example_store
     = Some (Inr GradientUpdate, s') \<and> ps_files s' GradientUpdate = Some u"
  using aggregate_complete [of "\<lambda>a b. Some (a + b)" "\<lambda>_ a. Some (2 * a)", OF _ _ example_sound(1-5), of "[1, 2]" "\<lparr>outer_learning_rate = NaN, momentum = NaN\<rparr>"]
    example_sound(6,7) by (auto simp: example_turns_def)

section \<open>Momentum over the rounds\<close>

lemma combine_lookup:
  "combine f ta tb = Some r \<Longrightarrow> distinct (map fst ta) \<Longrightarrow> map_of ta n = Some a \<Longrightarrow> map_of tb n = Some b \<Longrightarrow> map_of r n = f a b"
proof (induction ta arbitrary: r)
  case (Cons x ta)
  obtain n' a' where x: "x = (n', a')" by force
  from Cons.prems(1) [unfolded x] show ?case
  proof (cases rule: combine_Cons)
    case skipped
    with Cons x show ?thesis by (auto split: if_splits)
  next
    case (combined b' c q)
    with Cons x show ?thesis by (auto split: if_splits)
  qed
qed simp

text \<open>
  The reference, for one tensor: stochastic gradient descent with Nesterov momentum, as the comment on the test of the
  source takes it from \<^verbatim>\<open>torch.optim.SGD\<close>. The buffer starts as the first gradient and is scaled and added to after that; the step looks
  one buffer ahead. The operations are the library's own: they round as it rounds, and where they fail the reference fails. The state
  holds the buffer and the last step.
\<close>

definition sgd_step ::
    "(float \<Rightarrow> 't \<Rightarrow> 't option) \<Rightarrow> 't tensor_op \<Rightarrow> float \<Rightarrow> float \<Rightarrow> ('t option \<times> 't option) option \<Rightarrow> 't \<Rightarrow> ('t option \<times> 't option) option" where
  "sgd_step scale add mu lr st g =
     Option.bind st (\<lambda>(buf, _).
       Option.bind (case buf of None \<Rightarrow> Some g | Some b \<Rightarrow> Option.bind (scale mu b) (\<lambda>t. add t g)) (\<lambda>b.
         Option.bind (scale mu b) (\<lambda>t. Option.bind (add t g) (\<lambda>t. Option.bind (scale lr t) (\<lambda>u. Some (Some b, Some u))))))"

definition sgd ::
    "(float \<Rightarrow> 't \<Rightarrow> 't option) \<Rightarrow> 't tensor_op \<Rightarrow> float \<Rightarrow> float \<Rightarrow> 't list \<Rightarrow> ('t option \<times> 't option) option" where
  "sgd scale add mu lr gs = foldl (sgd_step scale add mu lr) (Some (None, None)) gs"

lemma sgd_snoc: "sgd scale add mu lr (gs @ [g]) = sgd_step scale add mu lr (sgd scale add mu lr gs) g"
  by (simp add: sgd_def)

lemma sgd_step_ops:
  "sgd_step scale add mu lr (Some (buf, x)) g =
     (case (case buf of None \<Rightarrow> Some g | Some b \<Rightarrow> momentum_op scale add mu g b) of
        None \<Rightarrow> None
      | Some b \<Rightarrow> map_option (\<lambda>u. (Some b, Some u)) (nesterov_op scale add mu lr g b))"
  by (auto simp: sgd_step_def momentum_op_def nesterov_op_def split: option.splits Option.bind_splits)

text \<open>A combination fails exactly when the operation fails on two tensors of one name.\<close>

lemma combine_None:
  "combine f ta tb = None \<longleftrightarrow> (\<exists>(n, a)\<in>set ta. \<exists>b. map_of tb n = Some b \<and> f a b = None)"
  by (induction ta) (auto split: option.splits)

text \<open>Rounds, each with the sum it got: the step that \<^verbatim>\<open>aggregate_updates\<close> ends with.\<close>

definition nesterov_round ::
    "(string \<Rightarrow> string) \<Rightarrow> (float \<Rightarrow> 't \<Rightarrow> 't option) \<Rightarrow> 't tensor_op \<Rightarrow> float \<Rightarrow> float \<Rightarrow> 't files option \<Rightarrow> 't tensors \<Rightarrow> 't files option" where
  "nesterov_round digest scale add mu lr state g =
     (case state of
        None \<Rightarrow> None
      | Some fs \<Rightarrow>
          (case nesterov_step digest scale add AvgFinal mu lr (fs(AvgFinal \<mapsto> g)) of
             (Inl e, _) \<Rightarrow> None
           | (Inr _, fs) \<Rightarrow> Some (remove_file AvgFinal fs)))"

definition tensor_value :: "string \<Rightarrow> 't tensors \<Rightarrow> 't" where
  "tensor_value n g = the (map_of g n)"

lemma named_value: "named N g \<Longrightarrow> n \<in> N \<Longrightarrow> map_of g n = Some (tensor_value n g)"
  unfolding named_def tensor_value_def by (metis map_of_eq_None_iff option.exhaust_sel)

lemma named_entry: "named N g \<Longrightarrow> (n, a) \<in> set g \<longleftrightarrow> n \<in> N \<and> a = tensor_value n g"
  using named_value [of N g n] unfolding named_def
  by (metis fst_conv imageI map_of_SomeD map_of_is_SomeI option.inject)

lemma combine_named:
  assumes "named N g" and "named N m"
  shows "combine f g m = None \<longleftrightarrow> (\<exists>n\<in>N. f (tensor_value n g) (tensor_value n m) = None)"
    and "combine f g m = Some r \<Longrightarrow> n \<in> N \<Longrightarrow> map_of r n = f (tensor_value n g) (tensor_value n m)"
proof -
  show "combine f g m = None \<longleftrightarrow> (\<exists>n\<in>N. f (tensor_value n g) (tensor_value n m) = None)"
    unfolding combine_None using named_entry [OF assms(1)] named_value [OF assms(2)] by fastforce
  show "combine f g m = Some r \<Longrightarrow> n \<in> N \<Longrightarrow> map_of r n = f (tensor_value n g) (tensor_value n m)"
    using combine_lookup [of f g m r n] named_value [OF assms(1)] named_value [OF assms(2)] assms(1)
    by (simp add: named_def)
qed

text \<open>One step on files is the step of the reference on each of the tensors.\<close>

definition tracks :: "string set \<Rightarrow> 't tensors option \<Rightarrow> (string \<Rightarrow> ('t option \<times> 't option) option) \<Rightarrow> bool" where
  "tracks N mom ref \<longleftrightarrow>
     (\<forall>m. mom = Some m \<longrightarrow> named N m) \<and> (\<forall>n\<in>N. \<exists>x. ref n = Some (Option.bind mom (\<lambda>m. map_of m n), x))"

lemma next_update_tracks:
  fixes scale :: "float \<Rightarrow> 't \<Rightarrow> 't option" and add :: "'t tensor_op" and mu lr :: float
  assumes "named N g" and "tracks N mom ref" and "N \<noteq> {}"
  defines "ref' \<equiv> \<lambda>n. sgd_step scale add mu lr (ref n) (tensor_value n g)"
  shows "case next_update scale add mu lr g mom of
      None \<Rightarrow> \<exists>n\<in>N. ref' n = None
    | Some (m, u) \<Rightarrow> \<forall>n\<in>N. ref' n = Some (map_of m n, map_of u n)"
proof -
  let ?M = "momentum_op scale add mu" and ?U = "nesterov_op scale add mu lr"
  have ref': "\<exists>x. ref' n = sgd_step scale add mu lr (Some (map_option (tensor_value n) mom, x)) (tensor_value n g)" if "n \<in> N" for n
  proof -
    have "Option.bind mom (\<lambda>m. map_of m n) = map_option (tensor_value n) mom"
      using assms(2) that named_value by (cases mom) (auto simp: tracks_def)
    then show ?thesis using assms(2) that unfolding ref'_def tracks_def by metis
  qed
  have buf: "case next_momentum scale add mu g mom of
      None \<Rightarrow> \<exists>n\<in>N. ref' n = None
    | Some m \<Rightarrow> named N m \<and> (\<forall>n\<in>N. ref' n = map_option (\<lambda>u. (map_of m n, Some u)) (?U (tensor_value n g) (tensor_value n m)))"
  proof (cases mom)
    case None
    then show ?thesis using assms(1) ref' named_value [OF assms(1)] by (fastforce simp: next_momentum_def sgd_step_ops)
  next
    case (Some m0)
    then have m0: "named N m0" using assms(2) by (simp add: tracks_def)
    have nm: "named N m \<and> (\<forall>n\<in>N. ?M (tensor_value n g) (tensor_value n m0) = Some (tensor_value n m))" if "combine ?M g m0 = Some m" for m
    proof -
      have "map fst m = map fst g" using combine_all [OF that] assms(1) m0 by (simp add: named_def)
      then have "named N m" using assms(1) unfolding named_def by (metis list.set_map)
      then show ?thesis using combine_named(2) [OF assms(1) m0 that] named_value by metis
    qed
    have r: "ref' n = (case ?M (tensor_value n g) (tensor_value n m0) of None \<Rightarrow> None
        | Some b \<Rightarrow> map_option (\<lambda>u. (Some b, Some u)) (?U (tensor_value n g) b))" if "n \<in> N" for n
      using ref' [OF that] Some by (auto simp: sgd_step_ops)
    show ?thesis
    proof (cases "combine ?M g m0")
      case None
      then obtain n where "n \<in> N" "?M (tensor_value n g) (tensor_value n m0) = None"
        using combine_named(1) [OF assms(1) m0, of ?M] by blast
      with r None Some show ?thesis by (auto simp: next_momentum_def intro!: bexI [of _ n])
    next
      case (Some m)
      with nm r \<open>mom = Some m0\<close> show ?thesis by (auto simp: next_momentum_def named_value [of N m])
    qed
  qed
  show ?thesis
  proof (cases "next_momentum scale add mu g mom")
    case None
    with buf show ?thesis by (simp add: next_update_def)
  next
    case (Some m)
    with buf have m: "named N m" "\<forall>n\<in>N. ref' n = map_option (\<lambda>u. (map_of m n, Some u)) (?U (tensor_value n g) (tensor_value n m))" by auto
    show ?thesis
    proof (cases "combine ?U g m")
      case None
      with combine_named(1) [OF assms(1) m(1), of ?U] m(2) Some show ?thesis by (auto simp: next_update_def)
    next
      case (Some u)
      have "?U (tensor_value n g) (tensor_value n m) \<noteq> None" if "n \<in> N" for n
        using combine_named(1) [OF assms(1) m(1), of ?U] Some that by auto
      with combine_named(2) [OF assms(1) m(1) Some] m(2) Some \<open>next_momentum scale add mu g mom = Some m\<close> show ?thesis
        by (fastforce simp: next_update_def)
    qed
  qed
qed

lemma nesterov_round_tracks:
  fixes scale :: "float \<Rightarrow> 't \<Rightarrow> 't option" and add :: "'t tensor_op" and mu lr :: float
  assumes "inj_on digest N" and "N \<noteq> {}" and "named N g" and "tracks N (fs MomentumFile) ref"
  defines "ref' \<equiv> \<lambda>n. sgd_step scale add mu lr (ref n) (tensor_value n g)"
  shows "case nesterov_round digest scale add mu lr (Some fs) g of
      None \<Rightarrow> \<exists>n\<in>N. ref' n = None
    | Some fs' \<Rightarrow> (\<exists>m u. fs' MomentumFile = Some m \<and> fs' GradientUpdate = Some u \<and> named N m \<and> named N u
        \<and> (\<forall>n\<in>N. ref' n = Some (map_of m n, map_of u n)))"
proof -
  let ?fs = "fs(AvgFinal \<mapsto> g)"
  obtain x fs1 where step: "nesterov_step digest scale add AvgFinal mu lr ?fs = (x, fs1)" by force
  have "momentum_named N ?fs" using assms(4) by (auto simp: momentum_named_def tracks_def named_def split: option.splits)
  note spec = nesterov_step_next [OF step assms(1,2) _ assms(3) this, simplified]
  note tr = next_update_tracks [OF assms(3,4,2), of scale add mu lr]
  show ?thesis
  proof (cases x)
    case (Inl e)
    with spec tr step show ?thesis by (simp add: nesterov_round_def ref'_def)
  next
    case (Inr p)
    with spec tr step show ?thesis by (auto simp: nesterov_round_def remove_file_def ref'_def)
  qed
qed

text \<open>
  C28. Over the rounds the server computes stochastic gradient descent with Nesterov momentum: started without a momentum file, the files
  after the rounds with the sums \<open>gs\<close> hold, for each tensor, the buffer and the step that the reference gives for the sums of that tensor,
  computed with the library's own operations in the same order. The rounds fail exactly when the reference fails for some tensor,
  that is when the library fails on it; nothing is assumed of the library's arithmetic. Every sum has the same tensor names, as
  the sums of updates with these names have, and the digest tells them apart.
\<close>

theorem nesterov_reference:
  assumes "inj_on digest N" and "N \<noteq> {}" and "fs MomentumFile = None" and "gs \<noteq> []" and "\<And>g. g \<in> set gs \<Longrightarrow> named N g"
  shows "case foldl (nesterov_round digest scale add mu lr) (Some fs) gs of
      None \<Rightarrow> \<exists>n\<in>N. sgd scale add mu lr (map (tensor_value n) gs) = None
    | Some fs' \<Rightarrow> (\<exists>m u. fs' MomentumFile = Some m \<and> fs' GradientUpdate = Some u \<and> named N m \<and> named N u
        \<and> (\<forall>n\<in>N. sgd scale add mu lr (map (tensor_value n) gs) = Some (map_of m n, map_of u n)))"
  using assms(4,5)
proof (induction gs rule: rev_induct)
  case (snoc g gs)
  let ?round = "nesterov_round digest scale add mu lr" and ?ref = "\<lambda>n. sgd scale add mu lr (map (tensor_value n) gs)"
  have g: "named N g" using snoc.prems(2) by simp
  show ?case
  proof (cases "foldl ?round (Some fs) gs")
    case None
    then have "gs \<noteq> []" by auto
    with None snoc obtain n where "n \<in> N" "?ref n = None" by auto
    then have "\<exists>n\<in>N. sgd scale add mu lr (map (tensor_value n) (gs @ [g])) = None"
      by (auto simp: sgd_snoc sgd_step_def intro!: bexI [of _ n])
    moreover have "foldl ?round (Some fs) (gs @ [g]) = None" using None by (simp add: nesterov_round_def)
    ultimately show ?thesis by simp
  next
    case (Some fs0)
    have "tracks N (fs0 MomentumFile) ?ref"
    proof (cases "gs = []")
      case True
      with Some assms(3) show ?thesis by (auto simp: tracks_def sgd_def)
    next
      case False
      with snoc Some show ?thesis by (auto simp: tracks_def)
    qed
    from nesterov_round_tracks [where fs = fs0, OF assms(1,2) g this, of scale add mu lr] Some show ?thesis
      by (simp add: sgd_snoc split: option.splits)
  qed
qed simp

theorem nesterov_reference_witness:
  "\<exists>fs' m u. foldl (nesterov_round id (\<lambda>_ a. Some (2 * a)) (\<lambda>a b. Some (a + b)) NaN NaN) (Some Map.empty)
       [[(''w'', 5)], [(''w'', 1 :: int)]] = Some fs'
     \<and> fs' MomentumFile = Some m \<and> map_of m ''w'' = Some 11 \<and> fs' GradientUpdate = Some u \<and> map_of u ''w'' = Some 46"
proof -
  let ?run = "foldl (nesterov_round id (\<lambda>_ a. Some (2 * a)) (\<lambda>a b. Some (a + b)) NaN NaN) (Some Map.empty)
    [[(''w'', 5)], [(''w'', 1 :: int)]]"
  have n: "g \<in> set [[(''w'', 5)], [(''w'', 1 :: int)]] \<Longrightarrow> named {''w''} g" for g by (auto simp: named_def)
  have v: "sgd (\<lambda>_ a. Some (2 * a)) (\<lambda>a b. Some (a + b)) NaN NaN [5, 1 :: int] = Some (Some 11, Some 46)"
    by (simp add: sgd_def sgd_step_def)
  have "case ?run of
      None \<Rightarrow> \<exists>n\<in>{''w''}. sgd (\<lambda>_ a. Some (2 * a)) (\<lambda>a b. Some (a + b)) NaN NaN (map (tensor_value n) [[(''w'', 5)], [(''w'', 1 :: int)]]) = None
    | Some fs' \<Rightarrow> (\<exists>m u. fs' MomentumFile = Some m \<and> fs' GradientUpdate = Some u \<and> named {''w''} m \<and> named {''w''} u
        \<and> (\<forall>n\<in>{''w''}. sgd (\<lambda>_ a. Some (2 * a)) (\<lambda>a b. Some (a + b)) NaN NaN (map (tensor_value n) [[(''w'', 5)], [(''w'', 1)]])
            = Some (map_of m n, map_of u n)))"
    by (rule nesterov_reference [OF _ _ _ _ n]) auto
  then show ?thesis by (cases ?run) (auto simp: tensor_value_def v)
qed

section \<open>The server\<close>

lemma apply_tensor_op_error: "apply_tensor_op digest f a b out fs = (Inl e, fs') \<Longrightarrow> e = TensorFailure"
  by (auto simp: apply_tensor_op_def split: option.splits sum.splits prod.splits if_splits dest: tensor_loop_error)

lemma finish_sum_result:
  "finish_sum c fs = (x, fs') \<Longrightarrow> (case x of Inl e \<Rightarrow> e \<noteq> CopyPanic | Inr f \<Rightarrow> fs' f \<noteq> None)"
  by (auto simp: finish_sum_def split: option.splits)

lemma aggregate_loop_result:
  "aggregate_loop digest add allowed turns picked current s = Some (x, picked', s')
     \<Longrightarrow> (case x of Inl e \<Rightarrow> e \<noteq> CopyPanic | Inr f \<Rightarrow> ps_files s' f \<noteq> None)"
  by (induction digest add allowed turns picked current s rule: aggregate_loop.induct)
    (fastforce simp: Let_def split: prod.splits option.splits sum.splits if_splits wake.splits
      dest: merge_update_error finish_sum_result)+

lemma nesterov_step_no_panic:
  assumes "nesterov_step digest scale add f mu lr fs = (Inl e, fs')" and "fs f \<noteq> None"
  shows "e \<noteq> CopyPanic"
  using assms
  by (auto simp: nesterov_step_def update_momentum_def split: prod.splits option.splits sum.splits dest: apply_tensor_op_error)

lemma aggregate_updates_no_panic:
  "aggregate_updates digest scale add opt allowed turns s = Some (Inl e, s') \<Longrightarrow> e \<noteq> CopyPanic"
  by (auto simp: aggregate_updates_def split: option.splits prod.splits sum.splits
      dest!: aggregate_loop_result nesterov_step_no_panic)

lemma receive_has_peers: "receive_try_from r = Inr q \<Longrightarrow> get_peers q \<noteq> None"
  by (auto simp: receive_try_from_def split: reference.splits selection_strategy.splits)

text \<open>
  The server never panics: the \<^verbatim>\<open>expect\<close> on the first copy of the momentum and the panic of \<^verbatim>\<open>get_peers\<close> are not
  reached, whatever the scheduler answers, the peers send, and the library does.
\<close>

lemma server_never_panics: "fst (server_turn digest scale add shown opt i sv) \<noteq> Panicked"
proof -
  have "server_aggregate digest scale add shown opt source i sv \<noteq> Panicked" for source
    by (auto simp: server_aggregate_def end_turn_def stop_server_def split: sum.splits option.splits prod.splits
        dest: receive_has_peers aggregate_updates_no_panic)
  then show ?thesis
    by (auto simp: server_turn_def server_broadcast_def end_turn_def stop_server_def
        split: sum.splits option.splits prod.splits executor_action.splits aggregate_action.splits)
qed

text \<open>
  A broadcast is reported as done whoever it reached: with the built-in connector and a target that names all peers, the server
  reports the update as broadcast, drops it and removes its file, although only those peers got it to which a stream could be opened and the copy
  went through, perhaps none.
\<close>

lemma broadcast_always_reported:
  assumes "sv_pending sv = Some g" and "ps_files (sv_state sv) g \<noteq> None"
    and "\<not> si_cancelled i" and "\<not> si_end_cancelled i" and "si_answer i = Inr (AggregateAction (BroadcastUpdate (Peers peers StrategyAll sl)))"
    and "si_writers i = (\<lambda>send. connector_send (connector_new http hub attempt retried ended incoming) send n)"
  shows "\<exists>sv'. server_turn digest scale add shown opt i sv
      = (Running sv', filter (\<lambda>p. \<exists>w. retried p n = Inr w \<and> si_deliver i p w) (ended peers))
    \<and> sv_status sv' = BroadcastedUpdate None \<and> sv_pending sv' = None \<and> ps_files (sv_state sv') g = None"
proof -
  have reach: "reached d (map (\<lambda>p. map_sum OpenStream (Pair p) (retried p n)) ps)
    = filter (\<lambda>p. \<exists>w. retried p n = Inr w \<and> d p w) ps" for d ps
    by (induction ps) (auto split: sum.splits simp: map_sum_def)
  from assms show ?thesis
    by (auto simp: server_turn_def server_broadcast_def send_try_from_def broadcast_update_def connector_send_def
        connector_new_def peer_supports_def peer_send_def reach end_turn_def remove_file_def)
qed

lemma broadcast_always_reported_witness:
  "\<exists>sv'. server_turn id (\<lambda>_ a. Some (2 * a)) (\<lambda>a b. Some (a + b)) (\<lambda>_. ''error'') \<lparr>outer_learning_rate = NaN, momentum = NaN\<rparr>
       \<lparr>si_cancelled = False, si_answer = Inr (AggregateAction (BroadcastUpdate (Peers [1, 2] StrategyAll None))), si_idle_cancelled = False,
        si_turns = [], si_writers = (\<lambda>send. connector_send (connector_new (\<lambda>_. Inl ''offline'') (\<lambda>_. Inl ''offline'') (\<lambda>_ _. Inl ''busy'')
          (\<lambda>_ _. Inl ''busy'') id (None :: (peer_id \<times> unit) list option)) send 8), si_deliver = (\<lambda>_ (_ :: unit). True), si_end_cancelled = False\<rparr>
       \<lparr>sv_status = AggregatedUpdates None, sv_pending = Some GradientUpdate,
        sv_state = \<lparr>ps_files = [GradientUpdate \<mapsto> [(''w'', 1 :: int)]], ps_store = Map.empty\<rparr>\<rparr> = (Running sv', [])
     \<and> sv_status sv' = BroadcastedUpdate None"
  using broadcast_always_reported [where peers = "[1, 2]" and g = GradientUpdate and retried = "\<lambda>_ _. Inl ''busy''" and ended = id
      and attempt = "\<lambda>_ _. Inl ''busy''" and n = 8 and http = "\<lambda>_. Inl ''offline''" and hub = "\<lambda>_. Inl ''offline''"
      and incoming = "None :: (peer_id \<times> unit) list option" and sl = None and digest = id and scale = "\<lambda>_ a. Some (2 * a)"
      and add = "\<lambda>a b. Some (a + b)" and shown = "\<lambda>_. ''error''" and opt = "\<lparr>outer_learning_rate = NaN, momentum = NaN\<rparr>"
      and sv = "\<lparr>sv_status = AggregatedUpdates None, sv_pending = Some GradientUpdate,
        sv_state = \<lparr>ps_files = [GradientUpdate \<mapsto> [(''w'', 1 :: int)]], ps_store = Map.empty\<rparr>\<rparr>"
      and i = "\<lparr>si_cancelled = False, si_answer = Inr (AggregateAction (BroadcastUpdate (Peers [1, 2] StrategyAll None))), si_idle_cancelled = False,
        si_turns = [], si_writers = (\<lambda>send. connector_send (connector_new (\<lambda>_. Inl ''offline'') (\<lambda>_. Inl ''offline'') (\<lambda>_ _. Inl ''busy'')
          (\<lambda>_ _. Inl ''busy'') id (None :: (peer_id \<times> unit) list option)) send 8), si_deliver = (\<lambda>_ (_ :: unit). True), si_end_cancelled = False\<rparr>"]
  by auto

text \<open>
  What a peer pushes twice in one round is not dropped: the newest file is summed and the older one stays in the store, where the next
  round takes it as that peer's update.
\<close>

lemma older_update_stays:
  assumes "stored s p = old @ [new]" and "p \<in> set (tu_keys t)" and "tu_arrivals t = []"
    and "aggregate_loop digest add {p} [t] [] None s = Some (x, picked, s')"
  shows "picked = [(p, new)] \<and> stored s' p = old"
proof -
  have st: "ps_store s p = Some (old @ [new])" using assms(1) by (simp add: stored_def split: option.splits)
  have "pick_update (filter (\<lambda>q. q \<in> {p}) ks) {} (ps_store s) = (Some (p, new), (ps_store s)(p \<mapsto> old))" if "p \<in> set ks" for ks
    using that st by (induction ks) auto
  from this [OF assms(2)] assms(3,4) show ?thesis
    by (auto simp: Let_def merge_update_def stored_def finish_sum_def split: prod.splits option.splits)
qed

end
