(* ===== verification/Texts.thy ===== *)
theory Texts
  imports Prelude
begin

text \<open>
  The operations of Rust's standard library on text that several components use: splitting at a character, splitting once, trimming and
  lower case. Text is the list of the bytes of its UTF-8 form, written as characters; trimming removes the characters with the Unicode property
  \<^verbatim>\<open>White_Space\<close>, as \<^verbatim>\<open>str::trim\<close> does.
\<close>

section \<open>Splitting\<close>

text \<open>\<^verbatim>\<open>str::split\<close> at a character: always at least one piece.\<close>

fun split_on :: "char \<Rightarrow> string \<Rightarrow> string list" where
  "split_on d [] = [[]]"
| "split_on d (c # s) =
     (if c = d then [] # split_on d s
      else case split_on d s of [] \<Rightarrow> [[c]] | w # ws \<Rightarrow> (c # w) # ws)"

text \<open>\<^verbatim>\<open>splitn(2, d)\<close>: what is before the first \<open>d\<close>, and what is after it if there is one.\<close>

definition split_once :: "char \<Rightarrow> string \<Rightarrow> string \<times> string option" where
  "split_once d s =
     (takeWhile (\<lambda>c. c \<noteq> d) s, case dropWhile (\<lambda>c. c \<noteq> d) s of [] \<Rightarrow> None | _ # r \<Rightarrow> Some r)"

lemma split_on_nonempty [simp]: "split_on d s \<noteq> []"
  by (induction s) (auto split: list.splits)

lemma split_on_plain: "d \<notin> set a \<Longrightarrow> split_on d a = [a]"
  by (induction a) auto

lemma split_on_append: "d \<notin> set a \<Longrightarrow> split_on d (a @ d # b) = a # split_on d b"
  by (induction a) auto

lemma split_on_concat: "concat (map (\<lambda>w. w @ [d]) (butlast (split_on d s))) @ last (split_on d s) = s"
proof (induction s)
  case (Cons c s)
  obtain w ws where "split_on d s = w # ws" using split_on_nonempty by (meson neq_Nil_conv)
  with Cons show ?case by (cases ws) auto
qed simp

lemma split_on_pieces: "w \<in> set (split_on d s) \<Longrightarrow> d \<notin> set w \<and> set w \<subseteq> set s"
proof (induction s arbitrary: w)
  case (Cons c s)
  then show ?case
    by (cases "split_on d s") (fastforce split: if_splits)+
qed simp

lemma split_once_plain: "d \<notin> set a \<Longrightarrow> split_once d (a @ d # b) = (a, Some b)"
  by (simp add: split_once_def takeWhile_append dropWhile_append takeWhile_eq_all_conv)

lemma split_once_first: "split_once d s = (a, r) \<Longrightarrow> d \<notin> set a \<and> set a \<subseteq> set s"
  by (auto simp: split_once_def dest: set_takeWhileD)

lemma split_once_rest: "split_once d s = (a, Some r) \<Longrightarrow> set r \<subseteq> set s"
  by (auto simp: split_once_def split: list.splits dest!: arg_cong [of _ _ set] set_dropWhileD
      dest: set_mp [OF equalityD2])

section \<open>Trimming and lower case\<close>

text \<open>
  The white space of Unicode in UTF-8: U+0009 to U+000D, U+0020, U+0085, U+00A0, U+1680, U+2000 to U+200A, U+2028, U+2029, U+202F, U+205F and U+3000.
  No form is a part of the form of another character, so that looking for these bytes at an end of a text is looking for these characters.
\<close>

definition whitespace :: "string list" where
  "whitespace =
     [[CHR 0x09], [CHR 0x0A], [CHR 0x0B], [CHR 0x0C], [CHR 0x0D], [CHR 0x20],
      [CHR 0xC2, CHR 0x85], [CHR 0xC2, CHR 0xA0], [CHR 0xE1, CHR 0x9A, CHR 0x80],
      [CHR 0xE2, CHR 0x80, CHR 0x80], [CHR 0xE2, CHR 0x80, CHR 0x81], [CHR 0xE2, CHR 0x80, CHR 0x82], [CHR 0xE2, CHR 0x80, CHR 0x83],
      [CHR 0xE2, CHR 0x80, CHR 0x84], [CHR 0xE2, CHR 0x80, CHR 0x85], [CHR 0xE2, CHR 0x80, CHR 0x86], [CHR 0xE2, CHR 0x80, CHR 0x87],
      [CHR 0xE2, CHR 0x80, CHR 0x88], [CHR 0xE2, CHR 0x80, CHR 0x89], [CHR 0xE2, CHR 0x80, CHR 0x8A], [CHR 0xE2, CHR 0x80, CHR 0xA8],
      [CHR 0xE2, CHR 0x80, CHR 0xA9], [CHR 0xE2, CHR 0x80, CHR 0xAF], [CHR 0xE2, CHR 0x81, CHR 0x9F], [CHR 0xE3, CHR 0x80, CHR 0x80]]"

definition begins :: "string list \<Rightarrow> string \<Rightarrow> bool" where
  "begins ws s \<longleftrightarrow> list_ex (\<lambda>w. w \<noteq> [] \<and> take (length w) s = w) ws"

lemma found_piece:
  "List.find (\<lambda>w. w \<noteq> [] \<and> take (length w) s = w) ws = Some w \<Longrightarrow> w \<in> set ws \<and> w \<noteq> [] \<and> s = w @ drop (length w) s"
  by (auto simp: find_Some_iff) (metis append_take_drop_id)

text \<open>Leading pieces are removed as long as there are any.\<close>

function strip :: "string list \<Rightarrow> string \<Rightarrow> string" where
  "strip ws s =
     (case List.find (\<lambda>w. w \<noteq> [] \<and> take (length w) s = w) ws of None \<Rightarrow> s | Some w \<Rightarrow> strip ws (drop (length w) s))"
  by pat_completeness auto

termination
  by (relation "measure (\<lambda>(ws, s). length s)")
    (auto dest!: found_piece, metis length_drop length_greater_0_conv append_is_Nil_conv diff_less)

declare strip.simps [simp del]

definition trim :: "string \<Rightarrow> string" where
  "trim s = rev (strip (map rev whitespace) (rev (strip whitespace s)))"

lemma strip_stops: "\<not> begins ws s \<Longrightarrow> strip ws s = s"
proof -
  assume "\<not> begins ws s"
  then have "List.find (\<lambda>w. w \<noteq> [] \<and> take (length w) s = w) ws = None" by (simp add: begins_def list_ex_iff find_None_iff)
  then show ?thesis by (simp add: strip.simps)
qed

lemma strip_parts: "\<exists>p. s = p @ strip ws s \<and> set p \<subseteq> (\<Union>w\<in>set ws. set w)"
proof (induction ws s rule: strip.induct)
  case (1 ws s)
  show ?case
  proof (cases "List.find (\<lambda>w. w \<noteq> [] \<and> take (length w) s = w) ws")
    case None
    then have "strip ws s = s" by (simp add: strip.simps)
    then show ?thesis by simp
  next
    case (Some w)
    from 1 [OF Some] obtain p where "drop (length w) s = p @ strip ws (drop (length w) s)" "set p \<subseteq> (\<Union>w\<in>set ws. set w)" by blast
    moreover have "strip ws s = strip ws (drop (length w) s)" using Some by (subst strip.simps) simp
    moreover note found_piece [OF Some]
    ultimately show ?thesis by (intro exI [of _ "w @ p"]) auto
  qed
qed

lemma strip_clean: "\<not> begins ws (strip ws s)"
proof (induction ws s rule: strip.induct)
  case (1 ws s)
  show ?case
  proof (cases "List.find (\<lambda>w. w \<noteq> [] \<and> take (length w) s = w) ws")
    case None
    then have "strip ws s = s" by (simp add: strip.simps)
    with None show ?thesis by (simp add: begins_def list_ex_iff find_None_iff)
  next
    case (Some w)
    then have "strip ws s = strip ws (drop (length w) s)" by (subst strip.simps) simp
    with 1 [OF Some] show ?thesis by simp
  qed
qed

lemma begins_append: "begins ws s \<Longrightarrow> begins ws (s @ t)"
proof -
  assume "begins ws s"
  then obtain w where "w \<in> set ws" "w \<noteq> []" "take (length w) s = w" by (auto simp: begins_def list_ex_iff)
  moreover from this(3) have "length w \<le> length s" by (metis length_take min.cobounded1)
  ultimately show ?thesis by (auto simp: begins_def list_ex_iff)
qed

text \<open>A trimmed text neither begins nor ends with white space, and a text that does neither is left as it is.\<close>

definition ends_clean :: "string \<Rightarrow> bool" where
  "ends_clean s \<longleftrightarrow> \<not> begins whitespace s \<and> \<not> begins (map rev whitespace) (rev s)"

lemma trim_ends: "ends_clean (trim s)"
proof -
  obtain p where "rev (strip whitespace s) = p @ rev (trim s)"
    using strip_parts [of "rev (strip whitespace s)" "map rev whitespace"] by (auto simp: trim_def)
  then have "strip whitespace s = trim s @ rev p" by (metis rev_append rev_rev_ident)
  then have "\<not> begins whitespace (trim s)" using strip_clean [of whitespace s] begins_append by metis
  then show ?thesis by (simp add: ends_clean_def trim_def strip_clean)
qed

lemma trim_iff: "trim s = s \<longleftrightarrow> ends_clean s"
proof
  assume "ends_clean s"
  then show "trim s = s" by (simp add: ends_clean_def trim_def strip_stops)
next
  assume "trim s = s"
  with trim_ends [of s] show "ends_clean s" by simp
qed

lemma trim_trim [simp]: "trim (trim s) = trim s"
  using trim_ends [of s] by (simp add: trim_iff)

lemma trim_empty [simp]: "trim [] = []"
  by (simp add: trim_iff ends_clean_def begins_def list_ex_iff)

lemma set_trim: "set (trim s) \<subseteq> set s"
  using strip_parts [of "rev (strip whitespace s)" "map rev whitespace"] strip_parts [of s whitespace]
  unfolding trim_def by (metis set_append set_rev Un_upper2 order_trans)

text \<open>What is not white space stays.\<close>

lemma trim_keeps:
  assumes "c \<in> set s" and "c \<notin> (\<Union>w\<in>set whitespace. set w)"
  shows "c \<in> set (trim s)"
proof -
  have "c \<in> set (strip ws t)" if t: "c \<in> set t" and ws: "(\<Union>w\<in>set ws. set w) = (\<Union>w\<in>set whitespace. set w)" for ws t
  proof -
    obtain p where "t = p @ strip ws t" "set p \<subseteq> (\<Union>w\<in>set whitespace. set w)" using strip_parts [of t ws] ws by metis
    with t assms(2) show ?thesis by (metis Un_iff set_append subsetD)
  qed
  note keep = this
  have "c \<in> set (strip (map rev whitespace) (rev (strip whitespace s)))"
    by (rule keep) (use keep [OF assms(1)] in auto)
  then show ?thesis by (simp add: trim_def)
qed

definition ascii_lower :: "char \<Rightarrow> char" where
  "ascii_lower c = (let n = of_char c :: nat in if 65 \<le> n \<and> n \<le> 90 then char_of (n + 32) else c)"

definition to_ascii_lowercase :: "string \<Rightarrow> string" where
  "to_ascii_lowercase = map ascii_lower"

lemma ascii_lower_lower [simp]: "ascii_lower (ascii_lower c) = ascii_lower c"
  by (simp add: ascii_lower_def Let_def)

lemma to_ascii_lowercase_twice [simp]: "to_ascii_lowercase (to_ascii_lowercase s) = to_ascii_lowercase s"
  by (simp add: to_ascii_lowercase_def)

end
