(* ===== verification/Bridge.thy ===== *)
theory Bridge
  imports Connector Net_Streams Texts
begin

text \<open>
  The bridge (\<^verbatim>\<open>crates/worker/src/executor/bridge.rs\<close>): the local service through which a training process fetches, sends and
  receives files and asks the scheduler for its next action. The file system of the handlers is a map from resolved paths to bytes;
  what a symbolic link does to a path is defined apart from it. What the network, the disk and the clock do is an argument of each handler, and so is the
  library that retries.
\<close>

section \<open>Paths\<close>

type_synonym bytes = "byte list"

datatype path_component = RootDir | CurDir | ParentDir | Normal string

definition component_of :: "string \<Rightarrow> path_component" where
  "component_of w = (if w = ''.'' then CurDir else if w = ''..'' then ParentDir else Normal w)"

text \<open>\<^verbatim>\<open>Path::is_absolute\<close> and \<^verbatim>\<open>Path::components\<close>: empty components are skipped, and dots unless they come first.\<close>

definition is_absolute :: "string \<Rightarrow> bool" where
  "is_absolute s \<longleftrightarrow> s \<noteq> [] \<and> hd s = CHR ''/''"

definition components :: "string \<Rightarrow> path_component list" where
  "components s =
     (let cs = map component_of (filter (\<lambda>w. w \<noteq> []) (split_on (CHR ''/'') s))
      in if is_absolute s then RootDir # filter (\<lambda>c. c \<noteq> CurDir) cs
         else takeWhile (\<lambda>c. c = CurDir) (take 1 cs) @ filter (\<lambda>c. c \<noteq> CurDir) cs)"

text \<open>\<^verbatim>\<open>Path::join\<close> of a relative path.\<close>

definition join_path :: "path_component list \<Rightarrow> string \<Rightarrow> path_component list" where
  "join_path dir rel = dir @ filter (\<lambda>c. c \<noteq> CurDir) (components rel)"

text \<open>The file that a path names: a parent component goes up.\<close>

fun resolve_from :: "string list \<Rightarrow> path_component list \<Rightarrow> string list" where
  "resolve_from dir [] = dir"
| "resolve_from dir (RootDir # cs) = resolve_from [] cs"
| "resolve_from dir (CurDir # cs) = resolve_from dir cs"
| "resolve_from dir (ParentDir # cs) = resolve_from (butlast dir) cs"
| "resolve_from dir (Normal w # cs) = resolve_from (dir @ [w]) cs"

definition resolve :: "path_component list \<Rightarrow> string list" where
  "resolve = resolve_from []"

text \<open>
  The file that the operating system reaches from there, when some paths are symbolic links with the given targets: the walk
  starts again at the target, up to a bounded number of times.
\<close>

type_synonym links = "string list \<rightharpoonup> string list"

function real_path :: "links \<Rightarrow> nat \<Rightarrow> string list \<Rightarrow> string list \<Rightarrow> string list option" where
  "real_path links n dir [] = Some dir"
| "real_path links n dir (w # ws) =
     (case links (dir @ [w]) of
        None \<Rightarrow> real_path links n (dir @ [w]) ws
      | Some target \<Rightarrow> (case n of 0 \<Rightarrow> None | Suc m \<Rightarrow> real_path links m [] (target @ ws)))"
  by pat_completeness auto
termination
  by (relation "measures [\<lambda>(links, n, dir, ws). n, \<lambda>(links, n, dir, ws). length ws]") auto

datatype bridge_error =
    BridgeNetwork string
  | BridgeConnector connector_error
  | BridgeIo string
  | HashMismatch u64 u64
  | InvalidStatus string

definition safe_join :: "path_component list \<Rightarrow> string \<Rightarrow> bridge_error + path_component list" where
  "safe_join work_dir rel =
     (if is_absolute rel then Inl (InvalidStatus ''absolute paths are not allowed'')
      else if ParentDir \<in> set (components rel) then Inl (InvalidStatus ''path traversal is not allowed'')
      else Inr (join_path work_dir rel))"

text \<open>The status with which an error is answered.\<close>

fun error_status :: "bridge_error \<Rightarrow> nat \<times> string" where
  "error_status (BridgeNetwork _) = (500, ''network_error'')"
| "error_status (InvalidStatus _) = (400, ''invalid_request'')"
| "error_status (BridgeConnector _) = (500, ''connector_error'')"
| "error_status (BridgeIo _) = (500, ''io_error'')"
| "error_status (HashMismatch _ _) = (400, ''hash_mismatch'')"

section \<open>Retries\<close>

text \<open>
  \<^verbatim>\<open>Retry::spawn\<close> is a parameter of the handlers. Its documentation: the action is run again while it fails and the strategy still has a
  delay, and the last result is returned; with \<open>n\<close> delays there are at most \<open>n + 1\<close> attempts. Attempts are numbered, as each meets its own
  circumstances.
\<close>

type_synonym ('s, 'e, 'a) action = "nat \<Rightarrow> 's \<Rightarrow> ('e + 'a) \<times> 's"
type_synonym ('s, 'e, 'a) retrier = "nat \<Rightarrow> ('s, 'e, 'a) action \<Rightarrow> 's \<Rightarrow> ('e + 'a) \<times> 's"

fun after_attempts :: "('s, 'e, 'a) action \<Rightarrow> nat \<Rightarrow> 's \<Rightarrow> 's" where
  "after_attempts act 0 s = s"
| "after_attempts act (Suc k) s = snd (act k (after_attempts act k s))"

definition retries :: "('s, 'e, 'a) retrier \<Rightarrow> bool" where
  "retries retry \<longleftrightarrow>
     (\<forall>n act s. \<exists>k\<le>n. (\<forall>j<k. isl (fst (act j (after_attempts act j s))))
        \<and> retry n act s = act k (after_attempts act k s) \<and> (k = n \<or> \<not> isl (fst (retry n act s))))"

section \<open>Fetching\<close>

type_synonym disk = "string list \<rightharpoonup> bytes"

text \<open>
  A copy into a file: all of the stream, or what was written before it broke. What follows the copy breaks in the same way, with the whole stream written: a failure of
  \<^verbatim>\<open>sync_all\<close>, of reading the file again for its hash, of removing a file with a wrong hash or of setting the permissions is an error of
  the disk that leaves the file there.
\<close>

datatype copy = CopyDone bytes | CopyBroken string bytes

record file_response =
  fr_path :: string
  fr_size :: nat

definition FETCH_DIR :: string where
  "FETCH_DIR = ''artifacts''"

fun digits :: "nat \<Rightarrow> string" where
  "digits n = (if n < 10 then [char_of (48 + n)] else digits (n div 10) @ [char_of (48 + n mod 10)])"

declare digits.simps [simp del]

definition validate_fetch :: "fetch \<Rightarrow> bridge_error + unit" where
  "validate_fetch f =
     (case fetch_reference f of
        Uri v \<Rightarrow>
          if take 7 v = ''http://'' \<or> take 8 v = ''https://'' then Inr ()
          else Inl (InvalidStatus (''invalid URI: expected http(s)://..., got `'' @ v @ ''`''))
      | HuggingFace repository _ filenames _ \<Rightarrow>
          if trim repository = [] then Inl (InvalidStatus ''repository must not be empty'')
          else if filenames = [] then Inl (InvalidStatus ''filenames must not be empty'')
          else Inr ()
      | SchedulerRef _ _ \<Rightarrow> Inr ()
      | _ \<Rightarrow> Inl (InvalidStatus ''unsupported strategy''))"

definition derive_name :: "item_meta \<Rightarrow> nat \<Rightarrow> string" where
  "derive_name meta idx = (if meta_name meta = [] then ''part-'' @ digits idx @ ''.bin'' else meta_name meta)"

text \<open>
  One attempt to get a slice. It meets: the provider it chooses and what opening a stream there gives; whether the file can be created. An attempt is
  one step: other requests for the same slice between its test, its copy and its check are not interleaved with it.
\<close>

record slice_input =
  sl_choice :: nat
  sl_pull :: "peer_id \<Rightarrow> u64 \<Rightarrow> string + copy"
  sl_creatable :: bool

definition slice_rel :: "u64 \<Rightarrow> string" where
  "slice_rel hash = FETCH_DIR @ ''/'' @ digits (unat hash)"

definition slice_attempt ::
    "(bytes \<Rightarrow> u64) \<Rightarrow> path_component list \<Rightarrow> peer_id list \<Rightarrow> u64 \<Rightarrow> (nat \<Rightarrow> slice_input) \<Rightarrow> (disk, bridge_error, file_response list) action" where
  "slice_attempt file_hash work_dir providers hash inputs k fs =
     (let i = inputs k; rel = slice_rel hash
      in case safe_join work_dir rel of
           Inl e \<Rightarrow> (Inl e, fs)
         | Inr path \<Rightarrow>
             (let abs = resolve path
              in case fs abs of
                   Some bs \<Rightarrow> (Inr [\<lparr>fr_path = rel, fr_size = length bs\<rparr>], fs)
                 | None \<Rightarrow>
                     if providers = [] then (Inl (BridgeIo ''no peers provided''), fs)
                     else (case sl_pull i (providers ! (sl_choice i mod length providers)) hash of
                             Inl e \<Rightarrow> (Inl (BridgeConnector (OpenStream e)), fs)
                           | Inr c \<Rightarrow>
                               if \<not> sl_creatable i then (Inl (BridgeIo ''create''), fs)
                               else (case c of
                                       CopyBroken e bs \<Rightarrow> (Inl (BridgeIo e), fs(abs \<mapsto> bs))
                                     | CopyDone bs \<Rightarrow>
                                         if file_hash bs \<noteq> hash then (Inl (HashMismatch hash (file_hash bs)), fs(abs := None))
                                         else (Inr [\<lparr>fr_path = rel, fr_size = length bs\<rparr>], fs(abs \<mapsto> bs))))))"

text \<open>One attempt to ask the scheduler for a slice; \<open>answers\<close> are its answers.\<close>

definition slice_request ::
    "string \<Rightarrow> (nat \<Rightarrow> string + api_response) \<Rightarrow> (disk, bridge_error, peer_id list \<times> u64) action" where
  "slice_request dataset answers k fs =
     (case answers k of
        Inr (DataResp (DataSuccess providers hash)) \<Rightarrow> (Inr (providers, hash), fs)
      | Inr r \<Rightarrow> (Inl (BridgeIo ''Unexpected response''), fs)
      | Inl e \<Rightarrow> (Inl (BridgeIo (''Failed to request data slice for dataset '' @ dataset @ '': '' @ e)), fs))"

text \<open>One attempt to fetch through the connector: item after item is copied to a file of its name.\<close>

fun copy_items ::
    "path_component list \<Rightarrow> (string list \<Rightarrow> bool) \<Rightarrow> nat \<Rightarrow> (string + item_meta \<times> copy) list \<Rightarrow> file_response list \<Rightarrow> disk
      \<Rightarrow> (bridge_error + file_response list) \<times> disk" where
  "copy_items work_dir creatable idx [] out fs = (Inr out, fs)"
| "copy_items work_dir creatable idx (Inl e # items) out fs = (Inl (BridgeIo e), fs)"
| "copy_items work_dir creatable idx (Inr (meta, c) # items) out fs =
     (let rel = FETCH_DIR @ ''/'' @ derive_name meta idx
      in case safe_join work_dir rel of
           Inl e \<Rightarrow> (Inl e, fs)
         | Inr path \<Rightarrow>
             (let abs = resolve path
              in if \<not> creatable abs then (Inl (BridgeIo ''create''), fs)
                 else case c of
                        CopyBroken e bs \<Rightarrow> (Inl (BridgeIo e), fs(abs \<mapsto> bs))
                      | CopyDone bs \<Rightarrow>
                          copy_items work_dir creatable (Suc idx) items (out @ [\<lparr>fr_path = rel, fr_size = length bs\<rparr>]) (fs(abs \<mapsto> bs))))"

definition connector_attempt ::
    "path_component list \<Rightarrow> (nat \<Rightarrow> string list \<Rightarrow> bool) \<Rightarrow> (nat \<Rightarrow> ((string + item_meta \<times> copy) list, 's, 'r) connector) \<Rightarrow> fetch
      \<Rightarrow> (disk, bridge_error, file_response list) action" where
  "connector_attempt work_dir creatable connectors f k fs =
     (case connector_fetch (connectors k) f of
        Inl e \<Rightarrow> (Inl (BridgeConnector e), fs)
      | Inr items \<Rightarrow> copy_items work_dir (creatable k) 0 items [] fs)"

record ('s, 'r) fetch_input =
  fi_answers :: "nat \<Rightarrow> string + api_response"
  fi_slices :: "nat \<Rightarrow> slice_input"
  fi_creatable :: "nat \<Rightarrow> string list \<Rightarrow> bool"
  fi_connectors :: "nat \<Rightarrow> ((string + item_meta \<times> copy) list, 's, 'r) connector"

definition fetch_resource ::
    "(disk, bridge_error, peer_id list \<times> u64) retrier \<Rightarrow> (disk, bridge_error, file_response list) retrier \<Rightarrow> (bytes \<Rightarrow> u64) \<Rightarrow> path_component list
      \<Rightarrow> ('s, 'r) fetch_input \<Rightarrow> fetch \<Rightarrow> disk \<Rightarrow> (bridge_error + file_response list) \<times> disk" where
  "fetch_resource retry_request retry file_hash work_dir i f fs =
     (case validate_fetch f of
        Inl e \<Rightarrow> (Inl e, fs)
      | Inr _ \<Rightarrow>
          (case fetch_reference f of
             SchedulerRef peer dataset \<Rightarrow>
               (case retry_request 6 (slice_request dataset (fi_answers i)) fs of
                  (Inl e, fs) \<Rightarrow> (Inl e, fs)
                | (Inr (providers, hash), fs) \<Rightarrow> retry 6 (slice_attempt file_hash work_dir providers hash (fi_slices i)) fs)
           | _ \<Rightarrow> retry 6 (connector_attempt work_dir (fi_creatable i) (fi_connectors i) f) fs))"

section \<open>Sending\<close>

record send_request =
  sr_resource :: send
  sr_path :: string
  sr_remove_file :: bool

text \<open>
  The loop over the writers. \<open>cancelled\<close> says before which writer the job is cancelled; \<open>written\<close> whether the copy to a writer and its shutdown succeed. The
  second component are the peers that got the file.
\<close>

fun send_loop ::
    "(nat \<Rightarrow> bool) \<Rightarrow> (peer_id \<Rightarrow> 'w \<Rightarrow> string + unit) \<Rightarrow> nat \<Rightarrow> (connector_error + peer_id \<times> 'w) list \<Rightarrow> (bridge_error + unit) \<times> peer_id list" where
  "send_loop cancelled written k [] = (Inr (), [])"
| "send_loop cancelled written k (x # ws) =
     (if cancelled k then (Inr (), [])
      else case x of
             Inl e \<Rightarrow> (Inl (BridgeConnector e), [])
           | Inr (p, w) \<Rightarrow>
               (case written p w of
                  Inl e \<Rightarrow> (Inl (BridgeIo e), [])
                | Inr _ \<Rightarrow> apsnd ((#) p) (send_loop cancelled written (Suc k) ws)))"

record ('f, 'w, 'r) send_input =
  sd_connector :: "('f, (connector_error + peer_id \<times> 'w) list, 'r) connector"
  sd_cancelled :: "nat \<Rightarrow> bool"
  sd_written :: "peer_id \<Rightarrow> 'w \<Rightarrow> string + unit"

text \<open>An attempt, on the disk and the peers that got the file so far.\<close>

definition send_attempt ::
    "path_component list \<Rightarrow> send_request \<Rightarrow> (nat \<Rightarrow> ('f, 'w, 'r) send_input) \<Rightarrow> (disk \<times> peer_id list, bridge_error, unit) action" where
  "send_attempt work_dir req inputs k = (\<lambda>(fs, got).
     case safe_join work_dir (sr_path req) of
       Inl e \<Rightarrow> (Inl e, fs, got)
     | Inr path \<Rightarrow>
         (case fs (resolve path) of
            None \<Rightarrow> (Inl (BridgeIo ''not found''), fs, got)
          | Some bs \<Rightarrow>
              (case connector_send (sd_connector (inputs k)) (sr_resource req) (of_nat (length bs)) of
                 Inl e \<Rightarrow> (Inl (BridgeConnector e), fs, got)
               | Inr ws \<Rightarrow>
                   (case send_loop (sd_cancelled (inputs k)) (sd_written (inputs k)) 0 ws of
                      (Inl e, ps) \<Rightarrow> (Inl e, fs, got @ ps)
                    | (Inr _, ps) \<Rightarrow> (Inr (), if sr_remove_file req then fs(resolve path := None) else fs, got @ ps)))))"

definition send_resource ::
    "(disk \<times> peer_id list, bridge_error, unit) retrier \<Rightarrow> path_component list \<Rightarrow> (nat \<Rightarrow> ('f, 'w, 'r) send_input) \<Rightarrow> send_request
      \<Rightarrow> disk \<times> peer_id list \<Rightarrow> (bridge_error + unit) \<times> disk \<times> peer_id list" where
  "send_resource retry work_dir inputs req = retry 20 (send_attempt work_dir req inputs)"

section \<open>Receiving\<close>

record receive_request =
  rr_resource :: receive
  rr_path :: "string option"
  rr_timeout :: "system_time option"

record update_pointer =
  up_path :: string
  up_size :: nat
  up_from :: string

text \<open>What the handler meets next; the stream may also end.\<close>

datatype incoming = ReceiveCancelled | IdleElapsed | StreamEnd | StreamError string | Incoming item_meta copy

text \<open>\<^verbatim>\<open>split('.').next()\<close>.\<close>

definition before_dot :: "string \<Rightarrow> string" where
  "before_dot s = takeWhile (\<lambda>c. c \<noteq> CHR ''.'') s"

text \<open>
  The loop: \<open>armed\<close> is whether the idle timer is still set. \<open>None\<close> means that the handler still waits after the given events; otherwise the pointer, or none.
\<close>

fun receive_loop ::
    "path_component list \<Rightarrow> (string list \<Rightarrow> bool) \<Rightarrow> string \<Rightarrow> bool \<Rightarrow> incoming list \<Rightarrow> disk \<Rightarrow> (update_pointer option \<times> disk) option" where
  "receive_loop work_dir creatable dir armed [] fs = None"
| "receive_loop work_dir creatable dir armed (ReceiveCancelled # es) fs = Some (None, fs)"
| "receive_loop work_dir creatable dir armed (StreamEnd # es) fs = Some (None, fs)"
| "receive_loop work_dir creatable dir armed (IdleElapsed # es) fs =
     (if armed then Some (None, fs) else receive_loop work_dir creatable dir armed es fs)"
| "receive_loop work_dir creatable dir armed (StreamError e # es) fs = receive_loop work_dir creatable dir armed es fs"
| "receive_loop work_dir creatable dir armed (Incoming meta c # es) fs =
     (let name = derive_name meta 0; rel = dir @ ''/'' @ name
      in case safe_join work_dir rel of
           Inl e \<Rightarrow> receive_loop work_dir creatable dir False es fs
         | Inr path \<Rightarrow>
             (let abs = resolve path
              in if \<not> creatable abs then receive_loop work_dir creatable dir False es fs
                 else case c of
                        CopyBroken e bs \<Rightarrow> receive_loop work_dir creatable dir False es (fs(abs \<mapsto> bs))
                      | CopyDone bs \<Rightarrow>
                          Some (Some \<lparr>up_path = rel, up_size = length bs, up_from = before_dot name\<rparr>, fs(abs \<mapsto> bs))))"

record ('f, 's, 'r) receive_input =
  ri_now :: system_time
  ri_connector :: "('f, 's, 'r) connector"
  ri_events :: "incoming list"
  ri_creatable :: "string list \<Rightarrow> bool"

text \<open>A timeout that is over, but not to the instant, is no timeout.\<close>

definition receive_subscribe ::
    "path_component list \<Rightarrow> ('f, 's, 'r) receive_input \<Rightarrow> receive_request \<Rightarrow> disk \<Rightarrow> ((bridge_error + update_pointer option) \<times> disk) option" where
  "receive_subscribe work_dir i req fs =
     (let dir = (case rr_path req of None \<Rightarrow> ''incoming'' | Some d \<Rightarrow> d)
      in case safe_join work_dir dir of
           Inl e \<Rightarrow> Some (Inl e, fs)
         | Inr _ \<Rightarrow>
             (let idle = (case rr_timeout req of None \<Rightarrow> None | Some t \<Rightarrow> if ri_now i \<le> t then Some (t - ri_now i) else None)
              in if idle = Some 0 then Some (Inr None, fs)
                 else case connector_receive (ri_connector i) (rr_resource req) of
                        Inl e \<Rightarrow> Some (Inr None, fs)
                      | Inr _ \<Rightarrow>
                          map_option (apfst Inr) (receive_loop work_dir (ri_creatable i) dir (idle \<noteq> None) (ri_events i) fs)))"

section \<open>Actions\<close>

text \<open>One attempt to ask the scheduler; the state lists the requests that it was sent.\<close>

definition action_attempt ::
    "action_request \<Rightarrow> (nat \<Rightarrow> string + action_response) \<Rightarrow> (action_request list, bridge_error, action_response) action" where
  "action_attempt req answers k sent = (map_sum BridgeNetwork id (answers k), sent @ [req])"

definition send_action ::
    "(action_request list, bridge_error, action_response) retrier \<Rightarrow> uuid \<Rightarrow> (nat \<Rightarrow> string + action_response) \<Rightarrow> action_request
      \<Rightarrow> action_request list \<Rightarrow> (bridge_error + action_response) \<times> action_request list" where
  "send_action retry job_id answers req sent =
     (if areq_job_id req \<noteq> job_id then (Inl (InvalidStatus ''job_id mismatch''), sent)
      else retry 6 (action_attempt req answers) sent)"

end
