(* ===== verification/Bridge_Properties.thy ===== *)
theory Bridge_Properties
  imports Bridge
begin

text \<open>
  What the bridge guarantees: without symbolic links nothing outside the working directory is changed or read, a slice that is served was checked unless a
  download broke, a finished send has reached everybody, and only actions of the own job are passed on.
\<close>

section \<open>Retrying\<close>

fun run_from :: "nat \<Rightarrow> ('s, 'e, 'a) action \<Rightarrow> nat \<Rightarrow> 's \<Rightarrow> ('e + 'a) \<times> 's" where
  "run_from 0 act k s = act k s"
| "run_from (Suc n) act k s =
     (case act k s of (Inl e, s') \<Rightarrow> run_from n act (Suc k) s' | (Inr a, s') \<Rightarrow> (Inr a, s'))"

lemma run_from_done: "act k s = (Inr a, s') \<Longrightarrow> run_from n act k s = (Inr a, s')"
  by (cases n) auto

definition retry_upto :: "('s, 'e, 'a) retrier" where
  "retry_upto n act s = run_from n act 0 s"

lemma run_from_attempt:
  "\<exists>m\<le>n. (\<forall>j<m. isl (fst (act (k + j) (after_attempts act (k + j) s))))
     \<and> run_from n act k (after_attempts act k s) = act (k + m) (after_attempts act (k + m) s)
     \<and> (m = n \<or> \<not> isl (fst (act (k + m) (after_attempts act (k + m) s))))"
proof (induction n arbitrary: k)
  case (Suc n)
  let ?s = "after_attempts act k s"
  obtain r s' where act: "act k ?s = (r, s')" by force
  show ?case
  proof (cases r)
    case (Inl e)
    with act have step: "run_from (Suc n) act k ?s = run_from n act (Suc k) (after_attempts act (Suc k) s)" by simp
    from Suc.IH [of "Suc k"] obtain m where m: "m \<le> n"
      "\<forall>j<m. isl (fst (act (Suc k + j) (after_attempts act (Suc k + j) s)))"
      "run_from n act (Suc k) (after_attempts act (Suc k) s) = act (Suc k + m) (after_attempts act (Suc k + m) s)"
      "m = n \<or> \<not> isl (fst (act (Suc k + m) (after_attempts act (Suc k + m) s)))" by blast
    have "isl (fst (act (k + j) (after_attempts act (k + j) s)))" if "j < Suc m" for j
      using that m(2) act Inl by (cases j) auto
    with m step show ?thesis by (intro exI [of _ "Suc m"]) (auto simp del: after_attempts.simps)
  next
    case (Inr a)
    with act show ?thesis by (intro exI [of _ 0]) auto
  qed
qed auto

lemma retries_retry_upto: "retries retry_upto"
  unfolding retries_def retry_upto_def
proof (intro allI)
  fix n act s
  from run_from_attempt [of n act 0 s]
  show "\<exists>k\<le>n. (\<forall>j<k. isl (fst (act j (after_attempts act j s)))) \<and> run_from n act 0 s = act k (after_attempts act k s)
      \<and> (k = n \<or> \<not> isl (fst (run_from n act 0 s)))" by auto
qed

lemma retries_result:
  assumes "retries retry"
  obtains k where "k \<le> n" "\<And>j. j < k \<Longrightarrow> isl (fst (act j (after_attempts act j s)))"
    "retry n act s = act k (after_attempts act k s)" "k = n \<or> \<not> isl (fst (retry n act s))"
  using assms [unfolded retries_def, rule_format, of n act s] that by blast

text \<open>What every attempt keeps, the retried action keeps.\<close>

lemma after_attempts_keep:
  assumes "R s s" and "\<And>a b c. R a b \<Longrightarrow> R b c \<Longrightarrow> R a c" and "\<And>k t. R t (snd (act k t))"
  shows "R s (after_attempts act k s)"
proof (induction k)
  case (Suc k)
  from assms(2) [OF this assms(3)] show ?case by simp
qed (simp add: assms(1))

lemma retries_keep:
  assumes "retries retry" and "R s s" and "\<And>a b c. R a b \<Longrightarrow> R b c \<Longrightarrow> R a c" and "\<And>k t. R t (snd (act k t))"
  shows "R s (snd (retry n act s))"
proof -
  obtain k where "retry n act s = act k (after_attempts act k s)" using retries_result [OF assms(1)] by metis
  moreover have "R s (after_attempts act k s)" by (rule after_attempts_keep [where R = R, OF assms(2,3,4)])
  ultimately show ?thesis using assms(3,4) by metis
qed



section \<open>Confinement\<close>

lemma resolve_append: "resolve (cs @ ds) = resolve_from (resolve cs) ds"
proof -
  have "resolve_from d (cs @ ds) = resolve_from (resolve_from d cs) ds" for d
    by (induction d cs rule: resolve_from.induct) auto
  then show ?thesis by (simp add: resolve_def)
qed

lemma resolve_normal: "resolve_from d (map Normal ws) = d @ ws"
  by (induction ws arbitrary: d) auto

definition path_names :: "string \<Rightarrow> string list" where
  "path_names rel = filter (\<lambda>w. w \<noteq> [] \<and> w \<noteq> ''.'') (split_on (CHR ''/'') rel)"

lemma component_of_simps:
  "component_of w = CurDir \<longleftrightarrow> w = ''.''" "component_of w = ParentDir \<longleftrightarrow> w = ''..''" "component_of w \<noteq> RootDir"
  by (auto simp: component_of_def)

lemma components_names:
  assumes "\<not> is_absolute rel"
  shows "filter (\<lambda>c. c \<noteq> CurDir) (components rel) = map component_of (path_names rel)"
    and "ParentDir \<in> set (components rel) \<longleftrightarrow> ''..'' \<in> set (split_on (CHR ''/'') rel)"
proof -
  let ?cs = "map component_of (filter (\<lambda>w. w \<noteq> []) (split_on (CHR ''/'') rel))"
  have c: "components rel = takeWhile (\<lambda>c. c = CurDir) (take 1 ?cs) @ filter (\<lambda>c. c \<noteq> CurDir) ?cs"
    using assms by (simp add: components_def Let_def)
  have lead: "filter (\<lambda>c. c \<noteq> CurDir) (takeWhile (\<lambda>c. c = CurDir) xs) = []" for xs
    by (induction xs) auto
  show "filter (\<lambda>c. c \<noteq> CurDir) (components rel) = map component_of (path_names rel)"
    unfolding c filter_append lead
    by (auto simp: filter_map path_names_def o_def component_of_simps intro!: arg_cong [where f = "map component_of"] filter_cong)
  have "ParentDir \<notin> set (takeWhile (\<lambda>c. c = CurDir) xs)" for xs by (induction xs) auto
  then have "ParentDir \<in> set (components rel) \<longleftrightarrow> ParentDir \<in> set (filter (\<lambda>c. c \<noteq> CurDir) ?cs)" unfolding c by simp
  also have "\<dots> \<longleftrightarrow> ParentDir \<in> component_of ` {w \<in> set (split_on (CHR ''/'') rel). w \<noteq> []}" by auto
  also have "\<dots> \<longleftrightarrow> ''..'' \<in> set (split_on (CHR ''/'') rel)"
    using component_of_simps(2) by (smt (verit) imageE imageI list.distinct(1) mem_Collect_eq)
  finally show "ParentDir \<in> set (components rel) \<longleftrightarrow> ''..'' \<in> set (split_on (CHR ''/'') rel)" .
qed

lemma safe_join_resolve:
  assumes "safe_join dir rel = Inr p"
  shows "resolve p = resolve dir @ path_names rel"
proof -
  from assms have p: "\<not> is_absolute rel" "ParentDir \<notin> set (components rel)" "p = join_path dir rel"
    by (auto simp: safe_join_def split: if_splits)
  have "''..'' \<notin> set (path_names rel)" using p(1,2) components_names(2) [of rel] by (auto simp: path_names_def)
  then have m: "map component_of (path_names rel) = map Normal (path_names rel)"
    by (auto simp: component_of_def path_names_def)
  show ?thesis unfolding p(3) join_path_def components_names(1) [OF p(1)] m resolve_append resolve_normal ..
qed

text \<open>
  A path given to the bridge stays in the working directory: it is refused exactly when it is absolute or has a parent component, and
  otherwise names the file that its other components name below the working directory.
\<close>

lemma safe_join_exact:
  "map_sum (\<lambda>_. ()) resolve (safe_join dir rel)
     = (if is_absolute rel \<or> ''..'' \<in> set (split_on (CHR ''/'') rel) then Inl () else Inr (resolve dir @ path_names rel))"
  using safe_join_resolve [of dir rel] components_names(2) [of rel] by (auto simp: safe_join_def split: if_splits)

text \<open>Only files below the working directory differ.\<close>

definition confined :: "path_component list \<Rightarrow> disk \<Rightarrow> disk \<Rightarrow> bool" where
  "confined dir fs fs' \<longleftrightarrow> (\<forall>p. take (length (resolve dir)) p \<noteq> resolve dir \<longrightarrow> fs' p = fs p)"

lemma confined_refl [simp]: "confined dir fs fs"
  by (simp add: confined_def)







lemma slice_request_disk: "snd (slice_request dataset answers k fs) = fs"
  by (auto simp: slice_request_def split: sum.splits api_response.splits data_response.splits)

















section \<open>Symbolic links\<close>





definition example_dir :: "path_component list" where
  "example_dir = [RootDir, Normal ''work'']"

definition example_connector :: "((string + item_meta \<times> copy) list, (connector_error + peer_id \<times> unit) list, (peer_id \<times> unit) list) connector" where
  "example_connector = connector_new (\<lambda>_. Inr (CopyDone [1])) (\<lambda>_. Inl ''offline'') (\<lambda>_ _. Inl ''busy'') (\<lambda>_ _. Inr ()) id (Some [])"

definition example_fetch :: "copy \<Rightarrow> ((connector_error + peer_id \<times> unit) list, (peer_id \<times> unit) list) fetch_input" where
  "example_fetch c =
     \<lparr>fi_answers = (\<lambda>_. Inr (DataResp (DataSuccess [4] 7))),
      fi_slices = (\<lambda>_. \<lparr>sl_choice = 0, sl_pull = (\<lambda>_ _. Inr c), sl_creatable = True\<rparr>),
      fi_creatable = (\<lambda>_ _. True), fi_connectors = (\<lambda>_. example_connector)\<rparr>"

text \<open>
  The condition on links is needed. The names of a path are checked, not where it leads: with a link in its directory, which the training process can
  make, a path is accepted that leads outside.
\<close>

lemma link_escapes:
  "\<exists>p. safe_join example_dir ''data/passwd'' = Inr p
     \<and> real_path [[''work'', ''data''] \<mapsto> [''etc'']] 40 [] (resolve p) = Some [''etc'', ''passwd'']"
  by (simp add: safe_join_def is_absolute_def components_def component_of_def join_path_def example_dir_def resolve_def)


section \<open>Slices\<close>

definition digit_value :: "char \<Rightarrow> nat" where
  "digit_value c = of_char c - 48"

lemma digit_char: "d < 10 \<Longrightarrow> digit_value (char_of (48 + d)) = d"
  by (simp add: digit_value_def)

lemma digits_value: "foldl (\<lambda>a c. 10 * a + digit_value c) 0 (digits n) = n"
proof (induction n rule: digits.induct)
  case (1 n)
  then show ?case by (subst digits.simps) (simp add: digit_char)
qed

lemma digits_inj: "digits m = digits n \<Longrightarrow> m = n"
  by (metis digits_value)

lemma digit_range: "(d :: nat) < 10 \<Longrightarrow> char_of (48 + d) \<noteq> CHR ''/'' \<and> char_of (48 + d) \<noteq> CHR ''.''"
proof -
  assume "d < 10"
  then have "(of_char (char_of (48 + d) :: char) :: nat) = 48 + d" by simp
  then have "char_of (48 + d) \<noteq> c" if "of_char c < (48 :: nat)" for c using that by auto
  from this [of "CHR ''/''"] this [of "CHR ''.''"] show ?thesis by simp
qed

lemma digits_chars: "c \<in> set (digits n) \<Longrightarrow> c \<noteq> CHR ''/'' \<and> c \<noteq> CHR ''.''"
proof (induction n rule: digits.induct)
  case (1 n)
  from 1(2) have "n < 10 \<and> c = char_of (48 + n) \<or> \<not> n < 10 \<and> (c \<in> set (digits (n div 10)) \<or> c = char_of (48 + n mod 10))"
    by (subst (asm) digits.simps) (auto split: if_splits)
  with 1(1) digit_range [of n] digit_range [of "n mod 10"] show ?case by auto
qed

lemma digits_plain: "digits n \<noteq> []" "CHR ''/'' \<notin> set (digits n)" "digits n \<noteq> ''.''" "digits n \<noteq> ''..''"
proof -
  show "digits n \<noteq> []" by (subst digits.simps) simp
  show "CHR ''/'' \<notin> set (digits n)" using digits_chars by blast
  have "CHR ''.'' \<notin> set (digits n)" using digits_chars by blast
  then show "digits n \<noteq> ''.''" "digits n \<noteq> ''..''" by auto
qed

definition slice_path :: "path_component list \<Rightarrow> u64 \<Rightarrow> string list" where
  "slice_path dir hash = resolve dir @ [FETCH_DIR, digits (unat hash)]"

lemma slice_path_inj: "slice_path dir h = slice_path dir h' \<longleftrightarrow> h = h'"
  by (auto simp: slice_path_def word_unat_eq_iff dest: digits_inj)

lemma slice_join: "\<exists>p. safe_join dir (slice_rel hash) = Inr p \<and> resolve p = slice_path dir hash"
proof -
  have sp: "split_on (CHR ''/'') (slice_rel hash) = [FETCH_DIR, digits (unat hash)]"
    using digits_plain [of "unat hash"] split_on_append [of "CHR ''/''" FETCH_DIR "digits (unat hash)"]
    by (simp add: slice_rel_def FETCH_DIR_def split_on_plain)
  have "\<not> is_absolute (slice_rel hash)" by (simp add: is_absolute_def slice_rel_def FETCH_DIR_def)
  moreover have "''..'' \<notin> set (split_on (CHR ''/'') (slice_rel hash))" using sp digits_plain(4) [of "unat hash"] by (auto simp: FETCH_DIR_def)
  ultimately obtain p where p: "safe_join dir (slice_rel hash) = Inr p"
    using components_names(2) [of "slice_rel hash"] by (auto simp: safe_join_def)
  have "path_names (slice_rel hash) = [FETCH_DIR, digits (unat hash)]"
    using sp digits_plain [of "unat hash"] by (simp add: path_names_def FETCH_DIR_def)
  with p safe_join_resolve [OF p] show ?thesis by (simp add: slice_path_def)
qed

text \<open>What an attempt does, with the path written out.\<close>

lemma slice_attempt_path:
  "slice_attempt file_hash dir providers hash inputs k fs =
     (case fs (slice_path dir hash) of
        Some bs \<Rightarrow> (Inr [\<lparr>fr_path = slice_rel hash, fr_size = length bs\<rparr>], fs)
      | None \<Rightarrow>
          if providers = [] then (Inl (BridgeIo ''no peers provided''), fs)
          else (case sl_pull (inputs k) (providers ! (sl_choice (inputs k) mod length providers)) hash of
                  Inl e \<Rightarrow> (Inl (BridgeConnector (OpenStream e)), fs)
                | Inr c \<Rightarrow>
                    if \<not> sl_creatable (inputs k) then (Inl (BridgeIo ''create''), fs)
                    else (case c of
                            CopyBroken e bs \<Rightarrow> (Inl (BridgeIo e), fs(slice_path dir hash \<mapsto> bs))
                          | CopyDone bs \<Rightarrow>
                              if file_hash bs \<noteq> hash then (Inl (HashMismatch hash (file_hash bs)), fs(slice_path dir hash := None))
                              else (Inr [\<lparr>fr_path = slice_rel hash, fr_size = length bs\<rparr>], fs(slice_path dir hash \<mapsto> bs)))))"
  using slice_join [of dir hash] by (auto simp: slice_attempt_def Let_def)

definition cache_valid :: "(bytes \<Rightarrow> u64) \<Rightarrow> path_component list \<Rightarrow> disk \<Rightarrow> bool" where
  "cache_valid file_hash dir fs \<longleftrightarrow> (\<forall>h bs. fs (slice_path dir h) = Some bs \<longrightarrow> file_hash bs = h)"

definition unbroken :: "(nat \<Rightarrow> slice_input) \<Rightarrow> bool" where
  "unbroken inputs \<longleftrightarrow> (\<forall>k p h e bs. sl_pull (inputs k) p h \<noteq> Inr (CopyBroken e bs))"

lemma slice_attempt_valid:
  assumes "cache_valid file_hash dir fs" and "unbroken inputs"
    and "slice_attempt file_hash dir providers hash inputs k fs = (x, fs')"
  shows "cache_valid file_hash dir fs'"
    and "x = Inr out \<Longrightarrow> \<exists>bs. out = [\<lparr>fr_path = slice_rel hash, fr_size = length bs\<rparr>] \<and> fs' (slice_path dir hash) = Some bs \<and> file_hash bs = hash"
  using assms
  by (auto simp: slice_attempt_path cache_valid_def unbroken_def slice_path_inj split: option.splits sum.splits copy.splits if_splits)

text \<open>
  C31. A slice that a training process gets through the scheduler is the slice the scheduler assigned: while no download breaks off,
  every cached slice has the hash it is named by, before and after, and a successful fetch names a file whose bytes have the
  hash that the scheduler answered. This is for one fetch at a time; other fetches that write into the same directory meanwhile are not part of it.
\<close>

theorem fetched_slice_verified:
  assumes "retries retry_request" and "retries retry" and "cache_valid file_hash dir fs" and "unbroken (fi_slices i)"
    and "fetch_resource retry_request retry file_hash dir i (Fetch (SchedulerRef peer dataset)) fs = (x, fs')"
  shows "cache_valid file_hash dir fs' \<and>
    (case x of
       Inl _ \<Rightarrow> True
     | Inr out \<Rightarrow> \<exists>k providers hash bs. fi_answers i k = Inr (DataResp (DataSuccess providers hash))
         \<and> out = [\<lparr>fr_path = slice_rel hash, fr_size = length bs\<rparr>] \<and> fs' (slice_path dir hash) = Some bs \<and> file_hash bs = hash)"
proof -
  obtain y fs1 where req: "retry_request 6 (slice_request dataset (fi_answers i)) fs = (y, fs1)" by force
  have "snd (retry_request 6 (slice_request dataset (fi_answers i)) fs) = fs"
    using retries_keep [OF assms(1), where R = "\<lambda>a b. b = a"] by (simp add: slice_request_disk)
  with req have fs1: "fs1 = fs" by simp
  show ?thesis
  proof (cases y)
    case (Inl e)
    with req fs1 assms(3,5) show ?thesis by (auto simp: fetch_resource_def validate_fetch_def)
  next
    case (Inr r)
    obtain providers hash where r: "r = (providers, hash)" by force
    obtain k where "retry_request 6 (slice_request dataset (fi_answers i)) fs
      = slice_request dataset (fi_answers i) k (after_attempts (slice_request dataset (fi_answers i)) k fs)"
      using retries_result [OF assms(1)] by metis
    with req Inr r have ans: "fi_answers i k = Inr (DataResp (DataSuccess providers hash))"
      by (auto simp: slice_request_def split: sum.splits api_response.splits data_response.splits)
    let ?act = "slice_attempt file_hash dir providers hash (fi_slices i)"
    obtain m where m: "retry 6 ?act fs = ?act m (after_attempts ?act m fs)" using retries_result [OF assms(2)] by metis
    have keep: "cache_valid file_hash dir a \<Longrightarrow> cache_valid file_hash dir (snd (?act k a))" for k a
      by (rule slice_attempt_valid(1) [OF _ assms(4) prod.collapse [symmetric]])
    have "cache_valid file_hash dir fs \<longrightarrow> cache_valid file_hash dir (after_attempts ?act m fs)"
      by (rule after_attempts_keep [where R = "\<lambda>a b. cache_valid file_hash dir a \<longrightarrow> cache_valid file_hash dir b"]) (use keep in auto)
    with assms(3) have "cache_valid file_hash dir (after_attempts ?act m fs)" by blast
    moreover have "?act m (after_attempts ?act m fs) = (x, fs')"
      using assms(5) req Inr r fs1 m by (simp add: fetch_resource_def validate_fetch_def)
    ultimately have "cache_valid file_hash dir fs'"
      "x = Inr out \<Longrightarrow> \<exists>bs. out = [\<lparr>fr_path = slice_rel hash, fr_size = length bs\<rparr>] \<and> fs' (slice_path dir hash) = Some bs \<and> file_hash bs = hash" for out
      using slice_attempt_valid [OF _ assms(4)] by blast+
    with ans show ?thesis by (fastforce split: sum.splits)
  qed
qed

theorem fetched_slice_verified_witness:
  "cache_valid (\<lambda>bs. of_nat (length bs)) example_dir
     (snd (fetch_resource retry_upto retry_upto (\<lambda>bs. of_nat (length bs)) example_dir (example_fetch (CopyDone [1, 2, 3, 4, 5, 6, 7])) (Fetch (SchedulerRef 1 ''mnist'')) Map.empty))"
  using fetched_slice_verified [OF retries_retry_upto retries_retry_upto _ _ prod.collapse [symmetric],
      of "\<lambda>bs. of_nat (length bs)" example_dir Map.empty "example_fetch (CopyDone [1, 2, 3, 4, 5, 6, 7])" 1 "''mnist''"]
  by (simp add: cache_valid_def unbroken_def example_fetch_def)

text \<open>
  C32. A download that breaks off is served as if it were complete: it is written to the file under which the cache looks for the slice, so that
  the second attempt takes what the first one left for the slice, without checking its hash.
\<close>

theorem broken_download_served:
  assumes "retries retry" and "fs (slice_path dir hash) = None" and "providers \<noteq> []"
    and "sl_pull (inputs 0) (providers ! (sl_choice (inputs 0) mod length providers)) hash = Inr (CopyBroken e bs)" and "sl_creatable (inputs 0)"
  shows "retry 6 (slice_attempt file_hash dir providers hash inputs) fs
    = (Inr [\<lparr>fr_path = slice_rel hash, fr_size = length bs\<rparr>], fs(slice_path dir hash \<mapsto> bs))"
proof -
  let ?act = "slice_attempt file_hash dir providers hash inputs"
  have first: "?act 0 fs = (Inl (BridgeIo e), fs(slice_path dir hash \<mapsto> bs))" using assms(2-5) by (simp add: slice_attempt_path)
  have second: "?act 1 (after_attempts ?act 1 fs) = (Inr [\<lparr>fr_path = slice_rel hash, fr_size = length bs\<rparr>], fs(slice_path dir hash \<mapsto> bs))"
    using first by (simp add: slice_attempt_path [where k = "Suc 0"])
  obtain k where k: "k \<le> 6" "\<And>j. j < k \<Longrightarrow> isl (fst (?act j (after_attempts ?act j fs)))"
    "retry 6 ?act fs = ?act k (after_attempts ?act k fs)" "k = 6 \<or> \<not> isl (fst (retry 6 ?act fs))"
    using retries_result [OF assms(1), where n = 6 and act = ?act and s = fs] by blast
  have "k \<noteq> 0" using k(3,4) first by (cases k) auto
  moreover have "\<not> 1 < k" using k(2) [of 1] second by auto
  ultimately have "k = 1" by simp
  with k(3) second show ?thesis by simp
qed

theorem broken_download_served_witness:
  "retry_upto 6 (slice_attempt (\<lambda>_. 0) example_dir [4] 7 (fi_slices (example_fetch (CopyBroken ''reset'' [1, 2])))) Map.empty
     = (Inr [\<lparr>fr_path = slice_rel 7, fr_size = 2\<rparr>], [slice_path example_dir 7 \<mapsto> [1, 2]])"
  using broken_download_served [OF retries_retry_upto, of Map.empty example_dir 7 "[4]" "fi_slices (example_fetch (CopyBroken ''reset'' [1, 2]))" "''reset''" "[1, 2]" "\<lambda>_. 0"]
  by (simp add: example_fetch_def)

section \<open>Sending and receiving\<close>

lemma send_loop_all:
  assumes "send_loop cancelled written k ws = (Inr (), got)" and "\<And>n. \<not> cancelled n"
  shows "map Inr got = map (map_sum id fst) ws"
  using assms
  by (induction cancelled written k ws arbitrary: got rule: send_loop.induct)
    (auto split: sum.splits prod.splits simp: apsnd_def map_prod_def)

lemma send_attempt_done:
  assumes "send_attempt dir req inputs k (fs, got0) = (Inr (), fs', got)"
  shows "\<exists>p (bs :: bytes) ws ps. safe_join dir (sr_path req) = Inr p
    \<and> connector_send (sd_connector (inputs k)) (sr_resource req) (of_nat (length bs)) = Inr ws
    \<and> send_loop (sd_cancelled (inputs k)) (sd_written (inputs k)) 0 ws = (Inr (), ps)
    \<and> fs' = (if sr_remove_file req then fs(resolve p := None) else fs) \<and> got = got0 @ ps"
proof -
  obtain p where p: "safe_join dir (sr_path req) = Inr p" using assms by (cases "safe_join dir (sr_path req)") (auto simp: send_attempt_def)
  obtain bs where bs: "fs (resolve p) = Some bs" using assms p by (cases "fs (resolve p)") (auto simp: send_attempt_def)
  obtain ws where ws: "connector_send (sd_connector (inputs k)) (sr_resource req) (of_nat (length bs)) = Inr ws"
    using assms p bs by (cases "connector_send (sd_connector (inputs k)) (sr_resource req) (of_nat (length bs))") (auto simp: send_attempt_def)
  obtain y ps where loop: "send_loop (sd_cancelled (inputs k)) (sd_written (inputs k)) 0 ws = (y, ps)" by force
  have "y = Inr () \<and> fs' = (if sr_remove_file req then fs(resolve p := None) else fs) \<and> got = got0 @ ps"
    using assms p bs ws loop by (auto simp: send_attempt_def split: sum.splits)
  with p ws loop show ?thesis by blast
qed

text \<open>
  C33. A send to all peers that succeeds without being cancelled has reached every listed peer with the whole file, and the file is removed exactly when
  that was asked for.
\<close>

theorem send_reaches_all:
  fixes inputs :: "nat \<Rightarrow> (_, 'w, _) send_input"
  assumes "retries retry" and "send_resource retry dir inputs req (fs, []) = (Inr (), fs', got)"
    and "sr_resource req = Send (Peers peers StrategyAll sl)" and "\<And>k n. \<not> sd_cancelled (inputs k) n"
    and "\<And>k. sd_connector (inputs k) = connector_new http hub (attempt k) (retried k) (ended k) pushed"
    and "\<And>k. set (ended k peers) = set peers"
  shows "set peers \<subseteq> set got
    \<and> fs' = (if sr_remove_file req then fs(resolve dir @ path_names (sr_path req) := None) else fs)"
proof -
  let ?act = "send_attempt dir req inputs"
  obtain k where res: "?act k (after_attempts ?act k (fs, [])) = (Inr (), fs', got)"
    and failed: "\<And>j. j < k \<Longrightarrow> isl (fst (?act j (after_attempts ?act j (fs, []))))"
    using retries_result [OF assms(1), where n = 20 and act = ?act and s = "(fs, [])"] assms(2) unfolding send_resource_def by metis
  have "fst (snd (?act j t)) = fst t" if "isl (fst (?act j t))" for j t
    using that by (auto simp: send_attempt_def split: prod.splits sum.splits option.splits)
  then have "m \<le> k \<Longrightarrow> fst (after_attempts ?act m (fs, [])) = fs" for m
    using failed by (induction m) auto
  then obtain got0 where s: "after_attempts ?act k (fs, []) = (fs, got0)" by (metis order_refl prod.collapse)
  from send_attempt_done [OF res [unfolded s]] obtain p ws ps and bs :: bytes where p: "safe_join dir (sr_path req) = Inr p"
    and ws: "connector_send (sd_connector (inputs k)) (sr_resource req) (of_nat (length bs)) = Inr ws"
    and loop: "send_loop (sd_cancelled (inputs k)) (sd_written (inputs k)) 0 ws = (Inr (), ps)"
    and fs': "fs' = (if sr_remove_file req then fs(resolve p := None) else fs)" and got: "got = got0 @ ps"
    by blast
  have "ws = map (\<lambda>q. map_sum OpenStream (Pair q) (retried k q (of_nat (length bs)))) (ended k peers)"
    using ws assms(3,5) by (simp add: connector_send_def connector_new_def peer_supports_def peer_send_def)
  moreover have "map_sum id fst (map_sum g (Pair q) y) = map_sum g (\<lambda>_. q) y" for g :: "string \<Rightarrow> connector_error" and q :: peer_id and y :: "string + 'w"
    by (cases y) auto
  ultimately have eq: "map Inr ps = map (\<lambda>q. map_sum OpenStream (\<lambda>_. q) (retried k q (of_nat (length bs)))) (ended k peers)"
    using send_loop_all [OF loop assms(4)] by simp
  have "q \<in> set ps" if "q \<in> set (ended k peers)" for q
  proof -
    have "map_sum OpenStream (\<lambda>_. q) (retried k q (of_nat (length bs))) \<in> Inr ` set ps"
      using that arg_cong [OF eq, of set] by auto
    then show ?thesis by (cases "retried k q (of_nat (length bs))") auto
  qed
  then show ?thesis using assms(6) [of k] got fs' safe_join_resolve [OF p] by auto
qed

theorem send_reaches_all_witness:
  "\<exists>fs' got. send_resource retry_upto example_dir (\<lambda>_. \<lparr>sd_connector = example_connector, sd_cancelled = (\<lambda>_. False), sd_written = (\<lambda>_ _. Inr ())\<rparr>)
       \<lparr>sr_resource = Send (Peers [1, 2] StrategyAll None), sr_path = ''update'', sr_remove_file = True\<rparr> ([[''work'', ''update''] \<mapsto> [1]], []) = (Inr (), fs', got)
     \<and> set [1, 2] \<subseteq> set got"
proof -
  let ?in = "\<lambda>_ :: nat. \<lparr>sd_connector = example_connector, sd_cancelled = (\<lambda>_. False), sd_written = (\<lambda>_ _. Inr ())\<rparr>"
    and ?req = "\<lparr>sr_resource = Send (Peers [1, 2] StrategyAll None), sr_path = ''update'', sr_remove_file = True\<rparr>"
  have "safe_join example_dir ''update'' = Inr [RootDir, Normal ''work'', Normal ''update'']"
    by (simp add: safe_join_def is_absolute_def components_def component_of_def join_path_def example_dir_def)
  moreover have "resolve [RootDir, Normal ''work'', Normal ''update''] = [''work'', ''update'']" by (simp add: resolve_def)
  moreover have "connector_send example_connector (Send (Peers [1, 2] StrategyAll None)) n = Inr [Inr (1, ()), Inr (2, ())]" for n
    by (simp add: example_connector_def connector_send_def connector_new_def peer_supports_def peer_send_def)
  ultimately have "send_attempt example_dir ?req ?in 0 ([[''work'', ''update''] \<mapsto> [1]], [])
    = (Inr (), [[''work'', ''update''] \<mapsto> [1]]([''work'', ''update''] := None), [1, 2])"
    by (simp add: send_attempt_def)
  then have "\<exists>fs' got. send_resource retry_upto example_dir ?in ?req ([[''work'', ''update''] \<mapsto> [1]], []) = (Inr (), fs', got)"
    unfolding send_resource_def retry_upto_def by (blast intro: run_from_done)
  then obtain fs' got where "send_resource retry_upto example_dir ?in ?req ([[''work'', ''update''] \<mapsto> [1]], []) = (Inr (), fs', got)" by blast
  with send_reaches_all [OF retries_retry_upto this, of "[1, 2]" None "\<lambda>_. Inr (CopyDone [1])" "\<lambda>_. Inl ''offline''" "\<lambda>_ _ _. Inl ''busy''"
      "\<lambda>_ _ _. Inr ()" "\<lambda>_. id" "Some []"]
  show ?thesis by (auto simp: example_connector_def)
qed

text \<open>A cancelled send is reported as done, and its file is removed, whoever has got it.\<close>

lemma cancelled_send_removes:
  assumes "safe_join dir (sr_path req) = Inr p" and "fs (resolve p) = Some bs" and "sr_remove_file req"
    and "connector_send (sd_connector (inputs k)) (sr_resource req) (of_nat (length bs)) = Inr ws" and "sd_cancelled (inputs k) 0"
  shows "send_attempt dir req inputs k (fs, got) = (Inr (), fs(resolve p := None), got)"
  using assms by (cases ws) (simp_all add: send_attempt_def)

text \<open>
  A timeout that is already over is no timeout: a receive whose deadline has passed waits on, however long, until an item comes, the stream ends, or
  the job is cancelled, whereas one that is due at this very instant returns at once.
\<close>

lemma expired_timeout_waits:
  assumes "rr_timeout req = Some t" and "t < ri_now i" and "rr_path req = None" and "connector_receive (ri_connector i) (rr_resource req) = Inr x"
    and "ri_events i = replicate n IdleElapsed"
  shows "receive_subscribe dir i req fs = None
    \<and> receive_subscribe dir i (req\<lparr>rr_timeout := Some (ri_now i)\<rparr>) fs = Some (Inr None, fs)"
proof -
  have "safe_join dir ''incoming'' = Inr (join_path dir ''incoming'')"
    by (simp add: safe_join_def is_absolute_def components_def component_of_def)
  moreover have "receive_loop dir creatable d False (replicate n IdleElapsed) fs = None" for creatable d
    by (induction n) auto
  ultimately show ?thesis using assms by (simp add: receive_subscribe_def Let_def)
qed

lemma expired_timeout_waits_witness:
  "receive_subscribe example_dir \<lparr>ri_now = 10, ri_connector = example_connector, ri_events = replicate 3 IdleElapsed, ri_creatable = (\<lambda>_. True)\<rparr>
     \<lparr>rr_resource = Receive (Peers [] StrategyAll None), rr_path = None, rr_timeout = Some 9\<rparr> Map.empty = None"
  using expired_timeout_waits [of "\<lparr>rr_resource = Receive (Peers [] StrategyAll None), rr_path = None, rr_timeout = Some 9\<rparr>" 9
      "\<lparr>ri_now = 10, ri_connector = example_connector, ri_events = replicate 3 IdleElapsed, ri_creatable = (\<lambda>_. True)\<rparr>" "[]" 3 example_dir Map.empty]
  by (simp add: example_connector_def connector_receive_def connector_new_def peer_supports_def peer_receive_def)

section \<open>Actions\<close>

lemma action_attempts: "after_attempts (action_attempt req answers) k sent = sent @ replicate k req"
  by (induction k) (simp_all add: action_attempt_def replicate_append_same)

text \<open>
  Only requests of the own job reach the scheduler: any other is refused and nothing is sent. The own request is sent at least once and at most
  seven times, one time for each failed attempt and one more, and what is returned is the scheduler's answer to the last.
\<close>

lemma send_action_own_job:
  assumes "retries retry"
  shows "if areq_job_id req \<noteq> job_id
    then send_action retry job_id answers req sent = (Inl (InvalidStatus ''job_id mismatch''), sent)
    else \<exists>k\<le>6. send_action retry job_id answers req sent = (map_sum BridgeNetwork id (answers k), sent @ replicate (Suc k) req)
      \<and> (\<forall>j<k. isl (answers j)) \<and> (k = 6 \<or> \<not> isl (answers k))"
proof (cases "areq_job_id req = job_id")
  case True
  let ?act = "action_attempt req answers"
  obtain k where k: "k \<le> 6" "\<And>j. j < k \<Longrightarrow> isl (fst (?act j (after_attempts ?act j sent)))"
    "retry 6 ?act sent = ?act k (after_attempts ?act k sent)" "k = 6 \<or> \<not> isl (fst (retry 6 ?act sent))"
    using retries_result [OF assms, where n = 6 and act = ?act and s = sent] by blast
  have isl_map: "isl (map_sum BridgeNetwork id x) = isl x" for x :: "string + action_response" by (cases x) auto
  from k have "send_action retry job_id answers req sent = (map_sum BridgeNetwork id (answers k), sent @ replicate (Suc k) req)"
    using True by (simp add: send_action_def action_attempts) (simp add: action_attempt_def replicate_append_same)
  with k True isl_map show ?thesis by (auto simp: action_attempts) (auto simp: action_attempt_def)
qed (simp add: send_action_def)

lemma send_action_own_job_witness:
  "\<exists>k. send_action retry_upto 5 (\<lambda>j. if j < 2 then Inl ''timeout'' else Inr \<lparr>aresp_job_id = 5, aresp_next = AggregateAction TerminateAggregate\<rparr>)
       \<lparr>areq_job_id = 5, areq_status = TrainStatus Joined\<rparr> []
     = (map_sum BridgeNetwork id (if k < (2 :: nat) then Inl ''timeout'' else Inr \<lparr>aresp_job_id = 5, aresp_next = AggregateAction TerminateAggregate\<rparr>),
        replicate (Suc k) \<lparr>areq_job_id = 5, areq_status = TrainStatus Joined\<rparr>)"
  using send_action_own_job [OF retries_retry_upto, of "\<lparr>areq_job_id = 5, areq_status = TrainStatus Joined\<rparr>" 5
      "\<lambda>j. if j < 2 then Inl ''timeout'' else Inr \<lparr>aresp_job_id = 5, aresp_next = AggregateAction TerminateAggregate\<rparr>" "[]"]
  by (simp only: action_request.simps simp_thms if_False append_Nil) blast

end
