(* ===== verification/Process_Executor.thy ===== *)
theory Process_Executor
  imports Job_Manager Bridge_Properties
begin

text \<open>
  The executor that runs a training process (\<^verbatim>\<open>crates/worker/src/executor/process.rs\<close>): its start, what becomes of the process, the
  tails of its output, and the removal of what it used. What the operating system does is an argument.
\<close>

section \<open>Starting\<close>

record runtime_context =
  socket_path :: string
  work_dir :: string
  job_json :: string

text \<open>\<^verbatim>\<open>str::replace\<close>.\<close>

function str_replace :: "string \<Rightarrow> string \<Rightarrow> string \<Rightarrow> string" where
  "str_replace pat rep s =
     (if s = [] \<or> pat = [] then s
      else if take (length pat) s = pat then rep @ str_replace pat rep (drop (length pat) s)
      else hd s # str_replace pat rep (tl s))"
  by pat_completeness auto
termination by (relation "measure (\<lambda>(_, _, s). length s)") auto

declare str_replace.simps [simp del]

definition replace_placeholders :: "string \<Rightarrow> runtime_context \<Rightarrow> string" where
  "replace_placeholders arg ctx =
     str_replace ''{JOB_JSON}'' (job_json ctx)
       (str_replace ''{WORK_DIR}'' (work_dir ctx) (str_replace ''{SOCKET_PATH}'' (socket_path ctx) arg))"

datatype start_error = StartUnsupportedJobSpec | StartInvalidConfig string | StartIo string

text \<open>
  The telemetry options, as text: the attributes also as pairs; the protocol and the sampler as their JSON text, or none when there is none or it cannot be
  written.
\<close>

record telemetry_options =
  tl_endpoint :: "string option"
  tl_headers :: "string option"
  tl_attributes :: "(string \<times> (string \<times> string) list) option"
  tl_protocol :: "string option"
  tl_sampler :: "string option"
  tl_sample_ratio :: "string option"

text \<open>\<^verbatim>\<open>trim_matches('"')\<close>.\<close>

definition trim_quotes :: "string \<Rightarrow> string" where
  "trim_quotes s = rev (dropWhile (\<lambda>c. c = CHR 0x22) (rev (dropWhile (\<lambda>c. c = CHR 0x22) s)))"

definition process_env :: "runtime_context \<Rightarrow> telemetry_options \<Rightarrow> (string \<times> string) list" where
  "process_env ctx t =
     [(''SOCKET_PATH'', socket_path ctx), (''WORK_DIR'', work_dir ctx), (''JOB_JSON'', job_json ctx)]
     @ (case tl_endpoint t of None \<Rightarrow> [] | Some e \<Rightarrow> [(''OTEL_EXPORTER_OTLP_ENDPOINT'', e)])
     @ (case tl_headers t of None \<Rightarrow> [] | Some h \<Rightarrow> [(''OTEL_EXPORTER_OTLP_HEADERS'', h)])
     @ (case tl_attributes t of
          None \<Rightarrow> []
        | Some (txt, kvs) \<Rightarrow>
            (''OTEL_RESOURCE_ATTRIBUTES'', txt)
            # (case List.find (\<lambda>kv. fst kv = ''service.name'') kvs of None \<Rightarrow> [] | Some kv \<Rightarrow> [(''OTEL_SERVICE_NAME'', snd kv)]))
     @ (case tl_protocol t of None \<Rightarrow> [] | Some s \<Rightarrow> [(''OTEL_EXPORTER_OTLP_PROTOCOL'', trim_quotes s)])
     @ (case tl_sampler t of None \<Rightarrow> [] | Some s \<Rightarrow> [(''OTEL_TRACES_SAMPLER'', trim_quotes s)])
     @ (case tl_sample_ratio t of None \<Rightarrow> [] | Some r \<Rightarrow> [(''OTEL_TRACES_SAMPLER_ARG'', r)])"

text \<open>What exists for the job: its directory, the bridge that serves its socket, the process with its command, arguments and environment.\<close>

record process_world =
  pw_directory :: bool
  pw_bridge :: bool
  pw_process :: "(string \<times> string list \<times> (string \<times> string) list) option"

definition process_world_empty :: process_world where
  "process_world_empty = \<lparr>pw_directory = False, pw_bridge = False, pw_process = None\<rparr>"

fun runtime_cmd :: "executor_runtime \<Rightarrow> string option" where
  "runtime_cmd (ProcessRuntime cmd _) = Some cmd"
| "runtime_cmd ParameterServerRuntime = None"

fun runtime_args :: "executor_runtime \<Rightarrow> string list" where
  "runtime_args (ProcessRuntime _ args) = args"
| "runtime_args ParameterServerRuntime = []"

text \<open>\<open>mkdir\<close>, \<open>serve\<close> and \<open>spawn\<close> are the outcomes of making the directory, of binding the bridge's socket and of starting the process.\<close>

definition process_execute ::
    "string + unit \<Rightarrow> string + unit \<Rightarrow> string + unit \<Rightarrow> runtime_context \<Rightarrow> telemetry_options \<Rightarrow> executor_config \<Rightarrow> job_spec \<Rightarrow> (start_error + unit) \<times> process_world" where
  "process_execute mkdir serve spawn ctx tel cfg job =
     (let w = process_world_empty
      in case spec_executor job of
           TrainExecutor _ _ \<Rightarrow>
             (case config_runtime cfg of
                ProcessRuntime _ _ \<Rightarrow>
                  (case mkdir of
                     Inl e \<Rightarrow> (Inl (StartIo e), w)
                   | Inr _ \<Rightarrow>
                       (let w = w\<lparr>pw_directory := True\<rparr>
                        in case serve of
                             Inl e \<Rightarrow> (Inl (StartIo e), w)
                           | Inr _ \<Rightarrow>
                               (let w = w\<lparr>pw_bridge := True\<rparr>
                                in case runtime_cmd (config_runtime cfg) of
                                     None \<Rightarrow> (Inl (StartInvalidConfig ''missing command for process executor''), w)
                                   | Some cmd \<Rightarrow>
                                       (case spawn of
                                          Inl e \<Rightarrow> (Inl (StartIo e), w)
                                        | Inr _ \<Rightarrow>
                                            (Inr (), w\<lparr>pw_process := Some (cmd,
                                               map (\<lambda>a. replace_placeholders a ctx) (runtime_args (config_runtime cfg)),
                                               process_env ctx tel)\<rparr>)))))
              | _ \<Rightarrow> (Inl (StartInvalidConfig ''executor config must be process type''), w))
         | _ \<Rightarrow> (Inl StartUnsupportedJobSpec, w))"

section \<open>Output\<close>

definition OUT_LIMIT :: nat where
  "OUT_LIMIT = 2 * 1024"

definition ERR_LIMIT :: nat where
  "ERR_LIMIT = 8 * 1024"

text \<open>\<^verbatim>\<open>str::is_char_boundary\<close> on the bytes of a string.\<close>

definition continuation :: "byte \<Rightarrow> bool" where
  "continuation b \<longleftrightarrow> 128 \<le> unat b \<and> unat b < 192"

definition is_char_boundary :: "bytes \<Rightarrow> nat \<Rightarrow> bool" where
  "is_char_boundary s i \<longleftrightarrow> i = 0 \<or> i = length s \<or> (i < length s \<and> \<not> continuation (s ! i))"

text \<open>\<^verbatim>\<open>String::drain(..n)\<close> panics inside a character: \<open>None\<close>.\<close>

definition drain_string :: "nat \<Rightarrow> bytes \<Rightarrow> bytes option" where
  "drain_string n s = (if is_char_boundary s n then Some (drop n s) else None)"

fun stdout_tail :: "bytes \<Rightarrow> bytes list \<Rightarrow> bytes option" where
  "stdout_tail buf [] = Some buf"
| "stdout_tail buf (line # rest) =
     (let buf = buf @ line @ [10]
      in if OUT_LIMIT < length buf
         then (case drain_string (length buf - OUT_LIMIT) buf of None \<Rightarrow> None | Some buf \<Rightarrow> stdout_tail buf rest)
         else stdout_tail buf rest)"

fun stderr_tail :: "bytes \<Rightarrow> bytes list \<Rightarrow> bytes" where
  "stderr_tail buf [] = buf"
| "stderr_tail buf (chunk # rest) =
     (let buf = buf @ chunk
      in if ERR_LIMIT < length buf then stderr_tail (drop (length buf - ERR_LIMIT) buf) rest else stderr_tail buf rest)"

section \<open>The end\<close>

datatype child = ExitSuccess | ExitFailure string | WaitFailed string

text \<open>
  \<open>finished\<close> is how the process ended, or \<open>None\<close> when the job was cancelled first; then \<open>terminated\<close> is how it ended within five seconds of
  the signal, if it did, and \<open>killed\<close> the outcome of killing it.
\<close>

definition exec_status :: "child option \<Rightarrow> child option \<Rightarrow> string + unit \<Rightarrow> status" where
  "exec_status finished terminated killed =
     (case finished of
        Some ExitSuccess \<Rightarrow> status_success None
      | Some (ExitFailure s) \<Rightarrow> status_failed (Some (''Process exited with '' @ s))
      | Some (WaitFailed e) \<Rightarrow> status_failed (Some (''Process wait failed with '' @ e))
      | None \<Rightarrow>
          (case terminated of
             Some ExitSuccess \<Rightarrow> status_cancelled (Some ''Process cancelled and exited with exit status: 0'')
           | Some (ExitFailure s) \<Rightarrow> status_cancelled (Some (''Process cancelled and exited with '' @ s))
           | Some (WaitFailed e) \<Rightarrow> status_failed (Some (''Process exited with error '' @ e))
           | None \<Rightarrow>
               (case killed of
                  Inr _ \<Rightarrow> status_cancelled (Some ''Process force killed'')
                | Inl e \<Rightarrow> status_failed (Some (''Process force kill failed with '' @ e)))))"

definition non_empty :: "string \<Rightarrow> string option" where
  "non_empty s = (if s = [] then None else Some s)"

fun with_output :: "string \<Rightarrow> string \<Rightarrow> status \<Rightarrow> status" where
  "with_output out err (Success d _ _) = Success d (non_empty out) (non_empty err)"
| "with_output out err (status.Failed d _ _) = status.Failed d (non_empty out) (non_empty err)"
| "with_output out err (Cancelled d _ _) = Cancelled d (non_empty out) (non_empty err)"
| "with_output out err Running = Running"

text \<open>The task that watches the process: its status, with a panicked reader's output taken for empty, and then what is left. \<open>text_of\<close> turns bytes into text.\<close>

definition process_run ::
    "(bytes \<Rightarrow> string) \<Rightarrow> child option \<Rightarrow> child option \<Rightarrow> string + unit \<Rightarrow> bytes list \<Rightarrow> bytes list \<Rightarrow> process_world \<Rightarrow> status \<times> process_world" where
  "process_run text_of finished terminated killed lines chunks w =
     (with_output
        (case stdout_tail [] lines of None \<Rightarrow> [] | Some out \<Rightarrow> text_of out)
        (text_of (stderr_tail [] chunks))
        (exec_status finished terminated killed),
      w\<lparr>pw_process := None, pw_bridge := False, pw_directory := False\<rparr>)"

text \<open>\<^verbatim>\<open>ProcessExecution::wait\<close> takes the receiver: a second call finds none. \<open>None\<close> as the status is a task that ended without sending one.\<close>

definition process_wait :: "status option \<Rightarrow> bool \<Rightarrow> (string + status) \<times> bool" where
  "process_wait sent available =
     (if \<not> available then (Inl ''Execution status already consumed'', False)
      else case sent of
             None \<Rightarrow> (Inl ''Execution task ended without status'', False)
           | Some s \<Rightarrow> (Inr s, False))"

section \<open>Properties\<close>

definition last_bytes :: "nat \<Rightarrow> bytes \<Rightarrow> bytes" where
  "last_bytes n xs = drop (length xs - n) xs"

lemma last_bytes_append: "last_bytes n (last_bytes n xs @ ys) = last_bytes n (xs @ ys)"
proof (cases "length xs \<le> n")
  case False
  then have "length xs - n + length ys = length xs + length ys - n" by simp
  with False show ?thesis by (simp add: last_bytes_def add.commute)
qed (simp add: last_bytes_def)

lemma stderr_tail_last: "length buf \<le> ERR_LIMIT \<Longrightarrow> stderr_tail buf chunks = last_bytes ERR_LIMIT (buf @ concat chunks)"
proof (induction chunks arbitrary: buf)
  case (Cons c cs)
  have "stderr_tail buf (c # cs) = stderr_tail (last_bytes ERR_LIMIT (buf @ c)) cs"
    by (simp add: last_bytes_def Let_def)
  also have "\<dots> = last_bytes ERR_LIMIT (last_bytes ERR_LIMIT (buf @ c) @ concat cs)"
    by (rule Cons.IH) (simp add: last_bytes_def)
  finally show ?case by (simp only: last_bytes_append) simp
qed (simp add: last_bytes_def)

definition terminated_lines :: "bytes list \<Rightarrow> bytes" where
  "terminated_lines lines = concat (map (\<lambda>l. l @ [10]) lines)"

lemma stdout_tail_last:
  assumes "length buf \<le> OUT_LIMIT" and "stdout_tail buf lines = Some out"
  shows "out = last_bytes OUT_LIMIT (buf @ terminated_lines lines)"
  using assms
proof (induction lines arbitrary: buf)
  case (Cons l ls)
  have "stdout_tail (last_bytes OUT_LIMIT (buf @ l @ [10])) ls = Some out"
    using Cons.prems(2) by (auto simp: Let_def drain_string_def last_bytes_def split: if_splits)
  then have "out = last_bytes OUT_LIMIT (last_bytes OUT_LIMIT (buf @ l @ [10]) @ terminated_lines ls)"
    by (rule Cons.IH [rotated]) (simp add: last_bytes_def)
  then show ?case by (simp only: last_bytes_append) (simp add: terminated_lines_def)
qed (simp add: last_bytes_def terminated_lines_def)

definition ascii :: "bytes \<Rightarrow> bool" where
  "ascii s \<longleftrightarrow> list_all (\<lambda>b. unat b < 128) s"

lemma stdout_tail_ascii: "ascii buf \<Longrightarrow> list_all ascii lines \<Longrightarrow> stdout_tail buf lines \<noteq> None"
proof (induction lines arbitrary: buf)
  case (Cons l ls)
  define b where "b = buf @ l @ [10]"
  have a: "ascii b" using Cons.prems by (simp add: ascii_def b_def)
  then have bound: "is_char_boundary b n" if "n < length b" for n
    using that by (auto simp: is_char_boundary_def continuation_def ascii_def list_all_length)
  have "ascii (drop n b)" for n using a by (auto simp: ascii_def list_all_iff dest: in_set_dropD)
  then have "stdout_tail b ls \<noteq> None" "stdout_tail (drop n b) ls \<noteq> None" for n using Cons.IH Cons.prems(2) a by auto
  moreover have "drain_string (length b - OUT_LIMIT) b = Some (drop (length b - OUT_LIMIT) b)" if "OUT_LIMIT < length b"
    using that bound by (simp add: drain_string_def OUT_LIMIT_def)
  ultimately show ?case by (simp add: Let_def b_def [symmetric] del: not_None_eq)
qed simp

text \<open>
  The reported output is the end of what the process wrote: of its errors the last 8 KiB, of its output the last 2 KiB unless the reader
  panics, which it never does while the output is plain ASCII. Nothing else is kept in memory, however much is written.
\<close>

lemma process_output_tails:
  "stderr_tail [] chunks = last_bytes ERR_LIMIT (concat chunks)
    \<and> (case stdout_tail [] lines of
         None \<Rightarrow> \<not> list_all ascii lines
       | Some out \<Rightarrow> out = last_bytes OUT_LIMIT (terminated_lines lines))"
  using stderr_tail_last [of "[]" chunks] stdout_tail_last [of "[]" lines] stdout_tail_ascii [of "[]" lines]
  by (auto simp: ascii_def split: option.splits)

text \<open>
  Output that is not ASCII may be lost: the reader cuts its buffer at a byte, and panics when that is inside a character. A line of 1024 or more
  letters of two bytes does it; the process is then reported without any output, whatever else it wrote.
\<close>

lemma multibyte_output_lost:
  assumes "1024 \<le> n"
  shows "stdout_tail [] (concat (replicate n [195, 169]) # lines) = None
    \<and> fst (process_run text_of (Some ExitSuccess) terminated killed (concat (replicate n [195, 169]) # lines) chunks w)
      = Success None None (non_empty (text_of (stderr_tail [] chunks)))"
proof -
  let ?line = "concat (replicate n [195 :: byte, 169])"
  have len: "length ?line = 2 * n" by (induction n) auto
  have nth: "m < n \<Longrightarrow> ?line ! Suc (2 * m) = 169" for m
  proof (induction n arbitrary: m)
    case (Suc n)
    then show ?case by (cases m) auto
  qed simp
  define m where "m = n - 1024"
  have ex: "length (?line @ [10]) - OUT_LIMIT = Suc (2 * m)" and m: "m < n" using assms len by (auto simp: OUT_LIMIT_def m_def)
  have "(?line @ [10]) ! Suc (2 * m) = 169" using nth [OF m] m len by (simp add: nth_append)
  then have "\<not> is_char_boundary (?line @ [10]) (Suc (2 * m))"
    using m len by (simp add: is_char_boundary_def continuation_def)
  then have none: "stdout_tail [] (?line # lines) = None"
    using assms len ex by (simp add: Let_def drain_string_def OUT_LIMIT_def)
  then show ?thesis by (simp add: process_run_def exec_status_def status_success_def non_empty_def)
qed

lemma multibyte_output_lost_witness:
  "stdout_tail [] (concat (replicate 1024 [195, 169]) # [[111, 107]]) = None"
  using multibyte_output_lost [of 1024 "[[111, 107]]"] by blast

text \<open>A process that cannot be started leaves its directory and its bridge behind: only the task that watches a process removes them.\<close>

lemma failed_spawn_leaves_bridge:
  "spec_executor job = TrainExecutor name c \<Longrightarrow> config_runtime cfg = ProcessRuntime cmd args \<Longrightarrow>
     process_execute (Inr ()) (Inr ()) (Inl e) ctx tel cfg job = (Inl (StartIo e), \<lparr>pw_directory = True, pw_bridge = True, pw_process = None\<rparr>)"
  by (simp add: process_execute_def process_world_empty_def)

text \<open>What was started is removed, and a cancelled process is never reported as successful.\<close>

lemma process_run_cleans: "snd (process_run text_of finished terminated killed lines chunks (snd (process_execute m s p ctx tel cfg job))) = process_world_empty"
  by (auto simp: process_run_def process_execute_def process_world_empty_def Let_def split: executor.splits executor_runtime.splits sum.splits option.splits)

lemma cancelled_never_success: "fst (process_run text_of None terminated killed lines chunks w) \<noteq> Success d out err"
  by (auto simp: process_run_def exec_status_def status_cancelled_def status_failed_def split: option.splits child.splits sum.splits)

lemma wait_once: "fst (process_wait sent (snd (process_wait sent available))) = Inl ''Execution status already consumed''"
  by (auto simp: process_wait_def split: option.splits)

text \<open>Arguments without a brace are passed as they are.\<close>

lemma str_replace_absent: "hd pat \<notin> set s \<Longrightarrow> str_replace pat rep s = s"
proof (induction pat rep s rule: str_replace.induct)
  case (1 pat rep s)
  show ?case
  proof (cases "s = [] \<or> pat = []")
    case False
    then obtain c s' d p where s: "s = c # s'" "pat = d # p" by (meson list.exhaust)
    with 1(3) have "take (length pat) s \<noteq> pat" by auto
    with 1(2,3) s show ?thesis by (subst str_replace.simps) auto
  qed (subst str_replace.simps, simp)
qed

lemma plain_argument: "CHR ''{'' \<notin> set arg \<Longrightarrow> replace_placeholders arg ctx = arg"
  by (simp add: replace_placeholders_def str_replace_absent)

end
