(* ===== verification/Data_Node.thy ===== *)
theory Data_Node
  imports Bridge_Properties
begin

text \<open>
  The data node (\<^verbatim>\<open>crates/data/src/bin/hypha-data.rs\<close>): it hashes the files of a directory once, keeps the hashes in an index file, answers which
  slices it has, and serves a slice by its hash; and what a worker gets from it through its bridge. The hash function, the
  codec of the index and the order of a hash map are parameters.
\<close>

section \<open>The index\<close>

record index_entry =
  ie_hash :: u64
  ie_path :: "string list"

type_synonym dataset_index = "index_entry list"

datatype node_error =
    NotADirectory
  | IndexUnreadable string
  | IndexEmpty
  | DirectoryEmpty
  | HashFailed string
  | DuplicateHash
  | OutsideRoot
  | IndexNotWritten string

definition join_entry :: "string list \<Rightarrow> string list \<Rightarrow> string list" where
  "join_entry base rel = base @ rel"

definition strip_prefix :: "string list \<Rightarrow> string list \<Rightarrow> string list option" where
  "strip_prefix base p = (if take (length base) p = base then Some (drop (length base) p) else None)"

text \<open>Inserting into the map of hashes: of two entries with one hash the later is kept.\<close>

definition insert_entries :: "string list \<Rightarrow> dataset_index \<Rightarrow> (u64 \<rightharpoonup> string list)" where
  "insert_entries base = foldl (\<lambda>m e. m(ie_hash e \<mapsto> join_entry base (ie_path e))) Map.empty"

definition load_index :: "string list \<Rightarrow> string + dataset_index \<Rightarrow> node_error + (u64 \<rightharpoonup> string list)" where
  "load_index base parsed =
     (case parsed of
        Inl e \<Rightarrow> Inl (IndexUnreadable e)
      | Inr entries \<Rightarrow> if entries = [] then Inl IndexEmpty else Inr (insert_entries base entries))"

text \<open>The hash of every file, or the first error.\<close>

fun hash_files :: "(string list \<Rightarrow> string + u64) \<Rightarrow> string list list \<Rightarrow> node_error + (u64 \<times> string list) list" where
  "hash_files file_hash [] = Inr []"
| "hash_files file_hash (p # ps) =
     (case file_hash p of
        Inl e \<Rightarrow> Inl (HashFailed e)
      | Inr h \<Rightarrow> (case hash_files file_hash ps of Inl e \<Rightarrow> Inl e | Inr hs \<Rightarrow> Inr ((h, p) # hs)))"

fun insert_hashes :: "(u64 \<times> string list) list \<Rightarrow> (u64 \<rightharpoonup> string list) \<Rightarrow> node_error + (u64 \<rightharpoonup> string list)" where
  "insert_hashes [] m = Inr m"
| "insert_hashes ((h, p) # hs) m = (if m h \<noteq> None then Inl DuplicateHash else insert_hashes hs (m(h \<mapsto> p)))"

text \<open>The entries to write, in the order in which the map is iterated.\<close>

fun relative_entries :: "string list \<Rightarrow> (u64 \<times> string list) list \<Rightarrow> node_error + dataset_index" where
  "relative_entries base [] = Inr []"
| "relative_entries base ((h, p) # hs) =
     (case strip_prefix base p of
        None \<Rightarrow> Inl OutsideRoot
      | Some rel \<Rightarrow>
          (case relative_entries base hs of
             Inl e \<Rightarrow> Inl e
           | Inr es \<Rightarrow> Inr (\<lparr>ie_hash = h, ie_path = rel\<rparr> # es)))"

text \<open>Building the index: the map, and what is written. \<open>iterate\<close> lists a map; \<open>encode\<close> writes the index or fails.\<close>

definition build_index ::
    "(string list \<Rightarrow> string + u64) \<Rightarrow> ((u64 \<rightharpoonup> string list) \<Rightarrow> (u64 \<times> string list) list) \<Rightarrow> (dataset_index \<Rightarrow> string + 'c) \<Rightarrow> string list \<Rightarrow> string list list
      \<Rightarrow> node_error + (u64 \<rightharpoonup> string list) \<times> 'c" where
  "build_index file_hash iterate encode base files =
     (if files = [] then Inl DirectoryEmpty
      else case hash_files file_hash files of
             Inl e \<Rightarrow> Inl e
           | Inr hs \<Rightarrow>
               (case insert_hashes hs Map.empty of
                  Inl e \<Rightarrow> Inl e
                | Inr m \<Rightarrow>
                    (case relative_entries base (iterate m) of
                       Inl e \<Rightarrow> Inl e
                     | Inr es \<Rightarrow> (case encode es of Inl e \<Rightarrow> Inl (IndexNotWritten e) | Inr c \<Rightarrow> Inr (m, c)))))"

text \<open>The start of a node: with an index file it is used, without one it is built and written. The result is the map and the index file.\<close>

definition start_node ::
    "(string list \<Rightarrow> string + u64) \<Rightarrow> ((u64 \<rightharpoonup> string list) \<Rightarrow> (u64 \<times> string list) list) \<Rightarrow> (dataset_index \<Rightarrow> string + 'c) \<Rightarrow> ('c \<Rightarrow> string + dataset_index)
      \<Rightarrow> string list \<Rightarrow> string list list option \<Rightarrow> 'c option \<Rightarrow> node_error + (u64 \<rightharpoonup> string list) \<times> 'c" where
  "start_node file_hash iterate encode decode base listing index_file =
     (case listing of
        None \<Rightarrow> Inl NotADirectory
      | Some files \<Rightarrow>
          (case index_file of
             Some c \<Rightarrow> map_sum id (\<lambda>m. (m, c)) (load_index base (decode c))
           | None \<Rightarrow> build_index file_hash iterate encode base files))"

section \<open>Serving\<close>

definition data_record_handler ::
    "string \<Rightarrow> ((u64 \<rightharpoonup> string list) \<Rightarrow> (u64 \<times> string list) list) \<Rightarrow> (u64 \<rightharpoonup> string list) \<Rightarrow> string \<Rightarrow> data_record_response" where
  "data_record_handler name iterate hashes dataset =
     (if dataset = name then RecordSuccess (map fst (iterate hashes)) else RecordNotFound)"

text \<open>A pull is dropped unless it names the data set and a known hash, and the file is there.\<close>

definition serve_slice :: "string \<Rightarrow> (u64 \<rightharpoonup> string list) \<Rightarrow> disk \<Rightarrow> data_slice \<Rightarrow> bytes option" where
  "serve_slice name hashes files req =
     (if slice_dataset req \<noteq> name then None
      else case hashes (slice_hash req) of None \<Rightarrow> None | Some p \<Rightarrow> files p)"

section \<open>Properties\<close>

lemma insert_hashes_map:
  "insert_hashes hs m = Inr m' \<Longrightarrow> distinct (map fst hs) \<and> (\<forall>h\<in>fst ` set hs. m h = None) \<and> m' = m ++ map_of hs"
proof (induction hs m rule: insert_hashes.induct)
  case (2 h p hs m)
  from "2.prems" have new: "m h = None" and rest: "insert_hashes hs (m(h \<mapsto> p)) = Inr m'" by (auto split: if_splits)
  have "\<not> m h \<noteq> None" using new by simp
  note step = "2.IH" [OF this rest]
  note IH = conjunct1 [OF step] conjunct1 [OF conjunct2 [OF step]] conjunct2 [OF conjunct2 [OF step]]
  have h: "h \<notin> fst ` set hs" using IH(2) by fastforce
  then have "map_of hs h = None" by (simp add: map_of_eq_None_iff)
  then have eq: "m(h \<mapsto> p) ++ map_of hs = m ++ map_of ((h, p) # hs)"
    by (intro ext) (auto simp: map_add_def split: option.splits)
  have "m' = m ++ map_of ((h, p) # hs)" unfolding eq [symmetric] using IH(3) by (simp only: fun_upd_def)
  moreover have "distinct (map fst ((h, p) # hs))" using IH(1) h by simp
  moreover have "\<forall>h'\<in>fst ` set ((h, p) # hs). m h' = None" using IH(2) new by (auto split: if_splits)
  ultimately show ?case by blast
qed simp

lemma hash_files_sound:
  "hash_files file_hash ps = Inr hs \<Longrightarrow> map snd hs = ps \<and> (\<forall>(h, p)\<in>set hs. file_hash p = Inr h)"
  by (induction ps arbitrary: hs) (auto split: sum.splits)

lemma relative_entries_restore:
  "relative_entries base hs = Inr es \<Longrightarrow> map (\<lambda>e. (ie_hash e, join_entry base (ie_path e))) es = hs"
proof (induction hs arbitrary: es)
  case (Cons x hs)
  obtain h p where x: "x = (h, p)" by force
  show ?case using Cons x
    by (auto simp: strip_prefix_def join_entry_def split: option.splits sum.splits if_splits) (metis append_take_drop_id)
qed simp

lemma insert_entries_rev:
  "insert_entries base es = map_of (rev (map (\<lambda>e. (ie_hash e, join_entry base (ie_path e))) es))"
  by (induction es rule: rev_induct) (simp_all add: insert_entries_def)

text \<open>
  C35. A node that is started again is the node it was: a start that builds the index writes one from which every later start, whatever has
  become of the files, loads exactly the same slices; each of them is a file of the directory under the hash it had.
\<close>

theorem index_roundtrip:
  assumes "start_node file_hash iterate encode decode base (Some files) None = Inr (m, c)"
    and "distinct (map fst (iterate m))" and "map_of (iterate m) = m" and "\<And>es c. encode es = Inr c \<Longrightarrow> decode c = Inr es"
  shows "start_node file_hash' iterate encode decode base (Some files') (Some c) = Inr (m, c)
    \<and> ran m = set files \<and> (\<forall>h p. m h = Some p \<longrightarrow> file_hash p = Inr h)"
proof -
  from assms(1) obtain hs es where hs: "files \<noteq> []" "hash_files file_hash files = Inr hs" "insert_hashes hs Map.empty = Inr m"
    and es: "relative_entries base (iterate m) = Inr es" "encode es = Inr c"
    by (auto simp: start_node_def build_index_def split: if_splits sum.splits)
  have m: "distinct (map fst hs)" "m = map_of hs" using insert_hashes_map [OF hs(3)] by auto
  have sound: "map snd hs = files" "\<forall>(h, p)\<in>set hs. file_hash p = Inr h" using hash_files_sound [OF hs(2)] by auto
  have ran: "ran m = set files" using m sound(1) by (metis list.set_map ran_distinct)
  have e: "map (\<lambda>e. (ie_hash e, join_entry base (ie_path e))) es = iterate m" by (rule relative_entries_restore [OF es(1)])
  have "m \<noteq> Map.empty" using ran hs(1) by auto
  with assms(2,3) have "iterate m \<noteq> []" by (auto simp: fun_eq_iff)
  with e have "es \<noteq> []" by auto
  moreover have "map_of (rev (iterate m)) = m"
    using assms(2,3) map_of_inject_set [of "rev (iterate m)" "iterate m"] by (simp add: rev_map [symmetric])
  ultimately have "load_index base (decode c) = Inr m"
    using assms(4) [OF es(2)] e by (simp add: load_index_def insert_entries_rev)
  moreover have "m h = Some p \<Longrightarrow> file_hash p = Inr h" for h p using m(2) sound(2) by (auto dest: map_of_SomeD)
  ultimately show ?thesis using ran by (simp add: start_node_def)
qed

theorem index_roundtrip_witness:
  "start_node (\<lambda>_. Inl ''gone'') (\<lambda>_. [(5, [''d'', ''a''])]) Inr Inr [''d''] (Some []) (Some [\<lparr>ie_hash = 5, ie_path = [''a'']\<rparr>])
     = Inr ([5 \<mapsto> [''d'', ''a'']], [\<lparr>ie_hash = 5, ie_path = [''a'']\<rparr>])"
proof -
  have "start_node (\<lambda>_. Inr 5) (\<lambda>_. [(5, [''d'', ''a''])]) Inr Inr [''d''] (Some [[''d'', ''a'']]) None
    = Inr ([5 \<mapsto> [''d'', ''a'']], [\<lparr>ie_hash = 5, ie_path = [''a'']\<rparr>])"
    by (simp add: start_node_def build_index_def strip_prefix_def)
  from index_roundtrip [OF this, of "\<lambda>_. Inl ''gone''" "[]"] show ?thesis by simp
qed

text \<open>
  C34. From the file to the training process: a worker that is assigned a slice of a node, and does not have it yet, gets exactly the bytes of the node's file when
  they still have the hash under which the node found them, and nothing, with the mismatch reported and nothing cached, when the file has changed since. An
  unchanged file always arrives.
\<close>

theorem slice_end_to_end:
  assumes "start_node (\<lambda>p. case files p of None \<Rightarrow> Inl ''missing'' | Some bs \<Rightarrow> Inr (hash bs)) iterate encode decode base (Some listing) None = Inr (m, c)"
    and "m h = Some p" and "files' p = Some bs" and "fs (slice_path dir h) = None" and "providers \<noteq> []" and "sl_creatable (inputs k)"
    and "sl_pull (inputs k) = (\<lambda>peer h'. case serve_slice name m files' \<lparr>slice_dataset = name, slice_hash = h'\<rparr> of None \<Rightarrow> Inl ''closed'' | Some bs \<Rightarrow> Inr (CopyDone bs))"
  shows "slice_attempt hash dir providers h inputs k fs
      = (if hash bs = h then (Inr [\<lparr>fr_path = slice_rel h, fr_size = length bs\<rparr>], fs(slice_path dir h \<mapsto> bs))
         else (Inl (HashMismatch h (hash bs)), fs(slice_path dir h := None)))
    \<and> (files' p = files p \<longrightarrow> hash bs = h)"
proof -
  from assms(1) obtain hs where hs: "hash_files (\<lambda>p. case files p of None \<Rightarrow> Inl ''missing'' | Some bs \<Rightarrow> Inr (hash bs)) listing = Inr hs"
    "insert_hashes hs Map.empty = Inr m"
    by (auto simp: start_node_def build_index_def split: if_splits sum.splits)
  have "(h, p) \<in> set hs" using insert_hashes_map [OF hs(2)] assms(2) by (auto dest: map_of_SomeD)
  then have "(case files p of None \<Rightarrow> Inl ''missing'' | Some bs \<Rightarrow> Inr (hash bs)) = Inr h" using hash_files_sound [OF hs(1)] by auto
  then have "files' p = files p \<longrightarrow> hash bs = h" using assms(3) by (auto split: option.splits)
  moreover have "sl_pull (inputs k) (providers ! (sl_choice (inputs k) mod length providers)) h = Inr (CopyDone bs)"
    using assms(2,3,7) by (simp add: serve_slice_def)
  ultimately show ?thesis using assms(4,5,6) by (simp add: slice_attempt_path)
qed

theorem slice_end_to_end_witness:
  "slice_attempt (\<lambda>bs. of_nat (length bs)) example_dir [4] 2
       (\<lambda>_. \<lparr>sl_choice = 0, sl_pull = (\<lambda>peer h'. case serve_slice ''mnist'' [2 \<mapsto> [''d'', ''a'']] [[''d'', ''a''] \<mapsto> [7, 8]] \<lparr>slice_dataset = ''mnist'', slice_hash = h'\<rparr> of
          None \<Rightarrow> Inl ''closed'' | Some bs \<Rightarrow> Inr (CopyDone bs)), sl_creatable = True\<rparr>) 0 Map.empty
     = (Inr [\<lparr>fr_path = slice_rel 2, fr_size = 2\<rparr>], [slice_path example_dir 2 \<mapsto> [7, 8]])"
proof -
  let ?files = "[[''d'', ''a''] \<mapsto> [7, 8 :: byte]]"
  have "start_node (\<lambda>p. case ?files p of None \<Rightarrow> Inl ''missing'' | Some bs \<Rightarrow> Inr (of_nat (length bs))) (\<lambda>_. [(2, [''d'', ''a''])]) Inr Inr [''d''] (Some [[''d'', ''a'']]) None
    = Inr ([2 \<mapsto> [''d'', ''a'']], [\<lparr>ie_hash = 2, ie_path = [''a'']\<rparr>])"
    by (simp add: start_node_def build_index_def strip_prefix_def)
  from slice_end_to_end [OF this, of 2 "[''d'', ''a'']" ?files "[7, 8]" Map.empty example_dir "[4]"
      "\<lambda>_. \<lparr>sl_choice = 0, sl_pull = (\<lambda>peer h'. case serve_slice ''mnist'' [2 \<mapsto> [''d'', ''a'']] ?files \<lparr>slice_dataset = ''mnist'', slice_hash = h'\<rparr> of
          None \<Rightarrow> Inl ''closed'' | Some bs \<Rightarrow> Inr (CopyDone bs)), sl_creatable = True\<rparr>" 0 "''mnist''"]
  show ?thesis by simp
qed

end
