(* ===== verification/Scheduler_Program.thy ===== *)
theory Scheduler_Program
  imports Pool Net_Utils
begin

text \<open>
  The scheduler's program (\<^verbatim>\<open>crates/scheduler/src/bin/hypha-scheduler.rs\<close>) and its job configuration (\<^verbatim>\<open>scheduler_config.rs\<close>): the connection to the
  gateways, the search for the data set, the sizes of batches and the jobs that are dispatched. The construction of the
  network and the handling of signals are not modelled.
\<close>

section \<open>The job\<close>

record model_source =
  ms_repository :: string
  ms_revision :: "string option"
  ms_filenames :: "string list"
  ms_token :: "string option"
  ms_model_type :: model_type
  ms_input_names :: "string list"

definition model_from :: "model_source \<Rightarrow> model" where
  "model_from s = \<lparr>model_task = ms_model_type s,
     model_artifact = fetch_huggingface (ms_repository s) (ms_revision s) (ms_filenames s) (ms_token s),
     model_input_names = ms_input_names s\<rparr>"

record preprocessor_source =
  ps_repository :: string
  ps_revision :: "string option"
  ps_filenames :: "string list"
  ps_token :: "string option"
  ps_type :: preprocessor_type
  ps_input_names :: "string list"

definition preprocessor_from :: "preprocessor_source \<Rightarrow> preprocessor" where
  "preprocessor_from s = \<lparr>pre_task = ps_type s,
     pre_artifact = fetch_huggingface (ps_repository s) (ps_revision s) (ps_filenames s) (ps_token s),
     pre_input_names = ps_input_names s\<rparr>"

record diloco_rounds =
  avg_samples_between_updates :: u32
  update_rounds :: u32
  max_batch_size :: "u32 option"
  multi_batch_size :: u32

record pool_settings =
  pool_min :: u32
  pool_target :: u32
  pool_grace_ms :: u64

definition default_grace_ms :: u64 where
  "default_grace_ms = 10000"

record diloco_resources =
  worker_resources :: resources
  parameter_server_resources :: resources
  worker_price :: price_range
  parameter_server_price :: price_range
  worker_pool_settings :: pool_settings
  parameter_pool_settings :: pool_settings

datatype metrics_config = Otel | Csv string | Jsonl string

record model_destination =
  md_repository :: string
  md_token :: string

record diloco =
  di_model :: model_source
  di_preprocessor :: "preprocessor_source option"
  di_dataset :: string
  di_rounds :: diloco_rounds
  di_metrics :: "metrics_config list"
  di_inner_optimizer :: adam
  di_outer_optimizer :: nesterov
  di_resources :: diloco_resources
  di_model_destination :: "model_destination option"

definition TRAIN_EXECUTOR_NAME :: string where
  "TRAIN_EXECUTOR_NAME = ''diloco-transformer''"

definition PARAMETER_SERVER_EXECUTOR_NAME :: string where
  "PARAMETER_SERVER_EXECUTOR_NAME = ''parameter-server''"

definition worker_spec_of :: "diloco \<Rightarrow> worker_spec" where
  "worker_spec_of d = \<lparr>spec_resources = worker_resources (di_resources d), spec_executors = [TrainDescriptor TRAIN_EXECUTOR_NAME]\<rparr>"

definition parameter_server_spec_of :: "diloco \<Rightarrow> worker_spec" where
  "parameter_server_spec_of d =
     \<lparr>spec_resources = parameter_server_resources (di_resources d), spec_executors = [AggregateDescriptor PARAMETER_SERVER_EXECUTOR_NAME]\<rparr>"

section \<open>Batch sizes\<close>

text \<open>\<^verbatim>\<open>f64::floor\<close>, \<^verbatim>\<open>f64::min\<close> and the saturating cast to \<^verbatim>\<open>u32\<close>.\<close>

fun ffloor :: "float \<Rightarrow> float" where
  "ffloor (Fin q) = Fin (of_int \<lfloor>q\<rfloor>)"
| "ffloor x = x"

definition fmin :: "float \<Rightarrow> float \<Rightarrow> float" where
  "fmin x y = (if x = NaN then y else if y = NaN then x else if flt y x then y else x)"

fun as_u32 :: "float \<Rightarrow> u32" where
  "as_u32 (Fin q) = of_nat (min (nat \<lfloor>q\<rfloor>) (2 ^ 32 - 1))"
| "as_u32 PInf = of_nat (2 ^ 32 - 1)"
| "as_u32 _ = 0"

definition f64_max :: float where
  "f64_max = Fin ((2 - 2 powi (- 52)) * 2 powi 1023)"

text \<open>What a worker is told, from the resources it offered.\<close>

definition dispatch_batch_size :: "u32 option \<Rightarrow> float \<Rightarrow> float \<Rightarrow> u32" where
  "dispatch_batch_size max_size spec_gpu worker_gpu =
     as_u32 (fmin (ffloor (fdiv F64 worker_gpu spec_gpu))
       (case max_size of Some bs \<Rightarrow> of_nat_float F64 (unat bs) | None \<Rightarrow> f64_max))"

text \<open>What the scheduler of the rounds assumes.\<close>

definition batch_sizer :: "u32 option \<Rightarrow> float \<Rightarrow> float \<Rightarrow> u32" where
  "batch_sizer max_size base_gpu worker_gpu =
     (let raw = (if flt (Fin 0) base_gpu then as_u32 (ffloor (fdiv F64 worker_gpu base_gpu)) else 0)
      in case max_size of Some m \<Rightarrow> min raw m | None \<Rightarrow> raw)"

section \<open>Jobs\<close>

definition train_job :: "uuid \<Rightarrow> peer_id \<Rightarrow> diloco \<Rightarrow> resources \<Rightarrow> job_spec" where
  "train_job job_id self d offered =
     \<lparr>spec_job_id = job_id,
      spec_executor = TrainExecutor TRAIN_EXECUTOR_NAME
        \<lparr>tc_model = model_from (di_model d), tc_data = fetch_scheduler self (di_dataset d), tc_optimizer = di_inner_optimizer d,
         tc_batch_size = dispatch_batch_size (max_batch_size (di_rounds d)) (gpu (worker_resources (di_resources d))) (gpu offered),
         tc_preprocessor = map_option preprocessor_from (di_preprocessor d), tc_scheduler = None\<rparr>\<rparr>"

definition aggregate_job :: "uuid \<Rightarrow> diloco \<Rightarrow> job_spec" where
  "aggregate_job job_id d =
     \<lparr>spec_job_id = job_id, spec_executor = AggregateExecutor PARAMETER_SERVER_EXECUTOR_NAME \<lparr>ac_optimizer = di_outer_optimizer d\<rparr>\<rparr>"

section \<open>Connecting\<close>

text \<open>
  One gateway: \<open>dial\<close> gives the peer, \<open>circuit\<close> the relay address over it, \<open>listen\<close> the outcome of listening there.
\<close>

definition connect_gateway ::
    "bool \<Rightarrow> (multiaddr \<Rightarrow> string + peer_id) \<Rightarrow> (multiaddr \<Rightarrow> peer_id \<Rightarrow> multiaddr option) \<Rightarrow> (multiaddr \<Rightarrow> string + unit) \<Rightarrow> multiaddr \<Rightarrow> string + peer_id" where
  "connect_gateway enable_circuit dial circuit listen addr =
     (case dial addr of
        Inl e \<Rightarrow> Inl e
      | Inr p \<Rightarrow>
          if enable_circuit
          then (case circuit addr p of
                  None \<Rightarrow> Inl ''Failed to construct circuit address''
                | Some relay \<Rightarrow> (case listen relay of Inl e \<Rightarrow> Inl e | Inr _ \<Rightarrow> Inr p))
          else Inr p)"

fun results_ok :: "('e + 'a) list \<Rightarrow> 'a list" where
  "results_ok [] = []"
| "results_ok (Inr a # xs) = a # results_ok xs"
| "results_ok (Inl e # xs) = results_ok xs"

definition connect_gateways ::
    "bool \<Rightarrow> (multiaddr \<Rightarrow> string + peer_id) \<Rightarrow> (multiaddr \<Rightarrow> peer_id \<Rightarrow> multiaddr option) \<Rightarrow> (multiaddr \<Rightarrow> string + unit) \<Rightarrow> multiaddr list \<Rightarrow> string + peer_id list" where
  "connect_gateways enable_circuit dial circuit listen addrs =
     (let ps = results_ok (map (connect_gateway enable_circuit dial circuit listen) addrs)
      in if ps = [] then Inl ''Failed to connect to any gateway'' else Inr ps)"

text \<open>The providers of the data set, with the record of the first.\<close>

definition get_data_providers ::
    "string + peer_id list \<Rightarrow> (peer_id \<Rightarrow> string + data_record_response) \<Rightarrow> string \<Rightarrow> string + peer_id list \<times> u64 list" where
  "get_data_providers found request dataset =
     (case found of
        Inl e \<Rightarrow> Inl (''No data provider found for dataset '' @ dataset @ '': '' @ e)
      | Inr [] \<Rightarrow> Inl (''No data provider found for dataset '' @ dataset)
      | Inr (p # ps) \<Rightarrow>
          (case request p of
             Inr (RecordSuccess hashes) \<Rightarrow> Inr (p # ps, hashes)
           | Inr RecordNotFound \<Rightarrow> Inl (''No data record found for dataset '' @ dataset)
           | Inl e \<Rightarrow> Inl (''Failed to request data record for dataset '' @ dataset @ '': '' @ e)
           | Inr (RecordError _) \<Rightarrow> Inl (''Unexpected response to data record request for dataset '' @ dataset)))"

section \<open>Properties\<close>

lemma of_nat_float_F64_u32: "of_nat_float F64 (unat (x :: u32)) = Fin (of_nat (unat x))"
proof (cases "unat x = 0")
  case False
  have "unat x < 2 ^ 32" using unsigned_less [of x, where ?'a = nat] by simp
  then have "\<bar>int (unat x)\<bar> < 2 ^ prec F64" by (simp add: F64_def del: of_nat_unat)
  from finish_int [OF this, of False] False show ?thesis by (simp add: of_nat_float_def F64_def del: of_nat_unat)
qed (simp add: of_nat_float_def finish_zero)

lemma unat_as_u32: "unat (as_u32 (Fin q)) = min (nat \<lfloor>q\<rfloor>) (2 ^ 32 - 1)" "unat (as_u32 PInf) = 2 ^ 32 - 1"
  by (simp_all add: unat_of_nat min_def)

lemma unat_le_max: "unat (x :: u32) \<le> 2 ^ 32 - 1"
  using unsigned_less [of x, where ?'a = nat] by simp

lemma flt_Fin: "flt (Fin a) (Fin b) \<longleftrightarrow> a < b" "flt (Fin a) NegZero \<longleftrightarrow> a < 0"
  by (simp_all add: flt_iff)

lemma as_u32_min:
  "as_u32 (fmin (Fin (of_int k)) (Fin (of_nat (unat m)))) = min (as_u32 (Fin (of_int k))) m"
proof (rule word_unat_eq_iff [THEN iffD2])
  have le: "min a b = (if unat a \<le> unat b then a else b)" for a b :: u32 by (simp add: min_def word_le_nat_alt)
  have cmp: "(of_nat (unat m) :: rat) < of_int k \<longleftrightarrow> int (unat m) < k"
    by (metis of_int_less_iff of_int_of_nat_eq)
  show "unat (as_u32 (fmin (Fin (of_int k)) (Fin (of_nat (unat m))))) = unat (min (as_u32 (Fin (of_int k))) m)"
  proof (cases "int (unat m) < k")
    case True
    then have "unat m < nat k" by (simp add: zless_nat_eq_int_zless del: of_nat_unat)
    with True unat_le_max [of m] show ?thesis
      by (auto simp: fmin_def flt_Fin cmp le unat_as_u32 min_def simp del: as_u32.simps of_nat_unat)
  next
    case False
    then have "nat k \<le> unat m" using nat_mono [of k "int (unat m)"] by (simp del: of_nat_unat)
    with False unat_le_max [of m] show ?thesis by (simp add: fmin_def flt_Fin cmp le unat_as_u32 del: as_u32.simps of_nat_unat)
  qed
qed

lemma f64_max_big: "2 ^ 32 \<le> nat \<lfloor>(2 - 2 powi (- 52)) * 2 powi 1023 :: rat\<rfloor>"
proof -
  have "(2 :: rat) ^ 32 \<le> (2 - 2 powi (- 52)) * 2 powi 1023" by (simp add: power_int_def power_one_over)
  then show ?thesis by (simp add: le_nat_iff le_floor_iff)
qed

lemma as_u32_f64_max: "as_u32 (fmin (Fin q) f64_max) = as_u32 (Fin q)"
proof (cases "flt f64_max (Fin q)")
  case True
  have "(2 - 2 powi (- 52)) * 2 powi 1023 < q" using True by (simp add: f64_max_def flt_Fin)
  then have "nat \<lfloor>(2 - 2 powi (- 52)) * 2 powi 1023 :: rat\<rfloor> \<le> nat \<lfloor>q\<rfloor>" by (intro nat_mono floor_mono) simp
  with f64_max_big True show ?thesis by (simp add: fmin_def f64_max_def)
qed (simp add: fmin_def f64_max_def)

lemma as_u32_PInf: "as_u32 PInf = - 1"
  by (simp add: word_eq_iff_unsigned)

lemma as_u32_nat: "as_u32 (Fin (of_nat (unat m))) = m"
  using unat_le_max [of m] by (intro word_unat_eq_iff [THEN iffD2]) (simp add: unat_as_u32 del: as_u32.simps of_nat_unat)

lemma as_u32_top: "min (as_u32 PInf) m = m"
  unfolding as_u32_PInf by (rule min_absorb2) simp

lemma as_u32_f64_max_top: "as_u32 (fmin PInf f64_max) = as_u32 PInf" "as_u32 f64_max = as_u32 PInf"
  using f64_max_big by (simp_all add: fmin_def flt_iff f64_max_def)

lemma fmin_infinite: "fmin PInf (Fin q) = Fin q" "fmin NInf (Fin q) = NInf" "fmin NaN x = x"
  by (auto simp: fmin_def flt_iff)

lemma dispatch_sizes_agree:
  assumes "flt (Fin 0) base" and "fdiv F64 offered base \<noteq> NaN"
  shows "dispatch_batch_size max_size base offered = batch_sizer max_size base offered"
proof (cases "fdiv F64 offered base")
  case (Fin q)
  then show ?thesis using assms(1) as_u32_min [of "\<lfloor>q\<rfloor>"] as_u32_f64_max
    by (cases max_size) (simp_all add: dispatch_batch_size_def batch_sizer_def of_nat_float_F64_u32 del: as_u32.simps of_nat_unat)
next
  case PInf
  then show ?thesis using assms(1)
    by (cases max_size) (simp_all add: dispatch_batch_size_def batch_sizer_def of_nat_float_F64_u32 fmin_infinite as_u32_nat as_u32_top
        as_u32_f64_max_top del: as_u32.simps of_nat_unat)
next
  case NInf
  then show ?thesis using assms(1)
    by (cases max_size) (simp_all add: dispatch_batch_size_def batch_sizer_def of_nat_float_F64_u32 fmin_infinite f64_max_def)
next
  case NegZero
  then show ?thesis using assms(1)
    by (cases max_size) (auto simp: dispatch_batch_size_def batch_sizer_def of_nat_float_F64_u32 fmin_def f64_max_def flt_Fin simp del: of_nat_unat)
qed (use assms(2) in simp)

text \<open>
  C36. The two computations of the batch size agree whenever the job asks for a share of a graphics processor: what a worker is told at its dispatch is what the
  scheduler of the rounds assumes of it, capped by the configured maximum. An offer whose share is not a number is excluded.
\<close>

theorem batch_sizes_agree:
  assumes "flt (Fin 0) base" and "fdiv F64 offered base \<noteq> NaN"
  shows "dispatch_batch_size max_size base offered = batch_sizer max_size base offered"
  by (rule dispatch_sizes_agree [OF assms])

theorem batch_sizes_agree_witness:
  "dispatch_batch_size (Some 600) (Fin 2) (Fin 9) = batch_sizer (Some 600) (Fin 2) (Fin 9)"
  using batch_sizes_agree [of "Fin 2" "Fin 9" "Some 600"] by (simp add: flt_Fin fdiv_def finish_def Let_def)

text \<open>
  For a job that asks for no share of a graphics processor they do not: every worker is told the configured maximum, or the largest number there is when none
  is configured, while the scheduler of the rounds assumes batches of size zero.
\<close>

lemma cpu_job_batch_sizes_differ:
  assumes "0 \<le> q"
  shows "dispatch_batch_size max_size (Fin 0) (Fin q) = (case max_size of Some m \<Rightarrow> m | None \<Rightarrow> - 1)
    \<and> batch_sizer max_size (Fin 0) (Fin q) = 0"
proof -
  have "ffloor (fdiv F64 (Fin q) (Fin 0)) \<in> {PInf, NaN}" using assms by (auto simp: fdiv_def inf_of_def)
  then have "dispatch_batch_size max_size (Fin 0) (Fin q) = (case max_size of Some m \<Rightarrow> m | None \<Rightarrow> - 1)"
    by (cases max_size) (auto simp: dispatch_batch_size_def of_nat_float_F64_u32 fmin_infinite as_u32_nat as_u32_f64_max_top as_u32_PInf
        simp del: as_u32.simps of_nat_unat)
  then show ?thesis by (auto simp: batch_sizer_def flt_Fin split: option.splits)
qed

lemma cpu_job_batch_sizes_differ_witness:
  "dispatch_batch_size None (Fin 0) (Fin 1) = - 1 \<and> batch_sizer None (Fin 0) (Fin 1) = 0"
  using cpu_job_batch_sizes_differ [of 1 None] by simp

end
