(* ===== verification/Metrics_Bridge.thy ===== *)
theory Metrics_Bridge
  imports Floats "HOL-Library.List_Lexorder" "HOL-Library.Char_ord"
begin

text \<open>
  The bridge for training metrics (\<^verbatim>\<open>crates/scheduler/src/metrics_bridge.rs\<close>): it forwards every report to every connector, whether others fail or
  not, and the connectors append to files or record gauges. A file is the list of its lines; how numbers and peers are printed, and the
  JSON encoding, are parameters.
\<close>

section \<open>Reports and connectors\<close>

record metrics =
  metrics_round :: u32
  metrics_values :: "(string \<times> float) list"

type_synonym report = "peer_id \<times> metrics"

text \<open>A connector has a state of its own and answers a report.\<close>

type_synonym 's sink = "report \<Rightarrow> 's \<Rightarrow> (string + unit) \<times> 's"

definition noop_forward :: "'s sink" where
  "noop_forward r s = (Inr (), s)"

text \<open>With no connector, one that does nothing is added.\<close>

definition metrics_bridge_new :: "('s sink \<times> 's) list \<Rightarrow> 's \<Rightarrow> ('s sink \<times> 's) list" where
  "metrics_bridge_new connectors unused = (if connectors = [] then [(noop_forward, unused)] else connectors)"

definition add_connector :: "'s sink \<times> 's \<Rightarrow> ('s sink \<times> 's) list \<Rightarrow> ('s sink \<times> 's) list" where
  "add_connector c cs = cs @ [c]"

text \<open>One report: the connectors in turn; failures are logged.\<close>

fun forward_all :: "report \<Rightarrow> ('s sink \<times> 's) list \<Rightarrow> ('s sink \<times> 's) list \<times> string list" where
  "forward_all r [] = ([], [])"
| "forward_all r ((f, s) # cs) =
     (let (res, s') = f r s; (cs', errs) = forward_all r cs
      in ((f, s') # cs', (case res of Inl e \<Rightarrow> [e] | Inr _ \<Rightarrow> []) @ errs))"

text \<open>The loop ends with the streams or with a cancellation.\<close>

datatype metrics_event = Report report | MetricsCancelled

fun metrics_run :: "metrics_event list \<Rightarrow> ('s sink \<times> 's) list \<Rightarrow> ('s sink \<times> 's) list" where
  "metrics_run [] cs = cs"
| "metrics_run (MetricsCancelled # es) cs = cs"
| "metrics_run (Report r # es) cs = metrics_run es (fst (forward_all r cs))"

section \<open>The connectors\<close>

type_synonym lines = "string list"

text \<open>\<open>writable\<close> is whether the file can be opened and written.\<close>

definition jsonl_forward :: "(nat \<Rightarrow> report \<Rightarrow> string) \<Rightarrow> nat \<Rightarrow> bool \<Rightarrow> lines sink" where
  "jsonl_forward record_json now writable r file =
     (if writable then (Inr (), file @ [record_json now r]) else (Inl ''io'', file))"

definition sorted_keys :: "metrics \<Rightarrow> string list" where
  "sorted_keys m = sort (map fst (metrics_values m))"

definition comma :: "string list \<Rightarrow> string" where
  "comma xs = concat (map (\<lambda>x. '','' @ x) xs)"

definition csv_header :: "metrics \<Rightarrow> string" where
  "csv_header m = ''step,timestamp,peer_id'' @ comma (sorted_keys m)"

definition csv_row :: "(float \<Rightarrow> string) \<Rightarrow> (u32 \<Rightarrow> string) \<Rightarrow> (nat \<Rightarrow> string) \<Rightarrow> (peer_id \<Rightarrow> string) \<Rightarrow> nat \<Rightarrow> report \<Rightarrow> string" where
  "csv_row show_value show_round show_time show_peer now = (\<lambda>(p, m).
     show_round (metrics_round m) @ '','' @ show_time now @ '','' @ show_peer p
       @ comma (map (\<lambda>k. show_value (case map_of (metrics_values m) k of None \<Rightarrow> Fin 0 | Some v \<Rightarrow> v)) (sorted_keys m)))"

definition csv_forward ::
    "(float \<Rightarrow> string) \<Rightarrow> (u32 \<Rightarrow> string) \<Rightarrow> (nat \<Rightarrow> string) \<Rightarrow> (peer_id \<Rightarrow> string) \<Rightarrow> nat \<Rightarrow> bool \<Rightarrow> lines sink" where
  "csv_forward show_value show_round show_time show_peer now writable r file =
     (if \<not> writable then (Inl ''io'', file)
      else let file = (if file = [] then [csv_header (snd r)] else file)
           in (Inr (), file @ [csv_row show_value show_round show_time show_peer now r]))"

text \<open>The gauge records the finite values; the widening to \<^verbatim>\<open>f64\<close> is exact.\<close>

definition otel_forward :: "(peer_id \<times> string \<times> float) list sink" where
  "otel_forward r recorded =
     (Inr (), recorded @ map (\<lambda>(k, v). (fst r, k, v)) (filter (\<lambda>(k, v). is_finite v) (metrics_values (snd r))))"

section \<open>Properties\<close>

text \<open>A connector fed with the reports alone.\<close>

definition feed :: "'s sink \<Rightarrow> report list \<Rightarrow> 's \<Rightarrow> 's" where
  "feed f rs s = fold (\<lambda>r s. snd (f r s)) rs s"

fun reports_before_cancel :: "metrics_event list \<Rightarrow> report list" where
  "reports_before_cancel [] = []"
| "reports_before_cancel (MetricsCancelled # es) = []"
| "reports_before_cancel (Report r # es) = r # reports_before_cancel es"

lemma forward_all_each: "fst (forward_all r cs) = map (\<lambda>(f, s). (f, snd (f r s))) cs"
  by (induction r cs rule: forward_all.induct) (auto split: prod.splits)

text \<open>
  Every connector gets every report that came before the cancellation, in order, as if it were the only one: a connector that fails holds up nobody.
\<close>

lemma metrics_run_each: "metrics_run es cs = map (\<lambda>(f, s). (f, feed f (reports_before_cancel es) s)) cs"
proof (induction es cs rule: metrics_run.induct)
  case (3 r es cs)
  then show ?case by (simp add: forward_all_each feed_def case_prod_beta)
qed (simp_all add: feed_def)

text \<open>The header is that of the first report; the rows are each in the order of their own keys.\<close>

lemma csv_lines:
  "feed (csv_forward a b c d now True) rs [] =
     (case rs of [] \<Rightarrow> [] | r # _ \<Rightarrow> csv_header (snd r) # map (csv_row a b c d now) rs)"
proof -
  have "feed (csv_forward a b c d now True) qs (l # ls) = l # ls @ map (csv_row a b c d now) qs" for qs l ls
    by (induction qs arbitrary: ls) (simp_all add: feed_def csv_forward_def Let_def)
  from this [of "tl rs" "csv_header (snd (hd rs))" "[csv_row a b c d now (hd rs)]"] show ?thesis
    by (cases rs) (simp_all add: feed_def csv_forward_def Let_def)
qed

definition columns :: "string \<Rightarrow> nat" where
  "columns l = Suc (count_list l (CHR '',''))"

text \<open>
  The CSV file is a table only while all workers report the same metrics: its header names the metrics of the first report, and every later
  report adds a row with as many columns as it has metrics itself, in the order of their names. A row of other metrics is
  written under the wrong names.
\<close>

lemma csv_rows_keep_first_header:
  assumes "\<And>v. columns (a v) = 1" and "\<And>v. columns (b v) = 1" and "\<And>v. columns (c v) = 1" and "\<And>v. columns (d v) = 1"
  shows "map columns (feed (csv_forward a b c d now True) (r # rs) [])
    = columns (csv_header (snd r)) # map (\<lambda>q. 3 + length (metrics_values (snd q))) (r # rs)"
proof -
  have "count_list (comma xs) (CHR '','') = length xs" if "\<forall>x\<in>set xs. columns x = 1" for xs
    using that by (induction xs) (auto simp: comma_def columns_def)
  then have "columns (csv_row a b c d now q) = 3 + length (metrics_values (snd q))" for q
    using assms(1-4) by (cases q) (auto simp: csv_row_def columns_def sorted_keys_def)
  then show ?thesis by (simp add: csv_lines)
qed

lemma csv_rows_keep_first_header_witness:
  "map columns (feed (csv_forward (\<lambda>_. ''1'') (\<lambda>_. ''0'') (\<lambda>_. ''9'') (\<lambda>_. ''p'') 9 True)
     [(1, \<lparr>metrics_round = 0, metrics_values = [(''loss'', Fin 1)]\<rparr>), (2, \<lparr>metrics_round = 0, metrics_values = [(''acc'', Fin 1), (''loss'', Fin 1)]\<rparr>)] [])
     = [4, 4, 5]"
  using csv_rows_keep_first_header [of "\<lambda>_. ''1''" "\<lambda>_. ''0''" "\<lambda>_. ''9''" "\<lambda>_. ''p''" 9 "(1, \<lparr>metrics_round = 0, metrics_values = [(''loss'', Fin 1)]\<rparr>)"
      "[(2, \<lparr>metrics_round = 0, metrics_values = [(''acc'', Fin 1), (''loss'', Fin 1)]\<rparr>)]"]
  by (simp add: columns_def csv_header_def sorted_keys_def comma_def)

end
