(* ===== verification/Telemetry.thy ===== *)
theory Telemetry
  imports Floats Texts
begin

text \<open>
  The settings of the telemetry (\<^verbatim>\<open>crates/telemetry/src\<close>): resource attributes, headers and the verbosity, with their text forms
  (\<^verbatim>\<open>attributes.rs\<close>, \<^verbatim>\<open>otlp.rs\<close>, \<^verbatim>\<open>verbosity.rs\<close>), and what is handed to the exporting library for traces, logs and metrics (\<^verbatim>\<open>tracing.rs\<close>,
  \<^verbatim>\<open>logging.rs\<close>, \<^verbatim>\<open>metrics.rs\<close>). The exporting library and the header library are parameters.
\<close>

section \<open>Attributes\<close>

type_synonym key_value = "string \<times> string"
type_synonym attributes = "key_value list"

text \<open>The text form, also used by serde.\<close>

definition attributes_to_string :: "attributes \<Rightarrow> string" where
  "attributes_to_string kvs = concat (map (\<lambda>(k, v). k @ ''='' @ v @ '','') kvs)"

text \<open>One entry of the list, with the error it may give; attributes and headers share the form.\<close>

definition parse_pair :: "string \<Rightarrow> string \<Rightarrow> string + key_value" where
  "parse_pair complaint pair =
     (let (k, r) = split_once (CHR ''='') pair; key = trim k
      in if key = [] then Inl (complaint @ pair)
         else Inr (key, trim (case r of None \<Rightarrow> [] | Some v \<Rightarrow> v)))"

fun attributes_loop :: "string list \<Rightarrow> attributes \<Rightarrow> string + attributes" where
  "attributes_loop [] kvs = Inr kvs"
| "attributes_loop (pair # pairs) kvs =
     (case parse_pair ''invalid resource attribute entry: '' pair of
        Inl e \<Rightarrow> Inl e
      | Inr kv \<Rightarrow> attributes_loop pairs (kvs @ [kv]))"

definition nonblank :: "string \<Rightarrow> string list" where
  "nonblank s = filter (\<lambda>p. trim p \<noteq> []) (split_on (CHR '','') s)"

definition attributes_try_from :: "string \<Rightarrow> string + attributes" where
  "attributes_try_from s = attributes_loop (nonblank s) []"

section \<open>Headers\<close>

text \<open>
  The map of the header library: several values for a name, each name with its values in the order in which they were added; the order in which it lists
  the names is the parameter \<open>ord\<close>. \<open>check_name\<close> and \<open>check_value\<close> are the library's checks, with their complaints.
\<close>

type_synonym headers = "string \<rightharpoonup> string list"

definition headers_iter :: "string list \<Rightarrow> headers \<Rightarrow> key_value list" where
  "headers_iter ord h = concat (map (\<lambda>n. case h n of None \<Rightarrow> [] | Some vs \<Rightarrow> map (Pair n) vs) ord)"

definition header_append :: "string \<Rightarrow> string \<Rightarrow> headers \<Rightarrow> headers" where
  "header_append n v h = h(n \<mapsto> (case h n of None \<Rightarrow> [] | Some vs \<Rightarrow> vs) @ [v])"

fun headers_loop ::
    "(string \<Rightarrow> string option) \<Rightarrow> (string \<Rightarrow> string option) \<Rightarrow> string list \<Rightarrow> headers \<Rightarrow> string + headers" where
  "headers_loop check_name check_value [] h = Inr h"
| "headers_loop check_name check_value (pair # pairs) h =
     (case parse_pair ''invalid header entry: '' pair of
        Inl e \<Rightarrow> Inl e
      | Inr (raw_key, raw_value) \<Rightarrow>
          (let key_lower = to_ascii_lowercase raw_key
           in case check_name key_lower of
                Some e \<Rightarrow> Inl (''invalid header name `'' @ raw_key @ ''`: '' @ e)
              | None \<Rightarrow>
                  (case check_value raw_value of
                     Some e \<Rightarrow> Inl (''invalid header value for `'' @ raw_key @ ''`: '' @ e)
                   | None \<Rightarrow> headers_loop check_name check_value pairs (header_append key_lower raw_value h))))"

definition headers_try_from :: "(string \<Rightarrow> string option) \<Rightarrow> (string \<Rightarrow> string option) \<Rightarrow> string \<Rightarrow> string + headers" where
  "headers_try_from check_name check_value s = headers_loop check_name check_value (nonblank s) Map.empty"

text \<open>The text form; a value that the library cannot show as text (\<open>shown\<close>) makes formatting fail, and \<^verbatim>\<open>to_string\<close> panic.\<close>

fun comma_separated :: "string list \<Rightarrow> string" where
  "comma_separated [] = []"
| "comma_separated [w] = w"
| "comma_separated (w # ws) = w @ '','' @ comma_separated ws"

definition headers_to_string :: "(string \<Rightarrow> bool) \<Rightarrow> string list \<Rightarrow> headers \<Rightarrow> string option" where
  "headers_to_string shown ord h =
     (if list_all (\<lambda>(n, v). shown v) (headers_iter ord h)
      then Some (comma_separated (map (\<lambda>(n, v). n @ ''='' @ v) (headers_iter ord h))) else None)"

text \<open>As the map from names to values that the exporter over HTTP takes: a later value replaces an earlier one.\<close>

definition headers_to_map :: "(string \<Rightarrow> bool) \<Rightarrow> string list \<Rightarrow> headers \<Rightarrow> string \<rightharpoonup> string" where
  "headers_to_map shown ord h =
     foldl (\<lambda>m (n, v). if shown v then m(n \<mapsto> v) else m) Map.empty (headers_iter ord h)"

section \<open>Verbosity, protocols and samplers\<close>

datatype level_filter = OFF | ERROR | WARN | INFO | DEBUG | TRACE

definition verbosity_default :: level_filter where
  "verbosity_default = DEBUG"

text \<open>How the library prints a level.\<close>

fun verbosity_to_string :: "level_filter \<Rightarrow> string" where
  "verbosity_to_string OFF = ''off''"
| "verbosity_to_string ERROR = ''error''"
| "verbosity_to_string WARN = ''warn''"
| "verbosity_to_string INFO = ''info''"
| "verbosity_to_string DEBUG = ''debug''"
| "verbosity_to_string TRACE = ''trace''"

datatype verbosity_error = VerbosityEmpty | VerbosityInvalid string

definition verbosity_try_from :: "string \<Rightarrow> verbosity_error + level_filter" where
  "verbosity_try_from s =
     (let trimmed = trim s; normalized = to_ascii_lowercase trimmed
      in if trimmed = [] then Inl VerbosityEmpty
         else if normalized = ''off'' then Inr OFF
         else if normalized = ''error'' then Inr ERROR
         else if normalized = ''warn'' then Inr WARN
         else if normalized = ''info'' then Inr INFO
         else if normalized = ''debug'' then Inr DEBUG
         else if normalized = ''trace'' then Inr TRACE
         else Inl (VerbosityInvalid trimmed))"

datatype otlp_protocol = Grpc | HttpProtobuf | HttpJson

definition protocol_default :: otlp_protocol where
  "protocol_default = HttpProtobuf"

fun unwrap_or :: "'a option \<Rightarrow> 'a \<Rightarrow> 'a" where
  "unwrap_or None d = d"
| "unwrap_or (Some x) d = x"

definition fclamp :: "float \<Rightarrow> float \<Rightarrow> float \<Rightarrow> float" where
  "fclamp lo hi x = (if flt x lo then lo else if flt hi x then hi else x)"

datatype sampler_kind = KindAlwaysOn | KindAlwaysOff | KindTraceIdRatio | KindParentBased
datatype sampler = SampleOn | SampleOff | SampleRatio float | SampleParent sampler

definition choose_sampler :: "sampler_kind option \<Rightarrow> float option \<Rightarrow> sampler" where
  "choose_sampler kind ratio =
     (case kind of
        Some KindAlwaysOff \<Rightarrow> SampleOff
      | Some KindAlwaysOn \<Rightarrow> SampleOn
      | Some KindTraceIdRatio \<Rightarrow> SampleRatio (fclamp (Fin 0) (Fin 1) (unwrap_or ratio (Fin 1)))
      | Some KindParentBased \<Rightarrow> SampleParent (SampleRatio (fclamp (Fin 0) (Fin 1) (unwrap_or ratio (Fin 1))))
      | None \<Rightarrow>
          (case ratio of
             Some r \<Rightarrow> SampleParent (SampleRatio (fclamp (Fin 0) (Fin 1) r))
           | None \<Rightarrow> SampleOn))"

section \<open>Exporters\<close>

text \<open>
  What the exporting library is given: the transport with its headers, the endpoint, the protocol and the timeout. \<open>build\<close> is the library's construction of an
  exporter from it.
\<close>

datatype transport = Tonic "key_value list" | Http "string \<rightharpoonup> string"

record export_config =
  ec_transport :: transport
  ec_endpoint :: string
  ec_protocol :: otlp_protocol
  ec_timeout :: "duration option"

record 'x provider =
  pv_exporter :: 'x
  pv_resource :: attributes
  pv_sampler :: "sampler option"

text \<open>The shape that the three constructors share: over gRPC the endpoint is used as it is, over HTTP the path of the signal is appended.\<close>

definition exporter_config ::
    "(string \<Rightarrow> bool) \<Rightarrow> string list \<Rightarrow> string \<Rightarrow> duration option \<Rightarrow> string \<Rightarrow> headers option \<Rightarrow> otlp_protocol option \<Rightarrow> export_config" where
  "exporter_config shown ord signal timeout endpoint headers protocol =
     (let h = unwrap_or headers Map.empty; p = unwrap_or protocol protocol_default
      in case p of
           Grpc \<Rightarrow> \<lparr>ec_transport = Tonic (headers_iter ord h), ec_endpoint = endpoint, ec_protocol = p, ec_timeout = timeout\<rparr>
         | _ \<Rightarrow> \<lparr>ec_transport = Http (headers_to_map shown ord h), ec_endpoint = endpoint @ signal, ec_protocol = p, ec_timeout = timeout\<rparr>)"

definition tracing_new ::
    "(export_config \<Rightarrow> 'e + 'x) \<Rightarrow> (string \<Rightarrow> bool) \<Rightarrow> string list \<Rightarrow> string option \<Rightarrow> headers option \<Rightarrow> otlp_protocol option \<Rightarrow> attributes option
      \<Rightarrow> sampler_kind option \<Rightarrow> float option \<Rightarrow> 'e + 'x provider option" where
  "tracing_new build shown ord endpoint headers protocol attrs kind ratio =
     (case endpoint of
        None \<Rightarrow> Inr None
      | Some e \<Rightarrow>
          (case build (exporter_config shown ord ''/v1/traces'' None e headers protocol) of
             Inl err \<Rightarrow> Inl err
           | Inr x \<Rightarrow> Inr (Some \<lparr>pv_exporter = x, pv_resource = unwrap_or attrs [], pv_sampler = Some (choose_sampler kind ratio)\<rparr>)))"

definition logging_new ::
    "(export_config \<Rightarrow> 'e + 'x) \<Rightarrow> (string \<Rightarrow> bool) \<Rightarrow> string list \<Rightarrow> string option \<Rightarrow> headers option \<Rightarrow> otlp_protocol option \<Rightarrow> attributes option
      \<Rightarrow> 'e + 'x provider option" where
  "logging_new build shown ord endpoint headers protocol attrs =
     (case endpoint of
        None \<Rightarrow> Inr None
      | Some e \<Rightarrow>
          (case build (exporter_config shown ord ''/v1/logs'' None e headers protocol) of
             Inl err \<Rightarrow> Inl err
           | Inr x \<Rightarrow> Inr (Some \<lparr>pv_exporter = x, pv_resource = unwrap_or attrs [], pv_sampler = None\<rparr>)))"

definition metrics_new ::
    "(export_config \<Rightarrow> 'e + 'x) \<Rightarrow> (string \<Rightarrow> bool) \<Rightarrow> string list \<Rightarrow> string option \<Rightarrow> headers option \<Rightarrow> otlp_protocol option \<Rightarrow> attributes option
      \<Rightarrow> duration \<Rightarrow> 'e + 'x provider option" where
  "metrics_new build shown ord endpoint headers protocol attrs interval =
     (case endpoint of
        None \<Rightarrow> Inr None
      | Some e \<Rightarrow>
          (case build (exporter_config shown ord ''/v1/metrics'' (Some interval) e headers protocol) of
             Inl err \<Rightarrow> Inl err
           | Inr x \<Rightarrow> Inr (Some \<lparr>pv_exporter = x, pv_resource = unwrap_or attrs [], pv_sampler = None\<rparr>)))"

text \<open>Shutting a provider down; without one there is nothing to do.\<close>

definition provider_shutdown :: "('x provider \<Rightarrow> 'e + unit) \<Rightarrow> 'x provider option \<Rightarrow> 'e + unit" where
  "provider_shutdown shutdown p = (case p of None \<Rightarrow> Inr () | Some p \<Rightarrow> shutdown p)"

section \<open>Entries\<close>

text \<open>An entry that its text form keeps: no separator, and no white space at the ends.\<close>

definition clean_pair :: "key_value \<Rightarrow> bool" where
  "clean_pair = (\<lambda>(k, v). k \<noteq> [] \<and> trim k = k \<and> trim v = v \<and> CHR ''='' \<notin> set k \<and> CHR '','' \<notin> set k \<and> CHR '','' \<notin> set v)"

definition print_pair :: "key_value \<Rightarrow> string" where
  "print_pair = (\<lambda>(k, v). k @ ''='' @ v)"

lemma parse_pair_clean: "parse_pair c p = Inr kv \<Longrightarrow> CHR '','' \<notin> set p \<Longrightarrow> clean_pair kv"
  using split_once_first [of "CHR ''=''" p] split_once_rest [of "CHR ''=''" p] set_trim
  by (fastforce simp: parse_pair_def clean_pair_def Let_def split: prod.splits if_splits option.splits)

lemma parse_print: "clean_pair kv \<Longrightarrow> parse_pair c (print_pair kv) = Inr kv"
  by (cases kv) (simp add: parse_pair_def clean_pair_def print_pair_def split_once_plain)

lemma separator_kept: "CHR ''='' \<in> set s \<Longrightarrow> trim s \<noteq> []"
  using trim_keeps [of "CHR ''=''" s] by (auto simp: whitespace_def)

lemma print_pair_piece: "clean_pair kv \<Longrightarrow> CHR '','' \<notin> set (print_pair kv) \<and> trim (print_pair kv) \<noteq> []"
  by (cases kv) (auto simp: print_pair_def clean_pair_def intro!: separator_kept)

lemma nonblank_pieces: "p \<in> set (nonblank s) \<Longrightarrow> CHR '','' \<notin> set p"
  by (auto simp: nonblank_def dest: split_on_pieces)

lemma nonblank_append:
  "CHR '','' \<notin> set p \<Longrightarrow> trim p \<noteq> [] \<Longrightarrow> nonblank (p @ CHR '','' # s) = p # nonblank s"
  by (simp add: nonblank_def split_on_append)

lemma nonblank_last: "CHR '','' \<notin> set p \<Longrightarrow> trim p \<noteq> [] \<Longrightarrow> nonblank p = [p]"
  by (simp add: nonblank_def split_on_plain)

lemma nonblank_empty [simp]: "nonblank [] = []"
  by (simp add: nonblank_def)

section \<open>Attributes are read as they were written\<close>

lemma attributes_text: "attributes_to_string kvs = concat (map (\<lambda>kv. print_pair kv @ '','') kvs)"
  by (induction kvs) (auto simp: attributes_to_string_def print_pair_def)

lemma nonblank_attributes: "list_all clean_pair kvs \<Longrightarrow> nonblank (attributes_to_string kvs) = map print_pair kvs"
  by (induction kvs) (use print_pair_piece in \<open>auto simp: attributes_text nonblank_append\<close>)

lemma attributes_loop_print: "list_all clean_pair kvs \<Longrightarrow> attributes_loop (map print_pair kvs) acc = Inr (acc @ kvs)"
  by (induction kvs arbitrary: acc) (simp_all add: parse_print)

lemma attributes_loop_clean:
  "attributes_loop ps acc = Inr kvs \<Longrightarrow> \<forall>p\<in>set ps. CHR '','' \<notin> set p \<Longrightarrow> list_all clean_pair acc \<Longrightarrow> list_all clean_pair kvs"
  by (induction ps acc rule: attributes_loop.induct) (auto split: sum.splits dest: parse_pair_clean)

text \<open>
  C39. What the text form of attributes keeps, exactly: reading it gives the attributes back if and only if no key is empty, holds a separator or begins or
  ends with white space, and no value holds a comma or begins or ends with white space; and whatever was read is of this form. White space
  is that of Unicode, as \<^verbatim>\<open>str::trim\<close> takes it: texts are their bytes in UTF-8, and a no-break space at the end of a value is removed like a blank.
\<close>

theorem attributes_roundtrip:
  "(attributes_try_from (attributes_to_string kvs) = Inr kvs \<longleftrightarrow> list_all clean_pair kvs)
   \<and> (case attributes_try_from s of
        Inl e \<Rightarrow> \<exists>p\<in>set (split_on (CHR '','') s). trim p \<noteq> [] \<and> trim (takeWhile (\<lambda>c. c \<noteq> CHR ''='') p) = []
          \<and> e = ''invalid resource attribute entry: '' @ p
      | Inr kvs \<Rightarrow> attributes_try_from (attributes_to_string kvs) = Inr kvs)"
proof -
  have clean: "list_all clean_pair kvs" if "attributes_try_from s = Inr kvs" for s kvs
    using that attributes_loop_clean nonblank_pieces by (fastforce simp: attributes_try_from_def)
  have round: "list_all clean_pair kvs \<Longrightarrow> attributes_try_from (attributes_to_string kvs) = Inr kvs" for kvs
    by (simp add: attributes_try_from_def nonblank_attributes attributes_loop_print)
  have "\<exists>p\<in>set ps. trim (takeWhile (\<lambda>c. c \<noteq> CHR ''='') p) = [] \<and> e = ''invalid resource attribute entry: '' @ p"
    if "attributes_loop ps acc = Inl e" for ps acc e
    using that by (induction ps acc rule: attributes_loop.induct)
      (auto simp: parse_pair_def split_once_def Let_def split: sum.splits if_splits)
  from this [of "nonblank s" "[]"] show ?thesis
    using clean round by (auto simp: attributes_try_from_def nonblank_def split: sum.splits)
qed

section \<open>Headers are read as they were written\<close>

lemma comma_separated_nonblank:
  "\<forall>p\<in>set ps. CHR '','' \<notin> set p \<and> trim p \<noteq> [] \<Longrightarrow> nonblank (comma_separated ps) = ps"
  by (induction ps rule: comma_separated.induct) (simp_all add: nonblank_append nonblank_last)

lemma of_char_lower: "of_char (ascii_lower c) = (if 65 \<le> (of_char c :: nat) \<and> of_char c \<le> (90 :: nat) then of_char c + 32 else of_char c :: nat)"
  by (simp add: ascii_lower_def Let_def)

text \<open>A byte that is no letter is not changed, and nothing is changed into it.\<close>

definition no_letter :: "char \<Rightarrow> bool" where
  "no_letter d \<longleftrightarrow> (let n = of_char d :: nat in n < 65 \<or> 122 < n)"

lemma lower_is:
  assumes "no_letter d"
  shows "ascii_lower c = d \<longleftrightarrow> c = d" and "d = ascii_lower c \<longleftrightarrow> c = d"
proof -
  show "ascii_lower c = d \<longleftrightarrow> c = d"
  proof
    assume "ascii_lower c = d"
    with assms of_char_lower [of c] have "(of_char c :: nat) = of_char d" by (auto simp: no_letter_def Let_def split: if_splits)
    then show "c = d" by simp
  qed (use assms in \<open>auto simp: ascii_lower_def no_letter_def Let_def\<close>)
  then show "d = ascii_lower c \<longleftrightarrow> c = d" by auto
qed

lemma map_lower_is: "\<forall>d\<in>set w. no_letter d \<Longrightarrow> map ascii_lower s = w \<longleftrightarrow> s = w"
proof (induction s arbitrary: w)
  case (Cons c s)
  then show ?case by (cases w) (auto simp: lower_is)
qed auto

lemma set_lower: "no_letter d \<Longrightarrow> d \<in> set (to_ascii_lowercase k) \<longleftrightarrow> d \<in> set k"
  by (auto simp: to_ascii_lowercase_def image_iff lower_is)

lemma begins_lower: "\<forall>w\<in>set ws. \<forall>d\<in>set w. no_letter d \<Longrightarrow> begins ws (map ascii_lower s) \<longleftrightarrow> begins ws s"
  by (simp add: begins_def list_ex_iff take_map map_lower_is)

lemma whitespace_no_letters: "\<forall>w\<in>set whitespace. \<forall>d\<in>set w. no_letter d"
  by (simp add: whitespace_def no_letter_def)

lemma trim_lower: "trim k = k \<Longrightarrow> trim (to_ascii_lowercase k) = to_ascii_lowercase k"
  using begins_lower [of whitespace k] begins_lower [of "map rev whitespace" "rev k"] whitespace_no_letters
  by (simp add: trim_iff ends_clean_def to_ascii_lowercase_def rev_map)

lemma lower_clean: "clean_pair (k, v) \<Longrightarrow> clean_pair (to_ascii_lowercase k, v)"
  by (simp add: clean_pair_def set_lower trim_lower no_letter_def) (simp add: to_ascii_lowercase_def)

text \<open>What the reading of headers establishes.\<close>

definition headers_sound :: "(string \<Rightarrow> string option) \<Rightarrow> (string \<Rightarrow> string option) \<Rightarrow> headers \<Rightarrow> bool" where
  "headers_sound check_name check_value h \<longleftrightarrow>
     (\<forall>n vs. h n = Some vs \<longrightarrow> vs \<noteq> [] \<and> to_ascii_lowercase n = n \<and> check_name n = None
        \<and> (\<forall>v\<in>set vs. clean_pair (n, v) \<and> check_value v = None))"

lemma header_append_sound:
  assumes "headers_sound cn cv h" and "clean_pair (n, v)" and "to_ascii_lowercase n = n" and "cn n = None" and "cv v = None"
  shows "headers_sound cn cv (header_append n v h)"
  using assms by (cases "h n") (auto simp: headers_sound_def header_append_def)

lemma headers_loop_sound:
  "headers_loop cn cv ps h = Inr h' \<Longrightarrow> \<forall>p\<in>set ps. CHR '','' \<notin> set p \<Longrightarrow> headers_sound cn cv h \<Longrightarrow> headers_sound cn cv h'"
proof (induction cn cv ps h rule: headers_loop.induct)
  case (2 cn cv p ps h)
  from "2.prems"(1) obtain k v where p: "parse_pair ''invalid header entry: '' p = Inr (k, v)"
    by (auto split: sum.splits)
  with "2.prems"(1) have ok: "cn (to_ascii_lowercase k) = None" "cv v = None"
    and loop: "headers_loop cn cv ps (header_append (to_ascii_lowercase k) v h) = Inr h'"
    by (auto simp: Let_def split: option.splits)
  have "clean_pair (to_ascii_lowercase k, v)" using lower_clean parse_pair_clean [OF p] "2.prems"(2) by simp
  then show ?case
    using "2.IH" [OF p refl refl ok loop] "2.prems"(2,3) ok by (simp add: header_append_sound)
qed simp

lemma headers_loop_print:
  assumes "\<forall>(n, v)\<in>set kvs. clean_pair (n, v) \<and> to_ascii_lowercase n = n \<and> cn n = None \<and> cv v = None"
  shows "headers_loop cn cv (map print_pair kvs) h = Inr (foldl (\<lambda>h (n, v). header_append n v h) h kvs)"
  using assms by (induction kvs arbitrary: h) (auto simp: parse_print Let_def)

lemma append_values:
  "vs \<noteq> [] \<Longrightarrow> foldl (\<lambda>h (n, v). header_append n v h) h (map (Pair n) vs)
     = h(n \<mapsto> (case h n of None \<Rightarrow> [] | Some us \<Rightarrow> us) @ vs)"
proof (induction vs arbitrary: h)
  case (Cons v vs)
  then show ?case by (cases "vs = []") (simp_all add: header_append_def fun_upd_def fun_eq_iff)
qed simp

lemma rebuild_headers:
  assumes "distinct ord" and "\<And>n vs. h n = Some vs \<Longrightarrow> vs \<noteq> []" and "\<And>n. n \<in> set ord \<Longrightarrow> g n = None"
  shows "foldl (\<lambda>h (n, v). header_append n v h) g (headers_iter ord h) = g ++ (h |` set ord)"
  using assms(1,3)
proof (induction ord arbitrary: g)
  case (Cons n ord)
  show ?case
  proof (cases "h n")
    case None
    with Cons show ?thesis by (auto simp: headers_iter_def map_add_def restrict_map_def fun_eq_iff)
  next
    case (Some vs)
    have "foldl (\<lambda>h (n, v). header_append n v h) (g(n \<mapsto> vs)) (headers_iter ord h) = g(n \<mapsto> vs) ++ (h |` set ord)"
      using Cons.prems by (intro Cons.IH) auto
    with Some assms(2) [OF Some] Cons.prems(2) [of n] show ?thesis
      by (simp add: headers_iter_def append_values) (use Cons.prems in \<open>auto simp: map_add_def restrict_map_def fun_eq_iff split: option.splits\<close>)
  qed
qed (simp add: headers_iter_def)

text \<open>
  Headers that were read and can be shown come back from their text form as they were, in whatever order the library lists the names: repeated names
  keep their values in order.
\<close>

lemma headers_roundtrip:
  assumes "headers_try_from cn cv s = Inr h" and "distinct ord" and "set ord = dom h" and "headers_to_string shown ord h = Some t"
  shows "headers_try_from cn cv t = Inr h"
proof -
  have sound: "headers_sound cn cv h"
    using assms(1) headers_loop_sound nonblank_pieces by (fastforce simp: headers_try_from_def headers_sound_def)
  then have each: "\<forall>(n, v)\<in>set (headers_iter ord h). clean_pair (n, v) \<and> to_ascii_lowercase n = n \<and> cn n = None \<and> cv v = None"
    by (auto simp: headers_iter_def headers_sound_def split: option.splits dest!: sym [of "Some _"])
  have t: "t = comma_separated (map print_pair (headers_iter ord h))"
    using assms(4) by (auto simp: headers_to_string_def print_pair_def split: if_splits)
  have "nonblank t = map print_pair (headers_iter ord h)"
    unfolding t using each by (intro comma_separated_nonblank) (auto dest: print_pair_piece)
  moreover have "foldl (\<lambda>h (n, v). header_append n v h) Map.empty (headers_iter ord h) = h"
    using rebuild_headers [OF assms(2), of h Map.empty] sound assms(3)
    by (auto simp: headers_sound_def restrict_map_def fun_eq_iff domIff)
  ultimately show ?thesis using headers_loop_print [OF each] by (simp add: headers_try_from_def)
qed

text \<open>Over HTTP only the last value of a repeated header is sent, over gRPC all of them.\<close>

lemma repeated_header:
  assumes "distinct ord" and "n \<in> set ord" and "h n = Some (vs @ [v])" and "\<And>w. shown w"
  shows "headers_to_map shown ord h n = Some v" and "set (map (Pair n) (vs @ [v])) \<subseteq> set (headers_iter ord h)"
proof -
  have keep: "n \<notin> set os \<Longrightarrow> foldl (\<lambda>m (n, v). m(n \<mapsto> v)) m (headers_iter os h) n = m n" for os and m :: "string \<rightharpoonup> string"
  proof (induction os arbitrary: m)
    case (Cons k os)
    have "k \<noteq> n \<Longrightarrow> foldl (\<lambda>m (n, v). m(n \<mapsto> v)) m (map (Pair k) us) n = m n" for us and m :: "string \<rightharpoonup> string"
      by (induction us arbitrary: m) auto
    with Cons show ?case by (auto simp: headers_iter_def fun_upd_def split: option.splits)
  qed (simp add: headers_iter_def)
  obtain pre post where ord: "ord = pre @ n # post" using assms(2) by (meson split_list)
  with assms(1) have "n \<notin> set post" by simp
  have iter: "headers_iter ord h = headers_iter pre h @ map (Pair n) vs @ [(n, v)] @ headers_iter post h"
    using assms(3) by (simp add: ord headers_iter_def)
  then show "headers_to_map shown ord h n = Some v"
    using keep [OF \<open>n \<notin> set post\<close>] assms(4) by (simp add: headers_to_map_def)
  show "set (map (Pair n) (vs @ [v])) \<subseteq> set (headers_iter ord h)"
    by (auto simp: iter)
qed

section \<open>Verbosity and sampling\<close>

text \<open>A level is read whatever the case of its letters and the white space around it, and nothing else is.\<close>

lemma verbosity_exact:
  "verbosity_try_from s = Inr l \<longleftrightarrow> to_ascii_lowercase (trim s) = verbosity_to_string l"
  by (cases l) (auto simp: verbosity_try_from_def Let_def to_ascii_lowercase_def)

lemma verbosity_roundtrip: "verbosity_try_from (verbosity_to_string l) = Inr l"
  unfolding verbosity_exact
proof -
  have "ends_clean (verbosity_to_string l)" by (cases l) (simp_all add: ends_clean_def begins_def whitespace_def)
  then have "trim (verbosity_to_string l) = verbosity_to_string l" by (simp add: trim_iff)
  then show "to_ascii_lowercase (trim (verbosity_to_string l)) = verbosity_to_string l"
    by (cases l) (simp_all add: to_ascii_lowercase_def ascii_lower_def)
qed

text \<open>A ratio lies between zero and one, whatever is configured; a ratio that is not a number stays one.\<close>

fun sampler_ratio :: "sampler \<Rightarrow> float option" where
  "sampler_ratio (SampleRatio r) = Some r"
| "sampler_ratio (SampleParent s) = sampler_ratio s"
| "sampler_ratio _ = None"

lemma sampler_ratio_bounds:
  "sampler_ratio (choose_sampler kind ratio) = Some r \<Longrightarrow> r = NaN \<or> \<not> flt r (Fin 0) \<and> \<not> flt (Fin 1) r"
  by (auto simp: choose_sampler_def fclamp_def flt_iff split: option.splits sampler_kind.splits if_splits)

lemma telemetry_off:
  "tracing_new build shown ord None headers protocol attrs kind ratio = Inr None"
  "logging_new build shown ord None headers protocol attrs = Inr None"
  "metrics_new build shown ord None headers protocol attrs interval = Inr None"
  "provider_shutdown shutdown None = Inr ()"
  by (simp_all add: tracing_new_def logging_new_def metrics_new_def provider_shutdown_def)

end
