(* ===== verification/Bandwidth.thy ===== *)
theory Bandwidth
  imports Telemetry Net_Utils
begin

text \<open>
  The instrumentation of transports (\<^verbatim>\<open>crates/telemetry/src/bandwidth.rs\<close>): a transport whose connections are multiplexers whose streams count the
  bytes that pass. The transport, the multiplexer and the stream inside are parameters. A counter of the metrics library is the list of the
  measurements that were added to it; all streams share it.
\<close>

section \<open>Measurements\<close>

datatype direction = Inbound | Outbound

record measurement =
  ms_direction :: direction
  ms_value :: u64
  ms_attrs :: attributes

type_synonym counters = "measurement list"

text \<open>\<^verbatim>\<open>u64::try_from(num_bytes).unwrap_or(u64::MAX)\<close>.\<close>

definition count_bytes :: "nat \<Rightarrow> u64" where
  "count_bytes n = (if n < 2 ^ 64 then of_nat n else - 1)"

text \<open>The names of the protocols of an address (\<open>stack\<close>, from the address library), as one text.\<close>

definition protocol_stack_as_string :: "string list \<Rightarrow> string" where
  "protocol_stack_as_string stack = concat (map (\<lambda>tag. ''/'' @ tag) stack)"

definition connection_metrics :: "string list \<Rightarrow> attributes" where
  "connection_metrics stack = [(''protocols'', protocol_stack_as_string stack)]"

section \<open>Streams\<close>

record 's instrumented =
  is_inner :: 's
  is_attrs :: attributes

text \<open>
  The form that all four operations share: the inner poll, and when it is ready with a result, its number of bytes is added. The state is the
  stream together with the shared counters.
\<close>

definition measured ::
    "direction \<Rightarrow> ('a \<Rightarrow> nat) \<Rightarrow> ('s \<Rightarrow> (io_error + 'a) poll \<times> 's) \<Rightarrow> 's instrumented \<times> counters
      \<Rightarrow> (io_error + 'a) poll \<times> 's instrumented \<times> counters" where
  "measured d n_of poll = (\<lambda>(s, ms).
     case poll (is_inner s) of
       (Ready (Inr x), inner) \<Rightarrow>
         (Ready (Inr x), s\<lparr>is_inner := inner\<rparr>,
          ms @ [\<lparr>ms_direction = d, ms_value = count_bytes (n_of x), ms_attrs = is_attrs s\<rparr>])
     | (y, inner) \<Rightarrow> (y, s\<lparr>is_inner := inner\<rparr>, ms))"

definition instr_poll_read :: "'s reader \<Rightarrow> ('s instrumented \<times> counters) reader" where
  "instr_poll_read rd s b = measured Inbound length (\<lambda>i. rd i b) s"

definition instr_poll_write :: "'s writer \<Rightarrow> ('s instrumented \<times> counters) writer" where
  "instr_poll_write wr s bs = measured Outbound id (\<lambda>i. wr i bs) s"

text \<open>Vectored reads fill several buffers, vectored writes take from several slices; the inner stream says how.\<close>

type_synonym 's vectored_reader = "'s \<Rightarrow> read_buf list \<Rightarrow> (io_error + byte list) poll \<times> 's"
type_synonym 's vectored_writer = "'s \<Rightarrow> byte list list \<Rightarrow> (io_error + nat) poll \<times> 's"

definition instr_poll_read_vectored ::
    "'s vectored_reader \<Rightarrow> 's instrumented \<times> counters \<Rightarrow> read_buf list
      \<Rightarrow> (io_error + byte list) poll \<times> 's instrumented \<times> counters" where
  "instr_poll_read_vectored rdv s bufs = measured Inbound length (\<lambda>i. rdv i bufs) s"

definition instr_poll_write_vectored ::
    "'s vectored_writer \<Rightarrow> 's instrumented \<times> counters \<Rightarrow> byte list list
      \<Rightarrow> (io_error + nat) poll \<times> 's instrumented \<times> counters" where
  "instr_poll_write_vectored wrv s bufs = measured Outbound id (\<lambda>i. wrv i bufs) s"

text \<open>Flushing and closing are passed on.\<close>

definition instr_poll_flush ::
    "('s \<Rightarrow> (io_error + unit) poll \<times> 's) \<Rightarrow> 's instrumented \<times> counters \<Rightarrow> (io_error + unit) poll \<times> 's instrumented \<times> counters" where
  "instr_poll_flush flush = (\<lambda>(s, ms). let (x, inner) = flush (is_inner s) in (x, s\<lparr>is_inner := inner\<rparr>, ms))"

definition instr_poll_close ::
    "('s \<Rightarrow> (io_error + unit) poll \<times> 's) \<Rightarrow> 's instrumented \<times> counters \<Rightarrow> (io_error + unit) poll \<times> 's instrumented \<times> counters" where
  "instr_poll_close close = (\<lambda>(s, ms). let (x, inner) = close (is_inner s) in (x, s\<lparr>is_inner := inner\<rparr>, ms))"

section \<open>Multiplexers and transports\<close>

record 'm muxer =
  mx_inner :: 'm
  mx_metrics :: attributes

definition muxer_new :: "'m \<Rightarrow> attributes \<Rightarrow> 'm muxer" where
  "muxer_new inner metrics = \<lparr>mx_inner = inner, mx_metrics = metrics\<rparr>"

definition muxer_poll :: "('m \<Rightarrow> ('e + 'v) poll \<times> 'm) \<Rightarrow> 'm muxer \<Rightarrow> ('e + 'v) poll \<times> 'm muxer" where
  "muxer_poll poll m = (let (x, inner) = poll (mx_inner m) in (x, m\<lparr>mx_inner := inner\<rparr>))"

text \<open>A new stream, opened by either side, gets the metrics of its connection.\<close>

definition muxer_open :: "('m \<Rightarrow> ('e + 's) poll \<times> 'm) \<Rightarrow> 'm muxer \<Rightarrow> ('e + 's instrumented) poll \<times> 'm muxer" where
  "muxer_open poll m =
     (case poll (mx_inner m) of
        (Ready (Inr s), inner) \<Rightarrow> (Ready (Inr \<lparr>is_inner = s, is_attrs = mx_metrics m\<rparr>), m\<lparr>mx_inner := inner\<rparr>)
      | (Ready (Inl e), inner) \<Rightarrow> (Ready (Inl e), m\<lparr>mx_inner := inner\<rparr>)
      | (Pending, inner) \<Rightarrow> (Pending, m\<lparr>mx_inner := inner\<rparr>)
      | (Panicked, inner) \<Rightarrow> (Panicked, m\<lparr>mx_inner := inner\<rparr>))"

definition muxer_poll_inbound :: "('m \<Rightarrow> ('e + 's) poll \<times> 'm) \<Rightarrow> 'm muxer \<Rightarrow> ('e + 's instrumented) poll \<times> 'm muxer" where
  "muxer_poll_inbound poll_inbound = muxer_open poll_inbound"

definition muxer_poll_outbound :: "('m \<Rightarrow> ('e + 's) poll \<times> 'm) \<Rightarrow> 'm muxer \<Rightarrow> ('e + 's instrumented) poll \<times> 'm muxer" where
  "muxer_poll_outbound poll_outbound = muxer_open poll_outbound"

definition muxer_poll_close :: "('m \<Rightarrow> ('e + unit) poll \<times> 'm) \<Rightarrow> 'm muxer \<Rightarrow> ('e + unit) poll \<times> 'm muxer" where
  "muxer_poll_close poll_close = muxer_poll poll_close"

text \<open>
  A future that gives a connection is what it resolves to; \<^verbatim>\<open>map_ok\<close> wraps the connection. \<open>stack\<close> gives the protocols of an address.
\<close>

definition wrap_connection :: "attributes \<Rightarrow> 'e + peer_id \<times> 'm \<Rightarrow> 'e + peer_id \<times> 'm muxer" where
  "wrap_connection metrics = map_sum id (\<lambda>(peer, m). (peer, muxer_new m metrics))"

definition transport_dial ::
    "('a \<Rightarrow> string list) \<Rightarrow> ('t \<Rightarrow> 'a \<Rightarrow> 'o \<Rightarrow> ('te + ('e + peer_id \<times> 'm)) \<times> 't) \<Rightarrow> 't \<Rightarrow> 'a \<Rightarrow> 'o
      \<Rightarrow> ('te + ('e + peer_id \<times> 'm muxer)) \<times> 't" where
  "transport_dial stack dial t addr opts =
     (let metrics = connection_metrics (stack addr); (x, t) = dial t addr opts
      in (map_sum id (wrap_connection metrics) x, t))"

definition transport_listen_on :: "('t \<Rightarrow> 'l \<Rightarrow> 'a \<Rightarrow> ('te + unit) \<times> 't) \<Rightarrow> 't \<Rightarrow> 'l \<Rightarrow> 'a \<Rightarrow> ('te + unit) \<times> 't" where
  "transport_listen_on listen_on t lid addr = listen_on t lid addr"

definition transport_remove_listener :: "('t \<Rightarrow> 'l \<Rightarrow> bool \<times> 't) \<Rightarrow> 't \<Rightarrow> 'l \<Rightarrow> bool \<times> 't" where
  "transport_remove_listener remove t lid = remove t lid"

datatype ('l, 'a, 'u, 'o) transport_event = Incoming 'l 'u 'a 'a | OtherTransportEvent 'o

definition transport_poll ::
    "('a \<Rightarrow> string list) \<Rightarrow> ('t \<Rightarrow> ('l, 'a, 'e + peer_id \<times> 'm, 'o) transport_event poll \<times> 't) \<Rightarrow> 't
      \<Rightarrow> ('l, 'a, 'e + peer_id \<times> 'm muxer, 'o) transport_event poll \<times> 't" where
  "transport_poll stack poll t =
     (case poll t of
        (Ready (Incoming lid upgrade local_addr send_back_addr), t) \<Rightarrow>
          (Ready (Incoming lid (wrap_connection (connection_metrics (stack send_back_addr)) upgrade) local_addr send_back_addr), t)
      | (Ready (OtherTransportEvent e), t) \<Rightarrow> (Ready (OtherTransportEvent e), t)
      | (Pending, t) \<Rightarrow> (Pending, t)
      | (Panicked, t) \<Rightarrow> (Panicked, t))"

text \<open>The round-trip time of a ping (\<^verbatim>\<open>rtt.rs\<close>), in milliseconds, under the name of the peer.\<close>

definition rtt_record :: "(peer_id \<Rightarrow> string) \<Rightarrow> peer_id \<Rightarrow> float \<Rightarrow> (float \<times> attributes) list \<Rightarrow> (float \<times> attributes) list" where
  "rtt_record show_peer peer secs gauge = gauge @ [(fmul F64 secs (Fin 1000), [(''peer_id'', show_peer peer)])]"

section \<open>An instrumented stream keeps the contracts of its inner stream\<close>

lemma measured_cases:
  assumes "measured d n_of poll (s, ms) = (x, s', ms')"
  obtains (result) v inner where "poll (is_inner s) = (Ready (Inr v), inner)" "x = Ready (Inr v)" "s' = s\<lparr>is_inner := inner\<rparr>"
      "ms' = ms @ [\<lparr>ms_direction = d, ms_value = count_bytes (n_of v), ms_attrs = is_attrs s\<rparr>]"
  | (other) inner where "poll (is_inner s) = (x, inner)" "\<And>v. x \<noteq> Ready (Inr v)" "s' = s\<lparr>is_inner := inner\<rparr>" "ms' = ms"
  using assms by (cases "poll (is_inner s)" rule: poll_cases) (auto simp: measured_def)

abbreviation inner_of :: "'s instrumented \<times> counters \<Rightarrow> 's" where
  "inner_of p \<equiv> is_inner (fst p)"

text \<open>What a poll gives and does to the inner stream is what the inner poll gives and does.\<close>

lemma measured_transparent: "measured d n_of poll p = (x, p') \<Longrightarrow> poll (inner_of p) = (x, inner_of p')"
  by (cases p; cases p') (auto elim: measured_cases)

lemma instr_read_transparent: "instr_poll_read rd p b = (x, p') \<Longrightarrow> rd (inner_of p) b = (x, inner_of p')"
  unfolding instr_poll_read_def by (drule measured_transparent) simp

lemma instr_write_transparent: "instr_poll_write wr p bs = (x, p') \<Longrightarrow> wr (inner_of p) bs = (x, inner_of p')"
  unfolding instr_poll_write_def by (drule measured_transparent) simp

lemma instr_flush_transparent: "instr_poll_flush flush p = (x, p') \<Longrightarrow> flush (inner_of p) = (x, inner_of p')"
  by (auto simp: instr_poll_flush_def split: prod.splits)

locale instrumented_socket = inner: socket rd source wr sent flush
  for rd :: "'s reader" and source and wr :: "'s writer" and sent and flush

sublocale instrumented_socket \<subseteq> outer: socket "instr_poll_read rd" "\<lambda>p. source (inner_of p)" "instr_poll_write wr" "\<lambda>p. sent (inner_of p)"
    "instr_poll_flush flush"
proof (unfold_locales, goal_cases)
  case (1 r b bs r')
  from inner.read_bytes [OF instr_read_transparent [OF this]] show ?case .
next
  case (2 r b r' e)
  then show ?case by (metis instr_read_transparent inner.read_other)
next
  case (3 r b r')
  from inner.read_end [OF instr_read_transparent [OF this(1)] this(2)] show ?case .
next
  case (4 w bs k w')
  from inner.write_bytes [OF instr_write_transparent [OF this]] show ?case .
next
  case (5 w bs w' e)
  then show ?case by (metis instr_write_transparent inner.write_other)
next
  case (6 w x w')
  from inner.flush_sent [OF instr_flush_transparent [OF this]] show ?case .
next
  case (7 s b x s')
  from inner.read_sent [OF instr_read_transparent [OF this]] show ?case .
next
  case (8 s bs y s')
  from inner.write_source [OF instr_write_transparent [OF this]] show ?case .
next
  case (9 s z s')
  from inner.flush_source [OF instr_flush_transparent [OF this]] show ?case .
qed

interpretation counted_script: instrumented_socket sock_read sock_source sock_write outgoing sock_flush
  by unfold_locales

section \<open>Counting\<close>

text \<open>The sum that a counter shows for a set of attributes.\<close>

definition counted :: "direction \<Rightarrow> attributes \<Rightarrow> counters \<Rightarrow> nat" where
  "counted d A ms = sum_list (map (\<lambda>m. unat (ms_value m)) (filter (\<lambda>m. ms_direction m = d \<and> ms_attrs m = A) ms))"

lemma counted_append: "counted d A (ms @ ms') = counted d A ms + counted d A ms'"
  by (simp add: counted_def)

lemma counted_single:
  "n < 2 ^ 64 \<Longrightarrow> counted d A [\<lparr>ms_direction = d', ms_value = count_bytes n, ms_attrs = B\<rparr>] = (if d = d' \<and> A = B then n else 0)"
  by (simp add: counted_def count_bytes_def unat_of_nat)

text \<open>Several streams of the same transport, polled in any order: a step polls one of them. A poll that panics ends the run.\<close>

datatype stream_op =
    ReadOp nat read_buf
  | ReadVectoredOp nat "read_buf list"
  | WriteOp nat "byte list"
  | WriteVectoredOp nat "byte list list"
  | FlushOp nat

definition put_back :: "nat \<Rightarrow> (nat \<Rightarrow> 's instrumented) \<Rightarrow> 'x poll \<times> 's instrumented \<times> counters
    \<Rightarrow> ((nat \<Rightarrow> 's instrumented) \<times> counters) option" where
  "put_back i S = (\<lambda>(x, s, ms). if x = Panicked then None else Some (S(i := s), ms))"

fun stream_step ::
    "'s reader \<Rightarrow> 's vectored_reader \<Rightarrow> 's writer \<Rightarrow> 's vectored_writer \<Rightarrow> ('s \<Rightarrow> (io_error + unit) poll \<times> 's) \<Rightarrow> stream_op \<Rightarrow> (nat \<Rightarrow> 's instrumented) \<times> counters
      \<Rightarrow> ((nat \<Rightarrow> 's instrumented) \<times> counters) option" where
  "stream_step rd rdv wr wrv flush (ReadOp i b) (S, ms) = put_back i S (instr_poll_read rd (S i, ms) b)"
| "stream_step rd rdv wr wrv flush (ReadVectoredOp i bufs) (S, ms) = put_back i S (instr_poll_read_vectored rdv (S i, ms) bufs)"
| "stream_step rd rdv wr wrv flush (WriteVectoredOp i bss) (S, ms) = put_back i S (instr_poll_write_vectored wrv (S i, ms) bss)"
| "stream_step rd rdv wr wrv flush (WriteOp i bs) (S, ms) = put_back i S (instr_poll_write wr (S i, ms) bs)"
| "stream_step rd rdv wr wrv flush (FlushOp i) (S, ms) = put_back i S (instr_poll_flush flush (S i, ms))"

fun stream_run ::
    "'s reader \<Rightarrow> 's vectored_reader \<Rightarrow> 's writer \<Rightarrow> 's vectored_writer \<Rightarrow> ('s \<Rightarrow> (io_error + unit) poll \<times> 's) \<Rightarrow> stream_op list \<Rightarrow> (nat \<Rightarrow> 's instrumented) \<times> counters
      \<Rightarrow> ((nat \<Rightarrow> 's instrumented) \<times> counters) option" where
  "stream_run rd rdv wr wrv flush [] p = Some p"
| "stream_run rd rdv wr wrv flush (op # ops) p =
     (case stream_step rd rdv wr wrv flush op p of None \<Rightarrow> None | Some p \<Rightarrow> stream_run rd rdv wr wrv flush ops p)"

text \<open>The operation is on one of the first \<open>n\<close> streams, and its buffers are ones that fit in memory.\<close>

fun op_small :: "nat \<Rightarrow> stream_op \<Rightarrow> bool" where
  "op_small n (ReadOp i b) \<longleftrightarrow> i < n \<and> room b < 2 ^ 64"
| "op_small n (ReadVectoredOp i bufs) \<longleftrightarrow> i < n \<and> sum_list (map room bufs) < 2 ^ 64"
| "op_small n (WriteOp i bs) \<longleftrightarrow> i < n \<and> length bs < 2 ^ 64"
| "op_small n (WriteVectoredOp i bss) \<longleftrightarrow> i < n \<and> length (concat bss) < 2 ^ 64"
| "op_small n (FlushOp i) \<longleftrightarrow> i < n"

text \<open>A quantity of the inner streams, summed over the streams with the given attributes.\<close>

definition over_streams :: "('s \<Rightarrow> nat) \<Rightarrow> nat \<Rightarrow> attributes \<Rightarrow> (nat \<Rightarrow> 's instrumented) \<Rightarrow> nat" where
  "over_streams q n A S = (\<Sum>i<n. if is_attrs (S i) = A then q (is_inner (S i)) else 0)"

lemma over_streams_upd:
  assumes "i < n" and "is_attrs s = is_attrs (S i)"
  shows "over_streams q n A (S(i := s)) + (if is_attrs s = A then q (is_inner (S i)) else 0)
    = over_streams q n A S + (if is_attrs s = A then q (is_inner s) else 0)"
proof -
  have "(\<Sum>j\<in>{..<n} - {i}. if is_attrs ((S(i := s)) j) = A then q (is_inner ((S(i := s)) j)) else 0)
    = (\<Sum>j\<in>{..<n} - {i}. if is_attrs (S j) = A then q (is_inner (S j)) else 0)"
    by (rule sum.cong) auto
  then show ?thesis
    using assms by (simp add: over_streams_def sum.remove [of "{..<n}" i] del: fun_upd_apply) simp
qed

definition conserved :: "('s \<Rightarrow> byte list) \<Rightarrow> ('s \<Rightarrow> byte list) \<Rightarrow> nat \<Rightarrow> (nat \<Rightarrow> 's instrumented) \<times> counters \<Rightarrow> (nat \<Rightarrow> 's instrumented) \<times> counters \<Rightarrow> bool" where
  "conserved source sent n = (\<lambda>(S, ms) (S', ms'). (\<forall>i. is_attrs (S' i) = is_attrs (S i)) \<and>
     (\<forall>A. counted Inbound A ms' + over_streams (\<lambda>s. length (source s)) n A S' = counted Inbound A ms + over_streams (\<lambda>s. length (source s)) n A S
        \<and> counted Outbound A ms' + over_streams (\<lambda>s. length (sent s)) n A S = counted Outbound A ms + over_streams (\<lambda>s. length (sent s)) n A S'))"

text \<open>
  The contract of the vectored operations: what they read comes off the front of the source and fits the buffers, what they write is the front of the slices, one after
  the other. Without an implementation of their own they are the plain operations on the first buffer that is not empty, which keeps it.
\<close>

locale vectored_socket = socket rd source wr sent flush
  for rd :: "'s reader" and source and wr :: "'s writer" and sent and flush +
  fixes rdv :: "'s vectored_reader" and wrv :: "'s vectored_writer"
  assumes rdv_bytes: "rdv s bufs = (Ready (Inr bs), s') \<Longrightarrow> source s = bs @ source s' \<and> length bs \<le> sum_list (map room bufs)"
    and rdv_other: "rdv s bufs = (x, s') \<Longrightarrow> x = Pending \<or> x = Ready (Inl e) \<Longrightarrow> source s' = source s"
    and rdv_sent: "rdv s bufs = (x, s') \<Longrightarrow> sent s' = sent s"
    and wrv_bytes: "wrv s bss = (Ready (Inr k), s') \<Longrightarrow> k \<le> length (concat bss) \<and> sent s' = sent s @ take k (concat bss)"
    and wrv_other: "wrv s bss = (y, s') \<Longrightarrow> y = Pending \<or> y = Ready (Inl e) \<Longrightarrow> sent s' = sent s"
    and wrv_source: "wrv s bss = (y, s') \<Longrightarrow> source s' = source s"

definition default_read_vectored :: "'s reader \<Rightarrow> 's vectored_reader" where
  "default_read_vectored rd s bufs = rd s (case List.find (\<lambda>b. 0 < room b) bufs of None \<Rightarrow> buf_new 0 | Some b \<Rightarrow> b)"

definition default_write_vectored :: "'s writer \<Rightarrow> 's vectored_writer" where
  "default_write_vectored wr s bss = wr s (case List.find (\<lambda>b. b \<noteq> []) bss of None \<Rightarrow> [] | Some b \<Rightarrow> b)"

lemma first_buffer:
  "room (case List.find (\<lambda>b. 0 < room b) bufs of None \<Rightarrow> buf_new 0 | Some b \<Rightarrow> b) \<le> sum_list (map room bufs)"
  by (induction bufs) (auto simp: buf_new_def split: option.splits)

lemma first_slice: "\<exists>rest. concat bss = (case List.find (\<lambda>b. b \<noteq> []) bss of None \<Rightarrow> [] | Some b \<Rightarrow> b) @ rest"
  by (induction bss) auto

context socket
begin

lemma default_vectored: "vectored_socket rd source wr sent flush (default_read_vectored rd) (default_write_vectored wr)"
proof (unfold_locales, goal_cases)
  case (1 s bufs bs s')
  then show ?case using read_bytes [OF 1 [unfolded default_read_vectored_def]] first_buffer [of bufs] by auto
next
  case (2 s bufs x s' e)
  then show ?case using read_other unfolding default_read_vectored_def by metis
next
  case (3 s bufs x s')
  then show ?case using read_sent unfolding default_read_vectored_def by metis
next
  case (4 s bss k s')
  obtain rest where "concat bss = (case List.find (\<lambda>b. b \<noteq> []) bss of None \<Rightarrow> [] | Some b \<Rightarrow> b) @ rest" using first_slice by blast
  then show ?case using write_bytes [OF 4 [unfolded default_write_vectored_def]] by auto
next
  case (5 s bss y s' e)
  then show ?case using write_other unfolding default_write_vectored_def by metis
next
  case (6 s bss y s')
  then show ?case using write_source unfolding default_write_vectored_def by metis
qed

lemma conserved_trans: "conserved source sent n p p' \<Longrightarrow> conserved source sent n p' p'' \<Longrightarrow> conserved source sent n p p''"
proof (cases p; cases p'; cases p'')
  fix S ms S' ms' S'' ms''
  assume p: "p = (S, ms)" "p' = (S', ms')" "p'' = (S'', ms'')" and *: "conserved source sent n p p'" "conserved source sent n p' p''"
  show ?thesis
    unfolding p conserved_def prod.case
  proof (intro conjI allI)
    fix A
    note A = *[unfolded p conserved_def prod.case, THEN conjunct2, THEN spec [of _ A]]
    show "counted Inbound A ms'' + over_streams (\<lambda>s. length (source s)) n A S'' = counted Inbound A ms + over_streams (\<lambda>s. length (source s)) n A S"
      "counted Outbound A ms'' + over_streams (\<lambda>s. length (sent s)) n A S = counted Outbound A ms + over_streams (\<lambda>s. length (sent s)) n A S''"
      using A by linarith+
  qed (use * p in \<open>simp add: conserved_def\<close>)
qed

lemma conserved_upd:
  assumes "i < n" and "is_attrs s = is_attrs (S i)"
    and "\<And>A. counted Inbound A new + (if is_attrs s = A then length (source (is_inner s)) else 0) = (if is_attrs s = A then length (source (is_inner (S i))) else 0)"
    and "\<And>A. counted Outbound A new + (if is_attrs s = A then length (sent (is_inner (S i))) else 0) = (if is_attrs s = A then length (sent (is_inner s)) else 0)"
  shows "conserved source sent n (S, ms) (S(i := s), ms @ new)"
  unfolding conserved_def prod.case counted_append
proof (intro conjI allI)
  fix A
  show "counted Inbound A ms + counted Inbound A new + over_streams (\<lambda>s. length (source s)) n A (S(i := s)) =
      counted Inbound A ms + over_streams (\<lambda>s. length (source s)) n A S"
    using over_streams_upd [of i n s S, OF assms(1,2), where q = "\<lambda>s. length (source s)" and A = A] assms(3) [of A] by linarith
  show "counted Outbound A ms + counted Outbound A new + over_streams (\<lambda>s. length (sent s)) n A S =
      counted Outbound A ms + over_streams (\<lambda>s. length (sent s)) n A (S(i := s))"
    using over_streams_upd [of i n s S, OF assms(1,2), where q = "\<lambda>s. length (sent s)" and A = A] assms(4) [of A] by linarith
qed (use assms(2) in auto)

lemma conserved_same:
  assumes "i < n" and "source inner = source (is_inner (S i))" and "sent inner = sent (is_inner (S i))"
  shows "conserved source sent n (S, ms) (S(i := (S i)\<lparr>is_inner := inner\<rparr>), ms)"
  using conserved_upd [of i n "(S i)\<lparr>is_inner := inner\<rparr>" S "[]" ms] assms by (simp add: counted_def)

lemma other_poll:
  "rd s b = (x, s') \<Longrightarrow> x \<noteq> Panicked \<Longrightarrow> (\<And>v. x \<noteq> Ready (Inr v)) \<Longrightarrow> source s' = source s"
  "wr s bs = (y, s') \<Longrightarrow> y \<noteq> Panicked \<Longrightarrow> (\<And>v. y \<noteq> Ready (Inr v)) \<Longrightarrow> sent s' = sent s"
  by (metis poll.exhaust sum.exhaust read_other) (metis poll.exhaust sum.exhaust write_other)

end

context vectored_socket
begin

lemma other_vectored:
  "rdv s bufs = (x, s') \<Longrightarrow> x \<noteq> Panicked \<Longrightarrow> (\<And>v. x \<noteq> Ready (Inr v)) \<Longrightarrow> source s' = source s"
  "wrv s bss = (y, s') \<Longrightarrow> y \<noteq> Panicked \<Longrightarrow> (\<And>v. y \<noteq> Ready (Inr v)) \<Longrightarrow> sent s' = sent s"
  by (metis poll.exhaust sum.exhaust rdv_other) (metis poll.exhaust sum.exhaust wrv_other)

text \<open>A measured read and a measured write of any form.\<close>

lemma measured_read_conserved:
  assumes "measured Inbound length poll (S i, ms) = (x, s, ms')" and "x \<noteq> Panicked" and "i < n" and "m < 2 ^ 64"
    and "\<And>u bs u'. poll u = (Ready (Inr bs), u') \<Longrightarrow> source u = bs @ source u' \<and> length bs \<le> m"
    and "\<And>u y u'. poll u = (y, u') \<Longrightarrow> y \<noteq> Panicked \<Longrightarrow> (\<And>v. y \<noteq> Ready (Inr v)) \<Longrightarrow> source u' = source u"
    and "\<And>u y u'. poll u = (y, u') \<Longrightarrow> sent u' = sent u"
  shows "conserved source sent n (S, ms) (S(i := s), ms')"
  using assms(1)
proof (cases rule: measured_cases)
  case (result bs inner)
  have "source (is_inner (S i)) = bs @ source inner" "length bs < 2 ^ 64" "sent inner = sent (is_inner (S i))"
    using assms(5,7) [OF result(1)] assms(4) by simp_all
  then show ?thesis unfolding result(4) by (intro conserved_upd assms(3)) (auto simp: result(3) counted_single)
next
  case (other inner)
  with assms(6) [OF other(1) assms(2) other(2)] assms(7) [OF other(1)] show ?thesis by (simp add: conserved_same assms(3))
qed

lemma measured_write_conserved:
  assumes "measured Outbound id poll (S i, ms) = (x, s, ms')" and "x \<noteq> Panicked" and "i < n" and "length bs < 2 ^ 64"
    and "\<And>u k u'. poll u = (Ready (Inr k), u') \<Longrightarrow> k \<le> length bs \<and> sent u' = sent u @ take k bs"
    and "\<And>u y u'. poll u = (y, u') \<Longrightarrow> y \<noteq> Panicked \<Longrightarrow> (\<And>v. y \<noteq> Ready (Inr v)) \<Longrightarrow> sent u' = sent u"
    and "\<And>u y u'. poll u = (y, u') \<Longrightarrow> source u' = source u"
  shows "conserved source sent n (S, ms) (S(i := s), ms')"
  using assms(1)
proof (cases rule: measured_cases)
  case (result k inner)
  have "sent inner = sent (is_inner (S i)) @ take k bs" "k \<le> length bs" "k < 2 ^ 64" "source inner = source (is_inner (S i))"
    using assms(5,7) [OF result(1)] assms(4) by simp_all
  then show ?thesis unfolding result(4) by (intro conserved_upd assms(3)) (auto simp: result(3) counted_single)
next
  case (other inner)
  with assms(6) [OF other(1) assms(2) other(2)] assms(7) [OF other(1)] show ?thesis by (simp add: conserved_same assms(3))
qed

lemma stream_step_conserved:
  assumes "stream_step rd rdv wr wrv flush op p = Some p'" and "op_small n op"
  shows "conserved source sent n p p'"
proof (cases p)
  case (Pair S ms)
  show ?thesis
  proof (cases op)
    case (ReadOp i b)
    with assms Pair obtain x s ms' where r: "measured Inbound length (\<lambda>u. rd u b) (S i, ms) = (x, s, ms')" and x: "x \<noteq> Panicked" and p': "p' = (S(i := s), ms')"
      by (auto simp: put_back_def instr_poll_read_def split: if_splits prod.splits)
    show ?thesis unfolding Pair p'
      by (rule measured_read_conserved [where S = S and i = i and n = n, OF r x, of "room b"])
        (use assms(2) ReadOp in \<open>auto dest: read_bytes read_sent other_poll(1)\<close>)
  next
    case (ReadVectoredOp i bufs)
    with assms Pair obtain x s ms' where r: "measured Inbound length (\<lambda>u. rdv u bufs) (S i, ms) = (x, s, ms')" and x: "x \<noteq> Panicked" and p': "p' = (S(i := s), ms')"
      by (auto simp: put_back_def instr_poll_read_vectored_def split: if_splits prod.splits)
    show ?thesis unfolding Pair p'
      by (rule measured_read_conserved [where S = S and i = i and n = n, OF r x, of "sum_list (map room bufs)"])
        (use assms(2) ReadVectoredOp in \<open>auto dest: rdv_bytes rdv_sent other_vectored(1)\<close>)
  next
    case (WriteOp i bs)
    with assms Pair obtain x s ms' where r: "measured Outbound id (\<lambda>u. wr u bs) (S i, ms) = (x, s, ms')" and x: "x \<noteq> Panicked" and p': "p' = (S(i := s), ms')"
      by (auto simp: put_back_def instr_poll_write_def split: if_splits prod.splits)
    show ?thesis unfolding Pair p'
      by (rule measured_write_conserved [where S = S and i = i and n = n, OF r x, of bs])
        (use assms(2) WriteOp in \<open>auto dest: write_bytes write_source other_poll(2)\<close>)
  next
    case (WriteVectoredOp i bss)
    with assms Pair obtain x s ms' where r: "measured Outbound id (\<lambda>u. wrv u bss) (S i, ms) = (x, s, ms')" and x: "x \<noteq> Panicked" and p': "p' = (S(i := s), ms')"
      by (auto simp: put_back_def instr_poll_write_vectored_def split: if_splits prod.splits)
    show ?thesis unfolding Pair p'
      by (rule measured_write_conserved [where S = S and i = i and n = n, OF r x, of "concat bss"])
        (use assms(2) WriteVectoredOp in \<open>auto dest: wrv_bytes wrv_source other_vectored(2)\<close>)
  next
    case (FlushOp i)
    with assms Pair obtain x inner where f: "flush (is_inner (S i)) = (x, inner)" and p': "p' = (S(i := (S i)\<lparr>is_inner := inner\<rparr>), ms)"
      by (auto simp: put_back_def instr_poll_flush_def split: if_splits prod.splits)
    with flush_sent [OF f] flush_source [OF f] assms(2) FlushOp show ?thesis by (simp add: Pair conserved_same)
  qed
qed

lemma stream_run_conserved:
  "stream_run rd rdv wr wrv flush ops p = Some p' \<Longrightarrow> \<forall>op\<in>set ops. op_small n op \<Longrightarrow> conserved source sent n p p'"
proof (induction ops arbitrary: p)
  case (Cons op ops)
  then show ?case by (auto split: option.splits intro: conserved_trans stream_step_conserved)
qed (auto simp: conserved_def)

end

interpretation script_vectored: vectored_socket sock_read sock_source sock_write outgoing sock_flush
    "default_read_vectored sock_read" "default_write_vectored sock_write"
  by (rule script.default_vectored)

text \<open>
  C40. The counters are exact, for every transport and however the streams are interleaved: with sockets that keep their contract, for plain and vectored reads and writes, for every set of
  attributes what the inbound counter gains is what the streams of these attributes have handed to their readers, and what the outbound counter gains is what
  they have taken from their writers. Polls that fail or are not ready count nothing, and no stream is counted under the attributes of another.
\<close>

theorem bandwidth_exact:
  assumes "vectored_socket rd source wr sent flush rdv wrv" and "stream_run rd rdv wr wrv flush ops (S, ms) = Some (S', ms')" and "\<forall>op\<in>set ops. op_small n op"
  shows "counted Inbound A ms' + over_streams (\<lambda>s. length (source s)) n A S' = counted Inbound A ms + over_streams (\<lambda>s. length (source s)) n A S
    \<and> counted Outbound A ms' + over_streams (\<lambda>s. length (sent s)) n A S = counted Outbound A ms + over_streams (\<lambda>s. length (sent s)) n A S'
    \<and> is_attrs (S' i) = is_attrs (S i)"
  using vectored_socket.stream_run_conserved [OF assms] by (simp add: conserved_def)

definition demo_streams :: "nat \<Rightarrow> sock instrumented" where
  "demo_streams i = \<lparr>is_inner = \<lparr>incoming = [Ready (Inr [1, 2, 3]), Pending, Ready (Inr [4])], takes = [0, 2], outgoing = []\<rparr>,
     is_attrs = connection_metrics (if i = 0 then [''ip4'', ''tcp''] else [''ip4'', ''udp'', ''quic-v1''])\<rparr>"

definition demo_ops :: "stream_op list" where
  "demo_ops = [ReadOp 0 (buf_new 2), WriteOp 1 [7, 8, 9], ReadOp 1 (buf_new 5), WriteOp 1 [7, 8, 9], ReadVectoredOp 0 [buf_new 0, buf_new 2], ReadOp 0 (buf_new 2), WriteVectoredOp 0 [[], [5]], FlushOp 1]"

lemmas demo_stream_simps = default_read_vectored_def default_write_vectored_def instr_poll_read_vectored_def instr_poll_write_vectored_def demo_streams_def demo_ops_def put_back_def instr_poll_read_def instr_poll_write_def instr_poll_flush_def measured_def
  sock_read_def sock_write_def sock_flush_def count_bytes_def

lemma demo_stream_run:
  "\<exists>S' ms'. stream_run sock_read (default_read_vectored sock_read) sock_write (default_write_vectored sock_write) sock_flush demo_ops (demo_streams, []) = Some (S', ms')
    \<and> counted Inbound (connection_metrics [''ip4'', ''tcp'']) ms' = 3
    \<and> over_streams (\<lambda>s. length (sock_source s)) 2 (connection_metrics [''ip4'', ''tcp'']) S' = 1"
  by (simp add: demo_stream_simps counted_def over_streams_def sock_source_def connection_metrics_def protocol_stack_as_string_def
      lessThan_nat_numeral)

theorem bandwidth_exact_witness:
  "\<exists>S' ms'. stream_run sock_read (default_read_vectored sock_read) sock_write (default_write_vectored sock_write) sock_flush demo_ops (demo_streams, []) = Some (S', ms')
    \<and> counted Inbound (connection_metrics [''ip4'', ''tcp'']) ms' = 3
    \<and> 3 + over_streams (\<lambda>s. length (sock_source s)) 2 (connection_metrics [''ip4'', ''tcp'']) S'
        = over_streams (\<lambda>s. length (sock_source s)) 2 (connection_metrics [''ip4'', ''tcp'']) demo_streams"
proof -
  obtain S' ms' where r: "stream_run sock_read (default_read_vectored sock_read) sock_write (default_write_vectored sock_write) sock_flush demo_ops (demo_streams, []) = Some (S', ms')"
    and c: "counted Inbound (connection_metrics [''ip4'', ''tcp'']) ms' = 3" using demo_stream_run by blast
  have small: "\<forall>op\<in>set demo_ops. op_small 2 op" by (simp add: demo_ops_def)
  from bandwidth_exact [OF script_vectored.vectored_socket_axioms r small, of "connection_metrics [''ip4'', ''tcp'']" 0] r c show ?thesis
    by (auto simp: counted_def)
qed

end
