(* ===== verification/Net_Handlers.thy ===== *)
theory Net_Handlers
  imports Net_Drivers "HOL-Library.Multiset"
begin

text \<open>
  The handlers of requests (\<^verbatim>\<open>HandlerBuilder\<close>, \<^verbatim>\<open>HandlerStream\<close> and \<^verbatim>\<open>respond_with_concurrent\<close> of
  \<^verbatim>\<open>crates/network/src/request_response.rs\<close>), composed with the driver that hands requests to them and takes their responses. Everything that runs on its
  own is a step: the driver, the tasks that put requests into channels, the streams, the futures of the handlers. A channel of a handler
  is the position of its stream.
\<close>

section \<open>Builders and streams\<close>

record 'q handler_builder =
  hb_matcher :: "'q \<Rightarrow> bool"
  hb_buffer_size :: nat

definition DEFAULT_HANDLER_BUFFER :: nat where
  "DEFAULT_HANDLER_BUFFER = 512"

definition on_pattern :: "('q \<Rightarrow> bool) \<Rightarrow> 'q handler_builder" where
  "on_pattern pattern = \<lparr>hb_matcher = pattern, hb_buffer_size = DEFAULT_HANDLER_BUFFER\<rparr>"

definition buffer_size :: "nat \<Rightarrow> 'q handler_builder \<Rightarrow> 'q handler_builder" where
  "buffer_size n b = b\<lparr>hb_buffer_size := n\<rparr>"

text \<open>A future of a handler: its request, and once it has responded, the channel on which the response will be confirmed.\<close>

type_synonym 'q handler_future = "'q inbound_request \<times> chan option"

record 'q handler_stream =
  hs_id :: handler_id
  hs_capacity :: nat
  hs_queue :: "'q inbound_request list"
  hs_running :: "'q handler_future list"
  hs_limit :: "nat option"

text \<open>
  The driver with the channel of its actions, the counters for identifiers and confirmations, the tasks that are still sending, and the streams, where \<open>None\<close> is
  one that was dropped. The last three fields record the patterns of the streams, the response channels of the
  requests that arrived, and those of the requests that were given up, with the reason.
\<close>

datatype lost_reason = NotMatched | StreamGone | PeerGone

record ('q, 'r) handlers =
  hd_driver :: "('q, 'r) requester"
  hd_actions :: "('q, 'r) rr_action list"
  hd_counter :: u64
  hd_next_tx :: chan
  hd_tasks :: "(chan \<times> 'q inbound_request) list"
  hd_streams :: "'q handler_stream option list"
  hd_patterns :: "('q \<Rightarrow> bool) list"
  hd_arrived :: "nat list"
  hd_lost :: "(lost_reason \<times> nat) list"

definition handlers_new :: "u64 \<Rightarrow> ('q, 'r) handlers" where
  "handlers_new counter = \<lparr>hd_driver = requester_new, hd_actions = [], hd_counter = counter, hd_next_tx = 0, hd_tasks = [], hd_streams = [],
     hd_patterns = [], hd_arrived = [], hd_lost = []\<rparr>"

section \<open>Operations\<close>

definition register_handler :: "'q handler_builder \<Rightarrow> nat option \<Rightarrow> ('q, 'r) handlers \<Rightarrow> ('q, 'r) handlers" where
  "register_handler b limit w =
     (let (hid, counter) = handler_id_new (hd_counter w)
      in w\<lparr>hd_counter := counter, hd_actions := hd_actions w @ [RegisterHandler hid (hb_matcher b) (length (hd_streams w))],
           hd_streams := hd_streams w @ [Some \<lparr>hs_id = hid, hs_capacity = hb_buffer_size b, hs_queue = [], hs_running = [], hs_limit = limit\<rparr>],
           hd_patterns := hd_patterns w @ [hb_matcher b]\<rparr>)"

text \<open>A channel without room panics when it is made, before anything is registered: \<open>None\<close>.\<close>

definition into_stream :: "'q handler_builder \<Rightarrow> nat option \<Rightarrow> ('q, 'r) handlers \<Rightarrow> ('q, 'r) handlers option" where
  "into_stream b limit w = (if hb_buffer_size b = 0 then None else Some (register_handler b limit w))"

text \<open>The driver takes its next action; a response whose channel the library finds closed is given up.\<close>

fun driver_acts :: "outbound_id \<Rightarrow> bool \<Rightarrow> ('q, 'r) handlers \<Rightarrow> ('q, 'r) handlers option" where
  "driver_acts oid up w =
     (case hd_actions w of
        [] \<Rightarrow> None
      | a # as \<Rightarrow>
          Some (w\<lparr>hd_actions := as, hd_driver := process_request_response_action oid up a (hd_driver w),
                 hd_lost := hd_lost w @ (case a of OutboundResponse _ channel _ _ \<Rightarrow> if up then [] else [(PeerGone, channel)] | _ \<Rightarrow> [])\<rparr>))"

text \<open>The driver handles an event; the tasks it has spawned for a request start with what was handed to them.\<close>

definition driver_hears :: "('q, 'r) rr_event \<Rightarrow> ('q, 'r) handlers \<Rightarrow> ('q, 'r) handlers" where
  "driver_hears e w =
     (let d = process_request_response_event e (hd_driver w); spawned = drop (length (rr_handed (hd_driver w))) (rr_handed d)
      in w\<lparr>hd_driver := d, hd_tasks := hd_tasks w @ spawned,
           hd_arrived := hd_arrived w @ (case e of MessageRequest _ _ _ channel \<Rightarrow> [channel] | _ \<Rightarrow> []),
           hd_lost := hd_lost w @ (case e of MessageRequest _ _ _ channel \<Rightarrow> if spawned = [] then [(NotMatched, channel)] else [] | _ \<Rightarrow> [])\<rparr>)"

definition remove_nth :: "nat \<Rightarrow> 'a list \<Rightarrow> 'a list" where
  "remove_nth i xs = take i xs @ drop (Suc i) xs"

text \<open>A task sends: it waits while the channel is full, and gives up when the stream is gone.\<close>

definition task_sends :: "nat \<Rightarrow> ('q, 'r) handlers \<Rightarrow> ('q, 'r) handlers option" where
  "task_sends i w =
     (if i \<ge> length (hd_tasks w) then None
      else let (c, r) = hd_tasks w ! i
           in if c \<ge> length (hd_streams w) then None
              else case hd_streams w ! c of
                     None \<Rightarrow> Some (w\<lparr>hd_tasks := remove_nth i (hd_tasks w), hd_lost := hd_lost w @ [(StreamGone, in_channel r)]\<rparr>)
                   | Some s \<Rightarrow>
                       if length (hs_queue s) < hs_capacity s
                       then Some (w\<lparr>hd_tasks := remove_nth i (hd_tasks w),
                                   hd_streams := (hd_streams w)[c := Some (s\<lparr>hs_queue := hs_queue s @ [r]\<rparr>)]\<rparr>)
                       else None)"

text \<open>\<^verbatim>\<open>poll_next\<close> of the stream.\<close>

fun stream_poll_next :: "'q handler_stream \<Rightarrow> 'q inbound_request option \<times> 'q handler_stream" where
  "stream_poll_next s = (case hs_queue s of [] \<Rightarrow> (None, s) | r # rs \<Rightarrow> (Some r, s\<lparr>hs_queue := rs\<rparr>))"

text \<open>\<^verbatim>\<open>respond_with_concurrent\<close>: a request that the stream yields becomes a future, as long as there are fewer than the limit; a limit of zero is none.\<close>

definition has_slot :: "'q handler_stream \<Rightarrow> bool" where
  "has_slot s \<longleftrightarrow> (case hs_limit s of None \<Rightarrow> True | Some n \<Rightarrow> n = 0 \<or> length (hs_running s) < n)"

definition stream_of :: "chan \<Rightarrow> ('q, 'r) handlers \<Rightarrow> 'q handler_stream option" where
  "stream_of c w = (if c < length (hd_streams w) then hd_streams w ! c else None)"

definition stream_polled :: "chan \<Rightarrow> ('q, 'r) handlers \<Rightarrow> ('q, 'r) handlers option" where
  "stream_polled c w =
     (case stream_of c w of
        None \<Rightarrow> None
      | Some s \<Rightarrow>
          if has_slot s
          then (case stream_poll_next s of
                  (Some r, s) \<Rightarrow> Some (w\<lparr>hd_streams := (hd_streams w)[c := Some (s\<lparr>hs_running := hs_running s @ [(r, None)]\<rparr>)]\<rparr>)
                | (None, _) \<Rightarrow> None)
          else None)"

text \<open>The handler of a future is done, and the response goes to the driver.\<close>

definition handler_done :: "chan \<Rightarrow> nat \<Rightarrow> 'r \<Rightarrow> ('q, 'r) handlers \<Rightarrow> ('q, 'r) handlers option" where
  "handler_done c i response w =
     (case stream_of c w of
        None \<Rightarrow> None
      | Some s \<Rightarrow>
          if i < length (hs_running s) \<and> snd (hs_running s ! i) = None
          then let r = fst (hs_running s ! i); tx = hd_next_tx w
               in Some (w\<lparr>hd_next_tx := tx + 1, hd_actions := hd_actions w @ [OutboundResponse (in_request_id r) (in_channel r) response tx],
                         hd_streams := (hd_streams w)[c := Some (s\<lparr>hs_running := (hs_running s)[i := (r, Some tx)]\<rparr>)]\<rparr>)
          else None)"

text \<open>The response was confirmed, as sent or as failed; the future ends.\<close>

definition response_confirmed :: "chan \<Rightarrow> nat \<Rightarrow> ('q, 'r) handlers \<Rightarrow> ('q, 'r) handlers option" where
  "response_confirmed c i w =
     (case stream_of c w of
        None \<Rightarrow> None
      | Some s \<Rightarrow>
          if i < length (hs_running s)
          then (case snd (hs_running s ! i) of
                  Some tx \<Rightarrow>
                    if tx \<in> fst ` set (rr_confirmed (hd_driver w))
                    then Some (w\<lparr>hd_streams := (hd_streams w)[c := Some (s\<lparr>hs_running := remove_nth i (hs_running s)\<rparr>)]\<rparr>) else None
                | None \<Rightarrow> None)
          else None)"

text \<open>
  The stream is dropped, with what is in its channel and with the futures of its handlers. The handler is unregistered with \<^verbatim>\<open>try_send\<close>, which fails when the channel
  of the driver has no room.
\<close>

definition still_open :: "'q handler_stream \<Rightarrow> nat list" where
  "still_open s = map in_channel (hs_queue s) @ map (\<lambda>(r, _). in_channel r) (filter (\<lambda>(_, tx). tx = None) (hs_running s))"

definition drop_stream :: "chan \<Rightarrow> bool \<Rightarrow> ('q, 'r) handlers \<Rightarrow> ('q, 'r) handlers option" where
  "drop_stream c fits w =
     (case stream_of c w of
        None \<Rightarrow> None
      | Some s \<Rightarrow>
          Some (w\<lparr>hd_streams := (hd_streams w)[c := None], hd_actions := hd_actions w @ (if fits then [UnregisterHandler (hs_id s)] else []),
                 hd_lost := hd_lost w @ map (Pair StreamGone) (still_open s)\<rparr>))"

section \<open>Runs\<close>

datatype ('q, 'r) handler_step =
    Registered "'q handler_builder" "nat option"
  | Requested peer_id 'q
  | DriverActs outbound_id bool
  | DriverHears "('q, 'r) rr_event"
  | TaskSends nat
  | StreamPolled chan
  | HandlerDone chan nat 'r
  | Confirmed chan nat
  | StreamDropped chan bool

fun handler_turn :: "('q, 'r) handler_step \<Rightarrow> ('q, 'r) handlers \<Rightarrow> ('q, 'r) handlers option" where
  "handler_turn (Registered b limit) w = into_stream b limit w"
| "handler_turn (Requested peer q) w =
     Some (w\<lparr>hd_next_tx := hd_next_tx w + 1, hd_actions := hd_actions w @ [OutboundRequest peer q (hd_next_tx w)]\<rparr>)"
| "handler_turn (DriverActs oid up) w = driver_acts oid up w"
| "handler_turn (DriverHears e) w = Some (driver_hears e w)"
| "handler_turn (TaskSends i) w = task_sends i w"
| "handler_turn (StreamPolled c) w = stream_polled c w"
| "handler_turn (HandlerDone c i response) w = handler_done c i response w"
| "handler_turn (Confirmed c i) w = response_confirmed c i w"
| "handler_turn (StreamDropped c fits) w = drop_stream c fits w"

inductive serves :: "('q, 'r) handlers \<Rightarrow> bool" where
  serves_new: "serves (handlers_new counter)"
| serves_turn: "serves w \<Longrightarrow> handler_turn x w = Some w' \<Longrightarrow> serves w'"

fun handler_run :: "('q, 'r) handler_step list \<Rightarrow> ('q, 'r) handlers \<Rightarrow> ('q, 'r) handlers option" where
  "handler_run [] w = Some w"
| "handler_run (x # xs) w = (case handler_turn x w of None \<Rightarrow> None | Some w \<Rightarrow> handler_run xs w)"

lemma handler_run_serves: "serves w \<Longrightarrow> handler_run xs w = Some w' \<Longrightarrow> serves w'"
  by (induction xs arbitrary: w) (auto split: option.splits intro: serves_turn)

section \<open>Where the requests are\<close>

text \<open>The response channels of the requests in a stream, and of the responses on their way to the driver.\<close>

definition held_by :: "'q handler_stream option \<Rightarrow> nat list" where
  "held_by x = (case x of None \<Rightarrow> [] | Some s \<Rightarrow> still_open s)"

fun responding :: "('q, 'r) rr_action \<Rightarrow> nat list" where
  "responding (OutboundResponse _ channel _ _) = [channel]"
| "responding _ = []"

definition in_tasks :: "('q, 'r) handlers \<Rightarrow> nat list" where
  "in_tasks w = map (\<lambda>(_, r). in_channel r) (hd_tasks w)"

definition in_streams :: "('q, 'r) handlers \<Rightarrow> nat list" where
  "in_streams w = concat (map held_by (hd_streams w))"

definition in_actions :: "('q, 'r) handlers \<Rightarrow> nat list" where
  "in_actions w = concat (map responding (hd_actions w))"

definition responded :: "('q, 'r) handlers \<Rightarrow> nat list" where
  "responded w = map fst (rr_responses (hd_driver w))"

lemmas places = in_tasks_def in_streams_def in_actions_def responded_def

definition all_accounted :: "('q, 'r) handlers \<Rightarrow> bool" where
  "all_accounted w \<longleftrightarrow> mset (hd_arrived w) =
     mset (in_tasks w) + mset (in_streams w) + mset (in_actions w) + mset (responded w) + mset (map snd (hd_lost w))"

lemma mset_remove_nth: "i < length xs \<Longrightarrow> add_mset (xs ! i) (mset (remove_nth i xs)) = mset xs"
  unfolding remove_nth_def by (metis id_take_nth_drop mset_append mset.simps(2) union_mset_add_mset_right)

lemma mset_remove_nth_map:
  "i < length xs \<Longrightarrow> mset (map f xs) = add_mset (f (xs ! i)) (mset (map f (remove_nth i xs)))"
  using mset_remove_nth [of i xs] by (metis mset_map image_mset_add_mset)

lemma set_remove_nth: "set (remove_nth i xs) \<subseteq> set xs"
  by (auto simp: remove_nth_def dest: in_set_takeD in_set_dropD)

lemma concat_update:
  "c < length xs \<Longrightarrow> mset (concat (map f (xs[c := x]))) + mset (f (xs ! c)) = mset (concat (map f xs)) + mset (f x)"
proof (induction xs arbitrary: c)
  case (Cons y ys)
  then show ?case by (cases c) (auto simp: ac_simps)
qed simp

lemma streams_update:
  assumes "stream_of c w = Some s"
  shows "mset (concat (map held_by ((hd_streams w)[c := x]))) + mset (still_open s) = mset (concat (map held_by (hd_streams w))) + mset (held_by x)"
  using assms concat_update [of c "hd_streams w" held_by x] by (auto simp: stream_of_def held_by_def split: if_splits)

lemma accounted_acts: "all_accounted w \<Longrightarrow> driver_acts oid up w = Some w' \<Longrightarrow> all_accounted w'"
proof -
  assume w: "all_accounted w" and "driver_acts oid up w = Some w'"
  then obtain a as where a: "hd_actions w = a # as" by (cases "hd_actions w") auto
  with w \<open>driver_acts oid up w = Some w'\<close> show "all_accounted w'"
    by (cases a) (auto simp: all_accounted_def places)
qed

lemma accounted_hears: "all_accounted w \<Longrightarrow> all_accounted (driver_hears e w)"
  by (cases e) (auto simp: all_accounted_def places driver_hears_def Let_def split: option.splits)

lemma accounted_task:
  assumes "all_accounted w" and "task_sends i w = Some w'"
  shows "all_accounted w'"
proof -
  obtain c r where t: "hd_tasks w ! i = (c, r)" and i: "i < length (hd_tasks w)" and c: "c < length (hd_streams w)"
    using assms(2) by (auto simp: task_sends_def Let_def split: if_splits prod.splits)
  note tasks = mset_remove_nth_map [OF i, where f = "\<lambda>(_, r). in_channel r"]
  show ?thesis
  proof (cases "hd_streams w ! c")
    case None
    with assms t i c tasks show ?thesis by (auto simp: task_sends_def all_accounted_def places)
  next
    case (Some s)
    then have "stream_of c w = Some s" using c by (simp add: stream_of_def)
    from streams_update [OF this, of "Some (s\<lparr>hs_queue := hs_queue s @ [r]\<rparr>)"]
    have "mset (concat (map held_by ((hd_streams w)[c := Some (s\<lparr>hs_queue := hs_queue s @ [r]\<rparr>)])))
        = add_mset (in_channel r) (mset (concat (map held_by (hd_streams w))))"
      by (simp add: held_by_def still_open_def)
    with assms t i c Some tasks show ?thesis by (auto simp: task_sends_def all_accounted_def places split: if_splits)
  qed
qed

lemma accounted_same_streams:
  assumes "all_accounted w" and "stream_of c w = Some s" and "mset (still_open s') = mset (still_open s)"
  shows "all_accounted (w\<lparr>hd_streams := (hd_streams w)[c := Some s']\<rparr>)"
proof -
  have "mset (concat (map held_by ((hd_streams w)[c := Some s']))) = mset (concat (map held_by (hd_streams w)))"
    using streams_update [OF assms(2), of "Some s'"] assms(3) by (simp add: held_by_def)
  with assms(1) show ?thesis by (simp add: all_accounted_def places)
qed

lemma accounted_polled: "all_accounted w \<Longrightarrow> stream_polled c w = Some w' \<Longrightarrow> all_accounted w'"
  by (auto simp: stream_polled_def still_open_def intro!: accounted_same_streams split: option.splits if_splits list.splits prod.splits)

lemma accounted_confirmed: "all_accounted w \<Longrightarrow> response_confirmed c i w = Some w' \<Longrightarrow> all_accounted w'"
proof -
  assume w: "all_accounted w" and r: "response_confirmed c i w = Some w'"
  then obtain s tx where s: "stream_of c w = Some s" "i < length (hs_running s)" "snd (hs_running s ! i) = Some tx"
      "w' = w\<lparr>hd_streams := (hd_streams w)[c := Some (s\<lparr>hs_running := remove_nth i (hs_running s)\<rparr>)]\<rparr>"
    by (auto simp: response_confirmed_def split: option.splits if_splits)
  have "filter (\<lambda>(_, tx). tx = None) (remove_nth i (hs_running s)) = filter (\<lambda>(_, tx). tx = None) (hs_running s)"
    using s(2,3) by (subst (2) id_take_nth_drop [of i "hs_running s"]) (auto simp: remove_nth_def split: prod.splits)
  with w s show "all_accounted w'" by (auto intro!: accounted_same_streams simp: still_open_def)
qed

lemma open_update:
  "i < length xs \<Longrightarrow> xs ! i = (r, None) \<Longrightarrow>
   add_mset (in_channel r) (mset (map (\<lambda>(r, _). in_channel r) (filter (\<lambda>(_, tx). tx = None) (xs[i := (r, Some tx)]))))
     = mset (map (\<lambda>(r, _). in_channel r) (filter (\<lambda>(_, tx). tx = None) xs))"
proof (induction xs arbitrary: i)
  case (Cons y ys)
  then show ?case by (cases i) (auto split: prod.splits)
qed simp

lemma accounted_done: "all_accounted w \<Longrightarrow> handler_done c i response w = Some w' \<Longrightarrow> all_accounted w'"
proof -
  assume w: "all_accounted w" and d: "handler_done c i response w = Some w'"
  then obtain s r where s: "stream_of c w = Some s" "i < length (hs_running s)" "hs_running s ! i = (r, None)"
    by (auto simp: handler_done_def prod_eq_iff split: option.splits if_splits)
  let ?s = "s\<lparr>hs_running := (hs_running s)[i := (r, Some (hd_next_tx w))]\<rparr>"
  have opened: "add_mset (in_channel r) (mset (still_open ?s)) = mset (still_open s)"
    using open_update [OF s(2,3)] by (simp add: still_open_def)
  from streams_update [OF s(1), of "Some ?s"]
  have "mset (concat (map held_by (hd_streams w))) + mset (still_open ?s)
      = add_mset (in_channel r) (mset (concat (map held_by ((hd_streams w)[c := Some ?s])))) + mset (still_open ?s)"
    by (simp add: held_by_def flip: opened)
  then have "mset (concat (map held_by (hd_streams w))) = add_mset (in_channel r) (mset (concat (map held_by ((hd_streams w)[c := Some ?s]))))"
    by (rule add_right_imp_eq)
  with w d s show "all_accounted w'" by (auto simp: handler_done_def all_accounted_def places Let_def)
qed

lemma accounted_drop: "all_accounted w \<Longrightarrow> drop_stream c fits w = Some w' \<Longrightarrow> all_accounted w'"
proof -
  assume w: "all_accounted w" and d: "drop_stream c fits w = Some w'"
  then obtain s where s: "stream_of c w = Some s" by (auto simp: drop_stream_def split: option.splits)
  have "mset (concat (map held_by (hd_streams w))) = mset (concat (map held_by ((hd_streams w)[c := None]))) + mset (still_open s)"
    using streams_update [OF s, of None] by (simp add: held_by_def)
  with w d s show "all_accounted w'" by (auto simp: drop_stream_def all_accounted_def places multiset.map_comp o_def)
qed

lemma serves_accounted: "serves w \<Longrightarrow> all_accounted w"
proof (induction rule: serves.induct)
  case (serves_new counter)
  show ?case by (simp add: all_accounted_def places handlers_new_def requester_new_def)
next
  case (serves_turn w x w')
  then show ?case
  proof (cases x)
    case (Registered b limit)
    with serves_turn show ?thesis
      by (auto simp: all_accounted_def places into_stream_def register_handler_def handler_id_new_def held_by_def still_open_def split: if_splits)
  next
    case (Requested peer q)
    with serves_turn show ?thesis by (auto simp: all_accounted_def places)
  qed (simp_all del: driver_acts.simps,
      (blast intro: accounted_acts accounted_hears accounted_task accounted_polled accounted_done accounted_confirmed accounted_drop)+)
qed

section \<open>What a handler sees\<close>

definition suits :: "('q, 'r) handlers \<Rightarrow> chan \<Rightarrow> 'q inbound_request \<Rightarrow> bool" where
  "suits w c r \<longleftrightarrow> c < length (hd_patterns w) \<and> (hd_patterns w ! c) (in_request r)"

fun action_suits :: "('q \<Rightarrow> bool) list \<Rightarrow> ('q, 'r) rr_action \<Rightarrow> bool" where
  "action_suits ps (RegisterHandler _ m c) \<longleftrightarrow> c < length ps \<and> m = ps ! c"
| "action_suits ps _ \<longleftrightarrow> True"

fun stream_suits :: "('q \<Rightarrow> bool) \<Rightarrow> 'q handler_stream option \<Rightarrow> bool" where
  "stream_suits P None \<longleftrightarrow> True"
| "stream_suits P (Some s) \<longleftrightarrow> (\<forall>r\<in>set (hs_queue s). P (in_request r)) \<and> (\<forall>(r, _)\<in>set (hs_running s). P (in_request r))"

definition matched :: "('q, 'r) handlers \<Rightarrow> bool" where
  "matched w \<longleftrightarrow> (\<forall>a\<in>set (hd_actions w). action_suits (hd_patterns w) a)
     \<and> (\<forall>h\<in>set (request_handlers (hd_driver w)). rh_sender h < length (hd_patterns w) \<and> rh_matcher h = hd_patterns w ! rh_sender h)
     \<and> (\<forall>(c, r)\<in>set (hd_tasks w). suits w c r)
     \<and> list_all2 stream_suits (hd_patterns w) (hd_streams w)
     \<and> (StreamGone \<in> fst ` set (hd_lost w) \<longrightarrow> None \<in> set (hd_streams w))"

lemma matchedI:
  assumes "\<And>a. a \<in> set (hd_actions w) \<Longrightarrow> action_suits (hd_patterns w) a"
    and "\<And>h. h \<in> set (request_handlers (hd_driver w)) \<Longrightarrow> rh_sender h < length (hd_patterns w) \<and> rh_matcher h = hd_patterns w ! rh_sender h"
    and "\<And>c r. (c, r) \<in> set (hd_tasks w) \<Longrightarrow> suits w c r" and "list_all2 stream_suits (hd_patterns w) (hd_streams w)"
    and "StreamGone \<in> fst ` set (hd_lost w) \<Longrightarrow> None \<in> set (hd_streams w)"
  shows "matched w"
  using assms by (auto simp: matched_def)

lemma matchedD:
  assumes "matched w"
  shows "a \<in> set (hd_actions w) \<Longrightarrow> action_suits (hd_patterns w) a"
    and "h \<in> set (request_handlers (hd_driver w)) \<Longrightarrow> rh_sender h < length (hd_patterns w) \<and> rh_matcher h = hd_patterns w ! rh_sender h"
    and "(c, r) \<in> set (hd_tasks w) \<Longrightarrow> suits w c r" and "list_all2 stream_suits (hd_patterns w) (hd_streams w)"
    and "StreamGone \<in> fst ` set (hd_lost w) \<Longrightarrow> None \<in> set (hd_streams w)"
  using assms by (auto simp: matched_def)

text \<open>A stream keeps to its pattern when it is replaced by one that does; none of the dropped streams comes back.\<close>

lemma suits_update:
  assumes "list_all2 stream_suits ps ss" and "stream_suits (ps ! c) x"
  shows "list_all2 stream_suits ps (ss[c := x])"
proof (cases "c < length ss")
  case True
  with assms have "list_all2 stream_suits (ps[c := ps ! c]) (ss[c := x])" by (intro list_all2_update_cong)
  then show ?thesis by simp
qed (use assms in \<open>simp add: list_update_beyond\<close>)

lemma none_update: "None \<in> set ss \<Longrightarrow> c < length ss \<Longrightarrow> ss ! c \<noteq> None \<Longrightarrow> None \<in> set (ss[c := x])"
  by (metis in_set_conv_nth length_list_update nth_list_update_neq)

lemma matched_streams:
  assumes "matched w" and "stream_of c w = Some s" and "stream_suits (hd_patterns w ! c) (Some s')"
  shows "list_all2 stream_suits (hd_patterns w) ((hd_streams w)[c := Some s'])"
    and "None \<in> set (hd_streams w) \<Longrightarrow> None \<in> set ((hd_streams w)[c := Some s'])"
  using assms suits_update [OF matchedD(4) [OF assms(1)], of c "Some s'"] none_update [of "hd_streams w" c "Some s'"]
  by (auto simp: stream_of_def split: if_splits)

lemma stream_of_suits: "matched w \<Longrightarrow> stream_of c w = Some s \<Longrightarrow> stream_suits (hd_patterns w ! c) (Some s)"
  by (frule matchedD(4)) (metis list_all2_nthD2 option.distinct(1) stream_of_def)

lemma matched_acts: "matched w \<Longrightarrow> driver_acts oid up w = Some w' \<Longrightarrow> matched w'"
proof -
  assume w: "matched w" and d: "driver_acts oid up w = Some w'"
  then obtain a as where a: "hd_actions w = a # as" by (cases "hd_actions w") auto
  let ?w = "\<lambda>lost. w\<lparr>hd_actions := as, hd_driver := process_request_response_action oid up a (hd_driver w), hd_lost := hd_lost w @ lost\<rparr>"
  have "matched (?w [])" and "matched (?w [(PeerGone, channel)])" for channel
    using w a by (cases a; auto simp: matched_def suits_def Let_def)+
  with d a show "matched w'" by (cases a) (auto simp del: process_request_response_action.simps)
qed

lemma matched_hears: "matched w \<Longrightarrow> matched (driver_hears e w)"
proof (cases e)
  case (MessageRequest peer iid q channel)
  assume w: "matched w"
  note M = matchedD [OF w]
  show ?thesis
  proof (cases "List.find (\<lambda>h. rh_matcher h q) (request_handlers (hd_driver w))")
    case None
    with MessageRequest M show ?thesis by (intro matchedI) (auto simp: driver_hears_def suits_def)
  next
    case (Some h)
    then have h: "h \<in> set (request_handlers (hd_driver w))" "rh_matcher h q" by (auto simp: find_Some_iff)
    with MessageRequest Some M M(2) [OF h(1)] show ?thesis by (intro matchedI) (auto simp: driver_hears_def suits_def)
  qed
qed (intro matchedI; auto simp: driver_hears_def suits_def dest: matchedD split: option.splits)+

lemma matched_put:
  assumes "matched w" and "stream_of c w = Some s" and "stream_suits (hd_patterns w ! c) (Some s')" and "set ts \<subseteq> set (hd_tasks w)"
    and "\<forall>a\<in>set as. action_suits (hd_patterns w) a"
  shows "matched (w\<lparr>hd_tasks := ts, hd_next_tx := n, hd_actions := hd_actions w @ as, hd_streams := (hd_streams w)[c := Some s']\<rparr>)"
  using assms(4,5) matched_streams [OF assms(1-3)] matchedD [OF assms(1)] by (intro matchedI) (auto simp: suits_def)

lemmas matched_put_stream = matched_put [where ts = "hd_tasks w" and as = "[]" and n = "hd_next_tx w" and w = w for w, simplified]

lemma matched_task: "matched w \<Longrightarrow> task_sends i w = Some w' \<Longrightarrow> matched w'"
proof -
  assume w: "matched w" and d: "task_sends i w = Some w'"
  then obtain c r where t: "hd_tasks w ! i = (c, r)" "i < length (hd_tasks w)" "c < length (hd_streams w)"
    by (auto simp: task_sends_def Let_def split: if_splits prod.splits)
  then have suit: "suits w c r" using matchedD(3) [OF w, of c r] by (metis nth_mem)
  show "matched w'"
  proof (cases "hd_streams w ! c")
    case None
    then have "None \<in> set (hd_streams w)" using t(3) by (metis nth_mem)
    with w d t None show ?thesis by (auto simp: task_sends_def matched_def suits_def dest!: subsetD [OF set_remove_nth])
  next
    case (Some s)
    then have s: "stream_of c w = Some s" using t(3) by (simp add: stream_of_def)
    have "stream_suits (hd_patterns w ! c) (Some (s\<lparr>hs_queue := hs_queue s @ [r]\<rparr>))"
      using stream_of_suits [OF w s] suit by (auto simp: suits_def)
    from matched_put [OF w s this set_remove_nth, of "[]" "hd_next_tx w" i] d t Some show ?thesis
      by (auto simp: task_sends_def split: if_splits)
  qed
qed

lemma matched_polled: "matched w \<Longrightarrow> stream_polled c w = Some w' \<Longrightarrow> matched w'"
proof -
  assume w: "matched w" and d: "stream_polled c w = Some w'"
  then obtain s r rs where s: "stream_of c w = Some s" "hs_queue s = r # rs"
      "w' = w\<lparr>hd_streams := (hd_streams w)[c := Some (s\<lparr>hs_queue := rs, hs_running := hs_running s @ [(r, None)]\<rparr>)]\<rparr>"
    by (auto simp: stream_polled_def split: option.splits if_splits list.splits)
  with stream_of_suits [OF w s(1)] show "matched w'" by (auto intro!: matched_put_stream [OF w s(1)])
qed

lemma matched_confirmed: "matched w \<Longrightarrow> response_confirmed c i w = Some w' \<Longrightarrow> matched w'"
proof -
  assume w: "matched w" and d: "response_confirmed c i w = Some w'"
  then obtain s where s: "stream_of c w = Some s"
      "w' = w\<lparr>hd_streams := (hd_streams w)[c := Some (s\<lparr>hs_running := remove_nth i (hs_running s)\<rparr>)]\<rparr>"
    by (auto simp: response_confirmed_def split: option.splits if_splits)
  with stream_of_suits [OF w s(1)] show "matched w'"
    by (auto intro!: matched_put_stream [OF w s(1)] dest!: subsetD [OF set_remove_nth])
qed

lemma matched_done: "matched w \<Longrightarrow> handler_done c i response w = Some w' \<Longrightarrow> matched w'"
proof -
  assume w: "matched w" and d: "handler_done c i response w = Some w'"
  then obtain s r where s: "stream_of c w = Some s" "i < length (hs_running s)" "hs_running s ! i = (r, None)"
    by (auto simp: handler_done_def prod_eq_iff split: option.splits if_splits)
  let ?s = "s\<lparr>hs_running := (hs_running s)[i := (r, Some (hd_next_tx w))]\<rparr>"
  have "(r, None) \<in> set (hs_running s)" using s(2,3) by (metis nth_mem)
  then have "stream_suits (hd_patterns w ! c) (Some ?s)"
    using stream_of_suits [OF w s(1)] by (auto dest!: subsetD [OF set_update_subset_insert])
  from matched_put [OF w s(1) this order_refl, of "[OutboundResponse (in_request_id r) (in_channel r) response (hd_next_tx w)]" "hd_next_tx w + 1"] d s
  show "matched w'" by (auto simp: handler_done_def Let_def)
qed

lemma matched_drop: "matched w \<Longrightarrow> drop_stream c fits w = Some w' \<Longrightarrow> matched w'"
proof -
  assume w: "matched w" and d: "drop_stream c fits w = Some w'"
  then have "c < length (hd_streams w)" by (auto simp: drop_stream_def stream_of_def split: option.splits if_splits)
  then have "None \<in> set ((hd_streams w)[c := None])" by (rule set_update_memI)
  moreover have "list_all2 stream_suits (hd_patterns w) ((hd_streams w)[c := None])"
    using suits_update [OF matchedD(4) [OF w]] by simp
  ultimately show "matched w'" using w d
    by (auto simp: drop_stream_def matched_def suits_def split: option.splits)
qed

lemma action_suits_more: "action_suits ps a \<Longrightarrow> action_suits (ps @ [p]) a"
  by (cases a) (auto simp: nth_append)

lemma matched_into: "matched w \<Longrightarrow> matched (register_handler b limit w)"
proof (rule matchedI, goal_cases)
  case (1 a)
  then show ?case
    using list_all2_lengthD [OF matchedD(4)] matchedD(1) by (fastforce simp: register_handler_def handler_id_new_def nth_append intro: action_suits_more)
next
  case (2 h)
  then show ?case using matchedD(2) [OF 2(1), of h] by (auto simp: register_handler_def handler_id_new_def nth_append)
next
  case (3 c r)
  then show ?case using matchedD(3) [OF 3(1), of c r] by (auto simp: register_handler_def handler_id_new_def suits_def nth_append)
next
  case 4
  then show ?case using matchedD(4) [OF 4] by (simp add: register_handler_def handler_id_new_def list_all2_appendI)
next
  case 5
  then show ?case using matchedD(5) [OF 5(1)] by (simp add: register_handler_def handler_id_new_def)
qed

lemma serves_matched: "serves w \<Longrightarrow> matched w"
proof (induction rule: serves.induct)
  case (serves_new counter)
  show ?case by (simp add: matched_def handlers_new_def requester_new_def)
next
  case (serves_turn w x w')
  then show ?case
  proof (cases x)
    case (Requested peer q)
    with serves_turn show ?thesis by (auto simp: matched_def suits_def)
  next
    case (Registered b limit)
    with serves_turn show ?thesis by (auto simp: into_stream_def intro: matched_into split: if_splits)
  qed (auto simp del: driver_acts.simps intro: matched_acts matched_hears matched_task matched_polled matched_done matched_confirmed matched_drop)
qed

section \<open>Requests are answered once\<close>

definition quiescent :: "('q, 'r) handlers \<Rightarrow> bool" where
  "quiescent w \<longleftrightarrow> in_tasks w = [] \<and> in_streams w = [] \<and> in_actions w = []"

text \<open>
  C25. Requests from other peers are answered once: in every run of the driver with any number of handlers, with every interleaving of tasks, streams and futures and with handlers
  that come and go, as long as the library gives each request a response channel of its own, at most one response goes to each request that arrived and none to another; a handler sees only requests that its
  pattern matches; when nothing is under way, each request was either answered or given up, and while no handler has been dropped a request
  is given up only when no pattern matches or its peer is gone.
\<close>

theorem requests_answered_once:
  assumes "serves w" and "distinct (hd_arrived w)"
  shows "distinct (responded w) \<and> set (responded w) \<subseteq> set (hd_arrived w)
    \<and> (\<forall>c s. stream_of c w = Some s \<longrightarrow> stream_suits (hd_patterns w ! c) (Some s))
    \<and> (quiescent w \<longrightarrow> (\<forall>x\<in>set (hd_arrived w). x \<in> set (responded w) \<longleftrightarrow> x \<notin> snd ` set (hd_lost w)))
    \<and> (None \<notin> set (hd_streams w) \<longrightarrow> StreamGone \<notin> fst ` set (hd_lost w))"
proof -
  let ?parts = "in_tasks w @ in_streams w @ in_actions w @ responded w @ map snd (hd_lost w)"
  have "mset (hd_arrived w) = mset ?parts" using serves_accounted [OF assms(1)] by (simp add: all_accounted_def)
  then have parts: "distinct ?parts" "set (hd_arrived w) = set ?parts"
    using assms(2) by (metis mset_eq_imp_distinct_iff, metis set_mset_mset)
  then have "quiescent w \<longrightarrow> (\<forall>x\<in>set (hd_arrived w). x \<in> set (responded w) \<longleftrightarrow> x \<notin> snd ` set (hd_lost w))"
    by (auto simp: quiescent_def)
  moreover have "distinct (responded w)" "set (responded w) \<subseteq> set (hd_arrived w)" using parts by auto
  moreover have "stream_of c w = Some s \<Longrightarrow> stream_suits (hd_patterns w ! c) (Some s)" for c s
    using stream_of_suits [OF serves_matched [OF assms(1)]] .
  ultimately show ?thesis using matchedD(5) [OF serves_matched [OF assms(1)]] by blast
qed

text \<open>Two handlers; the first takes even numbers. Three requests, of which one is answered while another waits.\<close>

definition demo_handler_steps :: "(nat, nat) handler_step list" where
  "demo_handler_steps =
     [Registered (on_pattern even) None, Registered (buffer_size 1 (on_pattern (\<lambda>q. q > 6))) (Some 1), DriverActs 0 True, DriverActs 0 True,
      DriverHears (MessageRequest 1 0 10 70), DriverHears (MessageRequest 2 1 7 71), DriverHears (MessageRequest 3 2 5 72),
      TaskSends 1, TaskSends 0, StreamPolled 0, StreamPolled 1, HandlerDone 1 0 49, DriverActs 0 True, Confirmed 1 0, HandlerDone 0 0 100, DriverActs 0 True]"

lemma demo_handlers_run:
  "\<exists>w. handler_run demo_handler_steps (handlers_new 0) = Some w \<and> hd_arrived w = [70, 71, 72] \<and> rr_responses (hd_driver w) = [(71, 49), (70, 100)]
     \<and> hd_lost w = [(NotMatched, 72)]"
  by (simp add: demo_handler_steps_def handlers_new_def requester_new_def into_stream_def register_handler_def on_pattern_def buffer_size_def handler_id_new_def driver_hears_def
      DEFAULT_HANDLER_BUFFER_def task_sends_def remove_nth_def stream_polled_def stream_of_def has_slot_def handler_done_def response_confirmed_def Let_def)

theorem requests_answered_once_witness:
  "\<exists>w. handler_run demo_handler_steps (handlers_new 0) = Some w \<and> responded w = [71, 70] \<and> distinct (responded w) \<and> set (responded w) \<subseteq> {70, 71, 72}"
proof -
  obtain w where w: "handler_run demo_handler_steps (handlers_new 0) = Some w" "hd_arrived w = [70, 71, 72]"
      "rr_responses (hd_driver w) = [(71, 49), (70, 100)]"
    using demo_handlers_run by blast
  from requests_answered_once [OF handler_run_serves [OF serves_new w(1)]] w show ?thesis by (auto simp: responded_def)
qed

text \<open>
  A handler whose unregistration found no room stays registered for good and takes the requests that another handler would answer: they are all given up.
\<close>

lemma stale_handler_shadows:
  assumes "List.find (\<lambda>h. rh_matcher h q) (request_handlers (hd_driver w)) = Some h" and "stream_of (rh_sender h) w = None" and "rh_sender h < length (hd_streams w)"
    and "hd_tasks w = []"
  shows "\<exists>w'. handler_run [DriverHears (MessageRequest peer iid q channel), TaskSends 0] w = Some w' \<and> hd_lost w' = hd_lost w @ [(StreamGone, channel)]
    \<and> request_handlers (hd_driver w') = request_handlers (hd_driver w) \<and> hd_streams w' = hd_streams w"
  using assms by (simp add: driver_hears_def task_sends_def stream_of_def remove_nth_def)

lemma stale_handler_arises:
  "\<exists>w. handler_run [Registered (on_pattern (\<lambda>q::nat. True)) None, Registered (on_pattern (\<lambda>q. True)) None, DriverActs 0 True, DriverActs 0 True, StreamDropped 0 False,
       DriverHears (MessageRequest 1 0 10 70), TaskSends 0] (handlers_new 0 :: (nat, nat) handlers) = Some w
     \<and> hd_lost w = [(StreamGone, 70)] \<and> stream_of 1 w \<noteq> None \<and> hd_actions w = [] \<and> length (request_handlers (hd_driver w)) = 2"
  by (simp add: handlers_new_def requester_new_def into_stream_def register_handler_def on_pattern_def handler_id_new_def driver_hears_def drop_stream_def still_open_def
      DEFAULT_HANDLER_BUFFER_def task_sends_def remove_nth_def stream_of_def Let_def)

end
