(* ===== verification/Dispatching.thy ===== *)
theory Dispatching
  imports Scheduler_Program Worker_Handle
begin

text \<open>
  How the scheduler's program ties pools, dispatchers and metrics together (\<^verbatim>\<open>run\<close> of \<^verbatim>\<open>crates/scheduler/src/bin/hypha-scheduler.rs\<close>): the
  configurations of the two pools, the connectors of the metrics bridge, and the two dispatchers, which give a job to each member that a
  pool announces. A dispatch meets its own circumstances: whether the subscription to its reports succeeds, the identifier of its task, and what the
  worker answers.
\<close>

section \<open>Pools and connectors\<close>

definition pool_config_of :: "string \<Rightarrow> worker_spec \<Rightarrow> price_range \<Rightarrow> pool_settings \<Rightarrow> pool_config" where
  "pool_config_of name spec price s =
     \<lparr>pool_config.pool_name = name, pool_spec = spec, pool_price = price, pool_min = unat (pool_settings.pool_min s),
      pool_target = unat (pool_settings.pool_target s), pool_grace = from_millis (unat (pool_grace_ms s))\<rparr>"

definition worker_pool_config :: "diloco \<Rightarrow> pool_config" where
  "worker_pool_config d =
     pool_config_of ''workers'' (worker_spec_of d) (worker_price (di_resources d)) (worker_pool_settings (di_resources d))"

definition parameter_pool_config :: "diloco \<Rightarrow> pool_config" where
  "parameter_pool_config d =
     pool_config_of ''parameter-servers'' (parameter_server_spec_of d) (parameter_server_price (di_resources d)) (parameter_pool_settings (di_resources d))"

datatype metrics_connector = OtelConnector string | CsvConnector string | JsonlConnector string

fun connector_of :: "string \<Rightarrow> metrics_config \<Rightarrow> metrics_connector" where
  "connector_of job_id Otel = OtelConnector job_id"
| "connector_of job_id (Csv path) = CsvConnector path"
| "connector_of job_id (Jsonl path) = JsonlConnector path"

definition connectors_of :: "string \<Rightarrow> diloco \<Rightarrow> metrics_connector list" where
  "connectors_of job_id d = map (connector_of job_id) (di_metrics d)"

section \<open>Dispatchers\<close>

record circumstances =
  ci_subscribed :: "string + unit"
  ci_task :: uuid
  ci_ask :: "peer_id \<Rightarrow> api_request \<Rightarrow> string + api_response"

datatype dispatch_outcome = JobDispatched task | JobNotDispatched worker_error | PoolEnded pool_error

definition dispatch_to :: "(worker_descriptor \<Rightarrow> job_spec) \<Rightarrow> circumstances \<Rightarrow> pool_error + worker_descriptor \<Rightarrow> dispatch_outcome" where
  "dispatch_to job c item =
     (case item of
        Inl e \<Rightarrow> PoolEnded e
      | Inr w \<Rightarrow>
          (case task_try_new (ci_subscribed c) (ci_task c) (job w) (ci_ask c) [wd_peer w] of
             Inl e \<Rightarrow> JobNotDispatched e
           | Inr t \<Rightarrow> JobDispatched t))"

definition parameter_dispatcher :: "uuid \<Rightarrow> diloco \<Rightarrow> circumstances \<Rightarrow> pool_error + worker_descriptor \<Rightarrow> dispatch_outcome" where
  "parameter_dispatcher job_id d = dispatch_to (\<lambda>_. aggregate_job job_id d)"

definition worker_dispatcher :: "uuid \<Rightarrow> peer_id \<Rightarrow> diloco \<Rightarrow> circumstances \<Rightarrow> pool_error + worker_descriptor \<Rightarrow> dispatch_outcome" where
  "worker_dispatcher job_id self d = dispatch_to (\<lambda>w. train_job job_id self d (wd_resources w))"

text \<open>\<^verbatim>\<open>for_each_concurrent\<close> over the stream: every item once, each in circumstances of its own.\<close>

definition dispatch_all :: "(circumstances \<Rightarrow> 'i \<Rightarrow> 'o) \<Rightarrow> (nat \<Rightarrow> circumstances) \<Rightarrow> 'i list \<Rightarrow> 'o list" where
  "dispatch_all dispatcher circ items = map (\<lambda>(k, item). dispatcher (circ k) item) (List.enumerate 0 items)"

section \<open>Every member is offered a job once\<close>

lemma nth_dispatch_all: "k < length items \<Longrightarrow> dispatch_all f circ items ! k = f (circ k) (items ! k)"
  by (simp add: dispatch_all_def nth_enumerate_eq)

text \<open>The members of a pool are among those it has announced.\<close>

lemma members_announced: "pool_run cfg tr p \<Longrightarrow> set (members p) \<subseteq> set (joins p)"
proof (induction rule: pool_run.induct)
  case (run_tick tr p alloc now p')
  from run_tick(3) show ?case
  proof (rule pool_tick_cases)
    fix p1 ws
    assume g: "grace_check cfg now (length (members p)) p = Inr p1" and p': "p' = pool_join ws p1"
    have "members p1 = members p" "joins p1 = joins p"
      using g by (auto simp: grace_check_def split: if_splits option.splits)
    with run_tick(4) show ?thesis by (auto simp: p' pool_join_def)
  qed
qed (auto simp: pool_new_def pool_exit_def)

text \<open>
  A dispatch succeeds exactly when the subscription succeeds and the worker accepts the job; and what it asks the worker is a job with the batch size that the scheduler of the
  rounds assumes, when the job asks for a share of a graphics processor.
\<close>

definition accepted :: "string + api_response \<Rightarrow> bool" where
  "accepted answer \<longleftrightarrow> (\<exists>i t. answer = Inr (DispatchJobResp (Dispatched i t)))"

lemma accepted_iff: "dispatch_result answer = Inr () \<longleftrightarrow> accepted answer"
  by (auto simp: dispatch_result_def accepted_def split: sum.splits api_response.splits dispatch_response.splits)

lemma worker_dispatched_iff:
  "worker_dispatcher job_id self d c (Inr w) = JobDispatched \<lparr>task_id = ci_task c, task_status = []\<rparr>
    \<longleftrightarrow> ci_subscribed c = Inr () \<and> accepted (ci_ask c (wd_peer w) (DispatchJobReq (ci_task c) (train_job job_id self d (wd_resources w))))"
  using accepted_iff [of "ci_ask c (wd_peer w) (DispatchJobReq (ci_task c) (train_job job_id self d (wd_resources w)))"]
  by (cases "dispatch_result (ci_ask c (wd_peer w) (DispatchJobReq (ci_task c) (train_job job_id self d (wd_resources w))))")
    (auto simp: worker_dispatcher_def dispatch_to_def task_try_new_def split: sum.splits)

lemma members_get_jobs:
  assumes "pool_run (worker_pool_config d) tr p" and "joins p = results_ok items" and "w \<in> set (members p)"
    and "flt (Fin 0) (gpu (worker_resources (di_resources d)))"
    and "fdiv F64 (gpu (wd_resources w)) (gpu (worker_resources (di_resources d))) \<noteq> NaN"
  shows "\<exists>k<length items. items ! k = Inr w \<and> dispatch_all (worker_dispatcher job_id self d) circ items ! k = worker_dispatcher job_id self d (circ k) (Inr w)
    \<and> (\<exists>name tc. spec_executor (train_job job_id self d (wd_resources w)) = TrainExecutor name tc
        \<and> tc_batch_size tc = batch_sizer (max_batch_size (di_rounds d)) (gpu (worker_resources (di_resources d))) (gpu (wd_resources w)))"
proof -
  have ok: "x \<in> set (results_ok xs) \<Longrightarrow> Inr x \<in> set xs" for x and xs :: "(pool_error + worker_descriptor) list"
    by (induction xs rule: results_ok.induct) auto
  have "Inr w \<in> set items" using assms(1-3) members_announced ok by fastforce
  then obtain k where "k < length items" "items ! k = Inr w" by (auto simp: in_set_conv_nth)
  then show ?thesis
    using dispatch_sizes_agree [OF assms(4,5)] by (auto simp: nth_dispatch_all train_job_def)
qed

end
