(* ===== verification/Configuration.thy ===== *)
theory Configuration
  imports Net_Utils Texts
begin

text \<open>
  The configuration library (\<^verbatim>\<open>crates/config/src/lib.rs\<close>): errors that carry the place in the file they come from, and the validation that the
  nodes share. Reading, merging and writing of configurations is the business of libraries. Text is a list of bytes written as
  characters.
\<close>

section \<open>Places in a file\<close>

definition strip_cr :: "string \<Rightarrow> string" where
  "strip_cr l = (if l \<noteq> [] \<and> last l = CHR 0x0D then butlast l else l)"

text \<open>\<^verbatim>\<open>str::lines\<close>: the end of a line is a line feed, or a carriage return and a line feed; what follows the last one counts unless it is empty.\<close>

definition str_lines :: "string \<Rightarrow> string list" where
  "str_lines s = (let ls = split_on (CHR 0x0A) s in map strip_cr (butlast ls) @ (if last ls = [] then [] else [last ls]))"

fun contains_str :: "string \<Rightarrow> string \<Rightarrow> bool" where
  "contains_str [] pat = (pat = [])"
| "contains_str (c # s) pat = (take (length pat) (c # s) = pat \<or> contains_str s pat)"

fun find_span :: "nat \<Rightarrow> string list \<Rightarrow> string \<Rightarrow> string \<Rightarrow> (nat \<times> nat) option" where
  "find_span offset [] field val = None"
| "find_span offset (l # ls) field val =
     (if contains_str l field \<and> contains_str l val then Some (offset, offset + length l)
      else find_span (offset + length l + 1) ls field val)"

definition find_config_span :: "string \<Rightarrow> string \<Rightarrow> string \<Rightarrow> (nat \<times> nat) option" where
  "find_config_span content field val = find_span 0 (str_lines content) field val"

section \<open>Errors\<close>

datatype source = FileSource string | CodeSource string | CustomSource string | OtherSource

datatype config_error =
    WithMetadata string string "(nat \<times> nat) option" "string \<times> string" config_error
  | Load string
  | FigmentError string
  | TomlError string
  | CertParseError string
  | InvalidConfig string

text \<open>\<open>read\<close> reads a file.\<close>

definition with_metadata :: "(string \<Rightarrow> string option) \<Rightarrow> (string \<times> string \<times> source) option \<Rightarrow> config_error \<Rightarrow> config_error" where
  "with_metadata read metadata error =
     (case metadata of
        None \<Rightarrow> error
      | Some (option, val, src) \<Rightarrow>
          (let (named, span) =
             (case src of
                FileSource path \<Rightarrow>
                  (case read path of
                     Some content \<Rightarrow> ((path, content), find_config_span content option val)
                   | None \<Rightarrow> ((path, []), None))
              | CodeSource loc \<Rightarrow> ((''code at '' @ loc, []), None)
              | CustomSource s \<Rightarrow> ((s, []), None)
              | OtherSource \<Rightarrow> ((''unknown source'', []), None))
           in WithMetadata option val span named error))"

text \<open>A file whose content a certificate library parses, as for the chain, the key and the trusted certificates; and one that may not be configured.\<close>

definition load_pem :: "(string \<Rightarrow> string option) \<Rightarrow> (string \<Rightarrow> string + 'c) \<Rightarrow> (string \<times> string \<times> source) option \<Rightarrow> string \<Rightarrow> config_error + 'c" where
  "load_pem read parse metadata path =
     (case read path of
        None \<Rightarrow> Inl (with_metadata read metadata (Load ''not found''))
      | Some content \<Rightarrow>
          (case parse content of
             Inl e \<Rightarrow> Inl (with_metadata read metadata (CertParseError e))
           | Inr c \<Rightarrow> Inr c))"

definition load_crls :: "(string \<Rightarrow> string option) \<Rightarrow> (string \<Rightarrow> string + 'c list) \<Rightarrow> (string \<times> string \<times> source) option \<Rightarrow> string option \<Rightarrow> config_error + 'c list" where
  "load_crls read parse metadata path =
     (case path of None \<Rightarrow> Inr [] | Some p \<Rightarrow> load_pem read parse metadata p)"

section \<open>Validation\<close>

record network_config =
  bandwidth_mbps :: u64
  rtt_ms :: u64
  handshake_timeout :: u64

definition network_config_default :: network_config where
  "network_config_default = \<lparr>bandwidth_mbps = 1000, rtt_ms = 100, handshake_timeout = 30\<rparr>"

text \<open>No gateway may lie in an excluded range.\<close>

definition validate_gateways ::
    "('net \<Rightarrow> ip_addr \<Rightarrow> bool) \<Rightarrow> (multiaddr \<Rightarrow> 'net \<Rightarrow> string) \<Rightarrow> (string \<Rightarrow> string option) \<Rightarrow> (string \<times> string \<times> source) option
      \<Rightarrow> multiaddr list \<Rightarrow> 'net list \<Rightarrow> config_error + unit" where
  "validate_gateways contains message read metadata gateways excluded =
     (case find_map (\<lambda>a. map_option (Pair a) (find_containing_cidr contains a excluded)) gateways of
        None \<Rightarrow> Inr ()
      | Some (a, net) \<Rightarrow> Inl (with_metadata read metadata (InvalidConfig (message a net))))"

section \<open>Properties\<close>

lemma find_span_line:
  assumes "find_span offset ls field val = Some (a, b)"
  shows "\<exists>pre l post. ls = pre @ l # post \<and> a = offset + length (concat (map (\<lambda>l. l @ [CHR 0x0A]) pre)) \<and> b = a + length l
    \<and> contains_str l field \<and> contains_str l val \<and> (\<forall>k\<in>set pre. \<not> (contains_str k field \<and> contains_str k val))"
  using assms
proof (induction offset ls field val rule: find_span.induct)
  case (2 offset l ls field val)
  show ?case
  proof (cases "contains_str l field \<and> contains_str l val")
    case True
    with 2(2) show ?thesis by (intro exI [of _ "[]"] exI [of _ l] exI [of _ ls]) auto
  next
    case False
    with 2 obtain pre k post where "ls = pre @ k # post"
      "a = offset + length l + 1 + length (concat (map (\<lambda>l. l @ [CHR 0x0A]) pre))" "b = a + length k"
      "contains_str k field" "contains_str k val" "\<forall>k\<in>set pre. \<not> (contains_str k field \<and> contains_str k val)" by auto
    with False show ?thesis by (intro exI [of _ "l # pre"] exI [of _ k] exI [of _ post]) auto
  qed
qed simp

lemma strip_cr_plain: "CHR 0x0D \<notin> set l \<Longrightarrow> strip_cr l = l"
  by (auto simp: strip_cr_def) (metis last_in_set)

lemma line_place:
  assumes "str_lines content = pre @ l # post" and "CHR 0x0D \<notin> set content"
  shows "\<exists>rest. content = concat (map (\<lambda>l. l @ [CHR 0x0A]) pre) @ l @ rest"
proof -
  define ls where "ls = split_on (CHR 0x0A) content"
  have ne: "ls \<noteq> []" and text_eq: "content = concat (map (\<lambda>l. l @ [CHR 0x0A]) (butlast ls)) @ last ls"
    using split_on_concat [of "CHR 0x0A" content] by (auto simp: ls_def)
  have "strip_cr k = k" if "k \<in> set (butlast ls)" for k
    using that assms(2) split_on_pieces [of k "CHR 0x0A" content] by (auto intro!: strip_cr_plain simp: ls_def dest!: in_set_butlastD)
  then have "map strip_cr (butlast ls) = butlast ls" by (simp add: map_idI)
  with assms(1) have eq: "butlast ls @ (if last ls = [] then [] else [last ls]) = pre @ l # post"
    unfolding str_lines_def ls_def Let_def by argo
  then consider post' where "butlast ls = pre @ l # post'" | "butlast ls = pre" "l = last ls"
    by (auto simp: append_eq_append_conv2 append_eq_Cons_conv Cons_eq_append_conv split: if_splits)
  then show ?thesis using text_eq by cases auto
qed

text \<open>
  A configuration error points at the right place: in a file with plain line ends the span is, to the byte, the first line that mentions both the option and its
  value.
\<close>

lemma config_span_exact:
  assumes "find_config_span content field val = Some (a, b)" and "CHR 0x0D \<notin> set content"
  shows "\<exists>pre l post. str_lines content = pre @ l # post \<and> take (b - a) (drop a content) = l \<and> contains_str l field \<and> contains_str l val
    \<and> list_all (\<lambda>k. \<not> (contains_str k field \<and> contains_str k val)) pre"
proof -
  from find_span_line [OF assms(1) [unfolded find_config_span_def]] obtain pre l post where
    l: "str_lines content = pre @ l # post" "a = length (concat (map (\<lambda>l. l @ [CHR 0x0A]) pre))" "b = a + length l"
    "contains_str l field" "contains_str l val" "\<forall>k\<in>set pre. \<not> (contains_str k field \<and> contains_str k val)" by auto
  obtain rest where "content = concat (map (\<lambda>l. l @ [CHR 0x0A]) pre) @ l @ rest" using line_place [OF l(1) assms(2)] by blast
  then have "take (b - a) (drop a content) = l" using l(2,3) by simp
  with l show ?thesis by (auto simp: list_all_iff)
qed

definition example_config :: string where
  "example_config = ''name = 1'' @ [CHR 0x0A] @ ''port = 2'' @ [CHR 0x0A]"

lemma config_span_exact_witness:
  "\<exists>pre l post. str_lines example_config = pre @ l # post \<and> take 8 (drop 9 example_config) = l \<and> contains_str l ''port'' \<and> contains_str l ''2''"
proof -
  have "find_config_span example_config ''port'' ''2'' = Some (9, 17)" "CHR 0x0D \<notin> set example_config"
    by (simp_all add: find_config_span_def example_config_def str_lines_def strip_cr_def)
  from config_span_exact [OF this] show ?thesis by auto
qed

text \<open>With a carriage return at the ends of lines the span is early by one byte for every line before.\<close>

lemma crlf_span_early:
  defines "content \<equiv> ''a = 1'' @ [CHR 0x0D, CHR 0x0A] @ ''port = 2'' @ [CHR 0x0D, CHR 0x0A]"
  shows "find_config_span content ''port'' ''2'' = Some (6, 14)" and "take 8 (drop 6 content) = CHR 0x0A # ''port = ''"
  by (simp_all add: content_def find_config_span_def str_lines_def strip_cr_def)

lemma find_map_pair:
  "find_map (\<lambda>a. map_option (Pair a) (f a)) xs = None \<longleftrightarrow> (\<forall>a\<in>set xs. f a = None)"
  by (simp add: find_map_None)

text \<open>A valid configuration has no gateway in an excluded range, and conversely.\<close>

lemma validate_gateways_exact:
  "validate_gateways contains message read metadata gateways excluded = Inr () \<longleftrightarrow>
     (\<forall>a\<in>set gateways. \<forall>ip. find_map protocol_ip a = Some ip \<longrightarrow> (\<forall>net\<in>set excluded. \<not> contains net ip))"
  using find_map_pair [of "\<lambda>a. find_containing_cidr contains a excluded" gateways]
  by (auto simp: validate_gateways_def find_containing_cidr_None split: option.splits)

text \<open>A file that cannot be read or parsed is reported with the option it comes from.\<close>

lemma load_pem_reports:
  "load_pem read parse (Some (opt, val, src)) path = Inl e \<Longrightarrow> \<exists>span named inner. e = WithMetadata opt val span named inner"
  by (auto simp: load_pem_def with_metadata_def Let_def split: option.splits sum.splits source.splits prod.splits)

end
