(* ===== verification/Node_Networks.thy ===== *)
theory Node_Networks
  imports Network_Driver Configuration
begin

text \<open>
  The network drivers of the scheduler, the gateway, the data node and the inspection tool
  (\<^verbatim>\<open>network.rs\<close> in \<^verbatim>\<open>crates/scheduler/src\<close>, \<^verbatim>\<open>crates/gateway/src\<close>, \<^verbatim>\<open>crates/data/src\<close> and \<^verbatim>\<open>crates/inspect/src\<close>): which events and actions each
  loop passes to which driver, and the sizes that \<^verbatim>\<open>Network::create\<close> computes for the transport. All four share the arms for dialing, listening, the hash table, the
  health protocol and pings; each adds its own. The locale \<open>loop_table\<close> states what a table of such a loop keeps to, and the contract of an
  answering driver follows from it.
\<close>

section \<open>Sizes for the transport\<close>

text \<open>The least power of two that is not below a number; in the release profile the result wraps to zero when it does not fit.\<close>

function power_of_two_above :: "nat \<Rightarrow> nat" where
  "power_of_two_above n = (if n \<le> 1 then 1 else 2 * power_of_two_above ((n + 1) div 2))"
  by pat_completeness auto
termination by (relation "measure id") auto

declare power_of_two_above.simps [simp del]

definition next_power_of_two :: "u64 \<Rightarrow> u64" where
  "next_power_of_two x = of_nat (power_of_two_above (unat x))"

definition bdp_bytes :: "network_config \<Rightarrow> u64" where
  "bdp_bytes cfg = ((bandwidth_mbps cfg * 1000000) div 8) * rtt_ms cfg div 1000"

definition flow_window :: "u64 \<Rightarrow> network_config \<Rightarrow> u32" where
  "flow_window factor cfg = ucast (min (next_power_of_two (factor * bdp_bytes cfg)) 0xFFFFFFFF)"

record quic_config =
  max_stream_data :: u32
  max_connection_data :: u32
  max_connection_send_data :: "u32 option"
  quic_handshake :: duration

definition quic_windows :: "network_config \<Rightarrow> quic_config" where
  "quic_windows cfg = \<lparr>max_stream_data = flow_window 3 cfg, max_connection_data = flow_window 4 cfg,
     max_connection_send_data = Some (flow_window 2 cfg), quic_handshake = from_secs (unat (handshake_timeout cfg))\<rparr>"

definition inspect_quic_windows :: "network_config \<Rightarrow> quic_config" where
  "inspect_quic_windows cfg = \<lparr>max_stream_data = flow_window 3 cfg, max_connection_data = flow_window 4 cfg,
     max_connection_send_data = Some (flow_window 4 cfg), quic_handshake = from_secs (unat (handshake_timeout cfg))\<rparr>"

definition request_timeout :: "network_config \<Rightarrow> duration" where
  "request_timeout cfg = min (from_millis (unat (rtt_ms cfg)) * 100) (from_secs 30)"

section \<open>What all drivers have\<close>

record node_driver =
  no_dialer :: dialer
  no_listener :: listener
  no_kad :: kademlia
  no_health :: "(health_request, health_response) requester"
  no_external :: "multiaddr list"
  no_rtt :: "(peer_id \<times> duration) list"

datatype node_action =
    NodeDial connection_id "dial_error option" dial_action
  | NodeListen "transport_error + listener_id" listen_action
  | NodeKademlia query_id "string + query_id" kad_action
  | NodeHealth outbound_id bool "(health_request, health_response) rr_action"
  | NodeExternal multiaddr

text \<open>The arms that the loops share; an event that none of them names is only logged.\<close>

fun node_event :: "('net \<Rightarrow> ip_addr \<Rightarrow> bool) \<Rightarrow> 'net list \<Rightarrow> swarm_event \<Rightarrow> 'z node_driver_scheme \<Rightarrow> 'z node_driver_scheme" where
  "node_event contains cidrs (ConnectionEstablished peer conn) d = d\<lparr>no_dialer := process_connection_established peer conn (no_dialer d)\<rparr>"
| "node_event contains cidrs (OutgoingConnectionError conn error) d = d\<lparr>no_dialer := process_connection_error conn error (no_dialer d)\<rparr>"
| "node_event contains cidrs (NewListenAddr lid address) d = d\<lparr>no_listener := process_new_listen_addr lid address (no_listener d)\<rparr>"
| "node_event contains cidrs (IdentifyEvent e) d = d\<lparr>no_kad := process_identify_event contains cidrs e (no_kad d)\<rparr>"
| "node_event contains cidrs (KademliaEvent q r l) d = d\<lparr>no_kad := process_kademlia_query_result q r l (no_kad d)\<rparr>"
| "node_event contains cidrs (HealthEvent e) d = d\<lparr>no_health := process_request_response_event e (no_health d)\<rparr>"
| "node_event contains cidrs (PingEvent peer (Some rtt)) d = d\<lparr>no_rtt := no_rtt d @ [(peer, rtt)]\<rparr>"
| "node_event contains cidrs _ d = d"

fun node_act :: "node_action \<Rightarrow> 'z node_driver_scheme \<Rightarrow> 'z node_driver_scheme" where
  "node_act (NodeDial conn result a) d = d\<lparr>no_dialer := process_dial_action conn result a (no_dialer d)\<rparr>"
| "node_act (NodeListen result a) d = d\<lparr>no_listener := process_listen_action result a (no_listener d)\<rparr>"
| "node_act (NodeKademlia qid q a) d = d\<lparr>no_kad := process_kademlia_action qid q a (no_kad d)\<rparr>"
| "node_act (NodeHealth oid up a) d = d\<lparr>no_health := process_request_response_action oid up a (no_health d)\<rparr>"
| "node_act (NodeExternal address) d = d\<lparr>no_external := no_external d @ [address]\<rparr>"

definition node_new :: node_driver where
  "node_new = \<lparr>no_dialer = \<lparr>pending_dials = Map.empty, dial_answers = [], dialed = []\<rparr>, no_listener = \<lparr>pending_listens = Map.empty, listen_answers = []\<rparr>,
     no_kad = kademlia_new, no_health = requester_new, no_external = [], no_rtt = []\<rparr>"

text \<open>An input of a loop: an event of the swarm, or an action of a caller.\<close>

datatype ('e, 'a) loop_input = Happens 'e | Asks 'a

section \<open>Inspection tool\<close>

text \<open>Its loop has the shared arms only.\<close>

fun inspect_step :: "('net \<Rightarrow> ip_addr \<Rightarrow> bool) \<Rightarrow> 'net list \<Rightarrow> (swarm_event, node_action) loop_input \<Rightarrow> node_driver \<Rightarrow> node_driver option" where
  "inspect_step contains cidrs (Happens e) d = Some (node_event contains cidrs e d)"
| "inspect_step contains cidrs (Asks a) d = Some (node_act a d)"

section \<open>Gateway\<close>

record gateway_driver = node_driver +
  gw_gossip :: gossip
  gw_api :: "(api_request, api_response) requester"

datatype gateway_action =
    GatewayNode node_action
  | GatewayGossipsub gossip_answers gossip_action
  | GatewayApi outbound_id bool "(api_request, api_response) rr_action"

fun gateway_step :: "('net \<Rightarrow> ip_addr \<Rightarrow> bool) \<Rightarrow> 'net list \<Rightarrow> (swarm_event, gateway_action) loop_input \<Rightarrow> gateway_driver \<Rightarrow> gateway_driver option" where
  "gateway_step contains cidrs (Happens (GossipsubEvent e)) d = map_option (\<lambda>g. d\<lparr>gw_gossip := g\<rparr>) (process_gossipsub_event e (gw_gossip d))"
| "gateway_step contains cidrs (Happens (ApiEvent e)) d = Some (d\<lparr>gw_api := process_request_response_event e (gw_api d)\<rparr>)"
| "gateway_step contains cidrs (Happens e) d = Some (node_event contains cidrs e d)"
| "gateway_step contains cidrs (Asks (GatewayNode a)) d = Some (node_act a d)"
| "gateway_step contains cidrs (Asks (GatewayGossipsub lib a)) d = map_option (\<lambda>g. d\<lparr>gw_gossip := g\<rparr>) (process_gossipsub_action lib a (gw_gossip d))"
| "gateway_step contains cidrs (Asks (GatewayApi oid up a)) d = Some (d\<lparr>gw_api := process_request_response_action oid up a (gw_api d)\<rparr>)"

section \<open>Data node\<close>

text \<open>A request for the record of a data set names it.\<close>

type_synonym data_record_request = string
type_synonym record_requester = "(data_record_request, data_record_response) requester"
type_synonym record_event = "(data_record_request, data_record_response) rr_event"
type_synonym record_action = "(data_record_request, data_record_response) rr_action"

datatype node_swarm_event = SharedEvent swarm_event | RecordEvent record_event

record data_driver = node_driver +
  dd_records :: record_requester

datatype data_action = DataNode node_action | DataRecordAct outbound_id bool record_action

text \<open>Confirmed external addresses are added here and at the scheduler, not at the gateway.\<close>

fun data_step :: "('net \<Rightarrow> ip_addr \<Rightarrow> bool) \<Rightarrow> 'net list \<Rightarrow> (node_swarm_event, data_action) loop_input \<Rightarrow> data_driver \<Rightarrow> data_driver option" where
  "data_step contains cidrs (Happens (RecordEvent e)) d = Some (d\<lparr>dd_records := process_request_response_event e (dd_records d)\<rparr>)"
| "data_step contains cidrs (Happens (SharedEvent (ExternalAddrConfirmed address))) d = Some (d\<lparr>no_external := no_external d @ [address]\<rparr>)"
| "data_step contains cidrs (Happens (SharedEvent e)) d = Some (node_event contains cidrs e d)"
| "data_step contains cidrs (Asks (DataNode a)) d = Some (node_act a d)"
| "data_step contains cidrs (Asks (DataRecordAct oid up a)) d = Some (d\<lparr>dd_records := process_request_response_action oid up a (dd_records d)\<rparr>)"

section \<open>Scheduler\<close>

record scheduler_driver = node_driver +
  sd_gossip :: gossip
  sd_api :: "(api_request, api_response) requester"
  sd_action :: "(action_request, action_response) requester"
  sd_records :: record_requester

datatype scheduler_action =
    SchedulerNode node_action
  | SchedulerGossipsub gossip_answers gossip_action
  | SchedulerApi outbound_id bool "(api_request, api_response) rr_action"
  | SchedulerAction outbound_id bool "(action_request, action_response) rr_action"
  | SchedulerRecord outbound_id bool record_action

fun scheduler_event :: "('net \<Rightarrow> ip_addr \<Rightarrow> bool) \<Rightarrow> 'net list \<Rightarrow> node_swarm_event \<Rightarrow> scheduler_driver \<Rightarrow> scheduler_driver option" where
  "scheduler_event contains cidrs (RecordEvent e) d = Some (d\<lparr>sd_records := process_request_response_event e (sd_records d)\<rparr>)"
| "scheduler_event contains cidrs (SharedEvent (ExternalAddrConfirmed address)) d = Some (d\<lparr>no_external := no_external d @ [address]\<rparr>)"
| "scheduler_event contains cidrs (SharedEvent (GossipsubEvent e)) d = map_option (\<lambda>g. d\<lparr>sd_gossip := g\<rparr>) (process_gossipsub_event e (sd_gossip d))"
| "scheduler_event contains cidrs (SharedEvent (ApiEvent e)) d = Some (d\<lparr>sd_api := process_request_response_event e (sd_api d)\<rparr>)"
| "scheduler_event contains cidrs (SharedEvent (ActionEvent e)) d = Some (d\<lparr>sd_action := process_request_response_event e (sd_action d)\<rparr>)"
| "scheduler_event contains cidrs (SharedEvent e) d = Some (node_event contains cidrs e d)"

fun scheduler_act :: "scheduler_action \<Rightarrow> scheduler_driver \<Rightarrow> scheduler_driver option" where
  "scheduler_act (SchedulerNode a) d = Some (node_act a d)"
| "scheduler_act (SchedulerGossipsub lib a) d = map_option (\<lambda>g. d\<lparr>sd_gossip := g\<rparr>) (process_gossipsub_action lib a (sd_gossip d))"
| "scheduler_act (SchedulerApi oid up a) d = Some (d\<lparr>sd_api := process_request_response_action oid up a (sd_api d)\<rparr>)"
| "scheduler_act (SchedulerAction oid up a) d = Some (d\<lparr>sd_action := process_request_response_action oid up a (sd_action d)\<rparr>)"
| "scheduler_act (SchedulerRecord oid up a) d = Some (d\<lparr>sd_records := process_request_response_action oid up a (sd_records d)\<rparr>)"

fun scheduler_step :: "('net \<Rightarrow> ip_addr \<Rightarrow> bool) \<Rightarrow> 'net list \<Rightarrow> (node_swarm_event, scheduler_action) loop_input \<Rightarrow> scheduler_driver \<Rightarrow> scheduler_driver option" where
  "scheduler_step contains cidrs (Happens e) d = scheduler_event contains cidrs e d"
| "scheduler_step contains cidrs (Asks a) d = scheduler_act a d"

text \<open>The loop: turn by turn, until a handler panics.\<close>

fun loop_run :: "('i \<Rightarrow> 'd \<Rightarrow> 'd option) \<Rightarrow> 'i list \<Rightarrow> 'd \<Rightarrow> 'd option" where
  "loop_run step [] d = Some d"
| "loop_run step (i # is) d = (case step i d of None \<Rightarrow> None | Some d \<Rightarrow> loop_run step is d)"

section \<open>Callers are answered once at every node\<close>

text \<open>A table of a loop: what each input does to it. An input at which the loop panics does nothing.\<close>

locale loop_table =
  fixes step :: "'i \<Rightarrow> 'd \<Rightarrow> 'd option" and effect :: "'i \<Rightarrow> ('id, 'v) effect" and view :: "'d \<Rightarrow> ('id, 'v) table"
  assumes step_table: "step i d = Some d' \<Longrightarrow> view d' = take_effect (effect i) (view d)"
    and panic_quiet: "step i d = None \<Longrightarrow> effect i = Quiet"

sublocale loop_table \<subseteq> total: answering "\<lambda>i d. case step i d of None \<Rightarrow> d | Some d' \<Rightarrow> d'" effect view
  by unfold_locales (auto simp: step_table panic_quiet split: option.splits)

context loop_table
begin

lemma loop_run_total: "loop_run step is d = Some d' \<Longrightarrow> d' = foldl (\<lambda>d i. case step i d of None \<Rightarrow> d | Some d' \<Rightarrow> d') d is"
  by (induction "is" arbitrary: d) (auto split: option.splits)

lemma loop_answers_once:
  "loop_run step is d = Some d' \<Longrightarrow> view d = (Map.empty, []) \<Longrightarrow> answered_once (map effect is) (view d')"
  using total.run_answered_once [of d "is"] loop_run_total [of "is" d d'] by simp

end

text \<open>The inputs of each loop as inputs of the worker's loop, whose effects on the shared tables they have.\<close>

fun node_net :: "node_action \<Rightarrow> net_input" where
  "node_net (NodeDial conn r a) = Caller (DialAct conn r a)"
| "node_net (NodeListen r a) = Caller (ListenAct r a)"
| "node_net (NodeKademlia qid q a) = Caller (KademliaAct qid q a)"
| "node_net (NodeHealth oid up a) = Caller (HealthAct oid up a)"
| "node_net (NodeExternal address) = Caller (ExternalAddressAct address)"

fun inspect_net :: "(swarm_event, node_action) loop_input \<Rightarrow> net_input" where
  "inspect_net (Happens e) = Swarm e"
| "inspect_net (Asks a) = node_net a"

fun gateway_net :: "(swarm_event, gateway_action) loop_input \<Rightarrow> net_input" where
  "gateway_net (Happens e) = Swarm e"
| "gateway_net (Asks (GatewayNode a)) = node_net a"
| "gateway_net (Asks (GatewayGossipsub lib a)) = Caller (GossipsubAct lib a)"
| "gateway_net (Asks (GatewayApi oid up a)) = Caller (ApiAct oid up a)"

fun data_net :: "(node_swarm_event, data_action) loop_input \<Rightarrow> net_input" where
  "data_net (Happens (SharedEvent e)) = Swarm e"
| "data_net (Happens (RecordEvent e)) = Swarm OtherEvent"
| "data_net (Asks (DataNode a)) = node_net a"
| "data_net (Asks (DataRecordAct oid up a)) = Swarm OtherEvent"

fun scheduler_net :: "(node_swarm_event, scheduler_action) loop_input \<Rightarrow> net_input" where
  "scheduler_net (Happens (SharedEvent e)) = Swarm e"
| "scheduler_net (Happens (RecordEvent e)) = Swarm OtherEvent"
| "scheduler_net (Asks (SchedulerNode a)) = node_net a"
| "scheduler_net (Asks (SchedulerGossipsub lib a)) = Caller (GossipsubAct lib a)"
| "scheduler_net (Asks (SchedulerApi oid up a)) = Caller (ApiAct oid up a)"
| "scheduler_net (Asks (SchedulerAction oid up a)) = Caller (ActionAct oid up a)"
| "scheduler_net (Asks (SchedulerRecord oid up a)) = Swarm OtherEvent"

definition node_dials :: "'z node_driver_scheme \<Rightarrow> (connection_id, dial_error + peer_id) table" where
  "node_dials d = (pending_dials (no_dialer d), dial_answers (no_dialer d))"

definition node_listens :: "'z node_driver_scheme \<Rightarrow> (listener_id, transport_error + unit) table" where
  "node_listens d = (pending_listens (no_listener d), listen_answers (no_listener d))"

definition node_healths :: "'z node_driver_scheme \<Rightarrow> (outbound_id, rr_error + health_response) table" where
  "node_healths d = rr_view (no_health d)"

lemmas node_tables = node_dials_def node_listens_def node_healths_def

lemma node_act_tables:
  "node_dials (node_act a d) = take_effect (dial_effect (node_net a)) (node_dials d)"
  "node_listens (node_act a d) = take_effect (listen_effect (node_net a)) (node_listens d)"
  "node_healths (node_act a d) = take_effect (health_effect (node_net a)) (node_healths d)"
  by (cases a; simp add: node_tables dial_action_view listen_action_view rr_action_view)+

lemma node_ping:
  "node_event contains cidrs (PingEvent p x) d = d\<lparr>no_rtt := no_rtt d @ (case x of None \<Rightarrow> [] | Some r \<Rightarrow> [(p, r)])\<rparr>"
  by (cases x) simp_all

lemma node_event_tables:
  "node_dials (node_event contains cidrs e d) = take_effect (dial_effect (Swarm e)) (node_dials d)"
  "node_listens (node_event contains cidrs e d) = take_effect (listen_effect (Swarm e)) (node_listens d)"
  "node_healths (node_event contains cidrs e d) = take_effect (health_effect (Swarm e)) (node_healths d)"
  by (cases e; simp add: node_ping node_tables rr_event_view process_connection_established_def process_connection_error_def
      process_new_listen_addr_def split: option.splits)+

text \<open>What the shared arms leave alone.\<close>

lemma node_event_keeps:
  "gw_api (node_event contains cidrs e g) = gw_api g" "dd_records (node_event contains cidrs e d) = dd_records d"
  "sd_api (node_event contains cidrs e s) = sd_api s" "sd_action (node_event contains cidrs e s) = sd_action s"
  "sd_records (node_event contains cidrs e s) = sd_records s"
  by (cases e; simp add: node_ping)+

lemma node_act_keeps:
  "gw_api (node_act a g) = gw_api g" "dd_records (node_act a d) = dd_records d"
  "sd_api (node_act a s) = sd_api s" "sd_action (node_act a s) = sd_action s" "sd_records (node_act a s) = sd_records s"
  by (cases a; simp)+

lemma node_tables_upd:
  "node_dials (g\<lparr>gw_gossip := x_gw_gossip\<rparr>) = node_dials g" "node_dials (g\<lparr>gw_api := x_gw_api\<rparr>) = node_dials g" "node_dials (d\<lparr>dd_records := x_dd_records\<rparr>) = node_dials d" "node_dials (s\<lparr>sd_gossip := x_sd_gossip\<rparr>) = node_dials s"
  "node_dials (s\<lparr>sd_api := x_sd_api\<rparr>) = node_dials s" "node_dials (s\<lparr>sd_action := x_sd_action\<rparr>) = node_dials s" "node_dials (s\<lparr>sd_records := x_sd_records\<rparr>) = node_dials s" "node_dials (n\<lparr>no_external := x_no_external\<rparr>) = node_dials n"
  "node_listens (g\<lparr>gw_gossip := x_gw_gossip\<rparr>) = node_listens g" "node_listens (g\<lparr>gw_api := x_gw_api\<rparr>) = node_listens g" "node_listens (d\<lparr>dd_records := x_dd_records\<rparr>) = node_listens d" "node_listens (s\<lparr>sd_gossip := x_sd_gossip\<rparr>) = node_listens s"
  "node_listens (s\<lparr>sd_api := x_sd_api\<rparr>) = node_listens s" "node_listens (s\<lparr>sd_action := x_sd_action\<rparr>) = node_listens s" "node_listens (s\<lparr>sd_records := x_sd_records\<rparr>) = node_listens s" "node_listens (n\<lparr>no_external := x_no_external\<rparr>) = node_listens n"
  "node_healths (g\<lparr>gw_gossip := x_gw_gossip\<rparr>) = node_healths g" "node_healths (g\<lparr>gw_api := x_gw_api\<rparr>) = node_healths g" "node_healths (d\<lparr>dd_records := x_dd_records\<rparr>) = node_healths d" "node_healths (s\<lparr>sd_gossip := x_sd_gossip\<rparr>) = node_healths s"
  "node_healths (s\<lparr>sd_api := x_sd_api\<rparr>) = node_healths s" "node_healths (s\<lparr>sd_action := x_sd_action\<rparr>) = node_healths s" "node_healths (s\<lparr>sd_records := x_sd_records\<rparr>) = node_healths s" "node_healths (n\<lparr>no_external := x_no_external\<rparr>) = node_healths n"
  by (simp_all add: node_tables)

lemmas node_step_simps = node_act_tables node_event_tables node_act_keeps node_event_keeps node_tables_upd rr_action_view rr_event_view

lemma gateway_tables:
  assumes "gateway_step contains cidrs i d = x"
  shows "case x of
      None \<Rightarrow> dial_effect (gateway_net i) = Quiet \<and> listen_effect (gateway_net i) = Quiet \<and> health_effect (gateway_net i) = Quiet \<and> api_effect (gateway_net i) = Quiet
    | Some d' \<Rightarrow> node_dials d' = take_effect (dial_effect (gateway_net i)) (node_dials d)
        \<and> node_listens d' = take_effect (listen_effect (gateway_net i)) (node_listens d)
        \<and> node_healths d' = take_effect (health_effect (gateway_net i)) (node_healths d)
        \<and> rr_view (gw_api d') = take_effect (api_effect (gateway_net i)) (rr_view (gw_api d))"
proof (cases i)
  case (Happens e)
  have "\<not> (\<exists>g. e = GossipsubEvent g) \<and> \<not> (\<exists>r. e = ApiEvent r) \<Longrightarrow> x = Some (node_event contains cidrs e d) \<and> api_effect (Swarm e) = Quiet"
    using assms Happens by (cases e) auto
  with Happens assms show ?thesis
    by (cases "(\<exists>g. e = GossipsubEvent g) \<or> (\<exists>r. e = ApiEvent r)") (auto simp: node_step_simps split: option.splits)
next
  case (Asks a)
  show ?thesis
  proof (cases a)
    case (GatewayNode b)
    then have "api_effect (node_net b) = Quiet" by (cases b) simp_all
    with Asks GatewayNode assms show ?thesis by (auto simp: node_act_tables node_act_keeps)
  qed (use Asks assms in \<open>auto simp: node_step_simps split: option.splits\<close>)
qed

lemma data_tables:
  assumes "data_step contains cidrs i d = Some d'"
  shows "node_dials d' = take_effect (dial_effect (data_net i)) (node_dials d)
    \<and> node_listens d' = take_effect (listen_effect (data_net i)) (node_listens d)
    \<and> node_healths d' = take_effect (health_effect (data_net i)) (node_healths d)"
proof (cases i rule: data_net.cases)
  case (1 e)
  with assms have "(\<exists>address. e = ExternalAddrConfirmed address) \<or> d' = node_event contains cidrs e d" by (cases e) auto
  with 1 assms show ?thesis by (auto simp: node_step_simps)
qed (use assms in \<open>auto simp: node_step_simps\<close>)

lemma data_total: "data_step contains cidrs i d \<noteq> None"
  by (cases "(contains, cidrs, i, d)" rule: data_step.cases) simp_all

fun record_effect :: "(node_swarm_event, scheduler_action) loop_input \<Rightarrow> (outbound_id, rr_error + data_record_response) effect" where
  "record_effect (Happens (RecordEvent e)) = rr_event_effect e"
| "record_effect (Asks (SchedulerRecord oid up a)) = rr_action_effect oid a"
| "record_effect _ = Quiet"

lemma scheduler_tables:
  assumes "scheduler_step contains cidrs i d = x"
  shows "case x of
      None \<Rightarrow> dial_effect (scheduler_net i) = Quiet \<and> listen_effect (scheduler_net i) = Quiet \<and> health_effect (scheduler_net i) = Quiet
        \<and> api_effect (scheduler_net i) = Quiet \<and> action_effect (scheduler_net i) = Quiet \<and> record_effect i = Quiet
    | Some d' \<Rightarrow> node_dials d' = take_effect (dial_effect (scheduler_net i)) (node_dials d)
        \<and> node_listens d' = take_effect (listen_effect (scheduler_net i)) (node_listens d)
        \<and> node_healths d' = take_effect (health_effect (scheduler_net i)) (node_healths d)
        \<and> rr_view (sd_api d') = take_effect (api_effect (scheduler_net i)) (rr_view (sd_api d))
        \<and> rr_view (sd_action d') = take_effect (action_effect (scheduler_net i)) (rr_view (sd_action d))
        \<and> rr_view (sd_records d') = take_effect (record_effect i) (rr_view (sd_records d))"
proof (cases i rule: scheduler_net.cases)
  case (1 e)
  define own where "own = ((\<exists>a. e = ExternalAddrConfirmed a) \<or> (\<exists>g. e = GossipsubEvent g) \<or> (\<exists>r. e = ApiEvent r) \<or> (\<exists>r. e = ActionEvent r))"
  have "\<not> own \<Longrightarrow> x = Some (node_event contains cidrs e d) \<and> api_effect (Swarm e) = Quiet \<and> action_effect (Swarm e) = Quiet"
    using assms 1 by (cases e) (auto simp: own_def)
  with 1 assms show ?thesis by (cases own) (auto simp: own_def node_step_simps split: option.splits)
next
  case (3 a)
  then have "api_effect (node_net a) = Quiet" "action_effect (node_net a) = Quiet" by (cases a; simp)+
  with 3 assms show ?thesis by (auto simp: node_step_simps)
qed (use assms in \<open>auto simp: node_step_simps split: option.splits\<close>)

interpretation inspect_dials: loop_table "inspect_step contains cidrs" "\<lambda>i. dial_effect (inspect_net i)" node_dials for contains cidrs
  by unfold_locales (elim inspect_step.elims; force simp: node_step_simps)+

interpretation inspect_listens: loop_table "inspect_step contains cidrs" "\<lambda>i. listen_effect (inspect_net i)" node_listens for contains cidrs
  by unfold_locales (elim inspect_step.elims; force simp: node_step_simps)+

interpretation inspect_healths: loop_table "inspect_step contains cidrs" "\<lambda>i. health_effect (inspect_net i)" node_healths for contains cidrs
  by unfold_locales (elim inspect_step.elims; force simp: node_step_simps)+

interpretation gateway_dials: loop_table "gateway_step contains cidrs" "\<lambda>i. dial_effect (gateway_net i)" node_dials for contains cidrs
  by unfold_locales (use gateway_tables in fastforce)+

interpretation gateway_listens: loop_table "gateway_step contains cidrs" "\<lambda>i. listen_effect (gateway_net i)" node_listens for contains cidrs
  by unfold_locales (use gateway_tables in fastforce)+

interpretation gateway_healths: loop_table "gateway_step contains cidrs" "\<lambda>i. health_effect (gateway_net i)" node_healths for contains cidrs
  by unfold_locales (use gateway_tables in fastforce)+

interpretation gateway_apis: loop_table "gateway_step contains cidrs" "\<lambda>i. api_effect (gateway_net i)" "\<lambda>d. rr_view (gw_api d)" for contains cidrs
  by unfold_locales (use gateway_tables in fastforce)+

interpretation data_dials: loop_table "data_step contains cidrs" "\<lambda>i. dial_effect (data_net i)" node_dials for contains cidrs
  by unfold_locales (use data_tables data_total in blast)+

interpretation data_listens: loop_table "data_step contains cidrs" "\<lambda>i. listen_effect (data_net i)" node_listens for contains cidrs
  by unfold_locales (use data_tables data_total in blast)+

interpretation data_healths: loop_table "data_step contains cidrs" "\<lambda>i. health_effect (data_net i)" node_healths for contains cidrs
  by unfold_locales (use data_tables data_total in blast)+

interpretation scheduler_dials: loop_table "scheduler_step contains cidrs" "\<lambda>i. dial_effect (scheduler_net i)" node_dials for contains cidrs
  by unfold_locales (use scheduler_tables in fastforce)+

interpretation scheduler_listens: loop_table "scheduler_step contains cidrs" "\<lambda>i. listen_effect (scheduler_net i)" node_listens for contains cidrs
  by unfold_locales (use scheduler_tables in fastforce)+

interpretation scheduler_healths: loop_table "scheduler_step contains cidrs" "\<lambda>i. health_effect (scheduler_net i)" node_healths for contains cidrs
  by unfold_locales (use scheduler_tables in fastforce)+

interpretation scheduler_apis: loop_table "scheduler_step contains cidrs" "\<lambda>i. api_effect (scheduler_net i)" "\<lambda>d. rr_view (sd_api d)" for contains cidrs
  by unfold_locales (use scheduler_tables in fastforce)+

interpretation scheduler_actions: loop_table "scheduler_step contains cidrs" "\<lambda>i. action_effect (scheduler_net i)" "\<lambda>d. rr_view (sd_action d)" for contains cidrs
  by unfold_locales (use scheduler_tables in fastforce)+

interpretation scheduler_records: loop_table "scheduler_step contains cidrs" record_effect "\<lambda>d. rr_view (sd_records d)" for contains cidrs
  by unfold_locales (use scheduler_tables in fastforce)+

lemma node_new_tables:
  "node_dials (node_driver.extend node_new z) = (Map.empty, [])" "node_listens (node_driver.extend node_new z) = (Map.empty, [])"
  "node_healths (node_driver.extend node_new z) = (Map.empty, [])"
  by (simp_all add: node_tables node_new_def node_driver.extend_def rr_view_def requester_new_def)

text \<open>
  Every node answers its callers as the worker does: whatever the swarm and the callers do, each channel that was handed over for dialing, listening or a request
  has one answer, its own, or still waits. Here for the scheduler, with its four request protocols; the interpretations above give the same for the
  other nodes.
\<close>

lemma scheduler_answers_once:
  assumes "loop_run (scheduler_step contains cidrs) is
      (node_driver.extend node_new (scheduler_driver.fields gossip_new requester_new requester_new requester_new)) = Some d"
  shows "answered_once (map (\<lambda>i. dial_effect (scheduler_net i)) is) (node_dials d)
    \<and> answered_once (map (\<lambda>i. listen_effect (scheduler_net i)) is) (node_listens d)
    \<and> answered_once (map (\<lambda>i. health_effect (scheduler_net i)) is) (node_healths d)
    \<and> answered_once (map (\<lambda>i. api_effect (scheduler_net i)) is) (rr_view (sd_api d))
    \<and> answered_once (map (\<lambda>i. action_effect (scheduler_net i)) is) (rr_view (sd_action d))
    \<and> answered_once (map record_effect is) (rr_view (sd_records d))"
proof -
  let ?d = "node_driver.extend node_new (scheduler_driver.fields gossip_new requester_new requester_new requester_new)"
  have "rr_view (sd_api ?d) = (Map.empty, [])" "rr_view (sd_action ?d) = (Map.empty, [])" "rr_view (sd_records ?d) = (Map.empty, [])"
    by (simp_all add: node_new_def node_driver.extend_def scheduler_driver.fields_def rr_view_def requester_new_def)
  then show ?thesis
    using scheduler_dials.loop_answers_once [OF assms node_new_tables(1)] scheduler_listens.loop_answers_once [OF assms node_new_tables(2)]
      scheduler_healths.loop_answers_once [OF assms node_new_tables(3)] scheduler_apis.loop_answers_once [OF assms]
      scheduler_actions.loop_answers_once [OF assms] scheduler_records.loop_answers_once [OF assms]
    by blast
qed

section \<open>The sizes are what they should be\<close>

lemma power_of_two_above_least:
  "(\<exists>k. power_of_two_above n = 2 ^ k) \<and> n \<le> power_of_two_above n \<and> (1 < n \<longrightarrow> power_of_two_above n < 2 * n)
    \<and> (\<forall>k. n \<le> 2 ^ k \<longrightarrow> power_of_two_above n \<le> 2 ^ k)"
proof (induction n rule: power_of_two_above.induct)
  case (1 n)
  show ?case
  proof (cases "n \<le> 1")
    case True
    then have "power_of_two_above n = 2 ^ 0" by (simp add: power_of_two_above.simps)
    with True show ?thesis by (metis linorder_not_le one_le_numeral one_le_power power_0)
  next
    case False
    let ?h = "(n + 1) div 2"
    note IH = 1 [OF False]
    have p: "power_of_two_above n = 2 * power_of_two_above ?h" using False by (simp add: power_of_two_above.simps [of n])
    obtain k where "power_of_two_above ?h = 2 ^ k" using IH by blast
    then have "power_of_two_above n = 2 ^ Suc k" by (simp add: p)
    moreover have "n \<le> power_of_two_above n" using IH p by linarith
    moreover have "power_of_two_above n < 2 * n"
    proof (cases "?h = 1")
      case True
      then have "power_of_two_above ?h = 1" by (simp add: power_of_two_above.simps)
      with False p show ?thesis by simp
    next
      case h: False
      with False have "1 < ?h" by linarith
      with IH have "power_of_two_above ?h < 2 * ?h" by blast
      obtain k where k: "power_of_two_above ?h = 2 ^ k" using IH by blast
      with IH \<open>1 < ?h\<close> have "0 < k" by (cases k) auto
      then have "even (power_of_two_above ?h)" using k by simp
      with \<open>power_of_two_above ?h < 2 * ?h\<close> have "power_of_two_above ?h \<le> 2 * ?h - 2" by presburger
      then show ?thesis using p False by linarith
    qed
    moreover have "power_of_two_above n \<le> 2 ^ k" if "n \<le> 2 ^ k" for k
    proof (cases k)
      case (Suc j)
      with that have "?h \<le> 2 ^ j" by simp
      with IH p Suc show ?thesis by simp
    qed (use that False in simp)
    ultimately show ?thesis by blast
  qed
qed

lemma unat_bdp_bytes:
  assumes "unat (bandwidth_mbps cfg) * 1000000 < 2 ^ 64" and "unat (bandwidth_mbps cfg) * 1000000 div 8 * unat (rtt_ms cfg) < 2 ^ 64"
  shows "unat (bdp_bytes cfg) = unat (bandwidth_mbps cfg) * 125000 * unat (rtt_ms cfg) div 1000"
proof -
  have "unat (bandwidth_mbps cfg * 1000000) = unat (bandwidth_mbps cfg) * 1000000"
    using assms(1) by (simp add: unat_word_ariths)
  then have a: "unat ((bandwidth_mbps cfg * 1000000) div 8) = unat (bandwidth_mbps cfg) * 125000"
    by (simp add: unat_div_distrib)
  have "unat (bandwidth_mbps cfg) * 1000000 div 8 = unat (bandwidth_mbps cfg) * 125000" by simp
  with assms(2) a have "unat ((bandwidth_mbps cfg * 1000000) div 8 * rtt_ms cfg) = unat (bandwidth_mbps cfg) * 125000 * unat (rtt_ms cfg)"
    by (simp add: unat_word_ariths)
  then show ?thesis by (simp add: bdp_bytes_def unat_div_distrib)
qed

lemma unat_flow_window:
  assumes "unat factor * unat (bdp_bytes cfg) \<le> 2 ^ 63"
  shows "unat (flow_window factor cfg) = min (power_of_two_above (unat factor * unat (bdp_bytes cfg))) (2 ^ 32 - 1)"
proof -
  let ?n = "unat factor * unat (bdp_bytes cfg)"
  have n: "unat (factor * bdp_bytes cfg) = ?n" using assms by (simp add: unat_word_ariths)
  have "power_of_two_above ?n \<le> 2 ^ 63" using power_of_two_above_least [of ?n] assms by blast
  then have p: "unat (next_power_of_two (factor * bdp_bytes cfg)) = power_of_two_above ?n"
    by (simp add: next_power_of_two_def n unat_of_nat)
  have "unat (min (next_power_of_two (factor * bdp_bytes cfg)) 0xFFFFFFFF) = min (power_of_two_above ?n) (2 ^ 32 - 1)"
    by (simp add: min_def word_le_nat_alt p)
  moreover have "min (power_of_two_above ?n) (2 ^ 32 - 1) < 2 ^ 32" by (simp add: min_def)
  ultimately show ?thesis by (simp add: flow_window_def unsigned_ucast_eq take_bit_nat_eq_self)
qed

text \<open>
  C38. The flow-control windows fit the link: as long as the products stay within 64 bits, a window of \<open>f\<close> times the bandwidth-delay product is a power of two or the largest 32-bit number, is not smaller than
  \<open>f\<close> times the product unless that exceeds 32 bits, and is less than twice as large. With a configured round-trip time of zero, which is accepted, every window is a single
  byte and every request times out at once.
\<close>

theorem flow_window_fits:
  assumes "unat (bandwidth_mbps cfg) * 1000000 < 2 ^ 64" and "unat (bandwidth_mbps cfg) * 1000000 div 8 * unat (rtt_ms cfg) < 2 ^ 64"
    and "need = unat f * (unat (bandwidth_mbps cfg) * 125000 * unat (rtt_ms cfg) div 1000)" and "need \<le> 2 ^ 63"
  shows "((\<exists>k. unat (flow_window f cfg) = 2 ^ k) \<or> unat (flow_window f cfg) = 2 ^ 32 - 1)
    \<and> min need (2 ^ 32 - 1) \<le> unat (flow_window f cfg) \<and> (1 < need \<longrightarrow> unat (flow_window f cfg) < 2 * need)
    \<and> (rtt_ms cfg = 0 \<longrightarrow> flow_window f cfg = 1 \<and> request_timeout cfg = 0)"
proof -
  have "unat f * unat (bdp_bytes cfg) = need" by (simp add: unat_bdp_bytes [OF assms(1,2)] assms(3))
  with unat_flow_window [of f cfg] assms(4) have w: "unat (flow_window f cfg) = min (power_of_two_above need) (2 ^ 32 - 1)" by simp
  note least = power_of_two_above_least [of need]
  have "rtt_ms cfg = 0 \<Longrightarrow> flow_window f cfg = 1"
    using w assms(3) by (simp add: power_of_two_above.simps [of 0] word_unat_eq_iff)
  moreover have "(\<exists>k. unat (flow_window f cfg) = 2 ^ k) \<or> unat (flow_window f cfg) = 2 ^ 32 - 1"
    using w least by (auto simp: min_def)
  moreover have "min need (2 ^ 32 - 1) \<le> unat (flow_window f cfg)" using w least by (simp add: min_def)
  moreover have "1 < need \<longrightarrow> unat (flow_window f cfg) < 2 * need" using w least by linarith
  ultimately show ?thesis by (simp add: request_timeout_def)
qed

theorem flow_window_fits_witness:
  "37500000 \<le> unat (max_stream_data (quic_windows network_config_default)) \<and> unat (max_stream_data (quic_windows network_config_default)) < 75000000"
  using flow_window_fits [of network_config_default 37500000 3] by (simp add: network_config_default_def quic_windows_def min_def)

text \<open>Beyond 63 bits the computation wraps, and the window closes.\<close>

lemma flow_window_closes: "unat (f * bdp_bytes cfg) > 2 ^ 63 \<Longrightarrow> flow_window f cfg = 0"
proof -
  let ?n = "unat (f * bdp_bytes cfg)"
  assume n: "?n > 2 ^ 63"
  obtain k where k: "power_of_two_above ?n = 2 ^ k" using power_of_two_above_least [of ?n] by blast
  have "?n < 2 ^ 64" using unsigned_less [of "f * bdp_bytes cfg", where ?'a = nat] by simp
  then have "power_of_two_above ?n \<le> 2 ^ 64" using power_of_two_above_least [of ?n] less_imp_le by blast
  moreover have "(2 :: nat) ^ 63 < power_of_two_above ?n" using power_of_two_above_least [of ?n] n by linarith
  ultimately have "63 < k" "k \<le> 64" unfolding k
    using power_increasing_iff [of "2 :: nat" k 64] power_strict_increasing_iff [of "2 :: nat" 63 k] by simp_all
  then have "k = 64" by simp
  then have "next_power_of_two (f * bdp_bytes cfg) = 0" by (simp add: next_power_of_two_def k flip: of_nat_power) 
  then show ?thesis by (simp add: flow_window_def)
qed

end
