(* ===== verification/Node_Programs.thy ===== *)
theory Node_Programs
  imports Node_Networks Scheduler_Program
begin

text \<open>
  The programs around the components: how a worker, a data node and a gateway start and when they call themselves healthy
  (\<^verbatim>\<open>hypha-worker.rs\<close>, \<^verbatim>\<open>hypha-data.rs\<close>, \<^verbatim>\<open>hypha-gateway.rs\<close>, function \<^verbatim>\<open>run\<close>), how they and the scheduler shut down, and the commands that probe a node and
  look up a peer. A program takes its steps in the order of its code; what the network answers, and when, is the input.
\<close>

section \<open>Starting\<close>

record startup_config =
  listen_addresses :: "multiaddr list"
  external_addresses :: "multiaddr list"
  gateway_addresses :: "multiaddr list"
  relay_circuit :: bool

datatype node_kind = WorkerNode | DataNodeKind | GatewayKind

datatype phase = Listening | Advertising | Connecting nat | Bootstrapping | Peering | Preparing | Serving | Ended string

text \<open>
  Requests for the health of the node wait in the channel of their handler. The handler is a future that the program polls in its last
  \<^verbatim>\<open>select!\<close> and nowhere before.
\<close>

record startup =
  su_phase :: phase
  su_listens :: "nat \<rightharpoonup> bool"
  su_external :: "multiaddr list"
  su_gateways :: "peer_id list"
  su_bootstrapped :: bool
  su_ready :: bool
  su_waiting :: "nat list"
  su_answers :: "(nat \<times> health_response) list"

definition startup_new :: startup where
  "startup_new = \<lparr>su_phase = Listening, su_listens = Map.empty, su_external = [], su_gateways = [], su_bootstrapped = False, su_ready = False,
     su_waiting = [], su_answers = []\<rparr>"

text \<open>
  What happens next: an answer to one of the listens; all listens have answered; the external addresses were added; an attempt to reach the gateways, with what the network
  answers; the end of the bootstrap; the end of the preparations between the readiness and the final \<^verbatim>\<open>select!\<close>; a request for
  the health; the handler being polled; a signal.
\<close>

datatype startup_event =
    ListenAnswered nat bool
  | ListensJoined
  | Advertised
  | GatewaysTried "multiaddr \<Rightarrow> string + peer_id" "multiaddr \<Rightarrow> peer_id \<Rightarrow> multiaddr option" "multiaddr \<Rightarrow> string + unit"
  | BootstrapEnded bool
  | Prepared "string + unit"
  | HealthAsked nat
  | HandlerPolled
  | Stopped string

text \<open>All listens of \<^verbatim>\<open>join_all\<close>, as far as they have answered.\<close>

definition listen_results :: "startup_config \<Rightarrow> startup \<Rightarrow> bool option list" where
  "listen_results c s = map (su_listens s) [0..<length (listen_addresses c)]"

text \<open>
  A gateway is ready when it listens; then it adds its external addresses and dials other gateways, if any are configured, whatever comes of it.
\<close>

definition gateway_listening :: "startup \<Rightarrow> startup" where
  "gateway_listening s = s\<lparr>su_ready := True, su_phase := Peering\<rparr>"

definition gateway_peered :: "startup_config \<Rightarrow> (multiaddr \<Rightarrow> string + peer_id) \<Rightarrow> startup \<Rightarrow> startup" where
  "gateway_peered c dial s =
     s\<lparr>su_external := external_addresses c, su_gateways := results_ok (map dial (gateway_addresses c)), su_phase := Preparing\<rparr>"

text \<open>The handler of health requests.\<close>

definition health_handler :: "startup \<Rightarrow> health_response" where
  "health_handler s = \<lparr>healthy_flag = su_ready s\<rparr>"

text \<open>One step; \<open>None\<close> when the event cannot happen in this phase.\<close>

fun startup_turn :: "node_kind \<Rightarrow> startup_config \<Rightarrow> startup_event \<Rightarrow> startup \<Rightarrow> startup option" where
  "startup_turn kind c (ListenAnswered i ok) s =
     (if su_phase s = Listening \<and> i < length (listen_addresses c) \<and> su_listens s i = None
      then Some (s\<lparr>su_listens := (su_listens s)(i \<mapsto> ok)\<rparr>) else None)"
| "startup_turn kind c ListensJoined s =
     (if su_phase s \<noteq> Listening \<or> None \<in> set (listen_results c s) then None
      else if Some False \<in> set (listen_results c s) then Some (s\<lparr>su_phase := Ended ''listen''\<rparr>)
      else if kind = GatewayKind then Some (gateway_listening s)
      else Some (s\<lparr>su_phase := Advertising\<rparr>))"
| "startup_turn kind c Advertised s =
     (if su_phase s = Advertising then Some (s\<lparr>su_external := external_addresses c, su_phase := Connecting 6\<rparr>) else None)"
| "startup_turn kind c (GatewaysTried dial circuit listen) s =
     (case su_phase s of
        Connecting left \<Rightarrow>
          (case connect_gateways (relay_circuit c) dial circuit listen (gateway_addresses c) of
             Inr peers \<Rightarrow> Some (s\<lparr>su_gateways := peers, su_phase := Bootstrapping\<rparr>)
           | Inl e \<Rightarrow> Some (s\<lparr>su_phase := (case left of 0 \<Rightarrow> Ended e | Suc k \<Rightarrow> Connecting k)\<rparr>))
      | Peering \<Rightarrow> Some (gateway_peered c dial s)
      | _ \<Rightarrow> None)"
| "startup_turn kind c (BootstrapEnded ok) s =
     (if su_phase s \<noteq> Bootstrapping then None
      else if ok then Some (s\<lparr>su_bootstrapped := True, su_ready := True, su_phase := Preparing\<rparr>)
      else Some (s\<lparr>su_phase := Ended ''No response received from the network''\<rparr>))"
| "startup_turn kind c (Prepared r) s =
     (if su_phase s \<noteq> Preparing then None
      else case r of Inl e \<Rightarrow> Some (s\<lparr>su_phase := Ended e\<rparr>) | Inr _ \<Rightarrow> Some (s\<lparr>su_phase := Serving\<rparr>))"
| "startup_turn kind c (HealthAsked r) s = Some (s\<lparr>su_waiting := su_waiting s @ [r]\<rparr>)"
| "startup_turn kind c HandlerPolled s =
     (case su_waiting s of
        r # rs \<Rightarrow>
          if su_phase s = Serving
          then Some (s\<lparr>su_waiting := rs, su_answers := su_answers s @ [(r, health_handler s)]\<rparr>) else None
      | [] \<Rightarrow> None)"
| "startup_turn kind c (Stopped why) s = (if su_phase s = Serving then Some (s\<lparr>su_phase := Ended why\<rparr>) else None)"

inductive starts :: "node_kind \<Rightarrow> startup_config \<Rightarrow> startup \<Rightarrow> bool" for kind c where
  starts_new: "starts kind c startup_new"
| starts_turn: "starts kind c s \<Longrightarrow> startup_turn kind c e s = Some s' \<Longrightarrow> starts kind c s'"

fun startup_run :: "node_kind \<Rightarrow> startup_config \<Rightarrow> startup_event list \<Rightarrow> startup \<Rightarrow> startup option" where
  "startup_run kind c [] s = Some s"
| "startup_run kind c (e # es) s = (case startup_turn kind c e s of None \<Rightarrow> None | Some s \<Rightarrow> startup_run kind c es s)"

lemma startup_run_starts: "starts kind c s \<Longrightarrow> startup_run kind c es s = Some s' \<Longrightarrow> starts kind c s'"
  by (induction es arbitrary: s) (auto split: option.splits intro: starts_turn)

section \<open>Commands\<close>

text \<open>\<^verbatim>\<open>probe\<close>, the same at every node: \<open>connection\<close> and \<open>asked\<close> are what the network gives, unless the time is over before (\<open>None\<close>).\<close>

datatype probe_error = ProbeTimeout | ProbeDial string | ProbeRequest string | ProbeUnhealthy

definition probe :: "(string + peer_id) option \<Rightarrow> (peer_id \<Rightarrow> (string + health_response) option) \<Rightarrow> probe_error + unit" where
  "probe connection asked =
     (case connection of
        None \<Rightarrow> Inl ProbeTimeout
      | Some (Inl e) \<Rightarrow> Inl (ProbeDial e)
      | Some (Inr peer) \<Rightarrow>
          (case asked peer of
             None \<Rightarrow> Inl ProbeTimeout
           | Some (Inl e) \<Rightarrow> Inl (ProbeRequest e)
           | Some (Inr r) \<Rightarrow> if healthy_flag r then Inr () else Inl ProbeUnhealthy))"

text \<open>The addresses of a peer, from the closest peers that the hash table gives.\<close>

datatype lookup_error = NoGatewayReached | LookupNetwork string | NoPeerFound peer_id

definition lookup_peer ::
    "peer_id \<Rightarrow> (multiaddr \<Rightarrow> string + peer_id) \<Rightarrow> multiaddr list \<Rightarrow> string + unit \<Rightarrow> string + (peer_id \<times> multiaddr list) list \<Rightarrow> lookup_error + multiaddr list" where
  "lookup_peer peer dial gateways bootstrap closest =
     (if results_ok (map dial gateways) = [] then Inl NoGatewayReached
      else case bootstrap of
             Inl e \<Rightarrow> Inl (LookupNetwork e)
           | Inr _ \<Rightarrow>
               (case closest of
                  Inl e \<Rightarrow> Inl (LookupNetwork e)
                | Inr ps \<Rightarrow> (case List.find (\<lambda>(p, _). p = peer) ps of None \<Rightarrow> Inl (NoPeerFound peer) | Some (_, addrs) \<Rightarrow> Inr addrs)))"

section \<open>Shutting down\<close>

datatype task_handle = DriverTask | StatusTask | BatchTask | ParameterDispatcher | WorkerDispatcher | TrackerTask | ArbiterTask

datatype shutdown_step = CancelToken | AwaitTask task_handle | AbortAwait task_handle | DropNetwork | ShutdownProvider string

text \<open>
  A task is awaited through its handle, which gives the result of the task once. The final \<^verbatim>\<open>select!\<close> awaits some of the handles, by reference; when one of them is what ended
  it, the handle has given its result. What awaiting such a handle again does is up to the library (\<open>again\<close>): the contract of a
  future allows it to panic or to wait for ever.
\<close>

datatype awaited = AwaitPanics | AwaitHangs | AwaitGives

datatype shutdown_result = ShutDown | ShutdownFailed string | ShutdownPanics task_handle | ShutdownHangs task_handle

fun run_shutdown ::
    "awaited \<Rightarrow> (string \<Rightarrow> string + unit) \<Rightarrow> task_handle set \<Rightarrow> shutdown_step list \<Rightarrow> shutdown_step list \<Rightarrow> shutdown_result \<times> shutdown_step list" where
  "run_shutdown again flush used [] taken = (ShutDown, taken)"
| "run_shutdown again flush used (x # xs) taken =
     (case x of
        ShutdownProvider p \<Rightarrow>
          (case flush p of Inl e \<Rightarrow> (ShutdownFailed e, taken) | Inr _ \<Rightarrow> run_shutdown again flush used xs (taken @ [x]))
      | AwaitTask h \<Rightarrow>
          if h \<in> used
          then (case again of
                  AwaitPanics \<Rightarrow> (ShutdownPanics h, taken) | AwaitHangs \<Rightarrow> (ShutdownHangs h, taken)
                | AwaitGives \<Rightarrow> run_shutdown again flush used xs (taken @ [x]))
          else run_shutdown again flush (insert h used) xs (taken @ [x])
      | AbortAwait h \<Rightarrow>
          if h \<in> used
          then (case again of
                  AwaitPanics \<Rightarrow> (ShutdownPanics h, taken) | AwaitHangs \<Rightarrow> (ShutdownHangs h, taken)
                | AwaitGives \<Rightarrow> run_shutdown again flush used xs (taken @ [x]))
          else run_shutdown again flush (insert h used) xs (taken @ [x])
      | _ \<Rightarrow> run_shutdown again flush used xs (taken @ [x]))"

definition providers :: "shutdown_step list" where
  "providers = [ShutdownProvider ''metrics'', ShutdownProvider ''tracing'', ShutdownProvider ''logging'']"

definition worker_shutdown :: "shutdown_step list" where
  "worker_shutdown = [CancelToken, AwaitTask ArbiterTask, DropNetwork, AbortAwait DriverTask] @ providers"

definition gateway_shutdown :: "shutdown_step list" where
  "gateway_shutdown = [DropNetwork, AbortAwait DriverTask] @ providers"

definition scheduler_shutdown :: "shutdown_step list" where
  "scheduler_shutdown =
     [AbortAwait BatchTask, AbortAwait ParameterDispatcher, AbortAwait WorkerDispatcher, AbortAwait StatusTask, AbortAwait TrackerTask,
      DropNetwork, AbortAwait DriverTask] @ providers"

text \<open>What can end the final \<^verbatim>\<open>select!\<close>, and the handle that it has awaited then.\<close>

datatype select_end = SignalEnd | HealthEnd | TaskEnd task_handle

fun used_handle :: "select_end \<Rightarrow> task_handle set" where
  "used_handle (TaskEnd h) = {h}"
| "used_handle _ = {}"

definition scheduler_ends :: "select_end set" where
  "scheduler_ends = {SignalEnd, TaskEnd DriverTask, TaskEnd StatusTask, TaskEnd BatchTask}"

definition member_ends :: "select_end set" where
  "member_ends = {SignalEnd, HealthEnd, TaskEnd DriverTask}"

section \<open>When a node is healthy\<close>

lemmas gateway_defs = gateway_listening_def gateway_peered_def health_handler_def

text \<open>What each phase has behind it.\<close>

definition all_listening :: "startup_config \<Rightarrow> startup \<Rightarrow> bool" where
  "all_listening c s \<longleftrightarrow> (\<forall>i<length (listen_addresses c). su_listens s i = Some True)"

definition joined :: "node_kind \<Rightarrow> startup_config \<Rightarrow> startup \<Rightarrow> bool" where
  "joined kind c s \<longleftrightarrow> su_external s = external_addresses c \<and> (kind \<noteq> GatewayKind \<longrightarrow> su_gateways s \<noteq> [] \<and> su_bootstrapped s)"

fun phase_ok :: "node_kind \<Rightarrow> startup_config \<Rightarrow> startup \<Rightarrow> phase \<Rightarrow> bool" where
  "phase_ok kind c s Listening \<longleftrightarrow> \<not> su_ready s \<and> su_answers s = []"
| "phase_ok kind c s Advertising \<longleftrightarrow> \<not> su_ready s \<and> su_answers s = [] \<and> kind \<noteq> GatewayKind \<and> all_listening c s"
| "phase_ok kind c s (Connecting k) \<longleftrightarrow> \<not> su_ready s \<and> su_answers s = [] \<and> kind \<noteq> GatewayKind \<and> all_listening c s \<and> su_external s = external_addresses c \<and> k \<le> 6"
| "phase_ok kind c s Bootstrapping \<longleftrightarrow> \<not> su_ready s \<and> su_answers s = [] \<and> kind \<noteq> GatewayKind \<and> all_listening c s \<and> su_external s = external_addresses c \<and> su_gateways s \<noteq> []"
| "phase_ok kind c s Peering \<longleftrightarrow> su_ready s \<and> su_answers s = [] \<and> all_listening c s \<and> kind = GatewayKind"
| "phase_ok kind c s Preparing \<longleftrightarrow> su_ready s \<and> su_answers s = [] \<and> all_listening c s \<and> joined kind c s"
| "phase_ok kind c s Serving \<longleftrightarrow> su_ready s \<and> all_listening c s \<and> joined kind c s \<and> (\<forall>(r, a)\<in>set (su_answers s). healthy_flag a)"
| "phase_ok kind c s (Ended why) \<longleftrightarrow> su_answers s = [] \<or> all_listening c s \<and> joined kind c s \<and> (\<forall>(r, a)\<in>set (su_answers s). healthy_flag a)"

lemma listen_results_ok: "None \<notin> set (listen_results c s) \<Longrightarrow> Some False \<notin> set (listen_results c s) \<Longrightarrow> all_listening c s"
  unfolding all_listening_def
proof (intro allI impI)
  fix i
  assume *: "None \<notin> set (listen_results c s)" "Some False \<notin> set (listen_results c s)" and "i < length (listen_addresses c)"
  then have "su_listens s i \<in> set (listen_results c s)" by (simp add: listen_results_def)
  with * show "su_listens s i = Some True" by (cases "su_listens s i") (auto, metis (full_types))
qed

lemma phase_ok_waiting [simp]: "phase_ok kind c (s\<lparr>su_waiting := w\<rparr>) p = phase_ok kind c s p"
  by (cases p) (simp_all add: all_listening_def joined_def)

lemma startup_turn_ok:
  assumes "phase_ok kind c s (su_phase s)" and "startup_turn kind c e s = Some s'"
  shows "phase_ok kind c s' (su_phase s')"
proof (cases e)
  case (GatewaysTried dial circuit listen)
  show ?thesis
  proof (cases "connect_gateways (relay_circuit c) dial circuit listen (gateway_addresses c)")
    case (Inl err)
    with GatewaysTried assms show ?thesis by (auto simp: gateway_defs all_listening_def joined_def split: phase.splits nat.splits)
  next
    case (Inr ps)
    then have "ps \<noteq> []" by (auto simp: connect_gateways_def Let_def split: if_splits)
    with GatewaysTried assms Inr show ?thesis by (auto simp: gateway_defs all_listening_def joined_def split: phase.splits)
  qed
next
  case ListensJoined
  with assms listen_results_ok [of c s] show ?thesis by (auto simp: gateway_defs all_listening_def joined_def split: if_splits)
next
  case (Prepared r)
  with assms show ?thesis by (auto simp: gateway_defs all_listening_def joined_def split: if_splits sum.splits)
qed (use assms in \<open>auto simp: gateway_defs all_listening_def joined_def split: if_splits list.splits\<close>)

lemma starts_ok: "starts kind c s \<Longrightarrow> phase_ok kind c s (su_phase s) \<and> (su_answers s \<noteq> [] \<longrightarrow> su_ready s)"
proof (induction rule: starts.induct)
  case starts_new
  then show ?case by (simp add: startup_new_def)
next
  case (starts_turn s e s')
  then have ok: "phase_ok kind c s' (su_phase s')" using startup_turn_ok by blast
  have "su_answers s' \<noteq> [] \<longrightarrow> su_ready s'"
    using starts_turn by (cases e) (auto simp: gateway_defs split: if_splits list.splits sum.splits phase.splits)
  with ok show ?case by blast
qed

text \<open>
  C37. Health is not answered before the node is up, and then always as healthy: in every run of a worker, a data node or a gateway, with requests at any time, each answer
  that was given says healthy, and it was given after every configured listen had succeeded, the external addresses were added and, for workers and data
  nodes, a gateway was reached and the bootstrap was done. A node that is not ready does not say so: it says nothing.
\<close>

theorem health_after_startup:
  assumes "starts kind c s"
  shows "(\<forall>(r, a)\<in>set (su_answers s). healthy_flag a \<and> all_listening c s \<and> joined kind c s)
    \<and> (su_phase s \<notin> range Ended \<union> {Serving} \<longrightarrow> su_answers s = [])
    \<and> (\<not> su_ready s \<longrightarrow> su_answers s = [])"
  using starts_ok [OF assms] by (cases "su_phase s") auto

definition demo_startup :: startup_config where
  "demo_startup = \<lparr>listen_addresses = [[Ip4 0, Tcp 80]], external_addresses = [], gateway_addresses = [[Ip4 7, Tcp 90], [Ip4 8, Tcp 90]], relay_circuit = False\<rparr>"

definition demo_startup_events :: "startup_event list" where
  "demo_startup_events =
     [HealthAsked 1, ListenAnswered 0 True, ListensJoined, Advertised,
      GatewaysTried (\<lambda>_. Inl ''refused'') (\<lambda>_ _. None) (\<lambda>_. Inr ()),
      GatewaysTried (\<lambda>a. if a = [Ip4 8, Tcp 90] then Inr 8 else Inl ''refused'') (\<lambda>_ _. None) (\<lambda>_. Inr ()),
      BootstrapEnded True, Prepared (Inr ()), HandlerPolled]"

lemma demo_startup_run:
  "\<exists>s. startup_run WorkerNode demo_startup demo_startup_events startup_new = Some s \<and> su_answers s = [(1, \<lparr>healthy_flag = True\<rparr>)] \<and> su_gateways s = [8]"
  by (simp add: demo_startup_def demo_startup_events_def startup_new_def listen_results_def connect_gateways_def connect_gateway_def health_handler_def Let_def)

theorem health_after_startup_witness:
  "\<exists>s. startup_run WorkerNode demo_startup demo_startup_events startup_new = Some s \<and> su_answers s \<noteq> [] \<and> all_listening demo_startup s \<and> joined WorkerNode demo_startup s"
proof -
  obtain s where s: "startup_run WorkerNode demo_startup demo_startup_events startup_new = Some s" "su_answers s = [(1, \<lparr>healthy_flag = True\<rparr>)]"
    using demo_startup_run by blast
  from health_after_startup [OF startup_run_starts [OF starts_new s(1)]] s show ?thesis by auto
qed

text \<open>So a probe of such a node never finds it unhealthy: it succeeds, or it fails as it does when nobody answers.\<close>

lemma probe_never_unhealthy:
  assumes "starts kind c s" and "\<And>p r. asked p = Some (Inr r) \<Longrightarrow> \<exists>i. (i, r) \<in> set (su_answers s)"
  shows "probe connection asked \<noteq> Inl ProbeUnhealthy"
proof
  assume "probe connection asked = Inl ProbeUnhealthy"
  then obtain p r where r: "asked p = Some (Inr r)" "\<not> healthy_flag r" by (auto simp: probe_def split: option.splits sum.splits if_splits)
  with assms(2) obtain i where i: "(i, r) \<in> set (su_answers s)" by blast
  then have "su_answers s \<noteq> []" by auto
  with starts_ok [OF assms(1)] i have "healthy_flag r" by (cases "su_phase s") auto
  with r show False by simp
qed

text \<open>The lookup gives what the hash table knows of exactly this peer.\<close>

lemma lookup_peer_exact:
  "lookup_peer peer dial gateways bootstrap closest = Inr addrs \<Longrightarrow> \<exists>ps. closest = Inr ps \<and> (peer, addrs) \<in> set ps \<and> (\<exists>a\<in>set gateways. \<exists>p. dial a = Inr p)"
proof -
  have ok: "results_ok (map dial gs) \<noteq> [] \<Longrightarrow> \<exists>a\<in>set gs. \<exists>p. dial a = Inr p" for gs
    by (induction gs) (auto split: sum.splits, metis results_ok.simps(3) sum.exhaust)
  assume "lookup_peer peer dial gateways bootstrap closest = Inr addrs"
  then show ?thesis using ok [of gateways]
    by (auto simp: lookup_peer_def find_Some_iff split: if_splits sum.splits option.splits) (metis nth_mem)
qed

section \<open>When a shutdown is complete\<close>

text \<open>
  A task that ended the scheduler breaks its shutdown: after a signal every step is taken, but when the network driver, the metrics bridge or the batch scheduler ended
  first, as the metrics bridge does when the training is done, its handle is awaited a second time; unless the library
  tolerates that, the shutdown stops there, and neither metrics nor traces nor logs are flushed.
\<close>

lemma ended_task_breaks_shutdown:
  assumes "e \<in> scheduler_ends" and "\<And>p. flush p = Inr ()"
  shows "(run_shutdown again flush (used_handle e) scheduler_shutdown [] = (ShutDown, scheduler_shutdown) \<longleftrightarrow> e = SignalEnd \<or> again = AwaitGives)
    \<and> (e \<noteq> SignalEnd \<and> again \<noteq> AwaitGives \<longrightarrow> set providers \<inter> set (snd (run_shutdown again flush (used_handle e) scheduler_shutdown [])) = {})"
  using assms by (cases again) (auto simp: scheduler_ends_def scheduler_shutdown_def providers_def)

lemma ended_task_breaks_shutdown_witness:
  "run_shutdown AwaitPanics (\<lambda>_. Inr ()) {StatusTask} scheduler_shutdown [] \<noteq> (ShutDown, scheduler_shutdown)
   \<and> set providers \<inter> set (snd (run_shutdown AwaitPanics (\<lambda>_. Inr ()) {StatusTask} scheduler_shutdown [])) = {}"
  using ended_task_breaks_shutdown [of "TaskEnd StatusTask" "\<lambda>_. Inr ()" AwaitPanics] by (simp add: scheduler_ends_def)

text \<open>The same at the worker and the gateway, for the network driver.\<close>

lemma ended_driver_breaks_shutdown:
  assumes "e \<in> member_ends" and "\<And>p. flush p = Inr ()"
  shows "run_shutdown again flush (used_handle e) worker_shutdown [] = (ShutDown, worker_shutdown) \<longleftrightarrow> e \<noteq> TaskEnd DriverTask \<or> again = AwaitGives"
    and "run_shutdown again flush (used_handle e) gateway_shutdown [] = (ShutDown, gateway_shutdown) \<longleftrightarrow> e \<noteq> TaskEnd DriverTask \<or> again = AwaitGives"
  using assms by (cases again; auto simp: member_ends_def worker_shutdown_def gateway_shutdown_def providers_def)+

end
