(* ===== verification/Spec2Isabelle.thy ===== *)
theory Spec2Isabelle
  imports Lease_Renewal Allocator_Properties Slice_Tracker Batch_Safety Batch_Stall Network_Driver Parameter_Rounds Process_Executor Data_Node Scheduler_Program
    Metrics_Bridge Bandwidth Net_Handlers Dispatching Node_Programs
begin

text \<open>
  A verification development for Hypha, a system that trains models on machines it leases. Sources are under
  \<^verbatim>\<open>src/crates\<close>; file names below are relative to it.

  \<^bold>\<open>The program.\<close> A \<^emph>\<open>worker\<close> offers its resources. Its arbiter (\<^verbatim>\<open>worker/src/arbiter.rs\<close>) collects requests in
  batches, ranks them by price, answers the best with offers, and keeps for each offer a lease with a reservation; a
  scheduler that accepts renews the lease, dispatches a job on it, and loses both when it stops renewing. The
  \<^emph>\<open>scheduler\<close> (\<^verbatim>\<open>scheduler/src\<close>) keeps pools of workers and parameter servers filled through an allocator that
  collects offers, renews their leases, hands out slices of the data, and leads the members through rounds: batches, updates,
  aggregation, broadcast, application, and the final push. \<^emph>\<open>Nodes\<close> talk through \<^verbatim>\<open>network/src\<close>: requests and responses, topics, a
  hash table, and length-checked streams for tensors.

  \<^bold>\<open>Theories and sources.\<close>
  \<^item> \<open>Prelude\<close>: names of the basic types, machine arithmetic, hash maps with an explicit order, list idioms. \<open>Floats\<close>: IEEE
    754 \<^verbatim>\<open>f32\<close> and \<^verbatim>\<open>f64\<close> over the rationals, each operation rounded once. \<open>Texts\<close>: splitting, trimming and lower case of strings, which are
    their bytes in UTF-8; white space is that of Unicode.
  \<^item> \<open>Resources\<close> (\<^verbatim>\<open>resources/src/lib.rs\<close>), with \<open>Rounding\<close> on the error of its sums, \<open>Leases\<close> (\<^verbatim>\<open>leases/src/lib.rs\<close>), \<open>Messages\<close> (\<^verbatim>\<open>messages/src/lib.rs\<close>).
  \<^item> Worker: \<open>Resource_Manager\<close> (\<^verbatim>\<open>resources.rs\<close>), \<open>Lease_Manager\<close> (\<^verbatim>\<open>lease_manager.rs\<close>), \<open>Job_Manager\<close> (\<^verbatim>\<open>job_manager.rs\<close>),
    \<open>Arbiter\<close> (\<^verbatim>\<open>arbiter.rs\<close>). A reservation is checked twice, under two locks: the state seen first is an argument
    of its own; the lease manager is also run at the granularity of its critical sections.
  \<^item> Scheduler: \<open>Statistics\<close>, \<open>Simulation\<close>, \<open>Slice_Tracker\<close> (with the data scheduler), \<open>Pool\<close>, \<open>Allocator\<close> and
    \<open>Allocator_Properties\<close>, \<open>Worker_Handle\<close> (\<^verbatim>\<open>worker.rs\<close>, \<^verbatim>\<open>task.rs\<close>), \<open>Batch_Scheduler\<close> with \<open>Batch_Invariants\<close>,
    \<open>Batch_Properties\<close>, \<open>Batch_Runs\<close>, \<open>Batch_Safety\<close> and \<open>Batch_Stall\<close> (\<^verbatim>\<open>scheduling/batch_scheduler.rs\<close>). Each branch of
    \<^verbatim>\<open>schedule\<close> is a definition; a request is one step, although the code takes several locks one after the other while it serves others.
  \<^item> Network: \<open>Net_Streams\<close> (\<^verbatim>\<open>utils.rs\<close>, \<^verbatim>\<open>stream_push.rs\<close>, \<^verbatim>\<open>stream_pull.rs\<close>), \<open>Net_Utils\<close> (\<^verbatim>\<open>utils.rs\<close>), \<open>Net_Answers\<close> (the
    contract of a driver that answers its callers), \<open>Net_Drivers\<close> (\<^verbatim>\<open>dial.rs\<close>, \<^verbatim>\<open>listen.rs\<close>, \<^verbatim>\<open>request_response.rs\<close>),
    \<open>Net_Handlers\<close> (the handlers of requests in \<^verbatim>\<open>request_response.rs\<close>, with the driver and the tasks between them), \<open>Net_Discovery\<close> (\<^verbatim>\<open>kad.rs\<close>,
    \<^verbatim>\<open>gossipsub.rs\<close>), \<open>Network_Driver\<close> (the loop of \<^verbatim>\<open>worker/src/network.rs\<close>), \<open>Node_Networks\<close> (the loops of the scheduler, the gateway, the data
    node and the inspection tool in \<^verbatim>\<open>network.rs\<close> of their crates, and the sizes of flow-control windows).
  \<^item> Executors of the worker: \<open>Connector\<close> (\<^verbatim>\<open>connector/mod.rs\<close>: which connector serves a reference, and the built-in ones),
    \<open>Parameter_Server\<close> (\<^verbatim>\<open>executor/parameter_server.rs\<close>: storing updates, summing them, the outer optimiser, the broadcast
    and the loop that follows the scheduler) with \<open>Parameter_Sums\<close> and \<open>Parameter_Rounds\<close>, \<open>Bridge\<close> (\<^verbatim>\<open>executor/bridge.rs\<close>: the handlers
    a training process calls) with \<open>Bridge_Properties\<close>, and \<open>Process_Executor\<close> (\<^verbatim>\<open>executor/process.rs\<close>).
  \<^item> Programs: \<open>Data_Node\<close> (\<^verbatim>\<open>data/src\<close>: the index of a data set and the serving of its slices), \<open>Scheduler_Program\<close>
    (\<^verbatim>\<open>scheduler/src/bin/hypha-scheduler.rs\<close> and its configuration: jobs, requirements, batch sizes), \<open>Dispatching\<close> (its pools and dispatchers), \<open>Metrics_Bridge\<close>
    (\<^verbatim>\<open>scheduler/src/metrics_bridge.rs\<close>), \<open>Configuration\<close> (\<^verbatim>\<open>config/src/lib.rs\<close>: places of errors, PEM files, gateways), \<open>Node_Programs\<close>
    (\<^verbatim>\<open>hypha-worker.rs\<close>, \<^verbatim>\<open>hypha-data.rs\<close>, \<^verbatim>\<open>hypha-gateway.rs\<close>, \<^verbatim>\<open>hypha-scheduler.rs\<close>, \<^verbatim>\<open>hypha-inspect.rs\<close>: start, readiness and health, probe and
    lookup, shutdown).
  \<^item> Telemetry: \<open>Telemetry\<close> (\<^verbatim>\<open>telemetry/src\<close>: attributes, headers, verbosity, samplers, what exporters are given) and \<open>Bandwidth\<close>
    (\<^verbatim>\<open>bandwidth.rs\<close>, \<^verbatim>\<open>rtt.rs\<close>: transports, multiplexers and streams that count).
  \<^item> Across components: \<open>Lease_Renewal\<close> runs the scheduler's renewal loop against the worker's handler and pruning task;
    \<open>Allocator_Properties\<close> runs the pool over the greedy allocator; \<open>Network_Driver\<close> runs all drivers in one loop;
    \<open>Data_Node\<close> composes the node's answers with the download of the bridge.

  \<^bold>\<open>Interfaces.\<close> The ledger, the resource manager (once for quantities that are summed exactly, once with the rounding of all others), the operations on leases over an invariant of it, the allocator, readers, writers, sinks, sockets and vectored sockets, the answering
  drivers and the tables of a loop are locales; each is interpreted on the definitions of the component that provides it, and the clients'
  lemmas are proved once, inside the locale. An instrumented socket is again a socket, and a table of a loop an answering driver, by \<^emph>\<open>sublocale\<close>.

  \<^bold>\<open>What is shown.\<close> Capacity is never exceeded, up to the rounding of the sums and for requests without negative quantities, and leases match
  reservations, in every interleaving; offers are backed by
  leases; pruning keeps exactly what it should; a lease that is renewed in time survives unless it is revoked. Candidates, allocations and pools
  keep their bounds and end in time. The round protocol keeps its invariants in every run, does not panic, aggregates on
  a quorum only, and pushes from one worker that has applied the final update. The projection of batches and the slice tracker end
  and are exact. A worker is not asked for its update again after its report of the round. Payloads arrive as they were sent; batches lose nothing and keep nothing back too long; callers of the network are answered once, and so are the requests of
  other peers, whatever handlers come and go. Counted bandwidth is the traffic; attributes are read back as they were written; flow-control windows
  fit the link; a node answers for its health when it is up and not before.
  The parameter server sums one update of each of the peers it picks and applies Nesterov's step to the sum, over the rounds as a reference for stochastic gradient descent does with the same operations; it does not panic, and reports
  every broadcast. Without symbolic links the bridge neither changes nor reads anything outside the directory of its job, and what it fetches as a slice has the hash that
  was asked for; an index that was written is read back as it was. The two computations of a batch size agree on jobs with a GPU requirement.
  Some properties and lemmas state what goes wrong: negative and incomparable requests, a symbolic link that leads out of the directory of a job, a final round that stalls, callers that are
  never answered, a broken download that is served as if it were whole, jobs without a GPU requirement for which the two batch sizes differ, a handler
  that cannot be unregistered and takes the requests of others, a shutdown that awaits a task that has ended.

  \<^bold>\<open>Bounds and conventions.\<close> Integers keep their width where they are added; arithmetic wraps as in the release profile. Times,
  peers and identifiers are natural numbers: clocks, random identifiers, orders of hash maps and answers of libraries are
  arguments. A loop that may run for ever is a partial function with the value \<open>None\<close> for not returning; where the code
  returns, that is proved. A panic is a value (\<open>None\<close>, \<open>Panicked\<close> or \<open>Panics\<close>).
  The library that repeats failed actions is a parameter with its documented law: with \<open>n\<close> delays at most \<open>n + 1\<close> attempts, each of which
  meets its own circumstances. Tensor arithmetic, digests, the hash of a file, codecs and the formatting of numbers are parameters too, as are the exporting, header and
  transport libraries of the telemetry, and what awaiting the handle of a finished task again does. The
  turns of the aggregation are a list, as it waits for updates that arrive; that finitely many turns are enough is proved.

  \<^bold>\<open>Atomic steps.\<close> A request to the scheduler of the rounds, a batch of requests at the arbiter, a pruning round, and an attempt of the bridge to fetch or send are one step each;
  what other tasks do between their awaits is not interleaved with them. The resource manager, the lease manager, the renewal handler, the drivers and handlers of the network and the
  streams are run at the granularity of their locks, messages and polls.

  \<^bold>\<open>Not modelled.\<close> Files of the parameter server hold the tensors that the tensor library can load. Serialisation, certificates, transports and the libp2p behaviours are library code: their results are inputs, and the
  construction of a swarm from them is wiring. Exporting and the setting up of logs are a library's. The command lines declare options that a library reads, and the configurations
  are records of options with accessors; the reading and merging of their layers is done by a library. The certificate tool calls libraries only. The
  relay protocol of the gateway is a library's. Each such part is listed in the manifest with the reason.
\<close>

end
